(* ===== verification/Prelude.thy ===== *)
theory Prelude
  imports Complex_Main "HOL-Library.Word"
begin

text \<open>
  Shared vocabulary of the development: the machine integer types of the sources, and the
  generic facts about words, windows of ring positions and association lists that several
  components use.
\<close>

unbundle bit_operations_syntax

section \<open>Machine integers\<close>

type_synonym u8 = "8 word"
type_synonym u16 = "16 word"
type_synonym u32 = "32 word"
type_synonym u64 = "64 word"
type_synonym s32 = "32 word" \<comment> \<open>read through \<open>sint\<close> where the source compares it as signed\<close>

named_theorems illum_inv \<open>preservation of the component invariants\<close>

section \<open>Words\<close>

lemma of_nat_and_pow2_mask:
  "unat ((of_nat p :: u64) AND (2 ^ k - 1)) = p mod 2 ^ k" if "k < 64"
proof -
  have "(of_nat p :: u64) AND (2 ^ k - 1) = take_bit k (of_nat p)"
    by (simp add: take_bit_eq_mask mask_eq_exp_minus_1)
  then have "unat ((of_nat p :: u64) AND (2 ^ k - 1)) = take_bit k (take_bit 64 p)"
    by (simp add: unsigned_take_bit_eq unsigned_of_nat)
  also have "\<dots> = p mod 2 ^ k"
    using that by (simp add: take_bit_take_bit min_def flip: take_bit_eq_mod)
  finally show ?thesis .
qed

lemma unat_u64_less: "unat (w :: u64) < 2 ^ 64"
  by (rule order_less_le_trans [OF unsigned_less]) simp

lemma unat_u32_less: "unat (w :: u32) < 2 ^ 32"
  by (rule order_less_le_trans [OF unsigned_less]) simp

lemma unat_pow2_u64: "k < 64 \<Longrightarrow> unat (2 ^ k :: u64) = 2 ^ k"
proof -
  assume "k < 64"
  then have lt: "(2::nat) ^ k < 2 ^ LENGTH(64)" by (intro power_strict_increasing) auto
  have "unat (of_nat (2 ^ k) :: u64) = 2 ^ k"
    using take_bit_nat_eq_self [OF lt] by (simp add: unsigned_of_nat del: of_nat_power)
  then show ?thesis by simp
qed

lemma sint_of_int_small:
  "- (2 ^ 63) \<le> i \<Longrightarrow> i < 2 ^ 63 \<Longrightarrow> sint (of_int i :: u64) = i"
  by (simp add: signed_of_int signed_take_bit_int_eq_self)

lemma word_of_nat_diff_int:
  "(of_nat a - of_nat b :: u64) = of_int (int a - int b)"
  by simp

lemma bit_imp_pow2_le:
  assumes "bit (v :: 'a::len word) i"
  shows "2 ^ i \<le> unat v"
proof (rule ccontr)
  assume "\<not> 2 ^ i \<le> unat v"
  then have "take_bit i (unat v) = unat v" by (simp add: take_bit_nat_eq_self)
  moreover have "bit (unat v) i"
    using assms by (simp add: bit_unsigned_iff)
  ultimately show False
    by (metis bit_take_bit_iff less_irrefl)
qed

text \<open>Two books kept modulo \<open>2 ^ n\<close> are chained.\<close>

lemma balance_chain:
  fixes a1 a2 b :: "'a::comm_ring_1"
  assumes "a1 + x + r = b + y" "a2 + y + s = a1 + z"
  shows "a2 + x + (r + s) = b + z"
proof -
  have "a1 = b + y - x - r" using assms(1) by (simp add: algebra_simps eq_diff_eq)
  moreover have "a2 = a1 + z - y - s" using assms(2) by (simp add: algebra_simps eq_diff_eq)
  ultimately show ?thesis by simp
qed

section \<open>Windows of ring positions\<close>

text \<open>Two positions of one window of length \<open>c\<close> that share a ring slot are equal.\<close>

lemma mod_window_unique:
  fixes p q t c :: nat
  assumes "t \<le> p" "p < t + c" "t \<le> q" "q < t + c" "p mod c = q mod c"
  shows "p = q"
proof -
  have eq: "a = b" if "a \<le> b" "b - a < c" "a mod c = b mod c" for a b :: nat
  proof -
    have "c dvd b - a" using that(3) mod_eq_dvd_iff_nat [OF that(1), of c] by simp
    then have "b - a = 0" using that(2) by (meson nat_dvd_not_less not_gr_zero)
    then show ?thesis using that(1) by simp
  qed
  show ?thesis
  proof (cases "p \<le> q")
    case True
    show ?thesis by (rule eq) (use True assms in auto)
  next
    case False
    have "q = p" by (rule eq) (use False assms in auto)
    then show ?thesis by simp
  qed
qed

lemma mod_window_exists:
  fixes t c :: nat
  assumes "i < c"
  shows "\<exists>p. t \<le> p \<and> p < t + c \<and> p mod c = i"
proof -
  let ?d = "(i + c - t mod c) mod c"
  have "t mod c < c" using assms by simp
  then have "t mod c + (i + c - t mod c) = i + c" by simp
  then have "(t mod c + (i + c - t mod c)) mod c = i"
    using assms by simp
  then have "(t + ?d) mod c = i"
    by (metis mod_add_left_eq mod_add_right_eq)
  moreover have "?d < c" using assms by simp
  ultimately show ?thesis
    by (intro exI [of _ "t + ?d"]) simp
qed

lemma in_set_map_filter: "y \<in> set (List.map_filter f xs) \<longleftrightarrow> (\<exists>x \<in> set xs. f x = Some y)"
  by (induction xs) (auto split: option.splits)

end
