(* ===== verification/LockFreeQueueConc.thy ===== *)
theory LockFreeQueueConc
  imports Prelude "HOL-Library.Multiset"
begin

text \<open>
  \<open>TryPush\<close> and \<open>TryPop\<close> of \<open>src/core/memory/lock_free_queue.h\<close> run by any number of threads: one
  step of the relation is one access to shared memory. The memory is sequentially consistent
  (the release store of a sequence number and the acquire load that reads it order the accesses
  to the cell's value, which are the only ones that are not atomic), and positions are natural
  numbers: the model covers the first \<open>2 ^ 63\<close> positions of the ring, on which the 64-bit
  arithmetic of the code does not wrap. The wrap-around itself is in \<open>LockFreeQueue\<close>.
\<close>

section \<open>Threads and shared memory\<close>

text \<open>
  The local state of a thread between two accesses, with the value it pushes and the position
  \<open>pos\<close> it holds. The constructors follow the loop bodies: the sequence number is to be read, the
  position is to be reloaded, the compare-exchange is next, the value is to be stored or moved
  out, the new sequence number is to be published.
\<close>

datatype 'a thread =
    Idle
  | PushRead 'a nat | PushReload 'a | PushCas 'a nat | PushWrite 'a nat | PushPublish 'a nat
  | PopRead nat | PopReload | PopCas nat | PopMove nat | PopPublish nat

text \<open>
  The last two fields are history: the values in the order their positions were claimed, and the
  positions popped with the value the caller got.
\<close>

record 'a ring =
  r_head :: nat
  r_tail :: nat
  r_seq :: "nat \<Rightarrow> nat"
  r_data :: "nat \<Rightarrow> 'a option"
  r_thread :: "nat \<Rightarrow> 'a thread"
  r_pushed :: "'a list"
  r_popped :: "(nat \<times> 'a option) list"

definition ring_init :: "'a ring" where
  "ring_init = \<lparr>r_head = 0, r_tail = 0, r_seq = (\<lambda>i. i), r_data = (\<lambda>_. None),
     r_thread = (\<lambda>_. Idle), r_pushed = [], r_popped = []\<rparr>"

abbreviation set_thread :: "'a ring \<Rightarrow> nat \<Rightarrow> 'a thread \<Rightarrow> 'a ring" where
  "set_thread s i th \<equiv> s\<lparr>r_thread := (r_thread s)(i := th)\<rparr>"

inductive ring_step :: "nat \<Rightarrow> 'a ring \<Rightarrow> 'a ring \<Rightarrow> bool" for c :: nat where
  push_call: "r_thread s i = Idle \<Longrightarrow> ring_step c s (set_thread s i (PushRead v (r_head s)))"
| push_claimable: "r_thread s i = PushRead v pos \<Longrightarrow> r_seq s (pos mod c) = pos \<Longrightarrow>
    ring_step c s (set_thread s i (PushCas v pos))"
| push_full: "r_thread s i = PushRead v pos \<Longrightarrow> r_seq s (pos mod c) < pos \<Longrightarrow>
    ring_step c s (set_thread s i Idle)"
| push_stale: "r_thread s i = PushRead v pos \<Longrightarrow> pos < r_seq s (pos mod c) \<Longrightarrow>
    ring_step c s (set_thread s i (PushReload v))"
| push_reload: "r_thread s i = PushReload v \<Longrightarrow>
    ring_step c s (set_thread s i (PushRead v (r_head s)))"
| push_lost: "r_thread s i = PushCas v pos \<Longrightarrow>
    ring_step c s (set_thread s i (PushRead v (r_head s)))"
| push_claim: "r_thread s i = PushCas v pos \<Longrightarrow> r_head s = pos \<Longrightarrow>
    ring_step c s ((set_thread s i (PushWrite v pos))
      \<lparr>r_head := pos + 1, r_pushed := r_pushed s @ [v]\<rparr>)"
| push_write: "r_thread s i = PushWrite v pos \<Longrightarrow>
    ring_step c s ((set_thread s i (PushPublish v pos))
      \<lparr>r_data := (r_data s)(pos mod c := Some v)\<rparr>)"
| push_publish: "r_thread s i = PushPublish v pos \<Longrightarrow>
    ring_step c s ((set_thread s i Idle)\<lparr>r_seq := (r_seq s)(pos mod c := pos + 1)\<rparr>)"
| pop_call: "r_thread s i = Idle \<Longrightarrow> ring_step c s (set_thread s i (PopRead (r_tail s)))"
| pop_claimable: "r_thread s i = PopRead pos \<Longrightarrow> r_seq s (pos mod c) = pos + 1 \<Longrightarrow>
    ring_step c s (set_thread s i (PopCas pos))"
| pop_empty: "r_thread s i = PopRead pos \<Longrightarrow> r_seq s (pos mod c) < pos + 1 \<Longrightarrow>
    ring_step c s (set_thread s i Idle)"
| pop_stale: "r_thread s i = PopRead pos \<Longrightarrow> pos + 1 < r_seq s (pos mod c) \<Longrightarrow>
    ring_step c s (set_thread s i PopReload)"
| pop_reload: "r_thread s i = PopReload \<Longrightarrow> ring_step c s (set_thread s i (PopRead (r_tail s)))"
| pop_lost: "r_thread s i = PopCas pos \<Longrightarrow> ring_step c s (set_thread s i (PopRead (r_tail s)))"
| pop_claim: "r_thread s i = PopCas pos \<Longrightarrow> r_tail s = pos \<Longrightarrow>
    ring_step c s ((set_thread s i (PopMove pos))\<lparr>r_tail := pos + 1\<rparr>)"
| pop_move: "r_thread s i = PopMove pos \<Longrightarrow>
    ring_step c s ((set_thread s i (PopPublish pos))
      \<lparr>r_data := (r_data s)(pos mod c := None),
       r_popped := r_popped s @ [(pos, r_data s (pos mod c))]\<rparr>)"
| pop_publish: "r_thread s i = PopPublish pos \<Longrightarrow>
    ring_step c s ((set_thread s i Idle)\<lparr>r_seq := (r_seq s)(pos mod c := pos + c)\<rparr>)"

inductive ring_reachable :: "nat \<Rightarrow> 'a ring \<Rightarrow> bool" for c :: nat where
  start: "ring_reachable c ring_init"
| step: "ring_reachable c s \<Longrightarrow> ring_step c s s' \<Longrightarrow> ring_reachable c s'"

section \<open>Claims\<close>

text \<open>The position a thread has claimed: for a push, for a pop, and for a pop still to be moved.\<close>

fun push_pos :: "'a thread \<Rightarrow> nat option" where
  "push_pos (PushWrite v p) = Some p"
| "push_pos (PushPublish v p) = Some p"
| "push_pos _ = None"

fun pop_pos :: "'a thread \<Rightarrow> nat option" where
  "pop_pos (PopMove p) = Some p"
| "pop_pos (PopPublish p) = Some p"
| "pop_pos _ = None"

fun take_pos :: "'a thread \<Rightarrow> nat option" where
  "take_pos (PopMove p) = Some p"
| "take_pos _ = None"

definition claimed :: "('t \<Rightarrow> nat option) \<Rightarrow> (nat \<Rightarrow> 't) \<Rightarrow> nat set" where
  "claimed g f = {p. \<exists>i. g (f i) = Some p}"

definition sole_claims :: "('t \<Rightarrow> nat option) \<Rightarrow> (nat \<Rightarrow> 't) \<Rightarrow> bool" where
  "sole_claims g f \<longleftrightarrow> (\<forall>i j p. g (f i) = Some p \<longrightarrow> g (f j) = Some p \<longrightarrow> i = j)"

lemma claimedI: "g (f i) = Some p \<Longrightarrow> p \<in> claimed g f"
  by (auto simp: claimed_def)

lemma claimed_same:
  "g th = g (f i) \<Longrightarrow> claimed g (f(i := th)) = claimed g f"
  unfolding claimed_def by auto

lemma claimed_new:
  "g (f i) = None \<Longrightarrow> g th = Some p \<Longrightarrow> claimed g (f(i := th)) = insert p (claimed g f)"
  unfolding claimed_def by auto (metis option.distinct(1))

lemma claimed_done:
  "sole_claims g f \<Longrightarrow> g (f i) = Some p \<Longrightarrow> g th = None \<Longrightarrow>
     claimed g (f(i := th)) = claimed g f - {p}"
  unfolding claimed_def sole_claims_def
  by (auto split: if_splits) (metis option.inject)

lemma sole_same: "sole_claims g f \<Longrightarrow> g th = g (f i) \<Longrightarrow> sole_claims g (f(i := th))"
  unfolding sole_claims_def by (simp split: if_splits) metis

lemma sole_new:
  "sole_claims g f \<Longrightarrow> g th = Some p \<Longrightarrow> p \<notin> claimed g f \<Longrightarrow> sole_claims g (f(i := th))"
  unfolding sole_claims_def claimed_def by (simp split: if_splits) metis

lemma sole_done: "sole_claims g f \<Longrightarrow> g th = None \<Longrightarrow> sole_claims g (f(i := th))"
  unfolding sole_claims_def by (simp split: if_splits)

section \<open>The invariant\<close>

text \<open>
  What the cell of a position of the current window says: a claimed push not yet published, a
  published value, a popped cell not yet released, or a cell that awaits its push.
\<close>

definition cell_ok :: "nat \<Rightarrow> 'a ring \<Rightarrow> nat \<Rightarrow> bool" where
  "cell_ok c s p \<longleftrightarrow>
     (if p < r_head s
      then (if p \<in> claimed push_pos (r_thread s) then r_seq s (p mod c) = p
            else r_seq s (p mod c) = p + 1 \<and> r_data s (p mod c) = Some (r_pushed s ! p))
      else (if c \<le> p \<and> p - c \<in> claimed pop_pos (r_thread s) then r_seq s (p mod c) = p - c + 1
            else r_seq s (p mod c) = p))"

fun thread_ok :: "nat \<Rightarrow> 'a ring \<Rightarrow> 'a thread \<Rightarrow> bool" where
  "thread_ok c s Idle = True"
| "thread_ok c s (PushRead v p) = (p \<le> r_head s)"
| "thread_ok c s (PushReload v) = True"
| "thread_ok c s (PushCas v p) = (p \<le> r_head s \<and> (p = r_head s \<longrightarrow> r_seq s (p mod c) = p))"
| "thread_ok c s (PushWrite v p) = (r_tail s \<le> p \<and> p < r_head s \<and> r_pushed s ! p = v)"
| "thread_ok c s (PushPublish v p) =
     (r_tail s \<le> p \<and> p < r_head s \<and> r_pushed s ! p = v \<and> r_data s (p mod c) = Some v)"
| "thread_ok c s (PopRead p) = (p \<le> r_tail s)"
| "thread_ok c s PopReload = True"
| "thread_ok c s (PopCas p) = (p \<le> r_tail s \<and> (p = r_tail s \<longrightarrow> r_seq s (p mod c) = p + 1))"
| "thread_ok c s (PopMove p) =
     (p < r_tail s \<and> r_head s \<le> p + c \<and> r_data s (p mod c) = Some (r_pushed s ! p))"
| "thread_ok c s (PopPublish p) = (p < r_tail s \<and> r_head s \<le> p + c)"

definition history_ok :: "'a ring \<Rightarrow> bool" where
  "history_ok s \<longleftrightarrow>
     length (r_pushed s) = r_head s \<and> distinct (map fst (r_popped s)) \<and>
     fst ` set (r_popped s) \<inter> claimed take_pos (r_thread s) = {} \<and>
     fst ` set (r_popped s) \<union> claimed take_pos (r_thread s) = {..<r_tail s} \<and>
     (\<forall>(p, x) \<in> set (r_popped s). x = Some (r_pushed s ! p))"

definition ring_inv :: "nat \<Rightarrow> 'a ring \<Rightarrow> bool" where
  "ring_inv c s \<longleftrightarrow>
     r_tail s \<le> r_head s \<and> r_head s \<le> r_tail s + c \<and>
     sole_claims push_pos (r_thread s) \<and> sole_claims pop_pos (r_thread s) \<and>
     sole_claims take_pos (r_thread s) \<and>
     (\<forall>i. thread_ok c s (r_thread s i)) \<and>
     (\<forall>p. r_tail s \<le> p \<and> p < r_tail s + c \<longrightarrow> cell_ok c s p) \<and>
     history_ok s"

lemma ring_inv_init: "ring_inv c ring_init"
  by (auto simp: ring_inv_def ring_init_def cell_ok_def history_ok_def claimed_def sole_claims_def)

text \<open>A claim lies in the window of its kind.\<close>

lemma push_claim_window:
  assumes "ring_inv c s" "p \<in> claimed push_pos (r_thread s)"
  shows "r_tail s \<le> p \<and> p < r_head s"
proof -
  from assms(2) obtain i where i: "push_pos (r_thread s i) = Some p" by (auto simp: claimed_def)
  have "thread_ok c s (r_thread s i)" using assms(1) by (simp add: ring_inv_def)
  with i show ?thesis by (cases "r_thread s i") auto
qed

lemma pop_claim_window:
  assumes "ring_inv c s" "p \<in> claimed pop_pos (r_thread s)"
  shows "p < r_tail s \<and> r_head s \<le> p + c"
proof -
  from assms(2) obtain i where i: "pop_pos (r_thread s i) = Some p" by (auto simp: claimed_def)
  have "thread_ok c s (r_thread s i)" using assms(1) by (simp add: ring_inv_def)
  with i show ?thesis by (cases "r_thread s i") auto
qed

text \<open>A step that only moves a thread within its loop.\<close>

lemma inv_local:
  assumes "ring_inv c s" "thread_ok c s th"
    "push_pos th = push_pos (r_thread s i)" "pop_pos th = pop_pos (r_thread s i)"
    "take_pos th = take_pos (r_thread s i)"
  shows "ring_inv c (set_thread s i th)"
proof -
  have same: "thread_ok c (set_thread s i th) x = thread_ok c s x" for x
    by (cases x) auto
  show ?thesis
    using assms unfolding ring_inv_def history_ok_def cell_ok_def
    by (simp add: same claimed_same sole_same)
qed

lemma inv_popped:
  assumes "ring_inv c s" "(p, x) \<in> set (r_popped s)"
  shows "p < r_tail s" "x = Some (r_pushed s ! p)"
proof -
  have "fst (p, x) \<in> {..<r_tail s}"
    using assms unfolding ring_inv_def history_ok_def by blast
  then show "p < r_tail s" by simp
  show "x = Some (r_pushed s ! p)"
    using assms unfolding ring_inv_def history_ok_def by auto
qed

text \<open>A push claims the position \<open>head\<close>: the cell awaits it and the ring has room.\<close>

lemma push_claim_room:
  assumes inv: "ring_inv c s" and "2 \<le> c" "r_seq s (r_head s mod c) = r_head s"
  shows "r_head s < r_tail s + c" "\<not> (c \<le> r_head s \<and> r_head s - c \<in> claimed pop_pos (r_thread s))"
proof -
  show room: "r_head s < r_tail s + c"
  proof (rule ccontr)
    assume "\<not> r_head s < r_tail s + c"
    with inv have full: "r_head s = r_tail s + c" by (simp add: ring_inv_def)
    have "cell_ok c s (r_tail s)" using inv \<open>2 \<le> c\<close> by (simp add: ring_inv_def)
    then show False
      using full assms(2,3) by (auto simp: cell_ok_def split: if_splits)
  qed
  have "cell_ok c s (r_head s)" using inv room by (simp add: ring_inv_def)
  then show "\<not> (c \<le> r_head s \<and> r_head s - c \<in> claimed pop_pos (r_thread s))"
    using assms(2,3) by (auto simp: cell_ok_def split: if_splits)
qed

lemma inv_push_claim:
  assumes inv: "ring_inv c s" and "2 \<le> c" and th: "r_thread s i = PushCas v (r_head s)"
  shows "ring_inv c ((set_thread s i (PushWrite v (r_head s)))
           \<lparr>r_head := r_head s + 1, r_pushed := r_pushed s @ [v]\<rparr>)"
    (is "ring_inv c ?s'")
proof -
  have seq: "r_seq s (r_head s mod c) = r_head s"
    using inv th by (auto simp: ring_inv_def dest!: spec [of _ i])
  note room = push_claim_room [OF inv \<open>2 \<le> c\<close> seq]
  have len: "length (r_pushed s) = r_head s" and le: "r_tail s \<le> r_head s"
    using inv by (simp_all add: ring_inv_def history_ok_def)
  have fresh: "r_head s \<notin> claimed push_pos (r_thread s)"
    using push_claim_window [OF inv] by blast
  have claims: "claimed push_pos (r_thread ?s') = insert (r_head s) (claimed push_pos (r_thread s))"
    "claimed pop_pos (r_thread ?s') = claimed pop_pos (r_thread s)"
    "claimed take_pos (r_thread ?s') = claimed take_pos (r_thread s)"
    using th by (simp_all add: claimed_new claimed_same)
  have sole: "sole_claims push_pos (r_thread ?s')" "sole_claims pop_pos (r_thread ?s')"
    "sole_claims take_pos (r_thread ?s')"
    using inv th fresh by (simp_all add: ring_inv_def sole_new sole_same)
  have "thread_ok c ?s' (r_thread ?s' j)" for j
  proof -
    have ok: "thread_ok c s (r_thread s j)" using inv by (simp add: ring_inv_def)
    have "p + c \<noteq> r_head s" if "pop_pos (r_thread s j) = Some p" for p
      using room(2) claimedI [of pop_pos "r_thread s" j, OF that]
      by (metis add_diff_cancel_right' le_add2)
    with ok len le show ?thesis
      by (cases "r_thread s j") (fastforce simp: nth_append)+
  qed
  moreover have "cell_ok c ?s' p" if "r_tail s \<le> p" "p < r_tail s + c" for p
  proof -
    have "cell_ok c s p" using inv that by (simp add: ring_inv_def)
    then show ?thesis
      using seq len fresh room unfolding cell_ok_def claims
      by (cases "p = r_head s") (auto simp: nth_append split: if_splits)
  qed
  moreover have "history_ok ?s'"
  proof -
    have "x = Some ((r_pushed s @ [v]) ! p)" if "(p, x) \<in> set (r_popped s)" for p x
      using inv_popped [OF inv that] len le by (simp add: nth_append)
    then show ?thesis
      using inv unfolding ring_inv_def history_ok_def claims by auto
  qed
  ultimately show ?thesis
    using inv room sole unfolding ring_inv_def by simp
qed

text \<open>Slots of distinct positions: two in one window, and one popped against one still queued.\<close>

lemma slot_distinct:
  fixes p q c :: nat
  assumes "p < q" "q < p + c"
  shows "p mod c \<noteq> q mod c"
  using mod_window_unique [of p p c q] assms by auto

lemma inv_thread_ok: "ring_inv c s \<Longrightarrow> r_thread s j = th \<Longrightarrow> thread_ok c s th"
  unfolding ring_inv_def by blast

lemma inv_cell_ok: "ring_inv c s \<Longrightarrow> r_tail s \<le> p \<Longrightarrow> p < r_tail s + c \<Longrightarrow> cell_ok c s p"
  unfolding ring_inv_def by blast

lemma inv_bounds: "ring_inv c s \<Longrightarrow> r_tail s \<le> r_head s \<and> r_head s \<le> r_tail s + c"
  unfolding ring_inv_def by blast

lemma inv_sole:
  "ring_inv c s \<Longrightarrow> sole_claims push_pos (r_thread s)"
  "ring_inv c s \<Longrightarrow> sole_claims pop_pos (r_thread s)"
  "ring_inv c s \<Longrightarrow> sole_claims take_pos (r_thread s)"
  unfolding ring_inv_def by blast+

lemma sole_claimsD:
  "sole_claims g f \<Longrightarrow> g (f i) = Some p \<Longrightarrow> g (f j) = Some p \<Longrightarrow> i = j"
  unfolding sole_claims_def by blast

lemma inv_push_write:
  assumes inv: "ring_inv c s" and th: "r_thread s i = PushWrite v pos"
  shows "ring_inv c ((set_thread s i (PushPublish v pos))
           \<lparr>r_data := (r_data s)(pos mod c := Some v)\<rparr>)"
    (is "ring_inv c ?s'")
proof -
  have win: "r_tail s \<le> pos" "pos < r_head s" "r_pushed s ! pos = v"
    using inv_thread_ok [OF inv th] by simp_all
  note bnd = inv_bounds [OF inv]
  have claims: "claimed push_pos (r_thread ?s') = claimed push_pos (r_thread s)"
    "claimed pop_pos (r_thread ?s') = claimed pop_pos (r_thread s)"
    "claimed take_pos (r_thread ?s') = claimed take_pos (r_thread s)"
    using th by (simp_all add: claimed_same)
  have sole: "sole_claims push_pos (r_thread ?s')" "sole_claims pop_pos (r_thread ?s')"
    "sole_claims take_pos (r_thread ?s')"
    using inv_sole [OF inv] th by (simp_all add: sole_same)
  have slot: "p mod c \<noteq> pos mod c" if "p \<noteq> pos" "p < r_head s" "r_head s \<le> p + c" for p
    using slot_distinct [of p pos c] slot_distinct [of pos p c] that win bnd
    by (cases "p < pos") auto
  have "thread_ok c ?s' (r_thread ?s' j)" for j
  proof (cases "j = i")
    case False
    have "push_pos (r_thread s j) \<noteq> Some pos"
      using sole_claimsD [OF inv_sole(1) [OF inv], of j pos i] False th by auto
    then show ?thesis
      using inv_thread_ok [OF inv refl, of j] False slot bnd win
      by (cases "r_thread s j") auto
  qed (use win in simp)
  moreover have "cell_ok c ?s' p" if "r_tail s \<le> p" "p < r_tail s + c" for p
    using inv_cell_ok [OF inv that] slot [of p] bnd that win claimedI [of push_pos "r_thread s" i pos] th
    unfolding cell_ok_def claims by (cases "p = pos") auto
  moreover have "history_ok ?s'"
    using inv unfolding ring_inv_def history_ok_def claims by simp
  ultimately show ?thesis
    using inv sole unfolding ring_inv_def by simp
qed

lemma inv_push_publish:
  assumes inv: "ring_inv c s" and "2 \<le> c" and th: "r_thread s i = PushPublish v pos"
  shows "ring_inv c ((set_thread s i Idle)\<lparr>r_seq := (r_seq s)(pos mod c := pos + 1)\<rparr>)"
    (is "ring_inv c ?s'")
proof -
  have win: "r_tail s \<le> pos" "pos < r_head s" "r_data s (pos mod c) = Some (r_pushed s ! pos)"
    using inv_thread_ok [OF inv th] by simp_all
  note bnd = inv_bounds [OF inv]
  have claims: "claimed push_pos (r_thread ?s') = claimed push_pos (r_thread s) - {pos}"
    "claimed pop_pos (r_thread ?s') = claimed pop_pos (r_thread s)"
    "claimed take_pos (r_thread ?s') = claimed take_pos (r_thread s)"
    using th inv_sole(1) [OF inv] by (simp_all add: claimed_same claimed_done)
  have sole: "sole_claims push_pos (r_thread ?s')" "sole_claims pop_pos (r_thread ?s')"
    "sole_claims take_pos (r_thread ?s')"
    using inv_sole [OF inv] th by (simp_all add: sole_same sole_done)
  have mine: "pos \<in> claimed push_pos (r_thread s)"
    using claimedI [of push_pos "r_thread s" i pos] th by simp
  have seq: "r_seq s (pos mod c) = pos"
    using inv_cell_ok [OF inv win(1)] win(2) bnd mine by (simp add: cell_ok_def)
  have slot: "p mod c \<noteq> pos mod c" if "p \<noteq> pos" "r_tail s \<le> p" "p < r_tail s + c" for p
    using mod_window_unique [of "r_tail s" p c pos] that win bnd by auto
  have "thread_ok c ?s' (r_thread ?s' j)" for j
    using inv_thread_ok [OF inv refl, of j] win bnd seq slot [of "r_tail s"] \<open>2 \<le> c\<close>
    by (cases "r_thread s j") auto
  moreover have "cell_ok c ?s' p" if "r_tail s \<le> p" "p < r_tail s + c" for p
    using inv_cell_ok [OF inv that] slot [of p] that win
    unfolding cell_ok_def claims by (cases "p = pos") auto
  moreover have "history_ok ?s'"
    using inv unfolding ring_inv_def history_ok_def claims by simp
  ultimately show ?thesis
    using inv sole unfolding ring_inv_def by simp
qed

lemma inv_pop_claim:
  assumes inv: "ring_inv c s" and "2 \<le> c" and th: "r_thread s i = PopCas (r_tail s)"
  shows "ring_inv c ((set_thread s i (PopMove (r_tail s)))\<lparr>r_tail := r_tail s + 1\<rparr>)"
    (is "ring_inv c ?s'")
proof -
  let ?t = "r_tail s"
  have seq: "r_seq s (?t mod c) = ?t + 1" using inv_thread_ok [OF inv th] by simp
  note bnd = inv_bounds [OF inv]
  have "cell_ok c s ?t" using inv_cell_ok [OF inv, of ?t] \<open>2 \<le> c\<close> by simp
  with seq \<open>2 \<le> c\<close> have full: "?t < r_head s" "?t \<notin> claimed push_pos (r_thread s)"
    "r_data s (?t mod c) = Some (r_pushed s ! ?t)"
    by (auto simp: cell_ok_def split: if_splits)
  have fresh: "?t \<notin> claimed pop_pos (r_thread s)" "?t \<notin> claimed take_pos (r_thread s)"
    using pop_claim_window [OF inv, of ?t] inv by (auto simp: ring_inv_def history_ok_def)
  have claims: "claimed push_pos (r_thread ?s') = claimed push_pos (r_thread s)"
    "claimed pop_pos (r_thread ?s') = insert ?t (claimed pop_pos (r_thread s))"
    "claimed take_pos (r_thread ?s') = insert ?t (claimed take_pos (r_thread s))"
    using th by (simp_all add: claimed_same claimed_new)
  have sole: "sole_claims push_pos (r_thread ?s')" "sole_claims pop_pos (r_thread ?s')"
    "sole_claims take_pos (r_thread ?s')"
    using inv_sole [OF inv] th fresh by (simp_all add: sole_same sole_new)
  have "thread_ok c ?s' (r_thread ?s' j)" for j
  proof -
    have "push_pos (r_thread s j) \<noteq> Some ?t"
      using full(2) claimedI [of push_pos "r_thread s" j ?t] by blast
    then show ?thesis
      using inv_thread_ok [OF inv refl, of j] full bnd
      by (cases "r_thread s j") (auto simp: le_eq_less_or_eq)
  qed
  moreover have "cell_ok c ?s' p" if "?t + 1 \<le> p" "p < ?t + 1 + c" for p
  proof (cases "p = ?t + c")
    case True
    then show ?thesis using seq bnd unfolding cell_ok_def claims by simp
  next
    case False
    with that have "cell_ok c s p" by (intro inv_cell_ok [OF inv]) auto
    then show ?thesis using False that unfolding cell_ok_def claims by auto
  qed
  moreover have "history_ok ?s'"
    using inv fresh(2) unfolding ring_inv_def history_ok_def claims by auto
  ultimately show ?thesis
    using inv sole full bnd unfolding ring_inv_def by simp
qed

lemma inv_pop_move:
  assumes inv: "ring_inv c s" and th: "r_thread s i = PopMove pos"
  shows "ring_inv c ((set_thread s i (PopPublish pos))
           \<lparr>r_data := (r_data s)(pos mod c := None),
            r_popped := r_popped s @ [(pos, r_data s (pos mod c))]\<rparr>)"
    (is "ring_inv c ?s'")
proof -
  have win: "pos < r_tail s" "r_head s \<le> pos + c" "r_data s (pos mod c) = Some (r_pushed s ! pos)"
    using inv_thread_ok [OF inv th] by simp_all
  note bnd = inv_bounds [OF inv]
  have mine: "pos \<in> claimed take_pos (r_thread s)"
    using claimedI [of take_pos "r_thread s" i pos] th by simp
  have claims: "claimed push_pos (r_thread ?s') = claimed push_pos (r_thread s)"
    "claimed pop_pos (r_thread ?s') = claimed pop_pos (r_thread s)"
    "claimed take_pos (r_thread ?s') = claimed take_pos (r_thread s) - {pos}"
    using th inv_sole(3) [OF inv] by (simp_all add: claimed_same claimed_done)
  have sole: "sole_claims push_pos (r_thread ?s')" "sole_claims pop_pos (r_thread ?s')"
    "sole_claims take_pos (r_thread ?s')"
    using inv_sole [OF inv] th by (simp_all add: sole_same sole_done)
  have slot: "p mod c \<noteq> pos mod c" if "p \<noteq> pos" "p < r_head s" "pos < p + c" for p
    using slot_distinct [of p pos c] slot_distinct [of pos p c] that win by (cases "p < pos") auto
  have "thread_ok c ?s' (r_thread ?s' j)" for j
  proof (cases "j = i")
    case False
    have "pop_pos (r_thread s j) \<noteq> Some pos"
      using sole_claimsD [OF inv_sole(2) [OF inv], of j pos i] False th by auto
    then show ?thesis
      using inv_thread_ok [OF inv refl, of j] False slot bnd win
      by (cases "r_thread s j") auto
  qed (use win in simp)
  moreover have "cell_ok c ?s' p" if "r_tail s \<le> p" "p < r_tail s + c" for p
    using inv_cell_ok [OF inv that] slot [of p] that win
    unfolding cell_ok_def claims by auto
  moreover have "history_ok ?s'"
    using inv mine win unfolding ring_inv_def history_ok_def claims by auto
  ultimately show ?thesis
    using inv sole unfolding ring_inv_def by simp
qed

lemma inv_pop_publish:
  assumes inv: "ring_inv c s" and "2 \<le> c" and th: "r_thread s i = PopPublish pos"
  shows "ring_inv c ((set_thread s i Idle)\<lparr>r_seq := (r_seq s)(pos mod c := pos + c)\<rparr>)"
    (is "ring_inv c ?s'")
proof -
  have win: "pos < r_tail s" "r_head s \<le> pos + c" using inv_thread_ok [OF inv th] by simp_all
  note bnd = inv_bounds [OF inv]
  have mine: "pos \<in> claimed pop_pos (r_thread s)"
    using claimedI [of pop_pos "r_thread s" i pos] th by simp
  have claims: "claimed push_pos (r_thread ?s') = claimed push_pos (r_thread s)"
    "claimed pop_pos (r_thread ?s') = claimed pop_pos (r_thread s) - {pos}"
    "claimed take_pos (r_thread ?s') = claimed take_pos (r_thread s)"
    using th inv_sole(2) [OF inv] by (simp_all add: claimed_same claimed_done)
  have sole: "sole_claims push_pos (r_thread ?s')" "sole_claims pop_pos (r_thread ?s')"
    "sole_claims take_pos (r_thread ?s')"
    using inv_sole [OF inv] th by (simp_all add: sole_same sole_done)
  have seq: "r_seq s (pos mod c) = pos + 1"
    using inv_cell_ok [OF inv, of "pos + c"] win bnd mine by (simp add: cell_ok_def)
  have slot: "p mod c \<noteq> pos mod c" if "p \<noteq> pos + c" "r_tail s \<le> p" "p < r_tail s + c" for p
    using mod_window_unique [of "r_tail s" p c "pos + c"] that win bnd by auto
  have head_slot: "r_head s mod c = pos mod c \<Longrightarrow> r_head s = pos + c"
    using slot [of "r_head s"] win bnd by auto
  have tail_slot: "r_tail s mod c = pos mod c \<Longrightarrow> r_tail s = pos + c"
    using slot [of "r_tail s"] win bnd \<open>2 \<le> c\<close> by auto
  have "thread_ok c ?s' (r_thread ?s' j)" for j
    using inv_thread_ok [OF inv refl, of j] head_slot tail_slot seq \<open>2 \<le> c\<close>
    by (cases "r_thread s j") auto
  moreover have "cell_ok c ?s' p" if "r_tail s \<le> p" "p < r_tail s + c" for p
  proof (cases "p = pos + c")
    case False
    then have "\<not> (c \<le> p \<and> p - c = pos)" by auto
    then show ?thesis
      using inv_cell_ok [OF inv that] slot [OF False that] unfolding cell_ok_def claims by auto
  next
    case True
    then show ?thesis using win unfolding cell_ok_def claims by simp
  qed
  moreover have "history_ok ?s'"
    using inv unfolding ring_inv_def history_ok_def claims by simp
  ultimately show ?thesis
    using inv sole unfolding ring_inv_def by simp
qed

section \<open>Every reachable ring is sound\<close>

lemma ring_step_inv:
  assumes "ring_step c s s'" "ring_inv c s" "2 \<le> c"
  shows "ring_inv c s'"
  using assms
proof (induction rule: ring_step.induct)
  case (push_claim s i v pos)
  then show ?case using inv_push_claim [of c s i v] by simp
next
  case (pop_claim s i pos)
  then show ?case using inv_pop_claim [of c s i] by simp
qed (auto simp: inv_push_write inv_push_publish [simplified] inv_pop_move inv_pop_publish
       dest: inv_thread_ok intro!: inv_local)

lemma ring_reachable_inv: "ring_reachable c s \<Longrightarrow> 2 \<le> c \<Longrightarrow> ring_inv c s"
  by (induction rule: ring_reachable.induct) (auto intro: ring_inv_init ring_step_inv)

section \<open>What a refusal means\<close>

text \<open>A slot's sequence number is past every position below the window that shares the slot.\<close>

lemma slot_past_window:
  assumes inv: "ring_inv c s" and "2 \<le> c" "pos < r_tail s"
  shows "pos < r_seq s (pos mod c)"
proof -
  from \<open>2 \<le> c\<close> obtain p where p: "r_tail s \<le> p" "p < r_tail s + c" "p mod c = pos mod c"
    using mod_window_exists [of "pos mod c" c "r_tail s"] by auto
  have "pos + c \<le> p"
  proof (rule ccontr)
    assume "\<not> pos + c \<le> p"
    then have "p = pos" using p assms(3) by (intro mod_window_unique [of pos p c pos]) auto
    then show False using p assms(3) by simp
  qed
  with inv_cell_ok [OF inv p(1,2)] p(3) \<open>2 \<le> c\<close>
  show "pos < r_seq s (pos mod c)"
    by (auto simp: cell_ok_def split: if_splits)
qed

lemma push_refused_full:
  assumes inv: "ring_inv c s" and "2 \<le> c" and th: "r_thread s i = PushRead v pos"
    and "r_seq s (pos mod c) < pos"
  shows "pos = r_head s" "r_head s = r_tail s + c \<or> pos - c \<in> claimed pop_pos (r_thread s)"
proof -
  note bnd = inv_bounds [OF inv]
  have le: "pos \<le> r_head s" using inv_thread_ok [OF inv th] by simp
  have ge: "r_tail s \<le> pos"
    using slot_past_window [OF inv \<open>2 \<le> c\<close>, of pos] assms(4) by (cases "pos < r_tail s") auto
  show head: "pos = r_head s"
  proof (rule ccontr)
    assume "pos \<noteq> r_head s"
    with ge le bnd have "cell_ok c s pos" by (intro inv_cell_ok [OF inv]) auto
    with \<open>pos \<noteq> r_head s\<close> le assms(4) show False by (auto simp: cell_ok_def split: if_splits)
  qed
  show "r_head s = r_tail s + c \<or> pos - c \<in> claimed pop_pos (r_thread s)"
  proof (cases "r_head s = r_tail s + c")
    case False
    with bnd ge head have "cell_ok c s pos" by (intro inv_cell_ok [OF inv]) auto
    then show ?thesis using assms(4) head by (auto simp: cell_ok_def split: if_splits)
  qed simp
qed

lemma pop_refused_empty:
  assumes inv: "ring_inv c s" and "2 \<le> c" and th: "r_thread s i = PopRead pos"
    and "r_seq s (pos mod c) < pos + 1"
  shows "pos = r_tail s" "r_head s = r_tail s \<or> pos \<in> claimed push_pos (r_thread s)"
proof -
  note bnd = inv_bounds [OF inv]
  have "\<not> pos < r_tail s"
    using slot_past_window [OF inv \<open>2 \<le> c\<close>, of pos] assms(4) by auto
  then show tail: "pos = r_tail s" using inv_thread_ok [OF inv th] by simp
  have "cell_ok c s pos" using inv_cell_ok [OF inv, of pos] tail \<open>2 \<le> c\<close> by simp
  then show "r_head s = r_tail s \<or> pos \<in> claimed push_pos (r_thread s)"
    using assms(4) tail bnd by (auto simp: cell_ok_def split: if_splits)
qed

section \<open>First in, first out, nothing lost, nothing twice\<close>

lemma popped_positions:
  assumes "ring_inv c s" "claimed take_pos (r_thread s) = {}"
  shows "mset (map fst (r_popped s)) = mset [0..<r_tail s]"
proof (rule set_eq_iff_mset_eq_distinct [THEN iffD1])
  show "set (map fst (r_popped s)) = set [0..<r_tail s]"
    using assms by (auto simp: ring_inv_def history_ok_def atLeast0LessThan)
qed (use assms in \<open>auto simp: ring_inv_def history_ok_def\<close>)

text \<open>
  Between the moves of values out of the cells, the values popped and the values whose positions
  are still queued are the values pushed.
\<close>

lemma ring_conservation:
  assumes inv: "ring_inv c s" and "claimed take_pos (r_thread s) = {}"
  shows "mset (map snd (r_popped s)) + mset (map Some (drop (r_tail s) (r_pushed s)))
           = mset (map Some (r_pushed s))"
proof -
  have len: "length (r_pushed s) = r_head s" and le: "r_tail s \<le> r_head s"
    using inv by (simp_all add: ring_inv_def history_ok_def)
  have "map snd (r_popped s) = map (\<lambda>p. Some (r_pushed s ! p)) (map fst (r_popped s))"
    using inv_popped [OF inv] by auto
  then have "mset (map snd (r_popped s)) = image_mset (\<lambda>p. Some (r_pushed s ! p)) (mset (map fst (r_popped s)))"
    by (metis mset_map)
  also have "\<dots> = mset (map (\<lambda>p. Some (r_pushed s ! p)) [0..<r_tail s])"
    unfolding popped_positions [OF assms] by simp
  also have "map (\<lambda>p. Some (r_pushed s ! p)) [0..<r_tail s] = map Some (take (r_tail s) (r_pushed s))"
    using len le by (intro nth_equalityI) auto
  finally show ?thesis
    by (metis append_take_drop_id map_append mset_append)
qed

section \<open>Properties\<close>

text \<open>
  C1: whatever the interleaving of any number of pushing and popping threads, a ring of at least two
  cells hands out each position's value once and unchanged, never holds more than its capacity, and
  (while no thread is between claiming a pop and moving its value) loses nothing: the values popped
  and those still queued are the values pushed.
\<close>

theorem ring_conc_fifo:
  assumes "ring_reachable c s" "2 \<le> c"
  shows "r_tail s \<le> r_head s \<and> r_head s \<le> r_tail s + c \<and> length (r_pushed s) = r_head s \<and>
    distinct (map fst (r_popped s)) \<and>
    (\<forall>(p, x) \<in> set (r_popped s). p < r_tail s \<and> x = Some (r_pushed s ! p)) \<and>
    (claimed take_pos (r_thread s) = {} \<longrightarrow>
       mset (map snd (r_popped s)) + mset (map Some (drop (r_tail s) (r_pushed s)))
         = mset (map Some (r_pushed s)))"
proof -
  have inv: "ring_inv c s" using assms by (rule ring_reachable_inv)
  then have "length (r_pushed s) = r_head s" "distinct (map fst (r_popped s))"
    by (simp_all add: ring_inv_def history_ok_def)
  with inv_bounds [OF inv] inv_popped [OF inv] ring_conservation [OF inv] show ?thesis
    by blast
qed

text \<open>A run of one thread on a ring of two cells: it pushes a value and pops it.\<close>

definition demo_pushed :: "nat ring" where
  "demo_pushed = ring_init\<lparr>r_head := 1, r_seq := (\<lambda>i. i)(0 := 1),
     r_data := (\<lambda>_. None)(0 := Some 7), r_pushed := [7]\<rparr>"

definition demo_claimed :: "nat ring" where
  "demo_claimed = demo_pushed\<lparr>r_tail := 1, r_thread := (\<lambda>_. Idle)(0 := PopMove 0)\<rparr>"

definition demo_popped :: "nat ring" where
  "demo_popped = demo_claimed\<lparr>r_data := (\<lambda>_. None),
     r_popped := [(0, Some 7)], r_thread := (\<lambda>_. Idle)(0 := PopPublish 0)\<rparr>"

lemma demo_pushed_reachable: "ring_reachable 2 demo_pushed"
proof -
  let ?s1 = "set_thread ring_init 0 (PushRead (7::nat) 0)"
  let ?s2 = "set_thread ring_init 0 (PushCas (7::nat) 0)"
  let ?s3 = "(set_thread ring_init 0 (PushWrite (7::nat) 0))\<lparr>r_head := 1, r_pushed := [7]\<rparr>"
  let ?s4 = "(set_thread ring_init 0 (PushPublish (7::nat) 0))
    \<lparr>r_head := 1, r_pushed := [7], r_data := (\<lambda>_. None)(0 := Some 7)\<rparr>"
  have "ring_reachable 2 ?s1"
    using ring_reachable.step [OF ring_reachable.start ring_step.push_call [of ring_init 0 2 7]]
    by (simp add: ring_init_def)
  then have "ring_reachable 2 ?s2"
    using ring_reachable.step [OF _ ring_step.push_claimable [of ?s1 0 7 0 2]]
    by (simp add: ring_init_def)
  then have "ring_reachable 2 ?s3"
    using ring_reachable.step [OF _ ring_step.push_claim [of ?s2 0 7 0 2]]
    by (simp add: ring_init_def)
  then have "ring_reachable 2 ?s4"
    using ring_reachable.step [OF _ ring_step.push_write [of ?s3 0 7 0 2]]
    by (simp add: ring_init_def)
  then show ?thesis
    using ring_reachable.step [OF _ ring_step.push_publish [of ?s4 0 7 0 2]]
    by (simp add: ring_init_def demo_pushed_def fun_upd_idem)
qed

lemma demo_popped_reachable: "ring_reachable 2 demo_popped"
proof -
  let ?s1 = "set_thread demo_pushed 0 (PopRead 0)"
  let ?s2 = "set_thread demo_pushed 0 (PopCas 0)"
  have "ring_reachable 2 ?s1"
    using ring_reachable.step [OF demo_pushed_reachable ring_step.pop_call [of demo_pushed 0 2]]
    by (simp add: demo_pushed_def ring_init_def)
  then have "ring_reachable 2 ?s2"
    using ring_reachable.step [OF _ ring_step.pop_claimable [of ?s1 0 0 2]]
    by (simp add: demo_pushed_def ring_init_def)
  then have "ring_reachable 2 demo_claimed"
    using ring_reachable.step [OF _ ring_step.pop_claim [of ?s2 0 0 2]]
    by (simp add: demo_claimed_def demo_pushed_def ring_init_def)
  then show ?thesis
    using ring_reachable.step [OF _ ring_step.pop_move [of demo_claimed 0 0 2]]
    by (simp add: demo_popped_def demo_claimed_def demo_pushed_def ring_init_def fun_upd_idem)
qed

lemma demo_popped_takes: "claimed take_pos (r_thread demo_popped) = {}"
  by (simp add: claimed_def demo_popped_def)

theorem ring_conc_fifo_witness:
  "ring_reachable 2 demo_popped \<and> r_popped demo_popped = [(0, Some 7)] \<and>
   mset (map snd (r_popped demo_popped)) +
     mset (map Some (drop (r_tail demo_popped) (r_pushed demo_popped)))
     = mset (map Some (r_pushed demo_popped))"
  using ring_conc_fifo [OF demo_popped_reachable] demo_popped_reachable demo_popped_takes
  by (simp add: demo_popped_def demo_claimed_def)

text \<open>
  A call is refused only for a reason: a push that returns false read a position that was the
  current head while the ring was full or a pop of the oldest lap had not yet released the cell; a
  pop that returns false read the current tail while the ring was empty or the push of that position
  had not yet published its value.
\<close>

theorem ring_conc_refusal:
  assumes "ring_reachable c s" "2 \<le> c"
  shows "(r_thread s i = PushRead v pos \<longrightarrow> r_seq s (pos mod c) < pos \<longrightarrow>
            pos = r_head s \<and>
            (r_head s = r_tail s + c \<or> pos - c \<in> claimed pop_pos (r_thread s))) \<and>
         (r_thread s i = PopRead pos \<longrightarrow> r_seq s (pos mod c) < pos + 1 \<longrightarrow>
            pos = r_tail s \<and>
            (r_head s = r_tail s \<or> pos \<in> claimed push_pos (r_thread s)))"
proof -
  have inv: "ring_inv c s" using assms by (rule ring_reachable_inv)
  with assms(2) show ?thesis
    using push_refused_full [OF inv] pop_refused_empty [OF inv] by blast
qed

lemma demo_pop_read_reachable:
  "ring_reachable 2 (set_thread (ring_init :: nat ring) 0 (PopRead 0))"
  using ring_reachable.step [OF ring_reachable.start ring_step.pop_call [of "ring_init :: nat ring" 0 2]]
  by (simp add: ring_init_def)

theorem ring_conc_refusal_witness:
  "let s = set_thread (ring_init :: nat ring) 0 (PopRead 0)
   in r_thread s 0 = PopRead 0 \<and> r_seq s 0 < 1 \<and> 0 = r_tail s \<and>
      (r_head s = r_tail s \<or> 0 \<in> claimed push_pos (r_thread s))"
  using ring_conc_refusal [OF demo_pop_read_reachable, of 0 undefined 0]
  by (simp add: ring_init_def)

end
