(* ===== verification/LockFreeQueue.thy ===== *)
theory LockFreeQueue
  imports Prelude
begin

text \<open>
  The bounded ring of \<open>src/core/memory/lock_free_queue.h\<close>, one operation at a time: every
  field is the 64-bit word the code has, every operation is the body of the method with its
  retry loop, and the ring's abstraction is the list of queued values. The interleaving of
  several threads is the subject of \<open>LockFreeQueueConc\<close>.
\<close>

section \<open>Data and operations\<close>

text \<open>\<open>detail::RoundUpPow2\<close>: bit smearing.\<close>

definition round_up_pow2 :: "u64 \<Rightarrow> u64" where
  "round_up_pow2 v =
     (if v = 0 then 1
      else let v = v - 1;
               v = v OR drop_bit 1 v;
               v = v OR drop_bit 2 v;
               v = v OR drop_bit 4 v;
               v = v OR drop_bit 8 v;
               v = v OR drop_bit 16 v;
               v = v OR drop_bit 32 v
           in v + 1)"

text \<open>
  A cell holds its sequence number and its value; \<open>None\<close> stands for a value that was
  default-constructed or moved from.
\<close>

record 'a cell =
  sequence :: u64
  cdata :: "'a option"

record 'a lfq =
  lq_capacity :: u64
  lq_mask :: u64
  lq_head :: u64
  lq_tail :: u64
  lq_cells :: "'a cell list"

definition lfq_init :: "u64 \<Rightarrow> 'a lfq" where
  "lfq_init requested =
     (let capacity = round_up_pow2 requested
      in \<lparr>lq_capacity = capacity, lq_mask = capacity - 1, lq_head = 0, lq_tail = 0,
          lq_cells = map (\<lambda>i. \<lparr>sequence = of_nat i, cdata = None\<rparr>) [0..<unat capacity]\<rparr>)"

text \<open>\<open>cells_[pos & mask_]\<close>\<close>

definition cell_index :: "'a lfq \<Rightarrow> u64 \<Rightarrow> nat" where
  "cell_index q pos = unat (pos AND lq_mask q)"

definition cell_at :: "'a lfq \<Rightarrow> u64 \<Rightarrow> 'a cell" where
  "cell_at q pos = lq_cells q ! cell_index q pos"

text \<open>
  \<open>static_cast<intptr_t>(seq) - static_cast<intptr_t>(pos)\<close>, the two's complement reading of
  the 64-bit difference.
\<close>

definition seq_diff :: "u64 \<Rightarrow> u64 \<Rightarrow> int" where
  "seq_diff seq pos = sint (seq - pos)"

text \<open>
  The retry loop of \<open>TryPush\<close>, entered with the value of \<open>head_\<close> last read. The third
  branch of the code reloads \<open>head_\<close> and tries again: run alone, that may go on for ever, and
  \<open>None\<close> is that outcome.
\<close>

partial_function (option) try_push_loop :: "'a lfq \<Rightarrow> 'a \<Rightarrow> u64 \<Rightarrow> ('a lfq \<times> bool) option" where
  "try_push_loop q v pos =
     (let diff = seq_diff (sequence (cell_at q pos)) pos
      in if diff = 0 then
           (if lq_head q = pos then
              Some (q\<lparr>lq_head := pos + 1,
                      lq_cells := (lq_cells q)[cell_index q pos :=
                        \<lparr>sequence = pos + 1, cdata = Some v\<rparr>]\<rparr>, True)
            else try_push_loop q v (lq_head q))
         else if diff < 0 then Some (q, False)
         else try_push_loop q v (lq_head q))"

definition try_push :: "'a lfq \<Rightarrow> 'a \<Rightarrow> ('a lfq \<times> bool) option" where
  "try_push q v = try_push_loop q v (lq_head q)"

text \<open>
  \<open>TryPop\<close>: the result is the value moved out of the cell, \<open>None\<close> inside \<open>Some\<close> when the
  method returns false. A cell whose value was moved out keeps the moved-from value.
\<close>

partial_function (option) try_pop_loop :: "'a lfq \<Rightarrow> u64 \<Rightarrow> ('a lfq \<times> 'a option option) option" where
  "try_pop_loop q pos =
     (let c = cell_at q pos; diff = seq_diff (sequence c) (pos + 1)
      in if diff = 0 then
           (if lq_tail q = pos then
              Some (q\<lparr>lq_tail := pos + 1,
                      lq_cells := (lq_cells q)[cell_index q pos :=
                        \<lparr>sequence = pos + lq_capacity q, cdata = None\<rparr>]\<rparr>, Some (cdata c))
            else try_pop_loop q (lq_tail q))
         else if diff < 0 then Some (q, None)
         else try_pop_loop q (lq_tail q))"

definition try_pop :: "'a lfq \<Rightarrow> ('a lfq \<times> 'a option option) option" where
  "try_pop q = try_pop_loop q (lq_tail q)"

definition size_approx :: "'a lfq \<Rightarrow> u64" where
  "size_approx q = (if lq_tail q \<le> lq_head q then lq_head q - lq_tail q else 0)"

definition lfq_empty :: "'a lfq \<Rightarrow> bool" where
  "lfq_empty q \<longleftrightarrow> size_approx q = 0"

text \<open>
  \<open>static_cast<size_t>(capacity_ * ratio)\<close>. The capacity is a power of two, so the product of
  the two doubles is exact and the cast truncates it; the ratio is the real value of the double.
\<close>

definition watermark :: "'a lfq \<Rightarrow> real \<Rightarrow> int" where
  "watermark q ratio = \<lfloor>real (unat (lq_capacity q)) * ratio\<rfloor>"

definition above_high_watermark :: "'a lfq \<Rightarrow> real \<Rightarrow> bool" where
  "above_high_watermark q ratio \<longleftrightarrow> watermark q ratio < uint (size_approx q)"

definition below_low_watermark :: "'a lfq \<Rightarrow> real \<Rightarrow> bool" where
  "below_low_watermark q ratio \<longleftrightarrow> uint (size_approx q) < watermark q ratio"

text \<open>The destructor pops until the ring is empty.\<close>

partial_function (option) lfq_drain :: "'a lfq \<Rightarrow> 'a lfq option" where
  "lfq_drain q =
     (case try_pop q of
        None \<Rightarrow> None
      | Some (q', None) \<Rightarrow> Some q'
      | Some (q', Some _) \<Rightarrow> lfq_drain q')"

section \<open>RoundUpPow2\<close>

text \<open>
  After each smearing step the run of set bits below the highest one is twice as long.
\<close>

definition top_run :: "nat \<Rightarrow> nat \<Rightarrow> u64 \<Rightarrow> bool" where
  "top_run k n v \<longleftrightarrow> (\<forall>i. bit v i \<longrightarrow> i \<le> n) \<and> (\<forall>i \<le> n. n < i + k \<longrightarrow> bit v i)"

lemma top_run_smear:
  assumes "top_run k n v" "0 < k"
  shows "top_run (2 * k) n (v OR drop_bit k v)"
proof -
  have "bit v i \<or> bit v (i + k)" if "i \<le> n" "n < i + 2 * k" for i
    using assms that unfolding top_run_def by (cases "n < i + k") auto
  moreover have "i \<le> n" if "bit v i \<or> bit v (i + k)" for i
    using assms(1) that unfolding top_run_def by (auto dest: add_leD1)
  ultimately show ?thesis
    by (auto simp: top_run_def bit_simps add.commute)
qed

lemma top_run_full:
  assumes "top_run 64 n v" "n < 64"
  shows "v = mask (Suc n)"
proof (rule bit_word_eqI)
  fix i assume "i < LENGTH(64)"
  then show "bit v i = bit (mask (Suc n) :: u64) i"
    using assms unfolding top_run_def by (auto simp: bit_simps less_Suc_eq_le)
qed

lemma top_run_highest:
  assumes "2 ^ n \<le> unat (v :: u64)" "unat v < 2 ^ Suc n" "n < 64"
  shows "top_run 1 n v"
proof -
  have "i \<le> n" if "bit v i" for i
  proof (rule ccontr)
    assume "\<not> i \<le> n"
    then have "(2::nat) ^ Suc n \<le> 2 ^ i" by (intro power_increasing) auto
    moreover have "2 ^ i \<le> unat v" using that by (rule bit_imp_pow2_le)
    ultimately show False using assms(2) by simp
  qed
  moreover have "bit v n"
  proof -
    have "unat v div 2 ^ n = 1"
      using assms by (simp add: div_nat_eqI)
    then have "bit (unat v) n" by (simp add: bit_iff_odd)
    then show ?thesis by (simp add: bit_unsigned_iff)
  qed
  ultimately show ?thesis
    by (auto simp: top_run_def dest: le_antisym)
qed

lemma round_up_pow2_smear:
  assumes "1 < unat v" "2 ^ n \<le> unat (v - 1)" "unat (v - 1) < 2 ^ Suc n" "n < 64"
  shows "round_up_pow2 v = 2 ^ Suc n"
proof -
  have "top_run 1 n (v - 1)"
    using assms by (intro top_run_highest)
  note run = top_run_smear [OF this, simplified]
  note run = top_run_smear [OF run, simplified]
  note run = top_run_smear [OF run, simplified]
  note run = top_run_smear [OF run, simplified]
  note run = top_run_smear [OF run, simplified]
  note run = top_run_smear [OF run, simplified]
  have "v \<noteq> 0" using assms(1) by auto
  then have "round_up_pow2 v = mask (Suc n) + 1"
    using top_run_full [OF run \<open>n < 64\<close>] by (simp add: round_up_pow2_def Let_def)
  then show ?thesis by (simp add: mask_eq_exp_minus_1)
qed

text \<open>The least power of two that is at least the request, up to \<open>2 ^ 63\<close>.\<close>

lemma round_up_pow2_least:
  assumes "unat v \<le> 2 ^ 63"
  obtains k where "k \<le> 63" "round_up_pow2 v = 2 ^ k" "unat v \<le> 2 ^ k"
    "\<And>j. unat v \<le> 2 ^ j \<Longrightarrow> k \<le> j"
proof (cases "unat v \<le> 1")
  case True
  then have "unat v = 0 \<or> unat v = 1" by arith
  then have "v = 0 \<or> v = 1"
    by (metis unsigned_0 unsigned_1 unsigned_word_eqI)
  then have "round_up_pow2 v = 2 ^ 0"
    by (auto simp: round_up_pow2_def)
  then show ?thesis using True by (intro that [of 0]) auto
next
  case False
  have sub: "unat (v - 1) = unat v - 1"
    using False by (simp add: unat_sub word_le_nat_alt)
  define w where "w = unat v - 1"
  have "0 < w" using False by (simp add: w_def)
  then obtain n where n: "2 ^ n \<le> w" "w < 2 ^ Suc n"
    using ex_power_ivl1 [of 2 w] by auto
  have "(2::nat) ^ n < 2 ^ 63" using n(1) assms False by (simp add: w_def)
  then have "n < 63" by (simp only: power_strict_increasing_iff)
  show ?thesis
  proof (rule that [of "Suc n"])
    show "round_up_pow2 v = 2 ^ Suc n"
      using n False \<open>n < 63\<close> sub by (intro round_up_pow2_smear) (auto simp: w_def)
    show "unat v \<le> 2 ^ Suc n" using n(2) by (simp add: w_def)
    show "Suc n \<le> j" if "unat v \<le> 2 ^ j" for j
    proof -
      have "w < 2 ^ j" using that False by (simp add: w_def)
      then have "(2::nat) ^ n < 2 ^ j" using n(1) by (rule le_less_trans [rotated])
      then show ?thesis by (simp only: power_strict_increasing_iff)
    qed
  qed (use \<open>n < 63\<close> in simp)
qed

section \<open>The ring invariant\<close>

text \<open>
  \<open>lfq_holds k t q xs\<close>: the ring has \<open>2 ^ k\<close> cells, \<open>t\<close> values were ever popped (the words of
  the code are this number and those that follow it, modulo \<open>2 ^ 64\<close>), and \<open>xs\<close> are the
  queued values. The cell of position \<open>p\<close> says \<open>p + 1\<close> when it holds a value and \<open>p\<close> when it
  awaits one.
\<close>

definition cells_hold :: "nat \<Rightarrow> nat \<Rightarrow> 'a cell list \<Rightarrow> 'a list \<Rightarrow> bool" where
  "cells_hold k t cs xs \<longleftrightarrow>
     (\<forall>p. t \<le> p \<and> p < t + 2 ^ k \<longrightarrow>
        (if p < t + length xs
         then cs ! (p mod 2 ^ k) = \<lparr>sequence = of_nat (p + 1), cdata = Some (xs ! (p - t))\<rparr>
         else sequence (cs ! (p mod 2 ^ k)) = of_nat p))"

definition lfq_holds :: "nat \<Rightarrow> nat \<Rightarrow> 'a lfq \<Rightarrow> 'a list \<Rightarrow> bool" where
  "lfq_holds k t q xs \<longleftrightarrow>
     k < 64 \<and> lq_capacity q = 2 ^ k \<and> lq_mask q = 2 ^ k - 1 \<and> length (lq_cells q) = 2 ^ k \<and>
     lq_tail q = of_nat t \<and> lq_head q = of_nat (t + length xs) \<and> length xs \<le> 2 ^ k \<and>
     cells_hold k t (lq_cells q) xs"

lemma lfq_holds_index:
  assumes "lfq_holds k t q xs"
  shows "cell_index q (of_nat p) = p mod 2 ^ k"
  using assms of_nat_and_pow2_mask [of k p] by (simp add: cell_index_def lfq_holds_def)

lemma lfq_holds_cell:
  assumes "lfq_holds k t q xs" "t \<le> p" "p < t + 2 ^ k"
  shows "p < t + length xs \<Longrightarrow>
           cell_at q (of_nat p) = \<lparr>sequence = of_nat (p + 1), cdata = Some (xs ! (p - t))\<rparr>"
    and "t + length xs \<le> p \<Longrightarrow> sequence (cell_at q (of_nat p)) = of_nat p"
  using assms lfq_holds_index [OF assms(1), of p]
  unfolding cell_at_def lfq_holds_def cells_hold_def
  by (auto dest!: spec [of _ p])

lemma lfq_init_holds:
  assumes "round_up_pow2 n = 2 ^ k" "k < 64"
  shows "lfq_holds k 0 (lfq_init n) []"
proof -
  have "unat ((2::u64) ^ k) = 2 ^ k"
    using assms(2) by (rule unat_pow2_u64)
  then show ?thesis
    using assms by (simp add: lfq_holds_def cells_hold_def lfq_init_def Let_def)
qed

section \<open>The operations on a ring of at least two cells\<close>

lemma seq_diff_of_nat:
  assumes "int a - int b < 2 ^ 63" "- (2 ^ 63) \<le> int a - int b"
  shows "seq_diff (of_nat a) (of_nat b) = int a - int b"
  using assms unfolding seq_diff_def word_of_nat_diff_int by (intro sint_of_int_small)

lemma pow2_le_63: "k < 64 \<Longrightarrow> (2::int) ^ k \<le> 2 ^ 63"
  by (intro power_increasing) auto

lemma of_nat_Suc_word: "(of_nat p :: u64) + 1 = of_nat (p + 1)"
  by simp

text \<open>The cell that \<open>head_\<close> selects, and what the loop reads there.\<close>

lemma push_diff:
  assumes inv: "lfq_holds k t q xs" and "0 < k"
  shows "seq_diff (sequence (cell_at q (lq_head q))) (lq_head q) =
           (if length xs < 2 ^ k then 0 else 1 - 2 ^ k)"
proof (cases "length xs < 2 ^ k")
  case True
  then show ?thesis
    using lfq_holds_cell(2) [OF inv, of "t + length xs"] inv
    by (simp add: lfq_holds_def seq_diff_def)
next
  case False
  then have len: "length xs = 2 ^ k" using inv by (simp add: lfq_holds_def)
  have "cell_at q (of_nat (t + 2 ^ k)) = cell_at q (of_nat t)"
    using lfq_holds_index [OF inv] by (simp only: cell_at_def) simp
  also have "sequence \<dots> = of_nat (t + 1)"
    using lfq_holds_cell(1) [OF inv, of t] len by simp
  finally have seq: "sequence (cell_at q (lq_head q)) = of_nat (t + 1)"
    using inv len by (simp add: lfq_holds_def)
  have "(2::int) ^ k \<le> 2 ^ 63" using inv by (intro pow2_le_63) (simp add: lfq_holds_def)
  then have bound: "int (2 ^ k) \<le> 2 ^ 63" by simp
  have "seq_diff (of_nat (t + 1)) (of_nat (t + m)) = int (t + 1) - int (t + m)"
    if "0 < m" "int m \<le> 2 ^ 63" for m :: nat
    using that by (intro seq_diff_of_nat) auto
  from this [OF _ bound]
  have "seq_diff (of_nat (t + 1)) (of_nat (t + 2 ^ k)) = int (t + 1) - int (t + 2 ^ k)"
    by simp
  then show ?thesis
    using seq inv len False by (simp add: lfq_holds_def)
qed

lemma pop_diff:
  assumes inv: "lfq_holds k t q xs" and "0 < k"
  shows "seq_diff (sequence (cell_at q (lq_tail q))) (lq_tail q + 1) =
           (if xs = [] then -1 else 0)"
proof (cases xs)
  case Nil
  have "seq_diff (of_nat t) (of_nat (t + 1)) = int t - int (t + 1)"
    by (intro seq_diff_of_nat) auto
  then show ?thesis
    using lfq_holds_cell(2) [OF inv, of t] inv Nil by (simp add: lfq_holds_def add.commute)
next
  case (Cons x xs')
  then show ?thesis
    using lfq_holds_cell(1) [OF inv, of t] inv by (simp add: lfq_holds_def seq_diff_def)
qed

lemma try_push_full:
  assumes "lfq_holds k t q xs" "0 < k" "length xs = 2 ^ k"
  shows "try_push q v = Some (q, False)"
proof -
  have "(1::int) < 2 ^ k" using \<open>0 < k\<close> by simp
  then show ?thesis
    using push_diff [OF assms(1,2)] assms(3)
    by (simp add: try_push_def try_push_loop.simps [of q v] Let_def)
qed

lemma try_push_room:
  assumes inv: "lfq_holds k t q xs" and "0 < k" "length xs < 2 ^ k"
  shows "\<exists>q'. try_push q v = Some (q', True) \<and> lfq_holds k t q' (xs @ [v])"
proof -
  let ?p = "t + length xs"
  let ?q' = "q\<lparr>lq_head := of_nat (?p + 1),
                lq_cells := (lq_cells q)[?p mod 2 ^ k :=
                  \<lparr>sequence = of_nat (?p + 1), cdata = Some v\<rparr>]\<rparr>"
  have head: "lq_head q = of_nat ?p" using inv by (simp add: lfq_holds_def)
  have "try_push q v = Some (?q', True)"
    using push_diff [OF inv \<open>0 < k\<close>] assms(3) lfq_holds_index [OF inv, of ?p] head
    by (simp add: try_push_def try_push_loop.simps [of q v] Let_def add.commute)
  moreover have "lfq_holds k t ?q' (xs @ [v])"
  proof -
    define cs where "cs = lq_cells ?q'"
    have len: "length cs = 2 ^ k" using inv by (simp add: lfq_holds_def cs_def)
    have cells: "cs ! (p mod 2 ^ k) =
        (if p = ?p then \<lparr>sequence = of_nat (?p + 1), cdata = Some v\<rparr>
         else lq_cells q ! (p mod 2 ^ k))"
      if "t \<le> p" "p < t + 2 ^ k" for p
      using that inv assms(3) mod_window_unique [of t p "2 ^ k" ?p]
      by (auto simp: cs_def lfq_holds_def nth_list_update)
    have "cells_hold k t cs (xs @ [v])"
      unfolding cells_hold_def
    proof (intro allI impI, elim conjE)
      fix p assume that: "t \<le> p" "p < t + 2 ^ k"
      show "if p < t + length (xs @ [v])
          then cs ! (p mod 2 ^ k) = \<lparr>sequence = of_nat (p + 1), cdata = Some ((xs @ [v]) ! (p - t))\<rparr>
          else sequence (cs ! (p mod 2 ^ k)) = of_nat p"
        using inv that cells [OF that] unfolding lfq_holds_def cells_hold_def
        by (cases "p = ?p") (auto simp: nth_append dest!: spec [of _ p])
    qed
    then show ?thesis
      using inv assms(3) len unfolding lfq_holds_def cs_def by (simp add: add.commute)
  qed
  ultimately show ?thesis by blast
qed

lemma try_pop_empty:
  assumes "lfq_holds k t q []" "0 < k"
  shows "try_pop q = Some (q, None)"
  using pop_diff [OF assms] by (simp add: try_pop_def try_pop_loop.simps [of q] Let_def)

lemma try_pop_item:
  assumes inv: "lfq_holds k t q (x # xs)" and "0 < k"
  shows "\<exists>q'. try_pop q = Some (q', Some (Some x)) \<and> lfq_holds k (t + 1) q' xs"
proof -
  let ?q' = "q\<lparr>lq_tail := of_nat (t + 1),
                lq_cells := (lq_cells q)[t mod 2 ^ k :=
                  \<lparr>sequence = of_nat (t + 2 ^ k), cdata = None\<rparr>]\<rparr>"
  have tail: "lq_tail q = of_nat t" and cap: "lq_capacity q = 2 ^ k"
    using inv by (simp_all add: lfq_holds_def)
  have "try_pop q = Some (?q', Some (Some x))"
    using pop_diff [OF inv \<open>0 < k\<close>] lfq_holds_index [OF inv, of t]
      lfq_holds_cell(1) [OF inv, of t] tail cap
    by (simp add: try_pop_def try_pop_loop.simps [of q] Let_def add.commute)
  moreover have "lfq_holds k (t + 1) ?q' xs"
  proof -
    have other: "p mod 2 ^ k \<noteq> t mod 2 ^ k" if "t < p" "p < t + 2 ^ k" for p
      using that mod_window_unique [of t p "2 ^ k" t] by auto
    define cs where "cs = lq_cells ?q'"
    have len: "length cs = 2 ^ k" using inv by (simp add: lfq_holds_def cs_def)
    have cells: "cs ! (p mod 2 ^ k) =
        (if p = t + 2 ^ k then \<lparr>sequence = of_nat (t + 2 ^ k), cdata = None\<rparr>
         else lq_cells q ! (p mod 2 ^ k))"
      if "t + 1 \<le> p" "p < t + 1 + 2 ^ k" for p
      using that inv other [of p] by (auto simp: cs_def lfq_holds_def)
    have "cells_hold k (t + 1) cs xs"
      unfolding cells_hold_def
    proof (intro allI impI, elim conjE)
      fix p assume that: "t + 1 \<le> p" "p < t + 1 + 2 ^ k"
      show "if p < t + 1 + length xs
          then cs ! (p mod 2 ^ k) = \<lparr>sequence = of_nat (p + 1), cdata = Some (xs ! (p - (t + 1)))\<rparr>
          else sequence (cs ! (p mod 2 ^ k)) = of_nat p"
        using inv that cells [OF that] unfolding lfq_holds_def cells_hold_def
        by (cases "p = t + 2 ^ k") (auto simp: nth_Cons' dest!: spec [of _ p])
    qed
    then show ?thesis
      using inv len unfolding lfq_holds_def cs_def by (simp add: add.commute)
  qed
  ultimately show ?thesis by blast
qed

section \<open>The bounded FIFO interface\<close>

text \<open>
  What a client of the ring relies on: a push into a queue with room appends, a push into a full
  one is refused and changes nothing, a pop takes the oldest value. Both calls return.
\<close>

locale bounded_fifo =
  fixes fifo :: "'q \<Rightarrow> nat \<Rightarrow> 'a list \<Rightarrow> bool"
    and push :: "'q \<Rightarrow> 'a \<Rightarrow> ('q \<times> bool) option"
    and pop :: "'q \<Rightarrow> ('q \<times> 'a option option) option"
  assumes push_room: "fifo q c xs \<Longrightarrow> length xs < c \<Longrightarrow>
            \<exists>q'. push q x = Some (q', True) \<and> fifo q' c (xs @ [x])"
    and push_full: "fifo q c xs \<Longrightarrow> \<not> length xs < c \<Longrightarrow> push q x = Some (q, False)"
    and pop_item: "fifo q c (x # xs) \<Longrightarrow>
            \<exists>q'. pop q = Some (q', Some (Some x)) \<and> fifo q' c xs"
    and pop_empty: "fifo q c [] \<Longrightarrow> pop q = Some (q, None)"
    and fifo_bound: "fifo q c xs \<Longrightarrow> length xs \<le> c"
begin

lemma push_cases:
  assumes "fifo q c xs"
  obtains q' where "push q x = Some (q', length xs < c)"
    "fifo q' c (if length xs < c then xs @ [x] else xs)"
    "\<not> length xs < c \<Longrightarrow> q' = q"
  using assms push_room [OF assms, of x] push_full [OF assms, of x]
  by (cases "length xs < c") auto

lemma pop_cases:
  assumes "fifo q c xs"
  obtains q' where
    "pop q = Some (q', case xs of [] \<Rightarrow> None | x # _ \<Rightarrow> Some (Some x))" "fifo q' c (tl xs)"
    "xs = [] \<Longrightarrow> q' = q"
  using assms pop_item [of q c "hd xs" "tl xs"] pop_empty [of q c]
  by (cases xs) auto

text \<open>Evicting the oldest value of a full queue makes room for one push.\<close>

lemma evict_then_push:
  assumes "fifo q c xs" "length xs = c" "0 < c"
  obtains q1 q2 where "pop q = Some (q1, Some (Some (hd xs)))" "push q1 x = Some (q2, True)"
    "fifo q2 c (tl xs @ [x])"
proof -
  from assms(2,3) obtain y ys where xs: "xs = y # ys" by (cases xs) auto
  with assms(1) obtain q1 where q1: "pop q = Some (q1, Some (Some y))" "fifo q1 c ys"
    using pop_item [of q c y ys] by auto
  moreover have "length ys < c" using assms(2) xs by simp
  ultimately show ?thesis
    using that [of q1] push_room [of q1 c ys x] xs by auto
qed

end

text \<open>The ring of \<open>c\<close> cells, whatever number of values went through it.\<close>

definition lfq_fifo :: "'a lfq \<Rightarrow> nat \<Rightarrow> 'a list \<Rightarrow> bool" where
  "lfq_fifo q c xs \<longleftrightarrow> (\<exists>k t. 0 < k \<and> c = 2 ^ k \<and> lfq_holds k t q xs)"

interpretation ring: bounded_fifo lfq_fifo try_push try_pop
proof
  show "\<exists>q'. try_push q x = Some (q', True) \<and> lfq_fifo q' c (xs @ [x])"
    if "lfq_fifo q c xs" "length xs < c" for q :: "'a lfq" and c xs x
  proof -
    from that obtain k t where k: "0 < k" "c = 2 ^ k" "lfq_holds k t q xs"
      by (auto simp: lfq_fifo_def)
    then show ?thesis using try_push_room [OF k(3,1), of x] that(2) by (auto simp: lfq_fifo_def)
  qed
  show "try_push q x = Some (q, False)"
    if "lfq_fifo q c xs" "\<not> length xs < c" for q :: "'a lfq" and c xs x
  proof -
    from that obtain k t where k: "0 < k" "c = 2 ^ k" "lfq_holds k t q xs"
      by (auto simp: lfq_fifo_def)
    then have "length xs = 2 ^ k" using that(2) by (simp add: lfq_holds_def)
    then show ?thesis using try_push_full [OF k(3,1)] by simp
  qed
  show "\<exists>q'. try_pop q = Some (q', Some (Some x)) \<and> lfq_fifo q' c xs"
    if "lfq_fifo q c (x # xs)" for q :: "'a lfq" and c x xs
  proof -
    from that obtain k t where k: "0 < k" "c = 2 ^ k" "lfq_holds k t q (x # xs)"
      by (auto simp: lfq_fifo_def)
    then show ?thesis using try_pop_item [OF k(3,1)] by (auto simp: lfq_fifo_def)
  qed
  show "try_pop q = Some (q, None)" if "lfq_fifo q c []" for q :: "'a lfq" and c
    using that try_pop_empty by (auto simp: lfq_fifo_def)
  show "length xs \<le> c" if "lfq_fifo q c xs" for q :: "'a lfq" and c xs
    using that unfolding lfq_fifo_def lfq_holds_def by auto
qed

lemma lfq_init_fifo:
  assumes "2 \<le> unat n" "unat n \<le> 2 ^ 63"
  shows "lfq_fifo (lfq_init n) (unat (round_up_pow2 n)) []"
proof -
  obtain k where k: "k \<le> 63" "round_up_pow2 n = 2 ^ k" "unat n \<le> 2 ^ k"
    using round_up_pow2_least [OF assms(2)] by metis
  have "0 < k" using k(3) assms(1) by (cases k) auto
  then show ?thesis
    using k lfq_init_holds [OF k(2)] by (auto simp: lfq_fifo_def unat_pow2_u64)
qed

section \<open>Runs against the list specification\<close>

text \<open>
  A client's calls, and the queue of the specification: a list of at most \<open>c\<close> values. Each call
  reports what the method returns.
\<close>

datatype 'a queue_op = Push 'a | Pop

datatype 'a queue_ret = Pushed bool | Popped "'a option"

fun spec_run :: "nat \<Rightarrow> 'a list \<Rightarrow> 'a queue_op list \<Rightarrow> 'a list \<times> 'a queue_ret list" where
  "spec_run c xs [] = (xs, [])"
| "spec_run c xs (Push x # ops) =
     (if length xs < c
      then (let (ys, rs) = spec_run c (xs @ [x]) ops in (ys, Pushed True # rs))
      else (let (ys, rs) = spec_run c xs ops in (ys, Pushed False # rs)))"
| "spec_run c xs (Pop # ops) =
     (case xs of
        [] \<Rightarrow> (let (ys, rs) = spec_run c [] ops in (ys, Popped None # rs))
      | x # xs' \<Rightarrow> (let (ys, rs) = spec_run c xs' ops in (ys, Popped (Some x) # rs)))"

text \<open>The same calls on the ring; \<open>None\<close> when a call does not return.\<close>

fun lfq_run :: "'a lfq \<Rightarrow> 'a queue_op list \<Rightarrow> ('a lfq \<times> 'a queue_ret list) option" where
  "lfq_run q [] = Some (q, [])"
| "lfq_run q (Push x # ops) =
     (case try_push q x of
        None \<Rightarrow> None
      | Some (q', b) \<Rightarrow> map_option (\<lambda>(q'', rs). (q'', Pushed b # rs)) (lfq_run q' ops))"
| "lfq_run q (Pop # ops) =
     (case try_pop q of
        None \<Rightarrow> None
      | Some (q', r) \<Rightarrow>
          map_option (\<lambda>(q'', rs). (q'', Popped (Option.bind r (\<lambda>y. y)) # rs)) (lfq_run q' ops))"

lemma lfq_run_refines:
  assumes "lfq_fifo q c xs"
  shows "\<exists>q'. lfq_run q ops = Some (q', snd (spec_run c xs ops)) \<and>
              lfq_fifo q' c (fst (spec_run c xs ops))"
  using assms
proof (induction ops arbitrary: q xs)
  case Nil
  then show ?case by simp
next
  case (Cons op ops)
  show ?case
  proof (cases op)
    case (Push x)
    from ring.push_cases [OF Cons.prems, of x] obtain q1
      where q1: "try_push q x = Some (q1, length xs < c)"
        "lfq_fifo q1 c (if length xs < c then xs @ [x] else xs)" by metis
    from Cons.IH [OF q1(2)] show ?thesis
      using q1(1) Push by (auto split: prod.splits)
  next
    case Pop
    from ring.pop_cases [OF Cons.prems] obtain q1
      where q1: "try_pop q = Some (q1, case xs of [] \<Rightarrow> None | x # _ \<Rightarrow> Some (Some x))"
        "lfq_fifo q1 c (tl xs)" by metis
    from Cons.IH [OF q1(2)] show ?thesis
      using q1(1) Pop by (auto split: prod.splits list.splits)
  qed
qed

section \<open>The size and the watermarks\<close>

lemma size_approx_exact:
  assumes "lfq_holds k t q xs" "t + length xs < 2 ^ 64"
  shows "size_approx q = of_nat (length xs)" "uint (size_approx q) = int (length xs)"
proof -
  have u: "unat (of_nat n :: u64) = n" if "n < 2 ^ 64" for n
    using that by (simp add: unsigned_of_nat take_bit_nat_eq_self)
  have "lq_tail q \<le> lq_head q"
    using assms u [of t] u [of "t + length xs"]
    by (simp add: lfq_holds_def word_le_nat_alt del: of_nat_add)
  then show size: "size_approx q = of_nat (length xs)"
    using assms(1) by (simp add: size_approx_def lfq_holds_def)
  show "uint (size_approx q) = int (length xs)"
    using assms(2) u [of "length xs"] by (simp add: size uint_nat)
qed

section \<open>A ring of one cell\<close>

text \<open>
  \<open>LockFreeQueue(1)\<close> and \<open>LockFreeQueue(0)\<close> get one cell, and one cell does not tell a full
  ring from an empty one: the second push overwrites the value the first one stored, and no
  later pop returns.
\<close>

definition one_cell_stuck :: "'a \<Rightarrow> 'a lfq" where
  "one_cell_stuck b = \<lparr>lq_capacity = 1, lq_mask = 0, lq_head = 2, lq_tail = 0,
     lq_cells = [\<lparr>sequence = 2, cdata = Some b\<rparr>]\<rparr>"

lemma one_cell_init:
  "lfq_init 1 = \<lparr>lq_capacity = 1, lq_mask = 0, lq_head = 0, lq_tail = 0,
     lq_cells = [\<lparr>sequence = 0, cdata = None\<rparr>]\<rparr>"
  by (simp add: lfq_init_def round_up_pow2_def Let_def)

lemma one_cell_overwrites:
  "try_push (lfq_init 1) a = Some (q1, r1) \<Longrightarrow> r1 \<and> try_push q1 b = Some (one_cell_stuck b, True)"
  by (auto simp: one_cell_init one_cell_stuck_def try_push_def try_push_loop.simps
      cell_index_def cell_at_def seq_diff_def)

lemma one_cell_pop_loop:
  assumes ret: "try_pop_loop q pos = Some r"
  shows "\<not> (q = one_cell_stuck b \<and> pos = 0)"
proof (rule try_pop_loop.raw_induct
    [where P = "\<lambda>q pos r. \<not> (q = one_cell_stuck b \<and> pos = 0)", OF _ ret])
  fix f :: "'a lfq \<Rightarrow> u64 \<Rightarrow> ('a lfq \<times> 'a option option) option" and q pos r
  assume IH: "\<And>q pos r. f q pos = Some r \<Longrightarrow> \<not> (q = one_cell_stuck b \<and> pos = 0)"
    and eq: "(let c = cell_at q pos; diff = seq_diff (sequence c) (pos + 1)
       in if diff = 0 then
            (if lq_tail q = pos then
               Some (q\<lparr>lq_tail := pos + 1,
                       lq_cells := (lq_cells q)[cell_index q pos :=
                         \<lparr>sequence = pos + lq_capacity q, cdata = None\<rparr>]\<rparr>, Some (cdata c))
             else f q (lq_tail q))
          else if diff < 0 then Some (q, None)
          else f q (lq_tail q)) = Some r"
  show "\<not> (q = one_cell_stuck b \<and> pos = 0)"
  proof
    assume stuck: "q = one_cell_stuck b \<and> pos = 0"
    with eq have "f (one_cell_stuck b) 0 = Some r"
      by (simp add: one_cell_stuck_def cell_index_def cell_at_def seq_diff_def)
    then show False using IH by blast
  qed
qed

lemma one_cell_pop_diverges: "try_pop (one_cell_stuck b) = None"
proof (cases "try_pop (one_cell_stuck b)")
  case (Some r)
  then have "try_pop_loop (one_cell_stuck b) 0 = Some r"
    by (simp add: try_pop_def one_cell_stuck_def)
  from one_cell_pop_loop [OF this, of b] show ?thesis by simp
qed

section \<open>Properties\<close>

text \<open>
  \<open>RoundUpPow2\<close> returns the least power of two that is at least its argument, for every
  argument up to \<open>2 ^ 63\<close>.
\<close>

theorem round_up_pow2_correct:
  assumes "unat v \<le> 2 ^ 63"
  shows "\<exists>k \<le> 63. round_up_pow2 v = 2 ^ k \<and> unat v \<le> 2 ^ k \<and> (\<forall>j. unat v \<le> 2 ^ j \<longrightarrow> k \<le> j)"
  using round_up_pow2_least [OF assms] by metis

theorem round_up_pow2_correct_witness:
  "round_up_pow2 1000 = 1024 \<and>
   (\<exists>k \<le> 63. round_up_pow2 1000 = 2 ^ k \<and> unat (1000 :: u64) \<le> 2 ^ k \<and>
      (\<forall>j. unat (1000 :: u64) \<le> 2 ^ j \<longrightarrow> k \<le> j))"
proof
  show "round_up_pow2 1000 = 1024" by code_simp
  have h: "unat (1000 :: u64) \<le> 2 ^ 63" by simp
  show "\<exists>k \<le> 63. round_up_pow2 1000 = 2 ^ k \<and> unat (1000 :: u64) \<le> 2 ^ k \<and>
      (\<forall>j. unat (1000 :: u64) \<le> 2 ^ j \<longrightarrow> k \<le> j)"
    by (rule round_up_pow2_correct [OF h])
qed

text \<open>
  C2: a ring built for at least two values behaves, on every sequence of pushes and pops, as the
  bounded list of its rounded capacity: every call returns, a push is refused exactly when the list
  is full, a pop returns the oldest value. The 64-bit positions may wrap.
\<close>

theorem lfq_refines_bounded_list:
  assumes "2 \<le> unat n" "unat n \<le> 2 ^ 63"
  shows "\<exists>q. lfq_run (lfq_init n) ops =
               Some (q, snd (spec_run (unat (round_up_pow2 n)) [] ops)) \<and>
             lfq_fifo q (unat (round_up_pow2 n)) (fst (spec_run (unat (round_up_pow2 n)) [] ops))"
  using lfq_run_refines [OF lfq_init_fifo [OF assms]] by blast

theorem lfq_refines_bounded_list_witness:
  "\<exists>q. lfq_run (lfq_init 2) [Push 5, Push (6::nat), Push 7, Pop] =
         Some (q, [Pushed True, Pushed True, Pushed False, Popped (Some 5)])"
proof -
  have cap: "round_up_pow2 2 = 2" by (simp add: round_up_pow2_def Let_def)
  have h: "2 \<le> unat (2 :: u64)" "unat (2 :: u64) \<le> 2 ^ 63" by simp_all
  show ?thesis
    using lfq_refines_bounded_list [OF h, of "[Push 5, Push (6::nat), Push 7, Pop]"]
    by (auto simp: cap)
qed

text \<open>
  The ring of one cell is not a queue. Both pushes into \<open>LockFreeQueue(1)\<close> are accepted, the
  second over the first value, and the pop that follows never returns.
\<close>

theorem one_cell_ring_breaks:
  "\<exists>q. lfq_run (lfq_init 1) [Push a, Push b] = Some (q, [Pushed True, Pushed True]) \<and>
       cdata (lq_cells q ! 0) = Some b \<and> try_pop q = None \<and>
       lfq_run (lfq_init 1) [Push a, Push b, Pop] = None"
proof -
  obtain q1 where q1: "try_push (lfq_init 1) a = Some (q1, True)"
    by (auto simp: one_cell_init try_push_def try_push_loop.simps
        cell_index_def cell_at_def seq_diff_def)
  with one_cell_overwrites [OF q1, of b] one_cell_pop_diverges [of b] show ?thesis
    by (simp add: one_cell_stuck_def)
qed

end
