(* ===== verification/AsyncChannel.thy ===== *)
theory AsyncChannel
  imports LockFreeQueue
begin

text \<open>
  The pipeline's channel (\<open>src/core/engine/async_channel.h\<close>): the ring carries batches and
  flush sentinels, two drop policies decide what a full ring does, and every call keeps the
  statistics and the back-pressure flag. A call of the ring that does not return makes the
  channel's call not return: the outer \<open>option\<close>.
\<close>

section \<open>Data\<close>

datatype 'b channel_item = Data 'b | FlushSentinel

datatype drop_policy = DropNewest | DropOldest

record channel_stats =
  st_enqueued :: u64
  st_dropped :: u64
  st_dequeued :: u64
  st_flush_injected :: u64
  st_backpressure_events :: u64

record 'b channel =
  ch_queue :: "'b channel_item lfq"
  ch_stats :: channel_stats
  ch_backpressured :: bool
  ch_policy :: drop_policy
  ch_high_wm :: real
  ch_low_wm :: real

definition channel_init :: "u64 \<Rightarrow> drop_policy \<Rightarrow> real \<Rightarrow> real \<Rightarrow> 'b channel" where
  "channel_init capacity policy high low =
     \<lparr>ch_queue = lfq_init capacity,
      ch_stats = \<lparr>st_enqueued = 0, st_dropped = 0, st_dequeued = 0, st_flush_injected = 0,
                  st_backpressure_events = 0\<rparr>,
      ch_backpressured = False, ch_policy = policy, ch_high_wm = high, ch_low_wm = low\<rparr>"

section \<open>Counters\<close>

definition count_enqueued :: "'b channel \<Rightarrow> 'b channel" where
  "count_enqueued ch =
     ch\<lparr>ch_stats := (ch_stats ch)\<lparr>st_enqueued := st_enqueued (ch_stats ch) + 1\<rparr>\<rparr>"

definition count_dropped :: "'b channel \<Rightarrow> 'b channel" where
  "count_dropped ch =
     ch\<lparr>ch_stats := (ch_stats ch)\<lparr>st_dropped := st_dropped (ch_stats ch) + 1\<rparr>\<rparr>"

definition count_dequeued :: "'b channel \<Rightarrow> 'b channel" where
  "count_dequeued ch =
     ch\<lparr>ch_stats := (ch_stats ch)\<lparr>st_dequeued := st_dequeued (ch_stats ch) + 1\<rparr>\<rparr>"

definition count_flush_injected :: "'b channel \<Rightarrow> 'b channel" where
  "count_flush_injected ch =
     ch\<lparr>ch_stats := (ch_stats ch)\<lparr>st_flush_injected := st_flush_injected (ch_stats ch) + 1\<rparr>\<rparr>"

section \<open>Operations\<close>

text \<open>\<open>UpdateBackpressure\<close>; run alone its compare-exchange of the flag succeeds.\<close>

definition update_backpressure :: "'b channel \<Rightarrow> 'b channel" where
  "update_backpressure ch =
     (if \<not> ch_backpressured ch \<and> above_high_watermark (ch_queue ch) (ch_high_wm ch)
      then ch\<lparr>ch_backpressured := True,
              ch_stats := (ch_stats ch)\<lparr>st_backpressure_events :=
                             st_backpressure_events (ch_stats ch) + 1\<rparr>\<rparr>
      else if ch_backpressured ch \<and> below_low_watermark (ch_queue ch) (ch_low_wm ch)
      then ch\<lparr>ch_backpressured := False\<rparr>
      else ch)"

text \<open>
  \<open>TryEnqueue\<close>. A refused first push leaves the item with the caller; \<open>kDropOldest\<close> then pops
  one item, whatever it is, and pushes again.
\<close>

definition enqueue_rejected :: "'b channel \<Rightarrow> 'b channel \<times> bool" where
  "enqueue_rejected ch = (update_backpressure (count_dropped ch), False)"

definition enqueue_evicting :: "'b channel \<Rightarrow> 'b channel_item \<Rightarrow> ('b channel \<times> bool) option" where
  "enqueue_evicting ch item =
     (case try_pop (ch_queue ch) of
        None \<Rightarrow> None
      | Some (q, discarded) \<Rightarrow>
          let ch = ch\<lparr>ch_queue := q\<rparr>;
              ch = (if discarded = None then ch else count_dropped ch)
          in case try_push (ch_queue ch) item of
               None \<Rightarrow> None
             | Some (q, True) \<Rightarrow>
                 Some (update_backpressure (count_enqueued (ch\<lparr>ch_queue := q\<rparr>)), True)
             | Some (q, False) \<Rightarrow> Some (enqueue_rejected (ch\<lparr>ch_queue := q\<rparr>)))"

definition try_enqueue :: "'b channel \<Rightarrow> 'b \<Rightarrow> ('b channel \<times> bool) option" where
  "try_enqueue ch batch =
     (case try_push (ch_queue ch) (Data batch) of
        None \<Rightarrow> None
      | Some (q, True) \<Rightarrow>
          Some (update_backpressure (count_enqueued (ch\<lparr>ch_queue := q\<rparr>)), True)
      | Some (q, False) \<Rightarrow>
          let ch = ch\<lparr>ch_queue := q\<rparr>
          in if ch_policy ch = DropOldest then enqueue_evicting ch (Data batch)
             else Some (enqueue_rejected ch))"

text \<open>\<open>InjectFlush\<close>: whatever the policy, a full ring loses its oldest item to the sentinel.\<close>

definition inject_flush :: "'b channel \<Rightarrow> ('b channel \<times> bool) option" where
  "inject_flush ch =
     (case try_push (ch_queue ch) FlushSentinel of
        None \<Rightarrow> None
      | Some (q, True) \<Rightarrow> Some (count_flush_injected (ch\<lparr>ch_queue := q\<rparr>), True)
      | Some (q, False) \<Rightarrow>
          (case try_pop q of
             None \<Rightarrow> None
           | Some (q, discarded) \<Rightarrow>
               let ch = ch\<lparr>ch_queue := q\<rparr>;
                   ch = (if discarded = None then ch else count_dropped ch)
               in case try_push (ch_queue ch) FlushSentinel of
                    None \<Rightarrow> None
                  | Some (q, True) \<Rightarrow> Some (count_flush_injected (ch\<lparr>ch_queue := q\<rparr>), True)
                  | Some (q, False) \<Rightarrow> Some (ch\<lparr>ch_queue := q\<rparr>, False)))"

text \<open>
  \<open>TryDequeue\<close>, and one poll of \<open>Dequeue\<close>. The item popped from a cell nobody wrote would be the
  default-constructed variant; the inner \<open>None\<close> of the ring stands for it.
\<close>

definition try_dequeue ::
  "'b channel \<Rightarrow> ('b channel \<times> 'b channel_item option option) option" where
  "try_dequeue ch =
     (case try_pop (ch_queue ch) of
        None \<Rightarrow> None
      | Some (q, None) \<Rightarrow> Some (ch\<lparr>ch_queue := q\<rparr>, None)
      | Some (q, Some item) \<Rightarrow>
          Some (update_backpressure (count_dequeued (ch\<lparr>ch_queue := q\<rparr>)), Some item))"

text \<open>
  \<open>Dequeue\<close> polls the ring 16 times spinning, 8 times after a yield and then once per
  millisecond while the deadline has not passed. What the other threads do to the channel
  before each poll is the list \<open>env\<close>: its first 24 entries are the first two phases, and the rest
  of it are the polls before the deadline.
\<close>

fun dequeue_polls ::
  "('b channel \<Rightarrow> 'b channel) list \<Rightarrow> 'b channel \<Rightarrow>
     ('b channel \<times> 'b channel_item option option) option" where
  "dequeue_polls [] ch = Some (ch, None)"
| "dequeue_polls (others # env) ch =
     (case try_dequeue (others ch) of
        None \<Rightarrow> None
      | Some (ch', Some item) \<Rightarrow> Some (ch', Some item)
      | Some (ch', None) \<Rightarrow> dequeue_polls env ch')"

definition spin_polls :: nat where "spin_polls = 16"

definition yield_polls :: nat where "yield_polls = 8"

definition dequeue ::
  "(nat \<Rightarrow> 'b channel \<Rightarrow> 'b channel) \<Rightarrow> nat \<Rightarrow> 'b channel \<Rightarrow>
     ('b channel \<times> 'b channel_item option option) option" where
  "dequeue others sleep_polls ch =
     dequeue_polls (map others [0..<spin_polls + yield_polls + sleep_polls]) ch"

section \<open>The channel invariant\<close>

text \<open>
  \<open>channel_holds c n ch xs\<close>: the channel has \<open>c\<close> cells, its ring has handed out \<open>n < 2 ^ 64\<close> push
  positions so far, and \<open>xs\<close> is what is queued.
\<close>

definition channel_holds :: "nat \<Rightarrow> nat \<Rightarrow> 'b channel \<Rightarrow> 'b channel_item list \<Rightarrow> bool" where
  "channel_holds c n ch xs \<longleftrightarrow>
     (\<exists>k t. 0 < k \<and> c = 2 ^ k \<and> n = t + length xs \<and> lfq_holds k t (ch_queue ch) xs)"

lemma channel_holds_fifo: "channel_holds c n ch xs \<Longrightarrow> lfq_fifo (ch_queue ch) c xs"
  unfolding channel_holds_def lfq_fifo_def by blast

lemma channel_holds_bound: "channel_holds c n ch xs \<Longrightarrow> length xs \<le> c \<and> 0 < c"
  unfolding channel_holds_def lfq_holds_def by auto

lemma channel_holds_queue:
  "ch_queue ch' = ch_queue ch \<Longrightarrow> channel_holds c n ch xs \<Longrightarrow> channel_holds c n ch' xs"
  by (simp add: channel_holds_def)

lemma queue_counters [simp]:
  "ch_queue (count_enqueued ch) = ch_queue ch"
  "ch_queue (count_dropped ch) = ch_queue ch"
  "ch_queue (count_dequeued ch) = ch_queue ch"
  "ch_queue (count_flush_injected ch) = ch_queue ch"
  "ch_queue (update_backpressure ch) = ch_queue ch"
  by (simp_all add: count_enqueued_def count_dropped_def count_dequeued_def
      count_flush_injected_def update_backpressure_def)

lemma set_queue_count_dropped:
  "(count_dropped ch)\<lparr>ch_queue := q\<rparr> = count_dropped (ch\<lparr>ch_queue := q\<rparr>)"
  by (cases ch) (simp add: count_dropped_def)

lemma channel_init_holds:
  assumes "2 \<le> unat capacity" "unat capacity \<le> 2 ^ 63"
  shows "channel_holds (unat (round_up_pow2 capacity)) 0
           (channel_init capacity policy high low) []"
proof -
  obtain k where k: "k \<le> 63" "round_up_pow2 capacity = 2 ^ k" "unat capacity \<le> 2 ^ k"
    using round_up_pow2_least [OF assms(2)] by metis
  have "0 < k" using k(3) assms(1) by (cases k) auto
  then show ?thesis
    using k lfq_init_holds [OF k(2)]
    by (auto simp: channel_holds_def channel_init_def unat_pow2_u64)
qed

text \<open>The three ways a call changes the ring, in terms of the invariant.\<close>

lemma ring_push_room:
  assumes "channel_holds c n ch xs" "length xs < c"
  obtains q where "try_push (ch_queue ch) x = Some (q, True)"
    "channel_holds c (n + 1) (ch\<lparr>ch_queue := q\<rparr>) (xs @ [x])"
  using assms try_push_room [where v = x] unfolding channel_holds_def
  by fastforce

lemma ring_push_full:
  assumes "channel_holds c n ch xs" "length xs = c"
  shows "try_push (ch_queue ch) x = Some (ch_queue ch, False)"
  using assms ring.push_full [OF channel_holds_fifo [OF assms(1)]] by simp

lemma ring_pop_item:
  assumes "channel_holds c n ch (x # xs)"
  obtains q where "try_pop (ch_queue ch) = Some (q, Some (Some x))"
    "channel_holds c n (ch\<lparr>ch_queue := q\<rparr>) xs"
  using assms try_pop_item unfolding channel_holds_def by fastforce

section \<open>What each call does\<close>

lemma try_enqueue_room:
  assumes "channel_holds c n ch xs" "length xs < c"
  shows "\<exists>q. try_enqueue ch b = Some (update_backpressure (count_enqueued (ch\<lparr>ch_queue := q\<rparr>)), True) \<and>
             channel_holds c (n + 1) (ch\<lparr>ch_queue := q\<rparr>) (xs @ [Data b])"
  by (rule ring_push_room [OF assms, of "Data b"]) (auto simp: try_enqueue_def)

lemma try_enqueue_reject:
  assumes "channel_holds c n ch xs" "length xs = c" "ch_policy ch = DropNewest"
  shows "try_enqueue ch b = Some (update_backpressure (count_dropped ch), False)"
  using ring_push_full [OF assms(1,2), of "Data b"] assms(3)
  by (simp add: try_enqueue_def enqueue_rejected_def)

lemma ring_evict_push:
  assumes "channel_holds c n ch xs" "length xs = c"
  obtains q1 q2 y where "try_pop (ch_queue ch) = Some (q1, Some (Some y))"
    "try_push q1 x = Some (q2, True)" "channel_holds c (n + 1) (ch\<lparr>ch_queue := q2\<rparr>) (tl xs @ [x])"
proof -
  have "xs \<noteq> []" using assms channel_holds_bound by fastforce
  then obtain y ys where xs: "xs = y # ys" by (cases xs) auto
  with assms(1) obtain q1 where q1: "try_pop (ch_queue ch) = Some (q1, Some (Some y))"
    "channel_holds c n (ch\<lparr>ch_queue := q1\<rparr>) ys"
    by (auto elim: ring_pop_item)
  have "length ys < c" using assms(2) xs by simp
  from ring_push_room [OF q1(2) this, of x] obtain q2 where
    "try_push q1 x = Some (q2, True)" "channel_holds c (n + 1) (ch\<lparr>ch_queue := q2\<rparr>) (ys @ [x])"
    by auto
  with that [OF q1(1), of q2] xs show ?thesis by simp
qed

lemma try_enqueue_evict:
  assumes "channel_holds c n ch xs" "length xs = c" "ch_policy ch = DropOldest"
  shows "\<exists>q. try_enqueue ch b =
               Some (update_backpressure (count_enqueued (count_dropped (ch\<lparr>ch_queue := q\<rparr>))), True) \<and>
             channel_holds c (n + 1) (ch\<lparr>ch_queue := q\<rparr>) (tl xs @ [Data b])"
proof -
  from assms(1,2) obtain q1 q2 y where
    q: "try_pop (ch_queue ch) = Some (q1, Some (Some y))" "try_push q1 (Data b) = Some (q2, True)"
      "channel_holds c (n + 1) (ch\<lparr>ch_queue := q2\<rparr>) (tl xs @ [Data b])"
    by (rule ring_evict_push)
  then have "try_enqueue ch b =
      Some (update_backpressure (count_enqueued (count_dropped (ch\<lparr>ch_queue := q2\<rparr>))), True)"
    using ring_push_full [OF assms(1,2), of "Data b"] assms(3)
    by (simp add: try_enqueue_def enqueue_evicting_def Let_def set_queue_count_dropped)
  with q(3) show ?thesis by blast
qed

lemma inject_flush_room:
  assumes "channel_holds c n ch xs" "length xs < c"
  shows "\<exists>q. inject_flush ch = Some (count_flush_injected (ch\<lparr>ch_queue := q\<rparr>), True) \<and>
             channel_holds c (n + 1) (ch\<lparr>ch_queue := q\<rparr>) (xs @ [FlushSentinel])"
  by (rule ring_push_room [OF assms, of FlushSentinel]) (auto simp: inject_flush_def)

lemma inject_flush_evict:
  assumes "channel_holds c n ch xs" "length xs = c"
  shows "\<exists>q. inject_flush ch =
               Some (count_flush_injected (count_dropped (ch\<lparr>ch_queue := q\<rparr>)), True) \<and>
             channel_holds c (n + 1) (ch\<lparr>ch_queue := q\<rparr>) (tl xs @ [FlushSentinel])"
proof -
  from assms obtain q1 q2 y where
    q: "try_pop (ch_queue ch) = Some (q1, Some (Some y))" "try_push q1 FlushSentinel = Some (q2, True)"
      "channel_holds c (n + 1) (ch\<lparr>ch_queue := q2\<rparr>) (tl xs @ [FlushSentinel])"
    by (rule ring_evict_push)
  then have "inject_flush ch = Some (count_flush_injected (count_dropped (ch\<lparr>ch_queue := q2\<rparr>)), True)"
    using ring_push_full [OF assms, of FlushSentinel]
    by (simp add: inject_flush_def Let_def set_queue_count_dropped)
  with q(3) show ?thesis by blast
qed

lemma try_dequeue_item:
  assumes "channel_holds c n ch (x # xs)"
  shows "\<exists>q. try_dequeue ch =
               Some (update_backpressure (count_dequeued (ch\<lparr>ch_queue := q\<rparr>)), Some (Some x)) \<and>
             channel_holds c n (ch\<lparr>ch_queue := q\<rparr>) xs"
  by (rule ring_pop_item [OF assms]) (auto simp: try_dequeue_def)

lemma try_dequeue_empty:
  assumes "channel_holds c n ch []"
  shows "try_dequeue ch = Some (ch, None)"
  using ring.pop_empty [OF channel_holds_fifo [OF assms]] by (simp add: try_dequeue_def)

section \<open>Runs of calls against the list specification\<close>

datatype 'b channel_op = Enqueue 'b | Inject | Dequeue

datatype 'b channel_ret = Enqueued bool | Injected bool | Dequeued "'b channel_item option"

definition channel_step :: "'b channel \<Rightarrow> 'b channel_op \<Rightarrow> ('b channel \<times> 'b channel_ret) option" where
  "channel_step ch op =
     (case op of
        Enqueue b \<Rightarrow> map_option (map_prod id Enqueued) (try_enqueue ch b)
      | Inject \<Rightarrow> map_option (map_prod id Injected) (inject_flush ch)
      | Dequeue \<Rightarrow> map_option (map_prod id (\<lambda>r. Dequeued (Option.bind r (\<lambda>i. i)))) (try_dequeue ch))"

fun channel_run ::
  "'b channel \<Rightarrow> 'b channel_op list \<Rightarrow> ('b channel \<times> 'b channel_ret list) option" where
  "channel_run ch [] = Some (ch, [])"
| "channel_run ch (op # ops) =
     (case channel_step ch op of
        None \<Rightarrow> None
      | Some (ch', r) \<Rightarrow> map_option (\<lambda>(ch'', rs). (ch'', r # rs)) (channel_run ch' ops))"

text \<open>
  The specification: a queue of at most \<open>c\<close> items that drops its oldest item to a sentinel, and to
  a batch under \<open>DropOldest\<close>, and refuses the batch under \<open>DropNewest\<close>.
\<close>

fun channel_spec ::
  "nat \<Rightarrow> drop_policy \<Rightarrow> 'b channel_item list \<Rightarrow> 'b channel_op \<Rightarrow>
     'b channel_item list \<times> 'b channel_ret" where
  "channel_spec c policy xs (Enqueue b) =
     (if length xs < c then (xs @ [Data b], Enqueued True)
      else if policy = DropOldest then (tl xs @ [Data b], Enqueued True)
      else (xs, Enqueued False))"
| "channel_spec c policy xs Inject =
     ((if length xs < c then xs else tl xs) @ [FlushSentinel], Injected True)"
| "channel_spec c policy xs Dequeue =
     (case xs of [] \<Rightarrow> ([], Dequeued None) | x # xs' \<Rightarrow> (xs', Dequeued (Some x)))"

fun channel_spec_run ::
  "nat \<Rightarrow> drop_policy \<Rightarrow> 'b channel_item list \<Rightarrow> 'b channel_op list \<Rightarrow>
     'b channel_item list \<times> 'b channel_ret list" where
  "channel_spec_run c policy xs [] = (xs, [])"
| "channel_spec_run c policy xs (op # ops) =
     (let (xs', r) = channel_spec c policy xs op;
          (xs'', rs) = channel_spec_run c policy xs' ops
      in (xs'', r # rs))"

text \<open>What the counters owe: every item that came in left, was dropped or is still there.\<close>

definition balance :: "'b channel \<Rightarrow> u64" where
  "balance ch =
     st_enqueued (ch_stats ch) + st_flush_injected (ch_stats ch)
     - st_dequeued (ch_stats ch) - st_dropped (ch_stats ch)"

lemma balance_counters [simp]:
  "balance (count_enqueued ch) = balance ch + 1"
  "balance (count_flush_injected ch) = balance ch + 1"
  "balance (count_dropped ch) = balance ch - 1"
  "balance (count_dequeued ch) = balance ch - 1"
  "balance (update_backpressure ch) = balance ch"
  "balance (ch\<lparr>ch_queue := q\<rparr>) = balance ch"
  by (simp_all add: balance_def count_enqueued_def count_flush_injected_def count_dropped_def
      count_dequeued_def update_backpressure_def)

lemma policy_counters [simp]:
  "ch_policy (count_enqueued ch) = ch_policy ch"
  "ch_policy (count_flush_injected ch) = ch_policy ch"
  "ch_policy (count_dropped ch) = ch_policy ch"
  "ch_policy (count_dequeued ch) = ch_policy ch"
  "ch_policy (update_backpressure ch) = ch_policy ch"
  by (simp_all add: count_enqueued_def count_flush_injected_def count_dropped_def
      count_dequeued_def update_backpressure_def)

text \<open>The number of batches a call refused.\<close>

fun refused :: "'b channel_ret \<Rightarrow> nat" where
  "refused (Enqueued b) = (if b then 0 else 1)"
| "refused (Injected b) = 0"
| "refused (Dequeued r) = 0"

lemma channel_step_refines:
  assumes "channel_holds c n ch xs" "ch_policy ch = policy"
    "channel_spec c policy xs op = (xs', r)"
  shows "\<exists>ch' n'. channel_step ch op = Some (ch', r) \<and> channel_holds c n' ch' xs' \<and>
           ch_policy ch' = policy \<and> n' \<le> n + 1 \<and>
           balance ch' + of_nat (length xs) + of_nat (refused r) = balance ch + of_nat (length xs')"
proof (cases op)
  case (Enqueue b)
  consider "length xs < c" | "length xs = c" "policy = DropOldest" | "length xs = c" "policy = DropNewest"
    using channel_holds_bound [OF assms(1)] by (cases policy) fastforce+
  then show ?thesis
  proof cases
    case 1
    from try_enqueue_room [OF assms(1) 1, of b] show ?thesis
      using assms Enqueue 1 by (force simp: channel_step_def elim: channel_holds_queue [rotated])
  next
    case 2
    then have "xs \<noteq> []" using channel_holds_bound [OF assms(1)] by auto
    then show ?thesis
      using assms Enqueue 2 try_enqueue_evict [OF assms(1) 2(1), of b]
      by (force simp: channel_step_def elim: channel_holds_queue [rotated])
  next
    case 3
    then show ?thesis
      using assms Enqueue 3 try_enqueue_reject [OF assms(1) 3(1), of b]
      by (force simp: channel_step_def elim: channel_holds_queue [rotated])
  qed
next
  case Inject
  show ?thesis
  proof (cases "length xs < c")
    case True
    then show ?thesis
      using assms Inject inject_flush_room [OF assms(1) True]
      by (force simp: channel_step_def elim: channel_holds_queue [rotated])
  next
    case False
    then have full: "length xs = c" "xs \<noteq> []" using channel_holds_bound [OF assms(1)] by auto
    then show ?thesis
      using assms Inject inject_flush_evict [OF assms(1) full(1)]
      by (force simp: channel_step_def elim: channel_holds_queue [rotated])
  qed
next
  case Dequeue
  show ?thesis
  proof (cases xs)
    case Nil
    then show ?thesis
      using assms Dequeue try_dequeue_empty [of c n ch] by (force simp: channel_step_def)
  next
    case (Cons y ys)
    then show ?thesis
      using assms Dequeue try_dequeue_item [of c n ch y ys]
      by (force simp: channel_step_def elim: channel_holds_queue [rotated])
  qed
qed

lemma channel_run_refines:
  assumes "channel_holds c n ch xs" "ch_policy ch = policy"
    "channel_spec_run c policy xs ops = (xs', rs)"
  shows "\<exists>ch' n'. channel_run ch ops = Some (ch', rs) \<and> channel_holds c n' ch' xs' \<and>
           ch_policy ch' = policy \<and> n' \<le> n + length ops \<and>
           balance ch' + of_nat (length xs) + of_nat (sum_list (map refused rs))
             = balance ch + of_nat (length xs')"
  using assms
proof (induction ops arbitrary: n ch xs rs)
  case Nil
  then show ?case by auto
next
  case (Cons op ops)
  obtain xs1 r where s1: "channel_spec c policy xs op = (xs1, r)" by (meson surj_pair)
  obtain rs1 where s2: "channel_spec_run c policy xs1 ops = (xs', rs1)" and rs: "rs = r # rs1"
    using Cons.prems(3) s1 by (auto split: prod.splits)
  from channel_step_refines [OF Cons.prems(1,2) s1] obtain ch1 n1 where
    step: "channel_step ch op = Some (ch1, r)" "channel_holds c n1 ch1 xs1" "ch_policy ch1 = policy"
      "n1 \<le> n + 1"
      "balance ch1 + of_nat (length xs) + of_nat (refused r) = balance ch + of_nat (length xs1)"
    by blast
  from Cons.IH [OF step(2,3) s2] obtain ch2 n2 where
    run: "channel_run ch1 ops = Some (ch2, rs1)" "channel_holds c n2 ch2 xs'"
      "ch_policy ch2 = policy" "n2 \<le> n1 + length ops"
      "balance ch2 + of_nat (length xs1) + of_nat (sum_list (map refused rs1))
         = balance ch1 + of_nat (length xs')"
    by blast
  have "balance ch2 + of_nat (length xs) + of_nat (sum_list (map refused rs))
          = balance ch + of_nat (length xs')"
    using balance_chain [OF step(5) run(5)] rs by simp
  with run step rs show ?case by auto
qed

section \<open>Back-pressure\<close>

text \<open>
  The flag is settled when it agrees with the watermarks: raised only while the ring is not below
  the low one, lowered only while it is not above the high one.
\<close>

definition bp_settled :: "'b channel \<Rightarrow> bool" where
  "bp_settled ch \<longleftrightarrow>
     (if ch_backpressured ch then \<not> below_low_watermark (ch_queue ch) (ch_low_wm ch)
      else \<not> above_high_watermark (ch_queue ch) (ch_high_wm ch))"

lemma update_backpressure_settles:
  assumes "0 \<le> ch_low_wm ch" "ch_low_wm ch \<le> ch_high_wm ch"
  shows "bp_settled (update_backpressure ch)"
proof -
  have "watermark (ch_queue ch) (ch_low_wm ch) \<le> watermark (ch_queue ch) (ch_high_wm ch)"
    unfolding watermark_def
    by (intro floor_mono mult_left_mono assms(2) of_nat_0_le_iff)
  then show ?thesis
    by (auto simp: bp_settled_def update_backpressure_def above_high_watermark_def
        below_low_watermark_def)
qed

lemma update_backpressure_events:
  "st_backpressure_events (ch_stats (update_backpressure ch)) =
     st_backpressure_events (ch_stats ch)
     + (if \<not> ch_backpressured ch \<and> ch_backpressured (update_backpressure ch) then 1 else 0)"
  by (auto simp: update_backpressure_def)

lemma watermarks_counters [simp]:
  "ch_low_wm (count_enqueued ch) = ch_low_wm ch" "ch_high_wm (count_enqueued ch) = ch_high_wm ch"
  "ch_low_wm (count_dropped ch) = ch_low_wm ch" "ch_high_wm (count_dropped ch) = ch_high_wm ch"
  "ch_low_wm (count_dequeued ch) = ch_low_wm ch" "ch_high_wm (count_dequeued ch) = ch_high_wm ch"
  by (simp_all add: count_enqueued_def count_dropped_def count_dequeued_def)

lemma try_enqueue_settles:
  assumes "channel_holds c n ch xs" "0 \<le> ch_low_wm ch" "ch_low_wm ch \<le> ch_high_wm ch"
    "try_enqueue ch b = Some (ch', r)"
  shows "bp_settled ch'"
proof -
  consider "length xs < c" | "length xs = c" "ch_policy ch = DropOldest"
    | "length xs = c" "ch_policy ch = DropNewest"
    using channel_holds_bound [OF assms(1)] by (cases "ch_policy ch") fastforce+
  then show ?thesis
  proof cases
    case 1
    then show ?thesis
      using try_enqueue_room [OF assms(1), of b] assms by (auto intro!: update_backpressure_settles)
  next
    case 2
    then show ?thesis
      using try_enqueue_evict [OF assms(1), of b] assms by (auto intro!: update_backpressure_settles)
  next
    case 3
    then show ?thesis
      using try_enqueue_reject [OF assms(1), of b] assms by (auto intro!: update_backpressure_settles)
  qed
qed

lemma try_dequeue_settles:
  assumes "channel_holds c n ch (x # xs)" "0 \<le> ch_low_wm ch" "ch_low_wm ch \<le> ch_high_wm ch"
    "try_dequeue ch = Some (ch', r)"
  shows "bp_settled ch'"
  using try_dequeue_item [OF assms(1)] assms by (auto intro!: update_backpressure_settles)

section \<open>The polling consumer\<close>

text \<open>
  While the other threads leave the channel in a state the invariant describes, each poll either
  takes the oldest item or finds nothing, so the call returns.
\<close>

definition env_safe :: "nat \<Rightarrow> ('b channel \<Rightarrow> 'b channel) \<Rightarrow> bool" where
  "env_safe c others \<longleftrightarrow>
     (\<forall>n ch xs. channel_holds c n ch xs \<longrightarrow> (\<exists>n' xs'. channel_holds c n' (others ch) xs'))"

lemma dequeue_polls_returns:
  assumes "\<And>e. e \<in> set env \<Longrightarrow> env_safe c e" "channel_holds c n ch xs"
  shows "\<exists>ch' r n' xs'. dequeue_polls env ch = Some (ch', r) \<and> channel_holds c n' ch' xs' \<and>
           r \<noteq> Some None"
  using assms
proof (induction env arbitrary: n ch xs)
  case Nil
  then show ?case by auto
next
  case (Cons e env)
  then obtain n1 xs1 where h1: "channel_holds c n1 (e ch) xs1"
    unfolding env_safe_def by (metis list.set_intros(1))
  show ?case
  proof (cases xs1)
    case Nil
    then show ?thesis
      using Cons.IH [OF _ h1] Cons.prems(1) try_dequeue_empty [of c n1 "e ch"] h1 by simp
  next
    case (Cons x xs2)
    from try_dequeue_item [OF h1 [unfolded Cons]] obtain q where
      q: "try_dequeue (e ch) =
            Some (update_backpressure (count_dequeued ((e ch)\<lparr>ch_queue := q\<rparr>)), Some (Some x))"
        "channel_holds c n1 ((e ch)\<lparr>ch_queue := q\<rparr>) xs2"
      by blast
    have "channel_holds c n1 (update_backpressure (count_dequeued ((e ch)\<lparr>ch_queue := q\<rparr>))) xs2"
      using q(2) by (rule channel_holds_queue [rotated]) simp
    with q(1) show ?thesis by auto
  qed
qed

text \<open>An item that is there when the consumer starts polling is taken by the first poll.\<close>

lemma dequeue_first_poll:
  assumes "channel_holds c n ch (x # xs)" "others 0 = id"
  shows "\<exists>ch'. dequeue others sleep_polls ch = Some (ch', Some (Some x)) \<and> channel_holds c n ch' xs"
proof -
  have polls: "[0..<spin_polls + yield_polls + sleep_polls] = 0 # [1..<24 + sleep_polls]"
    by (simp add: spin_polls_def yield_polls_def upt_conv_Cons)
  from try_dequeue_item [OF assms(1)] obtain q where
    q: "try_dequeue ch =
          Some (update_backpressure (count_dequeued (ch\<lparr>ch_queue := q\<rparr>)), Some (Some x))"
      "channel_holds c n (ch\<lparr>ch_queue := q\<rparr>) xs"
    by blast
  have "channel_holds c n (update_backpressure (count_dequeued (ch\<lparr>ch_queue := q\<rparr>))) xs"
    using q(2) by (rule channel_holds_queue [rotated]) simp
  with q(1) assms(2) polls show ?thesis
    by (simp add: dequeue_def)
qed

section \<open>Properties\<close>

text \<open>
  C3: a channel of at least two cells implements the list specification on every sequence of
  \<open>TryEnqueue\<close>, \<open>InjectFlush\<close> and \<open>TryDequeue\<close> calls: all calls return, batches and sentinels
  leave in the order they came, a full channel refuses the new batch under \<open>kDropNewest\<close> and drops
  its oldest item under \<open>kDropOldest\<close>, and a sentinel is never refused.
\<close>

theorem channel_refines_spec:
  assumes "2 \<le> unat capacity" "unat capacity \<le> 2 ^ 63"
  shows "\<exists>ch. channel_run (channel_init capacity policy high low) ops =
                Some (ch, snd (channel_spec_run (unat (round_up_pow2 capacity)) policy [] ops)) \<and>
              lfq_fifo (ch_queue ch) (unat (round_up_pow2 capacity))
                (fst (channel_spec_run (unat (round_up_pow2 capacity)) policy [] ops))"
proof -
  have "ch_policy (channel_init capacity policy high low) = policy"
    by (simp add: channel_init_def)
  from channel_run_refines [OF channel_init_holds [OF assms] this] channel_holds_fifo
  show ?thesis by (metis surjective_pairing)
qed

theorem channel_refines_spec_witness:
  "\<exists>ch. channel_run (channel_init 2 DropNewest (4/5) (1/5))
          [Enqueue (1::nat), Enqueue 2, Enqueue 3, Inject, Dequeue] =
        Some (ch, [Enqueued True, Enqueued True, Enqueued False, Injected True,
                   Dequeued (Some (Data 2))])"
proof -
  have cap: "round_up_pow2 2 = 2" by (simp add: round_up_pow2_def Let_def)
  have h: "2 \<le> unat (2 :: u64)" "unat (2 :: u64) \<le> 2 ^ 63" by simp_all
  show ?thesis
    using channel_refines_spec [OF h, of DropNewest "4/5" "1/5"
        "[Enqueue (1::nat), Enqueue 2, Enqueue 3, Inject, Dequeue]"]
    by (auto simp: cap)
qed

text \<open>
  The channel's books balance after any sequence of calls, modulo the counters' \<open>2 ^ 64\<close>: what
  was enqueued or injected, plus the batches refused, is what was dequeued, dropped or is still
  queued.
\<close>

theorem channel_conservation:
  assumes "2 \<le> unat capacity" "unat capacity \<le> 2 ^ 63"
    "channel_spec_run (unat (round_up_pow2 capacity)) policy [] ops = (xs, rs)"
  shows "\<exists>ch. channel_run (channel_init capacity policy high low) ops = Some (ch, rs) \<and>
    st_enqueued (ch_stats ch) + st_flush_injected (ch_stats ch) + of_nat (sum_list (map refused rs))
      = st_dequeued (ch_stats ch) + st_dropped (ch_stats ch) + of_nat (length xs)"
proof -
  let ?ch0 = "channel_init capacity policy high low"
  have "ch_policy ?ch0 = policy" "balance ?ch0 = 0"
    by (simp_all add: channel_init_def balance_def)
  with channel_run_refines [OF channel_init_holds [OF assms(1,2)] _ assms(3)]
  obtain ch where "channel_run ?ch0 ops = Some (ch, rs)"
    "balance ch + of_nat (sum_list (map refused rs)) = of_nat (length xs)"
    by fastforce
  then show ?thesis by (auto simp: balance_def algebra_simps)
qed

theorem channel_conservation_witness:
  "\<exists>ch. channel_run (channel_init 2 DropNewest (4/5) (1/5))
          [Enqueue (1::nat), Enqueue 2, Enqueue 3, Inject, Dequeue] =
        Some (ch, [Enqueued True, Enqueued True, Enqueued False, Injected True,
                   Dequeued (Some (Data 2))]) \<and>
     st_enqueued (ch_stats ch) + st_flush_injected (ch_stats ch) + 1
       = st_dequeued (ch_stats ch) + st_dropped (ch_stats ch) + 1"
proof -
  have cap: "round_up_pow2 2 = 2" by (simp add: round_up_pow2_def Let_def)
  have h: "2 \<le> unat (2 :: u64)" "unat (2 :: u64) \<le> 2 ^ 63" by simp_all
  have spec: "channel_spec_run (unat (round_up_pow2 2)) DropNewest []
      [Enqueue (1::nat), Enqueue 2, Enqueue 3, Inject, Dequeue] =
    ([FlushSentinel], [Enqueued True, Enqueued True, Enqueued False, Injected True,
                       Dequeued (Some (Data 2))])"
    by (simp add: cap)
  show ?thesis
    using channel_conservation [OF h spec, of "4/5" "1/5"] by simp
qed

text \<open>
  Hysteresis. When a call that updates the flag returns, a raised flag means the ring is not
  below the low watermark and a lowered one that it is not above the high watermark; the counter of
  back-pressure events grows exactly when the flag rises.
\<close>

theorem backpressure_hysteresis:
  assumes "0 \<le> ch_low_wm ch" "ch_low_wm ch \<le> ch_high_wm ch"
  shows "bp_settled (update_backpressure ch) \<and>
    st_backpressure_events (ch_stats (update_backpressure ch)) =
      st_backpressure_events (ch_stats ch)
      + (if \<not> ch_backpressured ch \<and> ch_backpressured (update_backpressure ch) then 1 else 0) \<and>
    (channel_holds c n ch xs \<longrightarrow> n < 2 ^ 64 \<longrightarrow>
       (ch_backpressured (update_backpressure ch) \<longleftrightarrow>
          (if ch_backpressured ch then \<lfloor>real c * ch_low_wm ch\<rfloor> \<le> int (length xs)
           else \<lfloor>real c * ch_high_wm ch\<rfloor> < int (length xs))))"
proof (intro conjI impI)
  assume h: "channel_holds c n ch xs" "n < 2 ^ 64"
  then obtain k t where k: "c = 2 ^ k" "n = t + length xs" "lfq_holds k t (ch_queue ch) xs"
    by (auto simp: channel_holds_def)
  then have cap: "unat (lq_capacity (ch_queue ch)) = c"
    by (simp add: lfq_holds_def unat_pow2_u64)
  have size: "uint (size_approx (ch_queue ch)) = int (length xs)"
    using size_approx_exact(2) [OF k(3)] h(2) k(2) by simp
  show "ch_backpressured (update_backpressure ch) \<longleftrightarrow>
          (if ch_backpressured ch then \<lfloor>real c * ch_low_wm ch\<rfloor> \<le> int (length xs)
           else \<lfloor>real c * ch_high_wm ch\<rfloor> < int (length xs))"
    by (auto simp: update_backpressure_def above_high_watermark_def below_low_watermark_def
        watermark_def cap size simp del: of_nat_unat)
qed (use update_backpressure_settles [OF assms] update_backpressure_events in blast)+

theorem backpressure_hysteresis_witness:
  "bp_settled (update_backpressure (channel_init 2 DropNewest (4/5) (1/5) :: nat channel)) \<and>
   \<not> ch_backpressured (update_backpressure (channel_init 2 DropNewest (4/5) (1/5) :: nat channel))"
proof -
  let ?ch = "channel_init 2 DropNewest (4/5) (1/5) :: nat channel"
  have h: "0 \<le> ch_low_wm ?ch" "ch_low_wm ?ch \<le> ch_high_wm ?ch"
    by (simp_all add: channel_init_def)
  have cap: "round_up_pow2 2 = 2" by (simp add: round_up_pow2_def Let_def)
  have holds: "channel_holds 2 0 ?ch []"
    using channel_init_holds [of 2] by (simp add: cap)
  show ?thesis
    using backpressure_hysteresis [OF h, of 2 0 "[]"] holds
    by (simp add: channel_init_def)
qed

text \<open>
  A flush sentinel injected into a full channel is placed behind everything queued and costs
  the oldest item, whatever the drop policy says and whether that item is a batch or an earlier
  sentinel; the loss is counted as dropped and the back-pressure flag is left alone.
\<close>

theorem inject_flush_into_full:
  assumes "channel_holds c n ch (x # xs)" "length (x # xs) = c"
  shows "\<exists>ch'. inject_flush ch = Some (ch', True) \<and>
           channel_holds c (n + 1) ch' (xs @ [FlushSentinel]) \<and>
           st_dropped (ch_stats ch') = st_dropped (ch_stats ch) + 1 \<and>
           ch_backpressured ch' = ch_backpressured ch"
proof -
  from inject_flush_evict [OF assms] obtain q where
    q: "inject_flush ch = Some (count_flush_injected (count_dropped (ch\<lparr>ch_queue := q\<rparr>)), True)"
      "channel_holds c (n + 1) (ch\<lparr>ch_queue := q\<rparr>) (tl (x # xs) @ [FlushSentinel])"
    by blast
  have "channel_holds c (n + 1) (count_flush_injected (count_dropped (ch\<lparr>ch_queue := q\<rparr>)))
          (xs @ [FlushSentinel])"
    using q(2) by (auto elim: channel_holds_queue [rotated])
  with q(1) show ?thesis
    by (auto simp: count_flush_injected_def count_dropped_def)
qed

theorem inject_flush_into_full_witness:
  "\<exists>ch :: nat channel. (\<exists>n. channel_holds 2 n ch [Data 1, FlushSentinel]) \<and>
     ch_policy ch = DropNewest \<and>
     (\<exists>n ch'. inject_flush ch = Some (ch', True) \<and>
        channel_holds 2 n ch' [FlushSentinel, FlushSentinel])"
proof -
  have cap: "round_up_pow2 2 = 2" by (simp add: round_up_pow2_def Let_def)
  have holds: "channel_holds 2 0 (channel_init 2 DropNewest 1 0 :: nat channel) []"
    using channel_init_holds [of 2] by (simp add: cap)
  have pol: "ch_policy (channel_init 2 DropNewest 1 0 :: nat channel) = DropNewest"
    by (simp add: channel_init_def)
  have spec: "channel_spec_run 2 DropNewest [] [Enqueue (1::nat), Inject] =
      ([Data 1, FlushSentinel], [Enqueued True, Injected True])" by simp
  from channel_run_refines [OF holds pol spec] obtain ch n where
    ch: "channel_holds 2 n ch [Data (1::nat), FlushSentinel]" "ch_policy ch = DropNewest"
    by blast
  have len: "length [Data (1::nat), FlushSentinel] = 2" by simp
  from inject_flush_into_full [OF ch(1) len] obtain ch' where
    "inject_flush ch = Some (ch', True)" "channel_holds 2 (n + 1) ch' ([FlushSentinel] @ [FlushSentinel])"
    by blast
  with ch show ?thesis by auto
qed

end
