(* ===== verification/Decimal.thy ===== *)
theory Decimal
  imports Prelude
begin

text \<open>
  The decimal conversions of the C++ standard library that the sources call: \<open>std::to_string\<close> on
  integers, and \<open>std::stoll\<close>, \<open>stoi\<close>, \<open>stoul\<close> and \<open>stoull\<close>, whose exceptions (no digits, value out of
  range) are the result \<open>None\<close>. Trailing characters are ignored, as the functions do when the
  caller passes no position. The round trips and the separator lemmas are what the components
  that build keys and read configuration values rest on.
\<close>

section \<open>Printing\<close>

definition digit_char :: "nat \<Rightarrow> char" where
  "digit_char d = char_of (48 + d)"

fun show_nat :: "nat \<Rightarrow> string" where
  "show_nat n = (if n < 10 then [digit_char n] else show_nat (n div 10) @ [digit_char (n mod 10)])"

declare show_nat.simps [simp del]

definition show_int :: "int \<Rightarrow> string" where
  "show_int i = (if i < 0 then CHR ''-'' # show_nat (nat (- i)) else show_nat (nat i))"

section \<open>Reading\<close>

definition is_space :: "char \<Rightarrow> bool" where
  "is_space c \<longleftrightarrow> (let k = (of_char c :: nat) in k = 32 \<or> 9 \<le> k \<and> k \<le> 13)"

definition is_digit :: "char \<Rightarrow> bool" where
  "is_digit c \<longleftrightarrow> (let k = (of_char c :: nat) in 48 \<le> k \<and> k \<le> 57)"

definition digit_value :: "char \<Rightarrow> nat" where
  "digit_value c = of_char c - 48"

fun digits_value :: "nat \<Rightarrow> string \<Rightarrow> nat" where
  "digits_value acc [] = acc"
| "digits_value acc (c # cs) =
     (if is_digit c then digits_value (10 * acc + digit_value c) cs else acc)"

definition scan_number :: "string \<Rightarrow> (bool \<times> nat) option" where
  "scan_number s =
     (let s = dropWhile is_space s;
          (neg, s) = (case s of [] \<Rightarrow> (False, [])
                      | c # cs \<Rightarrow> if c = CHR ''-'' then (True, cs)
                                else if c = CHR ''+'' then (False, cs) else (False, c # cs))
      in case s of [] \<Rightarrow> None
         | c # cs \<Rightarrow> if is_digit c then Some (neg, digits_value 0 s) else None)"

definition sto_signed :: "nat \<Rightarrow> string \<Rightarrow> int option" where
  "sto_signed w s =
     (case scan_number s of None \<Rightarrow> None
      | Some (neg, n) \<Rightarrow>
          let i = (if neg then - int n else int n)
          in if - (2 ^ (w - 1)) \<le> i \<and> i < 2 ^ (w - 1) then Some i else None)"

definition stoll :: "string \<Rightarrow> int option" where
  "stoll = sto_signed 64"

definition stoi :: "string \<Rightarrow> int option" where
  "stoi = sto_signed 32"

text \<open>The unsigned conversions accept a sign and negate modulo \<open>2 ^ 64\<close>.\<close>

definition stoul :: "string \<Rightarrow> u64 option" where
  "stoul s =
     (case scan_number s of None \<Rightarrow> None
      | Some (neg, n) \<Rightarrow> if n < 2 ^ 64 then Some (if neg then - of_nat n else of_nat n) else None)"

section \<open>Digits\<close>

lemma of_char_digit [simp]: "d < 10 \<Longrightarrow> (of_char (digit_char d) :: nat) = 48 + d"
  by (simp add: digit_char_def)

lemma is_digit_char [simp]: "d < 10 \<Longrightarrow> is_digit (digit_char d)"
  by (simp add: is_digit_def)

lemma digit_value_char [simp]: "d < 10 \<Longrightarrow> digit_value (digit_char d) = d"
  by (simp add: digit_value_def)

lemma digit_char_literals:
  "digit_char 0 = CHR ''0''" "digit_char 1 = CHR ''1''" "digit_char 2 = CHR ''2''"
  "digit_char 3 = CHR ''3''" "digit_char 4 = CHR ''4''" "digit_char 5 = CHR ''5''"
  "digit_char 6 = CHR ''6''" "digit_char 7 = CHR ''7''" "digit_char 8 = CHR ''8''"
  "digit_char 9 = CHR ''9''"
  by code_simp+

lemmas show_nat_eval = show_nat.simps digit_char_literals digit_char_literals(2) [unfolded One_nat_def]

lemma not_digit_literals [simp]:
  "\<not> is_digit (CHR ''-'')" "\<not> is_digit (CHR ''+'')" "\<not> is_digit (CHR '','')"
  "\<not> is_digit (CHR '';'')" "\<not> is_digit (CHR '':'')" "\<not> is_digit (CHR ''|'')"
  "\<not> is_digit (CHR '' '')" "\<not> is_digit (CHR ''.'')" "\<not> is_digit (CHR ''_'')"
  by (simp_all add: is_digit_def)

lemma not_space_digit: "is_digit c \<Longrightarrow> \<not> is_space c"
  by (auto simp: is_digit_def is_space_def Let_def)

lemma show_nat_not_empty [simp]: "show_nat n \<noteq> []"
  by (subst show_nat.simps) simp

lemma show_nat_digits: "list_all is_digit (show_nat n)"
proof (induction n rule: show_nat.induct)
  case (1 n)
  then show ?case by (subst show_nat.simps) simp
qed

lemma show_nat_hd: obtains c cs where "show_nat n = c # cs" "is_digit c"
  using show_nat_digits [of n] show_nat_not_empty [of n]
  by (cases "show_nat n") auto

lemma digits_value_append_all:
  "list_all is_digit ds \<Longrightarrow> digits_value acc (ds @ rest) = digits_value (digits_value acc ds) rest"
  by (induction ds arbitrary: acc) auto

lemma digits_value_show: "digits_value 0 (show_nat n) = n"
proof (induction n rule: show_nat.induct)
  case (1 n)
  show ?case
  proof (cases "n < 10")
    case True
    then show ?thesis by (subst show_nat.simps) simp
  next
    case False
    with 1 show ?thesis
      by (subst show_nat.simps) (simp add: digits_value_append_all show_nat_digits)
  qed
qed

lemma digits_value_stop:
  "rest = [] \<or> \<not> is_digit (hd rest) \<Longrightarrow> digits_value acc rest = acc"
  by (cases rest) auto

section \<open>Round trips and separators\<close>

lemma scan_show_nat:
  "rest = [] \<or> \<not> is_digit (hd rest) \<Longrightarrow> scan_number (show_nat n @ rest) = Some (False, n)"
proof -
  assume r: "rest = [] \<or> \<not> is_digit (hd rest)"
  obtain c cs where c: "show_nat n = c # cs" "is_digit c" by (rule show_nat_hd)
  then have sign: "c \<noteq> CHR ''-''" "c \<noteq> CHR ''+''" "\<not> is_space c"
    using not_digit_literals not_space_digit by metis+
  have v: "digits_value 0 (show_nat n @ rest) = n"
    using r by (simp add: digits_value_append_all show_nat_digits digits_value_show digits_value_stop)
  show ?thesis
    using c sign v by (simp add: scan_number_def)
qed

lemma scan_show_neg: "scan_number (CHR ''-'' # show_nat n) = Some (True, n)"
proof -
  obtain c cs where c: "show_nat n = c # cs" "is_digit c" by (rule show_nat_hd)
  then have "digits_value 0 (c # cs) = n" using digits_value_show [of n] by simp
  then show ?thesis using c by (simp add: scan_number_def is_space_def)
qed

lemma sto_signed_show:
  "- (2 ^ (w - 1)) \<le> i \<Longrightarrow> i < 2 ^ (w - 1) \<Longrightarrow> sto_signed w (show_int i) = Some i"
  using scan_show_nat [of "[]" "nat i"]
  by (auto simp: sto_signed_def show_int_def scan_show_neg)

lemma stoll_show: "- (2 ^ 63) \<le> i \<Longrightarrow> i < 2 ^ 63 \<Longrightarrow> stoll (show_int i) = Some i"
  unfolding stoll_def by (rule sto_signed_show) simp_all

lemma stoul_show: "n < 2 ^ 64 \<Longrightarrow> stoul (show_nat n) = Some (of_nat n)"
  using scan_show_nat [of "[]" n] by (simp add: stoul_def)

lemma show_nat_inject [simp]: "show_nat m = show_nat n \<longleftrightarrow> m = n"
  using digits_value_show by metis

lemma take_digits_show:
  "rest = [] \<or> \<not> is_digit (hd rest) \<Longrightarrow> takeWhile is_digit (show_nat n @ rest) = show_nat n"
  using show_nat_digits [of n] by (cases rest) (auto simp: takeWhile_append list_all_iff)

text \<open>A printed number followed by something that is not a digit is read back with its rest.\<close>

lemma show_nat_sep_inject:
  assumes "show_nat m @ xs = show_nat n @ ys"
    "xs = [] \<or> \<not> is_digit (hd xs)" "ys = [] \<or> \<not> is_digit (hd ys)"
  shows "m = n \<and> xs = ys"
proof -
  have "show_nat m = show_nat n"
    using take_digits_show [OF assms(2), of m] take_digits_show [OF assms(3), of n] assms(1) by simp
  with assms(1) show ?thesis by simp
qed

lemma show_int_inject [simp]: "show_int i = show_int j \<longleftrightarrow> i = j"
proof
  assume e: "show_int i = show_int j"
  have neq: "show_nat a \<noteq> CHR ''-'' # show_nat b" for a b
    using show_nat_hd [of a] not_digit_literals(1) by (metis list.inject)
  from e neq neq [symmetric] show "i = j"
    unfolding show_int_def by (auto split: if_splits dest: arg_cong [where f = nat])
qed simp

end
