(* ===== verification/DataBatch.thy ===== *)
theory DataBatch
  imports Decimal "HOL-Library.AList"
begin

text \<open>
  The unit of data of the pipeline (\<open>src/core/engine/data_batch.h\<close>). A \<open>string_view\<close> is its text
  here: \<open>Arena\<close> shows that the views the batch makes with \<open>InternString\<close> go on reading the text they
  were made for. The fields and the metadata of the code are hash maps: association lists with
  distinct keys, whose order means nothing.
\<close>

type_synonym label = "string \<times> string"

datatype field_value =
    FNone | FBool bool | FInt int | FUint u64 | FDouble real | FString string

record data_record =
  rc_timestamp :: u64
  rc_labels :: "label list"
  rc_fields :: "(string \<times> field_value) list"

definition set_field :: "string \<Rightarrow> field_value \<Rightarrow> data_record \<Rightarrow> data_record" where
  "set_field key val r = r\<lparr>rc_fields := AList.update key val (rc_fields r)\<rparr>"

definition get_field :: "string \<Rightarrow> data_record \<Rightarrow> field_value option" where
  "get_field key r = map_of (rc_fields r) key"

record stack_frame =
  sf_address :: u64
  sf_function_name :: string
  sf_file_name :: string
  sf_line_number :: u32
  sf_module_name :: string

datatype sample_type = OnCpu | OffCpu

record stack_sample =
  ss_timestamp :: u64
  ss_pid :: u32
  ss_tid :: u32
  ss_comm :: string
  ss_kernel_stack :: "stack_frame list"
  ss_user_stack :: "stack_frame list"
  ss_count :: u64
  ss_cpu :: u32
  ss_sample_type :: sample_type
  ss_duration_ns :: u64
  ss_kernel_stack_id :: s32
  ss_user_stack_id :: s32

definition default_sample :: "u64 \<Rightarrow> stack_sample" where
  "default_sample now =
     \<lparr>ss_timestamp = now, ss_pid = 0, ss_tid = 0, ss_comm = [], ss_kernel_stack = [],
      ss_user_stack = [], ss_count = 1, ss_cpu = 0, ss_sample_type = OnCpu, ss_duration_ns = 0,
      ss_kernel_stack_id = - 1, ss_user_stack_id = - 1\<rparr>"

datatype batch_type = Metrics | Profile | Trace | Log | Generic

record data_batch =
  db_type :: batch_type
  db_records :: "data_record list"
  db_samples :: "stack_sample list"
  db_metadata :: "(string \<times> string) list"

definition new_batch :: "batch_type \<Rightarrow> data_batch" where
  "new_batch ty = \<lparr>db_type = ty, db_records = [], db_samples = [], db_metadata = []\<rparr>"

text \<open>
  \<open>AddRecord\<close> and \<open>AddStackSample\<close> return a reference into the batch through which the caller fills
  the new element in; here the caller passes what it does to the element.
\<close>

definition add_record :: "u64 \<Rightarrow> (data_record \<Rightarrow> data_record) \<Rightarrow> data_batch \<Rightarrow> data_batch" where
  "add_record now fill b =
     b\<lparr>db_records := db_records b @ [fill \<lparr>rc_timestamp = now, rc_labels = [], rc_fields = []\<rparr>]\<rparr>"

definition add_stack_sample :: "u64 \<Rightarrow> (stack_sample \<Rightarrow> stack_sample) \<Rightarrow> data_batch \<Rightarrow> data_batch" where
  "add_stack_sample now fill b = b\<lparr>db_samples := db_samples b @ [fill (default_sample now)]\<rparr>"

definition batch_size :: "data_batch \<Rightarrow> nat" where
  "batch_size b = length (db_records b) + length (db_samples b)"

definition batch_empty :: "data_batch \<Rightarrow> bool" where
  "batch_empty b \<longleftrightarrow> db_records b = [] \<and> db_samples b = []"

text \<open>The metadata survives \<open>Clear\<close>, as in the code.\<close>

definition batch_clear :: "data_batch \<Rightarrow> data_batch" where
  "batch_clear b = b\<lparr>db_records := [], db_samples := []\<rparr>"

definition set_meta :: "string \<Rightarrow> string \<Rightarrow> data_batch \<Rightarrow> data_batch" where
  "set_meta key val b = b\<lparr>db_metadata := AList.update key val (db_metadata b)\<rparr>"

definition get_meta :: "string \<Rightarrow> string \<Rightarrow> data_batch \<Rightarrow> string" where
  "get_meta key dflt b = (case map_of (db_metadata b) key of None \<Rightarrow> dflt | Some x \<Rightarrow> x)"

lemma get_set_field [simp]:
  "get_field k (set_field k' v r) = (if k = k' then Some v else get_field k r)"
  by (simp add: get_field_def set_field_def update_conv')

lemma set_field_labels [simp]: "rc_labels (set_field k v r) = rc_labels r"
  by (simp add: set_field_def)

lemma set_field_timestamp [simp]: "rc_timestamp (set_field k v r) = rc_timestamp r"
  by (simp add: set_field_def)

lemma batch_empty_size: "batch_empty b \<longleftrightarrow> batch_size b = 0"
  by (simp add: batch_empty_def batch_size_def)

section \<open>Filling a record in\<close>

text \<open>
  The sources add a record and fill it in through the reference: labels are appended, fields set one
  after the other. \<open>clock\<close> gives the time stamp of each record, by its position.
\<close>

definition emit :: "(nat \<Rightarrow> u64) \<Rightarrow> (data_record \<Rightarrow> data_record) \<Rightarrow> data_batch \<Rightarrow> data_batch" where
  "emit clock fill b = add_record (clock (length (db_records b))) fill b"

definition push_label :: "string \<Rightarrow> string \<Rightarrow> data_record \<Rightarrow> data_record" where
  "push_label key val r = r\<lparr>rc_labels := rc_labels r @ [(key, val)]\<rparr>"

definition set_fields :: "(string \<times> field_value) list \<Rightarrow> data_record \<Rightarrow> data_record" where
  "set_fields = fold (\<lambda>(k, v). set_field k v)"

lemma get_field_set_fields_other:
  "k \<notin> fst ` set fs \<Longrightarrow> get_field k (set_fields fs r) = get_field k r"
  by (induction fs arbitrary: r) (auto simp: set_fields_def)

lemma get_field_set_fields:
  "distinct (map fst fs) \<Longrightarrow> (k, v) \<in> set fs \<Longrightarrow> get_field k (set_fields fs r) = Some v"
proof (induction fs arbitrary: r)
  case (Cons f fs)
  show ?case
  proof (cases "(k, v) = f")
    case True
    with Cons.prems(1) have "k \<notin> fst ` set fs" by force
    from get_field_set_fields_other [OF this, of "set_field k v r"]
    show ?thesis by (simp add: set_fields_def flip: True)
  next
    case False
    with Cons show ?thesis by (auto simp: set_fields_def split_beta)
  qed
qed simp

lemma set_fields_labels [simp]: "rc_labels (set_fields fs r) = rc_labels r"
  by (induction fs arbitrary: r) (auto simp: set_fields_def)

lemma push_label_simps [simp]:
  "rc_labels (push_label k v r) = rc_labels r @ [(k, v)]" "get_field f (push_label k v r) = get_field f r"
  by (simp_all add: push_label_def get_field_def)

lemma emit_records [simp]:
  "db_records (emit clock fill b) = db_records b @
     [fill \<lparr>rc_timestamp = clock (length (db_records b)), rc_labels = [], rc_fields = []\<rparr>]"
  by (simp add: emit_def add_record_def)

end
