(* ===== verification/Status.thy ===== *)
theory Status
  imports Decimal
begin

text \<open>
  \<open>Status\<close> and \<open>StatusOr\<close> (\<open>src/core/common/status.h\<close>): every fallible operation of the program
  returns one of them. A status carries an optional cause, so an error is a chain.
\<close>

section \<open>Status\<close>

datatype status_code =
    Ok | Cancelled | InvalidArgument | NotFound | AlreadyExists | PermissionDenied
  | ResourceExhausted | Internal | Unimplemented | Unavailable | DataLoss

fun code_number :: "status_code \<Rightarrow> nat" where
  "code_number Ok = 0"
| "code_number Cancelled = 1"
| "code_number InvalidArgument = 2"
| "code_number NotFound = 3"
| "code_number AlreadyExists = 4"
| "code_number PermissionDenied = 5"
| "code_number ResourceExhausted = 6"
| "code_number Internal = 7"
| "code_number Unimplemented = 8"
| "code_number Unavailable = 9"
| "code_number DataLoss = 10"

datatype status = Status (code: status_code) (message: string) (cause: "status option")

definition status_ok :: status where
  "status_ok = Status Ok [] None"

definition status_error :: "status_code \<Rightarrow> string \<Rightarrow> status" where
  "status_error c msg = Status c msg None"

definition status_wrap :: "status \<Rightarrow> string \<Rightarrow> status" where
  "status_wrap inner ctx = Status (code inner) ctx (Some inner)"

definition is_ok :: "status \<Rightarrow> bool" where
  "is_ok s \<longleftrightarrow> code s = Ok"

fun status_to_string :: "status \<Rightarrow> string" where
  "status_to_string (Status c msg cs) =
     (if c = Ok then ''OK''
      else ''Error('' @ show_nat (code_number c) @ ''): '' @ msg @
        (case cs of None \<Rightarrow> []
         | Some inner \<Rightarrow> [CHR 0x0A] @ ''  caused by: '' @ status_to_string inner))"

lemma is_ok_simps [simp]:
  "is_ok status_ok" "is_ok (status_error c m) \<longleftrightarrow> c = Ok" "is_ok (status_wrap s ctx) = is_ok s"
  by (simp_all add: is_ok_def status_ok_def status_error_def status_wrap_def)

section \<open>StatusOr\<close>

datatype 'a status_or = Value 'a | Failure status

fun so_ok :: "'a status_or \<Rightarrow> bool" where
  "so_ok (Value _) = True"
| "so_ok (Failure _) = False"

text \<open>\<open>None\<close>: the assertion of \<open>value()\<close>, or the bad access of the variant.\<close>

fun so_value :: "'a status_or \<Rightarrow> 'a option" where
  "so_value (Value x) = Some x"
| "so_value (Failure _) = None"

fun so_status :: "'a status_or \<Rightarrow> status option" where
  "so_status (Value _) = None"
| "so_status (Failure s) = Some s"

section \<open>Error chains\<close>

text \<open>The text of a chain of wraps: the contexts, outermost first, then the root error.\<close>

definition chain_line :: "status_code \<Rightarrow> string \<Rightarrow> string" where
  "chain_line c msg = ''Error('' @ show_nat (code_number c) @ ''): '' @ msg"

fun chain_text :: "status_code \<Rightarrow> string list \<Rightarrow> string" where
  "chain_text c [] = []"
| "chain_text c [m] = chain_line c m"
| "chain_text c (m # ms) = chain_line c m @ [CHR 0x0A] @ ''  caused by: '' @ chain_text c ms"

text \<open>
  An error wrapped in any number of contexts keeps its code, stays an error, and prints every
  context from the outermost to the root message, each with that code.
\<close>

theorem status_wrap_chain:
  assumes "c \<noteq> Ok"
  shows "code (foldr (\<lambda>ctx s. status_wrap s ctx) ctxs (status_error c msg)) = c \<and>
    \<not> is_ok (foldr (\<lambda>ctx s. status_wrap s ctx) ctxs (status_error c msg)) \<and>
    status_to_string (foldr (\<lambda>ctx s. status_wrap s ctx) ctxs (status_error c msg)) =
      chain_text c (ctxs @ [msg])"
proof (induction ctxs)
  case Nil
  then show ?case using assms by (simp add: status_error_def is_ok_def chain_line_def)
next
  case (Cons ctx ctxs)
  then obtain m ms where "ctxs @ [msg] = m # ms" by (cases "ctxs @ [msg]") auto
  with Cons assms show ?case
    by (simp add: status_wrap_def is_ok_def chain_line_def)
qed

theorem status_wrap_chain_witness:
  "status_to_string (status_wrap (status_error NotFound ''no source'') ''pipeline a'') =
     ''Error(3): pipeline a'' @ [CHR 0x0A] @ ''  caused by: Error(3): no source''"
  using status_wrap_chain [of NotFound "[''pipeline a'']" "''no source''"]
  by (simp add: chain_line_def show_nat_eval)

end
