(* ===== verification/Pipeline.thy ===== *)
theory Pipeline
  imports AsyncChannel DataBatch Status
begin

text \<open>
  One pipeline (class \<open>Pipeline\<close> of \<open>src/core/engine/pipeline_controller.h\<close>): the channel, the
  processor chain, the aggregator and the sinks, with the handlers of the process thread. The
  plugins are objects with virtual methods: their states are type parameters, and the methods are
  a record of functions from the old state to the new one and the result. A null \<open>DataBatchPtr\<close> is
  \<open>None\<close>. The lifecycle is in \<open>Controller\<close>.
\<close>

section \<open>Plugins and state\<close>

record ('p, 'a, 's) plugin_ops =
  op_process :: "'p \<Rightarrow> data_batch option \<Rightarrow> 'p \<times> data_batch option status_or"
  op_add :: "'a \<Rightarrow> data_batch \<Rightarrow> 'a"
  op_flush :: "'a \<Rightarrow> 'a \<times> data_batch option list status_or"
  op_write :: "'s \<Rightarrow> data_batch option \<Rightarrow> 's \<times> status"

text \<open>
  The sink pool as one pipeline sees it: the tasks other users have pending, and its own write tasks,
  each the index of a sink and a batch.
\<close>

record sink_pool =
  sp_others :: nat
  sp_tasks :: "(nat \<times> data_batch option) list"

record ('p, 'a, 's) pipeline =
  pl_name :: string
  pl_processors :: "'p list"
  pl_aggregator :: "'a option"
  pl_sinks :: "'s list"
  pl_channel :: "data_batch channel"
  pl_sink_pool :: "sink_pool option"
  pl_last_backpressure :: bool
  pl_batches_processed :: u64
  pl_records_processed :: u64
  pl_error_count :: u64
  pl_notified :: "bool list" \<comment> \<open>the calls of the source's \<open>OnBackpressure\<close>\<close>

definition pipeline_new ::
  "string \<Rightarrow> u64 \<Rightarrow> drop_policy \<Rightarrow> real \<Rightarrow> real \<Rightarrow> ('p, 'a, 's) pipeline" where
  "pipeline_new name capacity policy high low =
     \<lparr>pl_name = name, pl_processors = [], pl_aggregator = None, pl_sinks = [],
      pl_channel = channel_init capacity policy high low, pl_sink_pool = None,
      pl_last_backpressure = False, pl_batches_processed = 0, pl_records_processed = 0,
      pl_error_count = 0, pl_notified = []\<rparr>"

definition add_processor :: "'p \<Rightarrow> ('p, 'a, 's) pipeline \<Rightarrow> ('p, 'a, 's) pipeline" where
  "add_processor p pl = pl\<lparr>pl_processors := pl_processors pl @ [p]\<rparr>"

definition set_aggregator :: "'a \<Rightarrow> ('p, 'a, 's) pipeline \<Rightarrow> ('p, 'a, 's) pipeline" where
  "set_aggregator a pl = pl\<lparr>pl_aggregator := Some a\<rparr>"

definition add_sink :: "'s \<Rightarrow> ('p, 'a, 's) pipeline \<Rightarrow> ('p, 'a, 's) pipeline" where
  "add_sink s pl = pl\<lparr>pl_sinks := pl_sinks pl @ [s]\<rparr>"

definition set_sink_pool :: "sink_pool \<Rightarrow> ('p, 'a, 's) pipeline \<Rightarrow> ('p, 'a, 's) pipeline" where
  "set_sink_pool pool pl = pl\<lparr>pl_sink_pool := Some pool\<rparr>"

definition count_error :: "('p, 'a, 's) pipeline \<Rightarrow> ('p, 'a, 's) pipeline" where
  "count_error pl = pl\<lparr>pl_error_count := pl_error_count pl + 1\<rparr>"

section \<open>Producers\<close>

text \<open>
  \<open>Enqueue\<close>: null and empty batches are dropped at once, and the source hears of the back-pressure
  state when it changed since it last heard.
\<close>

definition enqueue :: "data_batch option \<Rightarrow> ('p, 'a, 's) pipeline \<Rightarrow> ('p, 'a, 's) pipeline option" where
  "enqueue batch pl =
     (case batch of
        None \<Rightarrow> Some pl
      | Some b \<Rightarrow>
          if batch_empty b then Some pl
          else case try_enqueue (pl_channel pl) b of
            None \<Rightarrow> None
          | Some (ch, _) \<Rightarrow>
              let pl = pl\<lparr>pl_channel := ch\<rparr>; bp = ch_backpressured ch
              in Some (if bp \<noteq> pl_last_backpressure pl
                       then pl\<lparr>pl_last_backpressure := bp, pl_notified := pl_notified pl @ [bp]\<rparr>
                       else pl))"

definition pipeline_inject_flush :: "('p, 'a, 's) pipeline \<Rightarrow> ('p, 'a, 's) pipeline option" where
  "pipeline_inject_flush pl =
     (case inject_flush (pl_channel pl) of
        None \<Rightarrow> None
      | Some (ch, _) \<Rightarrow> Some (pl\<lparr>pl_channel := ch\<rparr>))"

section \<open>Sinks\<close>

definition write_sink ::
  "('p, 'a, 's) plugin_ops \<Rightarrow> data_batch option \<Rightarrow> nat \<Rightarrow> ('p, 'a, 's) pipeline \<Rightarrow> ('p, 'a, 's) pipeline" where
  "write_sink ops batch i pl =
     (let (s, st) = op_write ops (pl_sinks pl ! i) batch;
          pl = pl\<lparr>pl_sinks := (pl_sinks pl)[i := s]\<rparr>
      in if is_ok st then pl else count_error pl)"

definition max_pending_tasks :: nat where
  "max_pending_tasks = 256"

definition submit_to_sinks ::
  "('p, 'a, 's) plugin_ops \<Rightarrow> data_batch option \<Rightarrow> ('p, 'a, 's) pipeline \<Rightarrow> ('p, 'a, 's) pipeline" where
  "submit_to_sinks ops batch pl =
     (case pl_sink_pool pl of
        None \<Rightarrow> fold (write_sink ops batch) [0..<length (pl_sinks pl)] pl
      | Some pool \<Rightarrow>
          if max_pending_tasks < sp_others pool + length (sp_tasks pool) then count_error pl
          else pl\<lparr>pl_sink_pool := Some (pool\<lparr>sp_tasks := sp_tasks pool @
                    map (\<lambda>i. (i, batch)) [0..<length (pl_sinks pl)]\<rparr>)\<rparr>)"

text \<open>A worker of the sink pool runs the oldest of this pipeline's tasks.\<close>

definition run_sink_task ::
  "('p, 'a, 's) plugin_ops \<Rightarrow> ('p, 'a, 's) pipeline \<Rightarrow> ('p, 'a, 's) pipeline" where
  "run_sink_task ops pl =
     (case pl_sink_pool pl of
        None \<Rightarrow> pl
      | Some pool \<Rightarrow>
          (case sp_tasks pool of
             [] \<Rightarrow> pl
           | (i, batch) # tasks \<Rightarrow>
               write_sink ops batch i (pl\<lparr>pl_sink_pool := Some (pool\<lparr>sp_tasks := tasks\<rparr>)\<rparr>)))"

section \<open>The process thread\<close>

datatype chain_result = ChainError | ChainDropped | ChainBatch data_batch

text \<open>The loop over the processors in \<open>HandleData\<close>, which stops at an error and at an empty batch.\<close>

fun run_chain :: "('p, 'a, 's) plugin_ops \<Rightarrow> 'p list \<Rightarrow> data_batch \<Rightarrow> 'p list \<times> chain_result" where
  "run_chain ops [] b = ([], ChainBatch b)"
| "run_chain ops (p # ps) b =
     (let (p, r) = op_process ops p (Some b)
      in case r of
           Failure _ \<Rightarrow> (p # ps, ChainError)
         | Value None \<Rightarrow> (p # ps, ChainDropped)
         | Value (Some b) \<Rightarrow>
             if batch_empty b then (p # ps, ChainDropped)
             else let (ps, r) = run_chain ops ps b in (p # ps, r))"

definition handle_data ::
  "('p, 'a, 's) plugin_ops \<Rightarrow> data_batch \<Rightarrow> ('p, 'a, 's) pipeline \<Rightarrow> ('p, 'a, 's) pipeline" where
  "handle_data ops batch pl =
     (let pl = pl\<lparr>pl_records_processed := pl_records_processed pl + of_nat (batch_size batch)\<rparr>;
          (ps, r) = run_chain ops (pl_processors pl) batch;
          pl = pl\<lparr>pl_processors := ps\<rparr>
      in case r of
           ChainError \<Rightarrow> count_error pl
         | ChainDropped \<Rightarrow> pl
         | ChainBatch b \<Rightarrow>
             (case pl_aggregator pl of
                Some a \<Rightarrow> pl\<lparr>pl_aggregator := Some (op_add ops a b),
                            pl_batches_processed := pl_batches_processed pl + 1\<rparr>
              | None \<Rightarrow>
                  let pl = submit_to_sinks ops (Some b) pl
                  in pl\<lparr>pl_batches_processed := pl_batches_processed pl + 1\<rparr>))"

definition handle_flush :: "('p, 'a, 's) plugin_ops \<Rightarrow> ('p, 'a, 's) pipeline \<Rightarrow> ('p, 'a, 's) pipeline" where
  "handle_flush ops pl =
     (case pl_aggregator pl of
        None \<Rightarrow> pl
      | Some a \<Rightarrow>
          let (a, r) = op_flush ops a; pl = pl\<lparr>pl_aggregator := Some a\<rparr>
          in case r of
               Failure _ \<Rightarrow> pl
             | Value batches \<Rightarrow> fold (submit_to_sinks ops) batches pl)"

definition dispatch ::
  "('p, 'a, 's) plugin_ops \<Rightarrow> data_batch channel_item \<Rightarrow> ('p, 'a, 's) pipeline \<Rightarrow> ('p, 'a, 's) pipeline" where
  "dispatch ops item pl =
     (case item of Data b \<Rightarrow> handle_data ops b pl | FlushSentinel \<Rightarrow> handle_flush ops pl)"

text \<open>
  \<open>Drain\<close>. An item from a cell nobody wrote would be a null batch, on which \<open>HandleData\<close> is
  undefined: \<open>None\<close>, as when the loop does not end.
\<close>

partial_function (option) drain_loop ::
  "('p, 'a, 's) plugin_ops \<Rightarrow> ('p, 'a, 's) pipeline \<Rightarrow> ('p, 'a, 's) pipeline option" where
  "drain_loop ops pl =
     (case try_dequeue (pl_channel pl) of
        None \<Rightarrow> None
      | Some (ch, None) \<Rightarrow> Some (pl\<lparr>pl_channel := ch\<rparr>)
      | Some (ch, Some None) \<Rightarrow> None
      | Some (ch, Some (Some item)) \<Rightarrow> drain_loop ops (dispatch ops item (pl\<lparr>pl_channel := ch\<rparr>)))"

definition drain ::
  "('p, 'a, 's) plugin_ops \<Rightarrow> ('p, 'a, 's) pipeline \<Rightarrow> ('p, 'a, 's) pipeline option" where
  "drain ops pl = map_option (\<lambda>pl. handle_flush ops pl) (drain_loop ops pl)"

text \<open>
  \<open>ProcessLoop\<close>: one element of the list per iteration while \<open>running_\<close> is set, with what the other
  threads do before each poll of that iteration's \<open>Dequeue\<close> (see \<open>dequeue\<close>) and the number of polls
  its 100 ms allow. The gauges it sets every hundredth iteration are not part of the state.
\<close>

fun process_loop ::
  "('p, 'a, 's) plugin_ops \<Rightarrow> ((nat \<Rightarrow> data_batch channel \<Rightarrow> data_batch channel) \<times> nat) list \<Rightarrow>
     ('p, 'a, 's) pipeline \<Rightarrow> ('p, 'a, 's) pipeline option" where
  "process_loop ops [] pl = drain ops pl"
| "process_loop ops ((others, sleep_polls) # env) pl =
     (case dequeue others sleep_polls (pl_channel pl) of
        None \<Rightarrow> None
      | Some (ch, None) \<Rightarrow> process_loop ops env (pl\<lparr>pl_channel := ch\<rparr>)
      | Some (ch, Some None) \<Rightarrow> None
      | Some (ch, Some (Some item)) \<Rightarrow>
          process_loop ops env (dispatch ops item (pl\<lparr>pl_channel := ch\<rparr>)))"

text \<open>\<open>RunProcessors\<close>, which goes on with a null batch.\<close>

fun run_processors ::
  "('p, 'a, 's) plugin_ops \<Rightarrow> 'p list \<Rightarrow> data_batch option \<Rightarrow> 'p list \<times> data_batch option status_or" where
  "run_processors ops [] b = ([], Value b)"
| "run_processors ops (p # ps) b =
     (let (p, r) = op_process ops p b
      in case r of
           Failure e \<Rightarrow> (p # ps, Failure e)
         | Value b \<Rightarrow> let (ps, r) = run_processors ops ps b in (p # ps, r))"

section \<open>Frame facts\<close>

text \<open>The handlers of the process thread leave the channel to the producers.\<close>

lemma channel_outermost:
  fixes pl :: "('p, 'a, 's) pipeline"
  shows "pl\<lparr>pl_channel := ch, pl_processors := x0\<rparr> = pl\<lparr>pl_processors := x0, pl_channel := ch\<rparr>"
    "pl\<lparr>pl_channel := ch, pl_aggregator := x1\<rparr> = pl\<lparr>pl_aggregator := x1, pl_channel := ch\<rparr>"
    "pl\<lparr>pl_channel := ch, pl_sinks := x2\<rparr> = pl\<lparr>pl_sinks := x2, pl_channel := ch\<rparr>"
    "pl\<lparr>pl_channel := ch, pl_sink_pool := x3\<rparr> = pl\<lparr>pl_sink_pool := x3, pl_channel := ch\<rparr>"
    "pl\<lparr>pl_channel := ch, pl_batches_processed := x4\<rparr> = pl\<lparr>pl_batches_processed := x4, pl_channel := ch\<rparr>"
    "pl\<lparr>pl_channel := ch, pl_records_processed := x5\<rparr> = pl\<lparr>pl_records_processed := x5, pl_channel := ch\<rparr>"
    "pl\<lparr>pl_channel := ch, pl_error_count := x6\<rparr> = pl\<lparr>pl_error_count := x6, pl_channel := ch\<rparr>"
  by simp_all

lemma count_error_channel [simp]:
  "count_error (pl\<lparr>pl_channel := ch\<rparr>) = (count_error pl)\<lparr>pl_channel := ch\<rparr>"
  by (simp add: count_error_def channel_outermost)

lemma write_sink_channel [simp]:
  "write_sink ops b i (pl\<lparr>pl_channel := ch\<rparr>) = (write_sink ops b i pl)\<lparr>pl_channel := ch\<rparr>"
  by (simp add: write_sink_def Let_def channel_outermost split: prod.split)

lemma fold_write_channel [simp]:
  "fold (write_sink ops b) is (pl\<lparr>pl_channel := ch\<rparr>) = (fold (write_sink ops b) is pl)\<lparr>pl_channel := ch\<rparr>"
  by (induction "is" arbitrary: pl) simp_all

lemma submit_channel [simp]:
  "submit_to_sinks ops b (pl\<lparr>pl_channel := ch\<rparr>) = (submit_to_sinks ops b pl)\<lparr>pl_channel := ch\<rparr>"
  by (simp add: submit_to_sinks_def channel_outermost split: option.split)

lemma fold_submit_channel [simp]:
  "fold (submit_to_sinks ops) bs (pl\<lparr>pl_channel := ch\<rparr>) =
     (fold (submit_to_sinks ops) bs pl)\<lparr>pl_channel := ch\<rparr>"
  by (induction bs arbitrary: pl) simp_all

lemma handle_flush_channel [simp]:
  "handle_flush ops (pl\<lparr>pl_channel := ch\<rparr>) = (handle_flush ops pl)\<lparr>pl_channel := ch\<rparr>"
  by (simp add: handle_flush_def Let_def channel_outermost split: option.split prod.split status_or.split)

lemma handle_data_channel [simp]:
  "handle_data ops b (pl\<lparr>pl_channel := ch\<rparr>) = (handle_data ops b pl)\<lparr>pl_channel := ch\<rparr>"
  by (simp add: handle_data_def Let_def channel_outermost split: option.split prod.split chain_result.split)

lemma dispatch_channel [simp]:
  "dispatch ops x (pl\<lparr>pl_channel := ch\<rparr>) = (dispatch ops x pl)\<lparr>pl_channel := ch\<rparr>"
  by (simp add: dispatch_def split: channel_item.split)

lemma fold_dispatch_channel [simp]:
  "fold (dispatch ops) xs (pl\<lparr>pl_channel := ch\<rparr>) = (fold (dispatch ops) xs pl)\<lparr>pl_channel := ch\<rparr>"
  by (induction xs arbitrary: pl) simp_all

section \<open>Draining\<close>

lemma channel_holds_dequeued:
  "channel_holds c n (ch\<lparr>ch_queue := q\<rparr>) xs \<Longrightarrow>
   channel_holds c n (update_backpressure (count_dequeued (ch\<lparr>ch_queue := q\<rparr>))) xs"
  by (erule channel_holds_queue [rotated]) simp

lemma drain_loop_fifo:
  "channel_holds c n ch xs \<Longrightarrow> \<exists>ch'. channel_holds c n ch' [] \<and>
     drain_loop ops (pl\<lparr>pl_channel := ch\<rparr>) = Some ((fold (dispatch ops) xs pl)\<lparr>pl_channel := ch'\<rparr>)"
proof (induction xs arbitrary: ch pl)
  case Nil
  then show ?case
    using try_dequeue_empty [OF Nil] by (subst drain_loop.simps) auto
next
  case (Cons x xs)
  from try_dequeue_item [OF Cons.prems] obtain q where
    q: "try_dequeue ch = Some (update_backpressure (count_dequeued (ch\<lparr>ch_queue := q\<rparr>)), Some (Some x))"
      "channel_holds c n (ch\<lparr>ch_queue := q\<rparr>) xs"
    by blast
  let ?ch = "update_backpressure (count_dequeued (ch\<lparr>ch_queue := q\<rparr>))"
  have "drain_loop ops (pl\<lparr>pl_channel := ch\<rparr>) = drain_loop ops ((dispatch ops x pl)\<lparr>pl_channel := ?ch\<rparr>)"
    by (subst drain_loop.simps) (simp add: q(1))
  with Cons.IH [OF channel_holds_dequeued [OF q(2)], of "dispatch ops x pl"] show ?case by simp
qed

lemma drain_fifo:
  assumes "channel_holds c n (pl_channel pl) xs"
  shows "\<exists>ch'. channel_holds c n ch' [] \<and>
    drain ops pl = Some ((handle_flush ops (fold (dispatch ops) xs pl))\<lparr>pl_channel := ch'\<rparr>)"
  using drain_loop_fifo [OF assms, of ops pl] by (auto simp: drain_def)

section \<open>Sinks\<close>

definition write_state :: "('p, 'a, 's) plugin_ops \<Rightarrow> data_batch option \<Rightarrow> 's \<Rightarrow> 's" where
  "write_state ops b s = fst (op_write ops s b)"

definition write_errors :: "('p, 'a, 's) plugin_ops \<Rightarrow> data_batch option \<Rightarrow> 's list \<Rightarrow> nat" where
  "write_errors ops b ss = length (filter (\<lambda>s. \<not> is_ok (snd (op_write ops s b))) ss)"

text \<open>Writing one batch to all sinks in turn, without the pool.\<close>

lemma write_all_sinks:
  "fold (write_sink ops b) [k..<length (pl_sinks pl)] pl =
     pl\<lparr>pl_sinks := take k (pl_sinks pl) @ map (write_state ops b) (drop k (pl_sinks pl)),
        pl_error_count := pl_error_count pl + of_nat (write_errors ops b (drop k (pl_sinks pl)))\<rparr>"
proof (induction "length (pl_sinks pl) - k" arbitrary: k pl)
  case 0
  then show ?case by (simp add: write_errors_def)
next
  case (Suc m)
  then have k: "k < length (pl_sinks pl)" by simp
  let ?pl = "write_sink ops b k pl"
  have pl: "?pl = pl\<lparr>pl_sinks := (pl_sinks pl)[k := write_state ops b (pl_sinks pl ! k)],
      pl_error_count := pl_error_count pl +
        (if is_ok (snd (op_write ops (pl_sinks pl ! k) b)) then 0 else 1)\<rparr>"
    by (simp add: write_sink_def write_state_def count_error_def split_beta)
  have d: "drop k (pl_sinks pl) = pl_sinks pl ! k # drop (Suc k) (pl_sinks pl)"
    using k by (simp add: Cons_nth_drop_Suc)
  have t: "take (Suc k) ((pl_sinks pl)[k := x]) = take k (pl_sinks pl) @ [x]" for x
    using k by (simp add: take_Suc_conv_app_nth)
  have "fold (write_sink ops b) [k..<length (pl_sinks pl)] pl =
      fold (write_sink ops b) [Suc k..<length (pl_sinks ?pl)] ?pl"
    using k by (simp add: upt_conv_Cons pl)
  also have "\<dots> = ?pl\<lparr>pl_sinks := take (Suc k) (pl_sinks ?pl) @ map (write_state ops b) (drop (Suc k) (pl_sinks ?pl)),
        pl_error_count := pl_error_count ?pl + of_nat (write_errors ops b (drop (Suc k) (pl_sinks ?pl)))\<rparr>"
    using Suc k by (intro Suc(1)) (simp add: pl)
  also have "\<dots> = pl\<lparr>pl_sinks := take k (pl_sinks pl) @ map (write_state ops b) (drop k (pl_sinks pl)),
        pl_error_count := pl_error_count pl + of_nat (write_errors ops b (drop k (pl_sinks pl)))\<rparr>"
    using k by (simp add: pl d t write_errors_def)
  finally show ?case .
qed

lemma submit_direct:
  assumes "pl_sink_pool pl = None"
  shows "submit_to_sinks ops b pl =
    pl\<lparr>pl_sinks := map (write_state ops b) (pl_sinks pl),
       pl_error_count := pl_error_count pl + of_nat (write_errors ops b (pl_sinks pl))\<rparr>"
  using write_all_sinks [of ops b 0 pl] assms by (simp add: submit_to_sinks_def)

lemma run_sink_tasks:
  assumes "pl_sink_pool pl = Some (pool\<lparr>sp_tasks := map (\<lambda>i. (i, b)) is @ tasks\<rparr>)"
  shows "(run_sink_task ops ^^ length is) pl =
    (fold (write_sink ops b) is pl)\<lparr>pl_sink_pool := Some (pool\<lparr>sp_tasks := tasks\<rparr>)\<rparr>"
  using assms
proof (induction "is" arbitrary: pl)
  case Nil
  then show ?case by simp
next
  case (Cons i "is")
  have w: "write_sink ops b j (pl\<lparr>pl_sink_pool := x\<rparr>) = (write_sink ops b j pl)\<lparr>pl_sink_pool := x\<rparr>"
    for j x and pl :: "('a, 'b, 'c) pipeline"
    by (simp add: write_sink_def count_error_def Let_def split: prod.split)
  have f: "fold (write_sink ops b) js (pl\<lparr>pl_sink_pool := x\<rparr>) =
      (fold (write_sink ops b) js pl)\<lparr>pl_sink_pool := x\<rparr>" for js x and pl :: "('a, 'b, 'c) pipeline"
    by (induction js arbitrary: pl) (simp_all add: w)
  have "run_sink_task ops pl =
      (write_sink ops b i pl)\<lparr>pl_sink_pool := Some (pool\<lparr>sp_tasks := map (\<lambda>i. (i, b)) is @ tasks\<rparr>)\<rparr>"
    using Cons.prems by (simp add: run_sink_task_def w)
  then show ?case
    using Cons.IH [of "run_sink_task ops pl"] by (simp add: funpow_Suc_right f del: funpow.simps)
qed

section \<open>Deliveries\<close>

text \<open>A chain whose processors all accept and transform; \<open>f\<close> is what each makes of a batch.\<close>

definition accepts :: "('p, 'a, 's) plugin_ops \<Rightarrow> ('p \<Rightarrow> data_batch \<Rightarrow> data_batch) \<Rightarrow> 'p list \<Rightarrow> bool" where
  "accepts ops f ps \<longleftrightarrow> (\<forall>p \<in> set ps. \<forall>b. \<not> batch_empty b \<longrightarrow>
     op_process ops p (Some b) = (p, Value (Some (f p b))) \<and> \<not> batch_empty (f p b))"

lemma run_chain_accepts:
  "accepts ops f ps \<Longrightarrow> \<not> batch_empty b \<Longrightarrow> run_chain ops ps b = (ps, ChainBatch (fold f ps b))"
  by (induction ps arbitrary: b) (simp_all add: accepts_def)

lemma enqueue_room:
  assumes "channel_holds c n (pl_channel pl) xs" "length xs < c" "\<not> batch_empty b"
  shows "\<exists>ch bp no. enqueue (Some b) pl =
           Some (pl\<lparr>pl_channel := ch, pl_last_backpressure := bp, pl_notified := no\<rparr>) \<and>
         channel_holds c (n + 1) ch (xs @ [Data b])"
proof -
  let ?ch = "pl_channel pl"
  from ring_push_room [OF assms(1,2), of "Data b"] obtain q where
    q: "try_push (ch_queue ?ch) (Data b) = Some (q, True)"
      "channel_holds c (n + 1) (?ch\<lparr>ch_queue := q\<rparr>) (xs @ [Data b])"
    by metis
  let ?ch' = "update_backpressure (count_enqueued (?ch\<lparr>ch_queue := q\<rparr>))"
  have t: "try_enqueue ?ch b = Some (?ch', True)" using q(1) by (simp add: try_enqueue_def)
  have h: "channel_holds c (n + 1) ?ch' (xs @ [Data b])"
    using q(2) by (auto elim: channel_holds_queue [rotated])
  have "\<exists>bp no. enqueue (Some b) pl =
      Some (pl\<lparr>pl_channel := ?ch', pl_last_backpressure := bp, pl_notified := no\<rparr>)"
    unfolding enqueue_def using t assms(3)
    by (cases "ch_backpressured ?ch' = pl_last_backpressure pl")
       (simp_all add: Let_def, (rule exI [of _ "pl_last_backpressure pl"], rule exI [of _ "pl_notified pl"], simp)?,
        blast?)
  with h show ?thesis by blast
qed

fun enqueue_all :: "data_batch list \<Rightarrow> ('p, 'a, 's) pipeline \<Rightarrow> ('p, 'a, 's) pipeline option" where
  "enqueue_all [] pl = Some pl"
| "enqueue_all (b # bs) pl =
     (case enqueue (Some b) pl of None \<Rightarrow> None | Some pl \<Rightarrow> enqueue_all bs pl)"

lemma enqueue_all_room:
  assumes "channel_holds c n (pl_channel pl) xs" "length xs + length bs \<le> c"
    "list_all (\<lambda>b. \<not> batch_empty b) bs"
  shows "\<exists>ch bp no. enqueue_all bs pl =
           Some (pl\<lparr>pl_channel := ch, pl_last_backpressure := bp, pl_notified := no\<rparr>) \<and>
         channel_holds c (n + length bs) ch (xs @ map Data bs)"
  using assms
proof (induction bs arbitrary: n pl xs)
  case Nil
  then show ?case
    by (intro exI [of _ "pl_channel pl"] exI [of _ "pl_last_backpressure pl"] exI [of _ "pl_notified pl"])
       simp
next
  case (Cons b bs)
  then have "length xs < c" "\<not> batch_empty b" by simp_all
  from enqueue_room [OF Cons.prems(1) this] obtain ch bp no where
    e: "enqueue (Some b) pl = Some (pl\<lparr>pl_channel := ch, pl_last_backpressure := bp, pl_notified := no\<rparr>)"
      "channel_holds c (n + 1) ch (xs @ [Data b])"
    by blast
  show ?case
    using Cons.IH [of "n + 1" "pl\<lparr>pl_channel := ch, pl_last_backpressure := bp, pl_notified := no\<rparr>"
        "xs @ [Data b]"] e Cons.prems by auto
qed

lemma handle_data_direct:
  assumes "accepts ops f (pl_processors pl)" "\<not> batch_empty b" "pl_aggregator pl = None"
    "pl_sink_pool pl = None"
  shows "handle_data ops b pl =
    pl\<lparr>pl_sinks := map (write_state ops (Some (fold f (pl_processors pl) b))) (pl_sinks pl),
       pl_error_count := pl_error_count pl +
         of_nat (write_errors ops (Some (fold f (pl_processors pl) b)) (pl_sinks pl)),
       pl_records_processed := pl_records_processed pl + of_nat (batch_size b),
       pl_batches_processed := pl_batches_processed pl + 1\<rparr>"
  using assms by (simp add: handle_data_def Let_def run_chain_accepts submit_direct)

text \<open>What each sink sees of a list of batches.\<close>

definition deliver :: "('p, 'a, 's) plugin_ops \<Rightarrow> data_batch list \<Rightarrow> 's \<Rightarrow> 's" where
  "deliver ops bs s = fold (\<lambda>b. write_state ops (Some b)) bs s"

lemma dispatch_all_direct:
  assumes "accepts ops f (pl_processors pl)" "list_all (\<lambda>b. \<not> batch_empty b) bs"
    "pl_aggregator pl = None" "pl_sink_pool pl = None"
  shows "\<exists>e. fold (dispatch ops) (map Data bs) pl =
    pl\<lparr>pl_sinks := map (deliver ops (map (fold f (pl_processors pl)) bs)) (pl_sinks pl),
       pl_error_count := e,
       pl_records_processed := pl_records_processed pl + of_nat (sum_list (map batch_size bs)),
       pl_batches_processed := pl_batches_processed pl + of_nat (length bs)\<rparr>"
  using assms
proof (induction bs arbitrary: pl)
  case Nil
  then show ?case by (intro exI [of _ "pl_error_count pl"]) (simp add: deliver_def)
next
  case (Cons b bs)
  let ?pl = "handle_data ops b pl"
  have h: "?pl = pl\<lparr>pl_sinks := map (write_state ops (Some (fold f (pl_processors pl) b))) (pl_sinks pl),
       pl_error_count := pl_error_count pl +
         of_nat (write_errors ops (Some (fold f (pl_processors pl) b)) (pl_sinks pl)),
       pl_records_processed := pl_records_processed pl + of_nat (batch_size b),
       pl_batches_processed := pl_batches_processed pl + 1\<rparr>"
    using Cons.prems by (intro handle_data_direct) simp_all
  have "accepts ops f (pl_processors ?pl)" "list_all (\<lambda>b. \<not> batch_empty b) bs"
    "pl_aggregator ?pl = None" "pl_sink_pool ?pl = None"
    using Cons.prems by (simp_all add: h)
  from Cons.IH [OF this] obtain e where e: "fold (dispatch ops) (map Data bs) ?pl =
    ?pl\<lparr>pl_sinks := map (deliver ops (map (fold f (pl_processors ?pl)) bs)) (pl_sinks ?pl),
       pl_error_count := e,
       pl_records_processed := pl_records_processed ?pl + of_nat (sum_list (map batch_size bs)),
       pl_batches_processed := pl_batches_processed ?pl + of_nat (length bs)\<rparr>"
    by blast
  have "fold (dispatch ops) (map Data (b # bs)) pl = fold (dispatch ops) (map Data bs) ?pl"
    by (simp add: dispatch_def)
  then show ?case
    unfolding e by (intro exI [of _ e]) (simp add: h deliver_def comp_def algebra_simps)
qed

section \<open>Notifications\<close>

datatype pipeline_op =
    DoEnqueue "data_batch option" | DoInjectFlush | DoHandle | DoSinkTask

text \<open>One call on the pipeline; \<open>DoHandle\<close> takes one item if there is one and dispatches it.\<close>

fun pipeline_step ::
  "('p, 'a, 's) plugin_ops \<Rightarrow> pipeline_op \<Rightarrow> ('p, 'a, 's) pipeline \<Rightarrow> ('p, 'a, 's) pipeline option" where
  "pipeline_step ops (DoEnqueue b) pl = enqueue b pl"
| "pipeline_step ops DoInjectFlush pl = pipeline_inject_flush pl"
| "pipeline_step ops DoHandle pl =
     (case try_dequeue (pl_channel pl) of
        None \<Rightarrow> None
      | Some (ch, None) \<Rightarrow> Some (pl\<lparr>pl_channel := ch\<rparr>)
      | Some (ch, Some None) \<Rightarrow> None
      | Some (ch, Some (Some item)) \<Rightarrow> Some (dispatch ops item (pl\<lparr>pl_channel := ch\<rparr>)))"
| "pipeline_step ops DoSinkTask pl = Some (run_sink_task ops pl)"

fun pipeline_run ::
  "('p, 'a, 's) plugin_ops \<Rightarrow> pipeline_op list \<Rightarrow> ('p, 'a, 's) pipeline \<Rightarrow> ('p, 'a, 's) pipeline option" where
  "pipeline_run ops [] pl = Some pl"
| "pipeline_run ops (c # cs) pl =
     (case pipeline_step ops c pl of None \<Rightarrow> None | Some pl \<Rightarrow> pipeline_run ops cs pl)"

text \<open>The calls of \<open>OnBackpressure\<close> so far alternate, starting with true, and end with the last state.\<close>

definition notified_ok :: "('p, 'a, 's) pipeline \<Rightarrow> bool" where
  "notified_ok pl \<longleftrightarrow> pl_notified pl = map even [0..<length (pl_notified pl)] \<and>
     pl_last_backpressure pl = odd (length (pl_notified pl))"

definition same_notes :: "('p, 'a, 's) pipeline \<Rightarrow> ('p, 'a, 's) pipeline \<Rightarrow> bool" where
  "same_notes pl pl' \<longleftrightarrow> pl_notified pl' = pl_notified pl \<and>
     pl_last_backpressure pl' = pl_last_backpressure pl \<and>
     length (pl_sinks pl') = length (pl_sinks pl) \<and>
     map_option sp_others (pl_sink_pool pl') = map_option sp_others (pl_sink_pool pl)"

lemma same_notes_refl [simp]: "same_notes pl pl"
  by (simp add: same_notes_def)

lemma same_notes_trans: "same_notes p q \<Longrightarrow> same_notes q r \<Longrightarrow> same_notes p r"
  by (simp add: same_notes_def)

lemma same_notes_write: "same_notes pl (write_sink ops b i pl)"
  by (simp add: same_notes_def write_sink_def count_error_def Let_def split: prod.split)

lemma same_notes_fold:
  "(\<And>x pl. same_notes pl (f x pl)) \<Longrightarrow> same_notes pl (fold f xs pl)"
  by (induction xs arbitrary: pl) (simp, metis fold_simps(2) same_notes_trans)

lemma same_notes_writes: "same_notes pl (fold (write_sink ops b) is pl)"
  by (rule same_notes_fold) (rule same_notes_write)

lemma same_notes_submit: "same_notes pl (submit_to_sinks ops b pl)"
  using same_notes_writes [of pl ops b "[0..<length (pl_sinks pl)]"]
  by (auto simp: submit_to_sinks_def split: option.split) (simp_all add: same_notes_def count_error_def)

lemma same_notes_submits: "same_notes pl (fold (submit_to_sinks ops) bs pl)"
  by (rule same_notes_fold) (rule same_notes_submit)

lemma same_notes_flush: "same_notes pl (handle_flush ops pl)"
proof -
  have a: "same_notes pl (pl\<lparr>pl_aggregator := a\<rparr>)" for a by (simp add: same_notes_def)
  have "same_notes pl (fold (submit_to_sinks ops) bs (pl\<lparr>pl_aggregator := a\<rparr>))" for bs a
    by (rule same_notes_trans [OF a same_notes_submits])
  with a show ?thesis
    by (simp add: handle_flush_def Let_def split: option.split prod.split status_or.split)
qed

lemma same_notes_data: "same_notes pl (handle_data ops b pl)"
proof -
  have "same_notes pl ((submit_to_sinks ops b' (pl\<lparr>pl_records_processed := r, pl_processors := ps\<rparr>))
      \<lparr>pl_batches_processed := n\<rparr>)" for b' ps r n
    using same_notes_submit [of "pl\<lparr>pl_records_processed := r, pl_processors := ps\<rparr>" ops b']
    by (simp add: same_notes_def)
  then show ?thesis
    by (simp add: handle_data_def Let_def count_error_def split: option.split prod.split chain_result.split)
       (simp add: same_notes_def)
qed

lemma same_notes_dispatch: "same_notes pl (dispatch ops x pl)"
  by (simp add: dispatch_def same_notes_data same_notes_flush split: channel_item.split)

lemma same_notes_task: "same_notes pl (run_sink_task ops pl)"
proof -
  have "same_notes pl (write_sink ops b i (pl\<lparr>pl_sink_pool := Some (p\<lparr>sp_tasks := ts\<rparr>)\<rparr>))"
    if "pl_sink_pool pl = Some p" for b i p ts
    using same_notes_write [of "pl\<lparr>pl_sink_pool := Some (p\<lparr>sp_tasks := ts\<rparr>)\<rparr>" ops b i] that
    by (simp add: same_notes_def)
  then show ?thesis by (simp add: run_sink_task_def split: option.split list.split)
qed

lemma notified_ok_same: "same_notes pl pl' \<Longrightarrow> notified_ok pl' = notified_ok pl"
  by (simp add: same_notes_def notified_ok_def)

lemma enqueue_notified_ok:
  assumes "notified_ok pl" "enqueue b pl = Some pl'"
  shows "notified_ok pl'"
proof -
  have last: "bp = even (length (pl_notified pl))" if "bp \<noteq> pl_last_backpressure pl" for bp
    using that assms(1) by (auto simp: notified_ok_def)
  show ?thesis
    using assms last
    by (auto simp: enqueue_def notified_ok_def Let_def split: option.splits if_splits prod.splits)
qed

lemma pipeline_step_notified_ok:
  assumes "notified_ok pl" "pipeline_step ops c pl = Some pl'"
  shows "notified_ok pl'"
proof (cases c)
  case (DoEnqueue b)
  then show ?thesis using assms enqueue_notified_ok by simp
next
  case DoHandle
  with assms(2) have "\<exists>ch. pl' = pl\<lparr>pl_channel := ch\<rparr> \<or> (\<exists>x. pl' = (dispatch ops x pl)\<lparr>pl_channel := ch\<rparr>)"
    by (auto split: option.splits prod.splits)
  moreover have "notified_ok (p\<lparr>pl_channel := ch\<rparr>) = notified_ok p" for p :: "('a, 'b, 'c) pipeline" and ch
    by (simp add: notified_ok_def)
  ultimately show ?thesis
    using assms(1) by (auto simp: notified_ok_same [OF same_notes_dispatch])
next
  case DoSinkTask
  with assms show ?thesis using notified_ok_same [OF same_notes_task] by auto
qed (use assms in \<open>auto simp: pipeline_inject_flush_def notified_ok_def split: option.splits\<close>)

lemma pipeline_run_notified_ok:
  "notified_ok pl \<Longrightarrow> pipeline_run ops cs pl = Some pl' \<Longrightarrow> notified_ok pl'"
proof (induction cs arbitrary: pl)
  case (Cons c cs)
  then show ?case by (auto split: option.splits dest: pipeline_step_notified_ok)
qed simp

section \<open>Properties\<close>

text \<open>
  \<open>Drain\<close> returns, having handled everything that was queued in the order it was queued, batches and
  flush sentinels alike, followed by one flush of the aggregator; it leaves the channel empty.
\<close>

theorem drain_handles_all:
  assumes "channel_holds c n (pl_channel pl) xs"
  shows "\<exists>ch'. channel_holds c n ch' [] \<and>
    drain ops pl = Some ((handle_flush ops (fold (dispatch ops) xs pl))\<lparr>pl_channel := ch'\<rparr>)"
  by (rule drain_fifo [OF assms])

text \<open>A pass-through processor and a sink that counts its writes.\<close>

definition demo_ops :: "(unit, unit, nat) plugin_ops" where
  "demo_ops = \<lparr>op_process = (\<lambda>p b. (p, Value b)), op_add = (\<lambda>a _. a), op_flush = (\<lambda>a. (a, Value [])),
     op_write = (\<lambda>s _. (s + 1, status_ok))\<rparr>"

definition demo_batch :: data_batch where
  "demo_batch = add_record 0 id (new_batch Metrics)"

definition demo_pipeline :: "(unit, unit, nat) pipeline" where
  "demo_pipeline = add_sink 0 (add_sink 10 (add_processor () (pipeline_new ''p'' 1024 DropNewest (4/5) (1/5))))"

lemma demo_batch_not_empty: "\<not> batch_empty demo_batch" "batch_size demo_batch = 1"
  by (simp_all add: demo_batch_def batch_empty_def batch_size_def add_record_def new_batch_def)

lemma demo_channel: "channel_holds 1024 0 (pl_channel demo_pipeline) []"
proof -
  have "round_up_pow2 1024 = 1024" by code_simp
  then show ?thesis
    using channel_init_holds [of 1024]
    by (simp add: demo_pipeline_def add_sink_def add_processor_def pipeline_new_def)
qed

theorem drain_handles_all_witness:
  "\<exists>ch'. drain demo_ops demo_pipeline = Some (demo_pipeline\<lparr>pl_channel := ch'\<rparr>)"
  using drain_handles_all [OF demo_channel, of demo_ops]
  by (auto simp: handle_flush_def demo_pipeline_def add_sink_def add_processor_def pipeline_new_def)



text \<open>
  The source hears of every change of the back-pressure state that an \<open>Enqueue\<close> sees, once: over any
  run the calls of \<open>OnBackpressure\<close> alternate, the first is \<open>true\<close>, and the pipeline remembers the
  last one.
\<close>

theorem backpressure_calls_alternate:
  assumes "pipeline_run ops cs (pipeline_new name capacity policy high low) = Some pl"
  shows "pl_notified pl = map even [0..<length (pl_notified pl)] \<and>
    pl_last_backpressure pl = odd (length (pl_notified pl))"
proof -
  have "notified_ok (pipeline_new name capacity policy high low)"
    by (simp add: notified_ok_def pipeline_new_def)
  then show ?thesis
    using pipeline_run_notified_ok assms unfolding notified_ok_def by blast
qed

theorem backpressure_calls_alternate_witness:
  "\<exists>pl :: (unit, unit, nat) pipeline.
     pipeline_run demo_ops [DoEnqueue None, DoSinkTask] (pipeline_new ''p'' 2 DropNewest 0 0) = Some pl \<and>
     pl_last_backpressure pl = odd (length (pl_notified pl))"
  using backpressure_calls_alternate [of demo_ops "[DoEnqueue None, DoSinkTask]" "''p''" 2 DropNewest 0 0]
  by (auto simp: enqueue_def run_sink_task_def pipeline_new_def)

text \<open>
  With the sink pool a batch goes to all sinks or to none: an overloaded pool costs the whole batch and
  one error, otherwise there is one write task per sink, and the pipeline's pending tasks never
  exceed 256 by more than its number of sinks. Tasks run by the pool have the effect of the direct
  writes.
\<close>

theorem sink_pool_all_or_none:
  assumes "pl_sink_pool pl = Some pool"
  shows "(if 256 < sp_others pool + length (sp_tasks pool)
      then submit_to_sinks ops b pl = pl\<lparr>pl_error_count := pl_error_count pl + 1\<rparr>
      else (\<exists>pool'. pl_sink_pool (submit_to_sinks ops b pl) = Some pool' \<and>
        sp_tasks pool' = sp_tasks pool @ map (\<lambda>i. (i, b)) [0..<length (pl_sinks pl)] \<and>
        length (sp_tasks pool') \<le> 256 + length (pl_sinks pl))) \<and>
    (sp_others pool \<le> 256 \<and> sp_tasks pool = [] \<longrightarrow>
      (run_sink_task ops ^^ length (pl_sinks pl)) (submit_to_sinks ops b pl) =
        (submit_to_sinks ops b (pl\<lparr>pl_sink_pool := None\<rparr>))\<lparr>pl_sink_pool := Some pool\<rparr>)"
proof (intro conjI impI)
  show "if 256 < sp_others pool + length (sp_tasks pool)
      then submit_to_sinks ops b pl = pl\<lparr>pl_error_count := pl_error_count pl + 1\<rparr>
      else (\<exists>pool'. pl_sink_pool (submit_to_sinks ops b pl) = Some pool' \<and>
        sp_tasks pool' = sp_tasks pool @ map (\<lambda>i. (i, b)) [0..<length (pl_sinks pl)] \<and>
        length (sp_tasks pool') \<le> 256 + length (pl_sinks pl))"
    using assms by (simp add: submit_to_sinks_def max_pending_tasks_def count_error_def)
next
  assume h: "sp_others pool \<le> 256 \<and> sp_tasks pool = []"
  let ?is = "[0..<length (pl_sinks pl)]"
  let ?pl = "pl\<lparr>pl_sink_pool := Some (pool\<lparr>sp_tasks := map (\<lambda>i. (i, b)) ?is\<rparr>)\<rparr>"
  have s: "submit_to_sinks ops b pl = ?pl"
    using assms h by (simp add: submit_to_sinks_def max_pending_tasks_def)
  have "(run_sink_task ops ^^ length ?is) ?pl =
      (fold (write_sink ops b) ?is ?pl)\<lparr>pl_sink_pool := Some (pool\<lparr>sp_tasks := []\<rparr>)\<rparr>"
    by (rule run_sink_tasks) simp
  moreover have "fold (write_sink ops b) ?is ?pl = ?pl\<lparr>pl_sinks := map (write_state ops b) (pl_sinks pl),
      pl_error_count := pl_error_count pl + of_nat (write_errors ops b (pl_sinks pl))\<rparr>"
    using write_all_sinks [of ops b 0 ?pl] by simp
  ultimately show "(run_sink_task ops ^^ length (pl_sinks pl)) (submit_to_sinks ops b pl) =
        (submit_to_sinks ops b (pl\<lparr>pl_sink_pool := None\<rparr>))\<lparr>pl_sink_pool := Some pool\<rparr>"
    using h by (simp add: s submit_direct)
qed

theorem sink_pool_all_or_none_witness:
  "submit_to_sinks demo_ops (Some demo_batch) (set_sink_pool \<lparr>sp_others = 257, sp_tasks = []\<rparr> demo_pipeline) =
     (set_sink_pool \<lparr>sp_others = 257, sp_tasks = []\<rparr> demo_pipeline)\<lparr>pl_error_count := 1\<rparr>"
proof -
  let ?pl = "set_sink_pool \<lparr>sp_others = 257, sp_tasks = []\<rparr> demo_pipeline"
  have "pl_sink_pool ?pl = Some \<lparr>sp_others = 257, sp_tasks = []\<rparr>" "pl_error_count ?pl = 0"
    by (simp_all add: set_sink_pool_def demo_pipeline_def add_sink_def add_processor_def pipeline_new_def)
  from sink_pool_all_or_none [OF this(1), of demo_ops "Some demo_batch"] this(2) show ?thesis by simp
qed

end
