(* ===== verification/TimerWheel.thy ===== *)
theory TimerWheel
  imports Prelude "HOL-Library.Multiset"
begin

text \<open>
  The timer thread of \<open>src/core/engine/timer_wheel.h\<close>. Times and intervals are nanoseconds of the
  monotonic clock (\<open>int\<close>); a callback is an effect on the wheel itself: callbacks may add and
  cancel timers or stop the wheel. The priority queue is the list of its entries in the order in
  which \<open>top\<close> yields them; the order among equal deadlines, which the library leaves open, is the
  order of insertion. Every claim below is independent of that order. The timer descriptor is
  the delay it was last armed with.
\<close>

section \<open>State\<close>

record 'c timer_entry =
  te_id :: u32
  te_next_fire :: int
  te_interval :: int
  te_callback :: 'c
  te_repeating :: bool

datatype armed = Disarmed | ArmedFor nat nat \<comment> \<open>seconds and nanoseconds\<close>

record 'c wheel =
  tw_heap :: "'c timer_entry list"
  tw_running :: bool
  tw_next_id :: u32
  tw_fires_total :: u64
  tw_cancelled :: "u32 list"
  tw_timer :: armed
  tw_events :: nat

definition wheel_new :: "'c wheel" where
  "wheel_new = \<lparr>tw_heap = [], tw_running = False, tw_next_id = 0, tw_fires_total = 0,
     tw_cancelled = [], tw_timer = Disarmed, tw_events = 0\<rparr>"

section \<open>Operations\<close>

fun heap_push :: "'c timer_entry \<Rightarrow> 'c timer_entry list \<Rightarrow> 'c timer_entry list" where
  "heap_push e [] = [e]"
| "heap_push e (x # xs) =
     (if te_next_fire e < te_next_fire x then e # x # xs else x # heap_push e xs)"

text \<open>\<open>RearmTimerfdLocked\<close> at the time \<open>now\<close>, which it reads itself.\<close>

definition rearm :: "int \<Rightarrow> 'c wheel \<Rightarrow> 'c wheel" where
  "rearm now w =
     w\<lparr>tw_timer :=
         (case tw_heap w of
            [] \<Rightarrow> Disarmed
          | e # _ \<Rightarrow>
              let dur = te_next_fire e - now
              in if dur \<le> 0 then ArmedFor 0 1
                 else ArmedFor (nat (dur div 1000000000)) (nat (dur mod 1000000000)))\<rparr>"

definition wakeup :: "'c wheel \<Rightarrow> 'c wheel" where
  "wakeup w = w\<lparr>tw_events := tw_events w + 1\<rparr>"

text \<open>The clock is read twice: for the deadline at \<open>now\<close> and to arm the descriptor at \<open>now'\<close>.\<close>

definition add_timer ::
  "bool \<Rightarrow> int \<Rightarrow> int \<Rightarrow> int \<Rightarrow> int \<Rightarrow> 'c \<Rightarrow> 'c wheel \<Rightarrow> 'c wheel \<times> u32" where
  "add_timer repeating delay interval now now' cb w =
     (let e = \<lparr>te_id = tw_next_id w, te_next_fire = now + delay, te_interval = interval,
               te_callback = cb, te_repeating = repeating\<rparr>
      in (wakeup (rearm now' (w\<lparr>tw_next_id := tw_next_id w + 1, tw_heap := heap_push e (tw_heap w)\<rparr>)),
          tw_next_id w))"

definition add_repeating :: "int \<Rightarrow> int \<Rightarrow> int \<Rightarrow> 'c \<Rightarrow> 'c wheel \<Rightarrow> 'c wheel \<times> u32" where
  "add_repeating now now' interval cb w = add_timer True interval interval now now' cb w"

definition add_once :: "int \<Rightarrow> int \<Rightarrow> int \<Rightarrow> 'c \<Rightarrow> 'c wheel \<Rightarrow> 'c wheel \<times> u32" where
  "add_once now now' delay cb w = add_timer False delay 0 now now' cb w"

definition cancel :: "u32 \<Rightarrow> 'c wheel \<Rightarrow> 'c wheel" where
  "cancel i w = w\<lparr>tw_cancelled := tw_cancelled w @ [i]\<rparr>"

text \<open>\<open>Start\<close> with the epoll descriptor open; \<open>Stop\<close> tells the thread, which leaves its loop.\<close>

definition wheel_start :: "'c wheel \<Rightarrow> 'c wheel" where
  "wheel_start w = w\<lparr>tw_running := True\<rparr>"

definition wheel_stop :: "'c wheel \<Rightarrow> 'c wheel" where
  "wheel_stop w = (if tw_running w then wakeup (w\<lparr>tw_running := False\<rparr>) else w)"

definition active_timers :: "'c wheel \<Rightarrow> nat" where
  "active_timers w = length (tw_heap w)"

definition purge_cancelled :: "'c wheel \<Rightarrow> 'c wheel" where
  "purge_cancelled w =
     (if tw_cancelled w = [] then w
      else w\<lparr>tw_heap := fold heap_push
                 (filter (\<lambda>e. te_id e \<notin> set (tw_cancelled w)) (tw_heap w)) [],
             tw_cancelled := []\<rparr>)"

fun pop_due :: "int \<Rightarrow> 'c timer_entry list \<Rightarrow> 'c timer_entry list \<times> 'c timer_entry list" where
  "pop_due now [] = ([], [])"
| "pop_due now (e # es) =
     (if te_next_fire e \<le> now then (let (fired, rest) = pop_due now es in (e # fired, rest))
      else ([], e # es))"

text \<open>One round of the loop over the fired entries: the callback, the counter, the reschedule.\<close>

definition fire_entry :: "('c \<Rightarrow> 'c wheel \<Rightarrow> 'c wheel) \<Rightarrow> 'c timer_entry \<Rightarrow> 'c wheel \<Rightarrow> 'c wheel" where
  "fire_entry run e w =
     (let w = run (te_callback e) w;
          w = w\<lparr>tw_fires_total := tw_fires_total w + 1\<rparr>
      in if te_repeating e \<and> tw_running w
         then w\<lparr>tw_heap := heap_push (e\<lparr>te_next_fire := te_next_fire e + te_interval e\<rparr>) (tw_heap w)\<rparr>
         else w)"

definition process_fired ::
  "('c \<Rightarrow> 'c wheel \<Rightarrow> 'c wheel) \<Rightarrow> int \<Rightarrow> int \<Rightarrow> 'c wheel \<Rightarrow> 'c wheel" where
  "process_fired run now now' w =
     (let w = purge_cancelled w;
          (fired, rest) = pop_due now (tw_heap w);
          w = fold (fire_entry run) fired (w\<lparr>tw_heap := rest\<rparr>)
      in rearm now' w)"

text \<open>
  \<open>Run\<close>, one iteration per element of the list: the times at which \<open>ProcessFired\<close> reads the clock at
  its start and its end. The wait before it ends on the timer, on a wakeup or after a second, and
  the reads of the descriptors only clear them.
\<close>

fun timer_run :: "('c \<Rightarrow> 'c wheel \<Rightarrow> 'c wheel) \<Rightarrow> (int \<times> int) list \<Rightarrow> 'c wheel \<Rightarrow> 'c wheel" where
  "timer_run run [] w = w"
| "timer_run run ((now, now') # ts) w =
     (if tw_running w then timer_run run ts (process_fired run now now' (w\<lparr>tw_events := 0\<rparr>)) else w)"

section \<open>The queue\<close>

abbreviation heap_sorted :: "'c timer_entry list \<Rightarrow> bool" where
  "heap_sorted es \<equiv> sorted (map te_next_fire es)"

lemma mset_heap_push [simp]: "mset (heap_push e es) = add_mset e (mset es)"
  by (induction es) auto

lemma set_heap_push [simp]: "set (heap_push e es) = insert e (set es)"
  using mset_heap_push [of e es] by (metis set_mset_add_mset_insert set_mset_mset)

lemma sorted_heap_push [simp]: "heap_sorted es \<Longrightarrow> heap_sorted (heap_push e es)"
  by (induction es) auto

lemma fold_heap_push:
  "mset (fold heap_push es hp) = mset es + mset hp"
  "heap_sorted hp \<Longrightarrow> heap_sorted (fold heap_push es hp)"
  by (induction es arbitrary: hp) auto

lemma pop_due_filter:
  "heap_sorted es \<Longrightarrow>
   pop_due now es = (filter (\<lambda>e. te_next_fire e \<le> now) es, filter (\<lambda>e. \<not> te_next_fire e \<le> now) es)"
proof (induction es)
  case (Cons e es)
  show ?case
  proof (cases "te_next_fire e \<le> now")
    case False
    then have "\<forall>x \<in> set es. \<not> te_next_fire x \<le> now" using Cons.prems by fastforce
    with False show ?thesis by (simp add: filter_empty_conv)
  qed (use Cons in simp)
qed simp

lemma purge_cancelled_heap:
  assumes "heap_sorted (tw_heap w)"
  shows "heap_sorted (tw_heap (purge_cancelled w))"
    "mset (tw_heap (purge_cancelled w)) = mset (filter (\<lambda>e. te_id e \<notin> set (tw_cancelled w)) (tw_heap w))"
    "tw_cancelled (purge_cancelled w) = []" "tw_running (purge_cancelled w) = tw_running w"
    "tw_fires_total (purge_cancelled w) = tw_fires_total w"
  using assms by (auto simp: purge_cancelled_def fold_heap_push)

section \<open>Rounds with callbacks that leave the wheel alone\<close>

abbreviation quiet :: "'c \<Rightarrow> 'c wheel \<Rightarrow> 'c wheel" where
  "quiet \<equiv> \<lambda>_ w. w"

definition advance :: "nat \<Rightarrow> 'c timer_entry \<Rightarrow> 'c timer_entry" where
  "advance k e = e\<lparr>te_next_fire := te_next_fire e + int k * te_interval e\<rparr>"

lemma advance_simps [simp]:
  "advance 0 e = e" "te_id (advance k e) = te_id e" "te_repeating (advance k e) = te_repeating e"
  "te_interval (advance k e) = te_interval e"
  "te_next_fire (advance k e) = te_next_fire e + int k * te_interval e"
  "advance k (advance j e) = advance (k + j) e"
  by (simp_all add: advance_def algebra_simps)

lemma fire_quiet:
  "tw_running w \<Longrightarrow> heap_sorted (tw_heap w) \<Longrightarrow>
   mset (tw_heap (fold (fire_entry quiet) F w)) =
      mset (map (advance 1) (filter te_repeating F)) + mset (tw_heap w) \<and>
   heap_sorted (tw_heap (fold (fire_entry quiet) F w)) \<and>
   tw_fires_total (fold (fire_entry quiet) F w) = tw_fires_total w + of_nat (length F) \<and>
   tw_running (fold (fire_entry quiet) F w) \<and>
   tw_cancelled (fold (fire_entry quiet) F w) = tw_cancelled w"
proof (induction F arbitrary: w)
  case (Cons e F)
  have step: "tw_running (fire_entry quiet e w)" "heap_sorted (tw_heap (fire_entry quiet e w))"
    "mset (tw_heap (fire_entry quiet e w)) =
       (if te_repeating e then add_mset (advance 1 e) (mset (tw_heap w)) else mset (tw_heap w))"
    "tw_fires_total (fire_entry quiet e w) = tw_fires_total w + 1"
    "tw_cancelled (fire_entry quiet e w) = tw_cancelled w"
    using Cons.prems by (simp_all add: fire_entry_def Let_def advance_def)
  show ?case using Cons.IH [OF step(1,2)] step(3-) by simp
qed simp

text \<open>What one round makes of an entry: fired entries advance if they repeat and are gone otherwise.\<close>

definition round_entry :: "int \<Rightarrow> 'c timer_entry \<Rightarrow> 'c timer_entry list" where
  "round_entry now e =
     (if te_next_fire e \<le> now then (if te_repeating e then [advance 1 e] else []) else [e])"

lemma mset_concat_round:
  "mset (map (advance 1) (filter te_repeating (filter (\<lambda>e. te_next_fire e \<le> now) es))) +
     mset (filter (\<lambda>e. \<not> te_next_fire e \<le> now) es) = mset (concat (map (round_entry now) es))"
  by (induction es) (auto simp: round_entry_def filter_filter_mset)

lemma process_fired_quiet:
  fixes w :: "'c wheel"
  assumes "tw_running w" "heap_sorted (tw_heap w)"
  defines "es \<equiv> tw_heap (purge_cancelled w)"
  shows "mset (tw_heap (process_fired quiet now now' w)) = mset (concat (map (round_entry now) es))"
    "heap_sorted (tw_heap (process_fired quiet now now' w))"
    "tw_fires_total (process_fired quiet now now' w) =
       tw_fires_total w + of_nat (length (filter (\<lambda>e. te_next_fire e \<le> now) es))"
    "tw_running (process_fired quiet now now' w)" "tw_cancelled (process_fired quiet now now' w) = []"
proof -
  note p = purge_cancelled_heap [OF assms(2), folded es_def]
  let ?w = "(purge_cancelled w)\<lparr>tw_heap := filter (\<lambda>e. \<not> te_next_fire e \<le> now) es\<rparr>"
  have w: "tw_running ?w" "heap_sorted (tw_heap ?w)"
    using p assms(1) by (simp_all add: sorted_filter)
  have e: "process_fired quiet now now' w =
      rearm now' (fold (fire_entry quiet) (filter (\<lambda>e. te_next_fire e \<le> now) es) ?w)"
    using p by (simp add: process_fired_def Let_def es_def pop_due_filter)
  show "mset (tw_heap (process_fired quiet now now' w)) = mset (concat (map (round_entry now) es))"
    "heap_sorted (tw_heap (process_fired quiet now now' w))"
    "tw_fires_total (process_fired quiet now now' w) =
       tw_fires_total w + of_nat (length (filter (\<lambda>e. te_next_fire e \<le> now) es))"
    "tw_running (process_fired quiet now now' w)" "tw_cancelled (process_fired quiet now now' w) = []"
    using fire_quiet [OF w, of "filter (\<lambda>e. te_next_fire e \<le> now) es"] p(1,3-)
      mset_concat_round [of now es] unfolding e by (simp_all add: rearm_def)
qed

section \<open>Many rounds\<close>

text \<open>How often a timer due first at \<open>d\<close> fires in rounds at the given times: once a round at most.\<close>

fun fire_count :: "int \<Rightarrow> int \<Rightarrow> (int \<times> int) list \<Rightarrow> nat" where
  "fire_count d ivl [] = 0"
| "fire_count d ivl ((now, now') # ts) =
     (if d \<le> now then 1 + fire_count (d + ivl) ivl ts else fire_count d ivl ts)"

text \<open>What the rounds make of one entry, and how often they fire it.\<close>

definition rounds_entry :: "(int \<times> int) list \<Rightarrow> 'c timer_entry \<Rightarrow> 'c timer_entry list" where
  "rounds_entry ts e =
     (if te_repeating e then [advance (fire_count (te_next_fire e) (te_interval e) ts) e]
      else if \<exists>t \<in> set ts. te_next_fire e \<le> fst t then [] else [e])"

definition rounds_fires :: "(int \<times> int) list \<Rightarrow> 'c timer_entry \<Rightarrow> nat" where
  "rounds_fires ts e =
     (if te_repeating e then fire_count (te_next_fire e) (te_interval e) ts
      else if \<exists>t \<in> set ts. te_next_fire e \<le> fst t then 1 else 0)"

lemma rounds_entry_step:
  "concat (map (rounds_entry ts) (round_entry now e)) = rounds_entry ((now, now') # ts) e"
  by (auto simp: rounds_entry_def round_entry_def)

lemma rounds_fires_step:
  "(if te_next_fire e \<le> now then 1 else 0) + sum_list (map (rounds_fires ts) (round_entry now e)) =
   rounds_fires ((now, now') # ts) e"
  by (auto simp: rounds_fires_def round_entry_def)

lemma mset_concat_map: "mset xs = mset ys \<Longrightarrow> mset (concat (map f xs)) = mset (concat (map f ys))"
  by (metis mset_concat mset_map sum_mset_sum_list)

lemma sum_list_mset: "mset xs = mset ys \<Longrightarrow> sum_list (map f xs) = sum_list (map (f :: _ \<Rightarrow> nat) ys)"
  by (metis mset_map sum_mset_sum_list)

lemma timer_run_quiet:
  "tw_running w \<Longrightarrow> heap_sorted (tw_heap w) \<Longrightarrow> tw_cancelled w = [] \<Longrightarrow>
   mset (tw_heap (timer_run quiet ts w)) = mset (concat (map (rounds_entry ts) (tw_heap w))) \<and>
   tw_fires_total (timer_run quiet ts w) =
     tw_fires_total w + of_nat (sum_list (map (rounds_fires ts) (tw_heap w)))"
proof (induction ts arbitrary: w)
  case Nil
  have "rounds_entry [] e = [e]" "rounds_fires [] e = 0" for e :: "'a timer_entry"
    by (simp_all add: rounds_entry_def rounds_fires_def)
  then show ?case by simp
next
  case (Cons t ts)
  obtain now now' where t: "t = (now, now')" by (cases t)
  let ?w = "process_fired quiet now now' (w\<lparr>tw_events := 0\<rparr>)"
  have es: "tw_heap (purge_cancelled (w\<lparr>tw_events := 0\<rparr>)) = tw_heap w"
    using Cons.prems by (simp add: purge_cancelled_def)
  have r: "tw_running (w\<lparr>tw_events := 0\<rparr>)" "heap_sorted (tw_heap (w\<lparr>tw_events := 0\<rparr>))"
    using Cons.prems by simp_all
  note p = process_fired_quiet [OF r, of now now', unfolded es]
  have "concat (map (rounds_entry ts) (concat (map (round_entry now) es))) =
      concat (map (rounds_entry ((now, now') # ts)) es)" for es :: "'a timer_entry list"
    by (induction es) (simp_all flip: rounds_entry_step)
  moreover have "length (filter (\<lambda>e. te_next_fire e \<le> now) es) +
      sum_list (map (rounds_fires ts) (concat (map (round_entry now) es))) =
      sum_list (map (rounds_fires ((now, now') # ts)) es)" for es :: "'a timer_entry list"
    by (induction es) (simp_all flip: rounds_fires_step [where now' = now'])
  then have "of_nat (length (filter (\<lambda>e. te_next_fire e \<le> now) es)) +
      of_nat (sum_list (map (rounds_fires ts) (concat (map (round_entry now) es)))) =
      (of_nat (sum_list (map (rounds_fires ((now, now') # ts)) es)) :: u64)" for es :: "'a timer_entry list"
    by (metis of_nat_add)
  ultimately show ?case
    using Cons.IH [OF p(4,2,5)] Cons.prems(1) t p(3) mset_concat_map [OF p(1), of "rounds_entry ts"]
      sum_list_mset [OF p(1), of "rounds_fires ts"]
    by (simp add: add.assoc)
qed

text \<open>A repeating timer never drifts, and fires in every round that finds it due.\<close>

lemma fire_count_bounds:
  "fire_count d ivl ts \<le> length ts"
  "0 < fire_count d ivl ts \<Longrightarrow> 0 \<le> ivl \<Longrightarrow> \<exists>t \<in> set ts. d + (int (fire_count d ivl ts) - 1) * ivl \<le> fst t"
proof (induction d ivl ts rule: fire_count.induct)
  case (2 d ivl now now' ts)
  { case 1 then show ?case using 2 by auto }
  { case 2
    show ?case
    proof (cases "d \<le> now \<and> fire_count (d + ivl) ivl ts = 0")
      case False
      then show ?thesis using "2.IH"(2,4) 2 by (auto simp: algebra_simps split: if_splits)
    qed simp }
qed simp_all

lemma rearm_earliest:
  assumes "heap_sorted (tw_heap w)" "tw_heap w \<noteq> []"
  shows "\<exists>s ns. tw_timer (rearm now w) = ArmedFor s ns \<and> ns < 1000000000 \<and>
    int s * 1000000000 + int ns = max 1 (Min (te_next_fire ` set (tw_heap w)) - now)"
proof -
  obtain e es where h: "tw_heap w = e # es" using assms(2) by (cases "tw_heap w") auto
  then have m: "Min (te_next_fire ` set (tw_heap w)) = te_next_fire e"
    using assms(1) by (intro Min_eqI) auto
  let ?d = "te_next_fire e - now"
  show ?thesis
  proof (cases "?d \<le> 0")
    case False
    then have "0 \<le> ?d div 1000000000" "0 \<le> ?d mod 1000000000" "?d mod 1000000000 < 1000000000"
      by (simp_all add: pos_imp_zdiv_nonneg_iff)
    moreover have "?d div 1000000000 * 1000000000 + ?d mod 1000000000 = ?d" by (rule div_mult_mod_eq)
    ultimately show ?thesis
      using h m False by (auto simp: rearm_def Let_def nat_less_iff)
  qed (use h m in \<open>simp add: rearm_def\<close>)
qed

section \<open>Properties\<close>

text \<open>
  C36: over any number of rounds of the timer thread, with callbacks that leave the wheel alone and no
  cancellation pending, every timer keeps its own schedule whatever the others do: a repeating timer
  advances by whole intervals from its first deadline, once for each round that finds it due and
  never before its deadline; a one-shot timer fires in the first such round and is gone; the total
  of fired timers is the sum.
\<close>

theorem timer_rounds:
  assumes "tw_running w" "heap_sorted (tw_heap w)" "tw_cancelled w = []"
  shows "mset (tw_heap (timer_run quiet ts w)) = mset (concat (map (rounds_entry ts) (tw_heap w))) \<and>
    tw_fires_total (timer_run quiet ts w) =
      tw_fires_total w + of_nat (sum_list (map (rounds_fires ts) (tw_heap w))) \<and>
    (\<forall>e \<in> set (tw_heap w). rounds_fires ts e \<le> length ts \<and>
       (te_repeating e \<and> 0 < rounds_fires ts e \<and> 0 \<le> te_interval e \<longrightarrow>
          (\<exists>t \<in> set ts. te_next_fire e + (int (rounds_fires ts e) - 1) * te_interval e \<le> fst t)))"
proof (intro conjI ballI impI)
  note r = timer_run_quiet [OF assms, of ts]
  then show "mset (tw_heap (timer_run quiet ts w)) = mset (concat (map (rounds_entry ts) (tw_heap w)))"
    by blast
  show "tw_fires_total (timer_run quiet ts w) =
      tw_fires_total w + of_nat (sum_list (map (rounds_fires ts) (tw_heap w)))" using r by blast
  fix e :: "'a timer_entry"
  show "rounds_fires ts e \<le> length ts"
    using fire_count_bounds(1) [of "te_next_fire e" "te_interval e" ts]
    by (auto simp: rounds_fires_def Suc_le_eq dest: length_pos_if_in_set)
  assume h: "te_repeating e \<and> 0 < rounds_fires ts e \<and> 0 \<le> te_interval e"
  then have f: "rounds_fires ts e = fire_count (te_next_fire e) (te_interval e) ts"
    by (simp add: rounds_fires_def)
  from h show "\<exists>t \<in> set ts. te_next_fire e + (int (rounds_fires ts e) - 1) * te_interval e \<le> fst t"
    using fire_count_bounds(2) unfolding f by blast
qed

theorem timer_rounds_witness:
  "let w = wheel_start (fst (add_once 0 0 5 () (fst (add_repeating 0 0 10 () wheel_new))))
   in mset (tw_heap (timer_run quiet [(4, 4), (7, 8), (23, 23), (23, 24)] w)) =
        {#\<lparr>te_id = 0, te_next_fire = 30, te_interval = 10, te_callback = (), te_repeating = True\<rparr>#} \<and>
      tw_fires_total (timer_run quiet [(4, 4), (7, 8), (23, 23), (23, 24)] w) = 3"
proof -
  let ?w = "wheel_start (fst (add_once 0 0 5 () (fst (add_repeating 0 0 10 () wheel_new))))"
  have h: "tw_heap ?w =
      [\<lparr>te_id = 1, te_next_fire = 5, te_interval = 0, te_callback = (), te_repeating = False\<rparr>,
       \<lparr>te_id = 0, te_next_fire = 10, te_interval = 10, te_callback = (), te_repeating = True\<rparr>]"
    "tw_running ?w" "tw_cancelled ?w = []" "tw_fires_total ?w = 0"
    by (simp_all add: wheel_start_def add_once_def add_repeating_def add_timer_def wheel_new_def
        wakeup_def rearm_def Let_def)
  then have "heap_sorted (tw_heap ?w)" by simp
  from timer_rounds [OF h(2) this h(3), of "[(4, 4), (7, 8), (23, 23), (23, 24)]"] h show ?thesis
    by (simp add: rounds_entry_def rounds_fires_def advance_def)
qed

text \<open>
  Whenever the wheel has timers, the descriptor is armed for the earliest deadline (in the past:
  for one nanosecond), with seconds and nanoseconds in range; without timers it is disarmed. This
  holds after a timer is added and after every round, whatever the callbacks did to the wheel, as
  long as they use its operations and so keep the queue ordered.
\<close>

theorem timer_armed_for_earliest:
  assumes "heap_sorted (tw_heap w)"
    "\<forall>c w. heap_sorted (tw_heap w) \<longrightarrow> heap_sorted (tw_heap (run c w))"
    "w' = process_fired run now now' w \<or> w' = fst (add_timer rep delay ivl now now' cb w)"
  shows "heap_sorted (tw_heap w') \<and>
    (if tw_heap w' = [] then tw_timer w' = Disarmed
     else \<exists>s ns. tw_timer w' = ArmedFor s ns \<and> ns < 1000000000 \<and>
            int s * 1000000000 + int ns = max 1 (Min (te_next_fire ` set (tw_heap w')) - now'))"
proof -
  have fire: "heap_sorted (tw_heap (fold (fire_entry run) F v))" if "heap_sorted (tw_heap v)" for F v
    using that
  proof (induction F arbitrary: v)
    case (Cons e F)
    have "heap_sorted (tw_heap (run (te_callback e) v))" using assms(2) Cons.prems by blast
    then have "heap_sorted (tw_heap (fire_entry run e v))"
      by (simp add: fire_entry_def Let_def)
    then show ?case using Cons.IH by simp
  qed simp
  obtain v where v: "heap_sorted (tw_heap v)" "tw_heap w' = tw_heap v" "tw_timer w' = tw_timer (rearm now' v)"
    using assms(3)
  proof
    let ?es = "tw_heap (purge_cancelled w)"
    let ?v = "fold (fire_entry run) (fst (pop_due now ?es))
      ((purge_cancelled w)\<lparr>tw_heap := snd (pop_due now ?es)\<rparr>)"
    assume e: "w' = process_fired run now now' w"
    have "heap_sorted (tw_heap ?v)"
      using purge_cancelled_heap(1) [OF assms(1)] by (intro fire) (simp add: pop_due_filter sorted_filter)
    with e that [of ?v] show thesis
      by (simp add: process_fired_def Let_def split_beta rearm_def)
  next
    let ?e = "\<lparr>te_id = tw_next_id w, te_next_fire = now + delay, te_interval = ivl,
      te_callback = cb, te_repeating = rep\<rparr>"
    assume "w' = fst (add_timer rep delay ivl now now' cb w)"
    with assms(1) that [of "w\<lparr>tw_next_id := tw_next_id w + 1, tw_heap := heap_push ?e (tw_heap w)\<rparr>"]
    show thesis by (simp add: add_timer_def wakeup_def rearm_def Let_def)
  qed
  show ?thesis
    using rearm_earliest [OF v(1), of now'] v by (auto simp: rearm_def)
qed

theorem timer_armed_for_earliest_witness:
  "let w' = fst (add_timer True 2500000000 2500000000 0 1 () wheel_new)
   in heap_sorted (tw_heap w') \<and> tw_timer w' = ArmedFor 2 499999999"
proof -
  let ?w = "fst (add_timer True 2500000000 2500000000 0 1 () wheel_new)"
  have h: "heap_sorted (tw_heap wheel_new)"
    "\<forall>c w. heap_sorted (tw_heap w) \<longrightarrow> heap_sorted (tw_heap (quiet c w))"
    "?w = process_fired quiet 0 1 wheel_new \<or> ?w = ?w"
    by (simp_all add: wheel_new_def)
  from timer_armed_for_earliest [OF h] show ?thesis
    by (simp add: add_timer_def wheel_new_def wakeup_def rearm_def Let_def)
qed

text \<open>
  A timer cancelled before a round starts neither fires in it nor stays: the round is the one of
  the wheel without that timer, whatever the callbacks do.
\<close>

theorem timer_cancel_effective:
  "process_fired run now now' (cancel i w) =
   process_fired run now now' (cancel i (w\<lparr>tw_heap := filter (\<lambda>e. te_id e \<noteq> i) (tw_heap w)\<rparr>))"
proof -
  have "filter (\<lambda>e. te_id e \<notin> set (tw_cancelled w @ [i])) (tw_heap w) =
      filter (\<lambda>e. te_id e \<notin> set (tw_cancelled w @ [i])) (filter (\<lambda>e. te_id e \<noteq> i) (tw_heap w))"
    by (auto simp: intro: filter_cong)
  then have "purge_cancelled (cancel i w) =
      purge_cancelled (cancel i (w\<lparr>tw_heap := filter (\<lambda>e. te_id e \<noteq> i) (tw_heap w)\<rparr>))"
    by (simp add: purge_cancelled_def cancel_def)
  then show ?thesis by (simp add: process_fired_def)
qed

end
