(* ===== verification/Config.thy ===== *)
theory Config
  imports Status "HOL-Library.AList"
begin

text \<open>
  The configuration values (\<open>src/core/common/config.h\<close>) and the list parser of
  \<open>src/core/common/string_util.h\<close>. A \<open>ConfigValue\<close> is a flat map from dotted keys to strings,
  here an association list with distinct keys whose order means nothing.
\<close>

section \<open>ConfigValue\<close>

type_synonym config_value = "(string \<times> string) list"

definition cv_wf :: "config_value \<Rightarrow> bool" where
  "cv_wf v \<longleftrightarrow> distinct (map fst v)"

definition cv_of_int :: "int \<Rightarrow> config_value" where
  "cv_of_int i = [([], show_int i)]"

definition cv_of_string :: "string \<Rightarrow> config_value" where
  "cv_of_string s = [([], s)]"

definition cv_set :: "string \<Rightarrow> string \<Rightarrow> config_value \<Rightarrow> config_value" where
  "cv_set key x v = AList.update key x v"

definition cv_set_int :: "string \<Rightarrow> int \<Rightarrow> config_value \<Rightarrow> config_value" where
  "cv_set_int key i v = AList.update key (show_int i) v"

definition cv_step :: "string \<Rightarrow> string \<times> string \<Rightarrow> config_value \<Rightarrow> config_value" where
  "cv_step prefix e child =
     (if take (length prefix) (fst e) = prefix
      then AList.update (drop (length prefix) (fst e)) (snd e) child else child)"

definition cv_child :: "string \<Rightarrow> config_value \<Rightarrow> config_value" where
  "cv_child key v =
     (let child = (case map_of v key of None \<Rightarrow> [] | Some x \<Rightarrow> [([], x)])
      in fold (cv_step (key @ ''.'')) v child)"

definition cv_is_null :: "config_value \<Rightarrow> bool" where
  "cv_is_null v \<longleftrightarrow> v = []"

definition as_int :: "config_value \<Rightarrow> int \<Rightarrow> int" where
  "as_int v dflt =
     (case map_of v [] of None \<Rightarrow> dflt
      | Some s \<Rightarrow> (case stoll s of None \<Rightarrow> dflt | Some i \<Rightarrow> i))"

text \<open>\<open>std::stod\<close> is the parameter \<open>stod\<close>, with its exceptions as \<open>None\<close>.\<close>

definition as_double :: "(string \<Rightarrow> real option) \<Rightarrow> config_value \<Rightarrow> real \<Rightarrow> real" where
  "as_double stod v dflt =
     (case map_of v [] of None \<Rightarrow> dflt
      | Some s \<Rightarrow> (case stod s of None \<Rightarrow> dflt | Some r \<Rightarrow> r))"

definition as_string :: "config_value \<Rightarrow> string \<Rightarrow> string" where
  "as_string v dflt = (case map_of v [] of None \<Rightarrow> dflt | Some s \<Rightarrow> s)"

definition as_bool :: "config_value \<Rightarrow> bool \<Rightarrow> bool" where
  "as_bool v dflt = (case map_of v [] of None \<Rightarrow> dflt | Some s \<Rightarrow> s = ''true'' \<or> s = ''1'')"

text \<open>
  \<open>AsList\<close>. The reservation throws \<open>std::length_error\<close> above the largest size of a vector of
  32-byte strings, outside the handler: the outer \<open>None\<close>.
\<close>

definition max_strings :: nat where
  "max_strings = (2 ^ 63 - 1) div 32"

definition as_list :: "config_value \<Rightarrow> string list option" where
  "as_list v =
     (case map_of v ''_size'' of
        None \<Rightarrow>
          (case map_of v [] of
             None \<Rightarrow> Some []
           | Some s \<Rightarrow> Some (if s \<noteq> [] then [s] else []))
      | Some sz \<Rightarrow>
          (case stoul sz of
             None \<Rightarrow> Some []
           | Some n \<Rightarrow>
               if max_strings < unat n then None
               else Some (List.map_filter (\<lambda>i. map_of v (show_nat i)) [0..<unat n])))"

section \<open>The configuration records\<close>

record stage_config =
  sc_type :: string
  sc_config :: config_value

record pipeline_config =
  pc_name :: string
  pc_source :: stage_config
  pc_processors :: "stage_config list"
  pc_aggregator :: "stage_config option"
  pc_sinks :: "stage_config list"

record channel_config =
  cc_size :: string
  cc_drop_policy :: string
  cc_backpressure_high :: real
  cc_backpressure_low :: real

record engine_config =
  ec_collect_pool_threads :: u32
  ec_sink_pool_threads :: u32
  ec_channel :: channel_config

definition default_engine_config :: engine_config where
  "default_engine_config =
     \<lparr>ec_collect_pool_threads = 0, ec_sink_pool_threads = 0,
      ec_channel = \<lparr>cc_size = ''medium'', cc_drop_policy = ''drop_newest'',
        cc_backpressure_high = 4/5, cc_backpressure_low = 1/5\<rparr>\<rparr>"

section \<open>ParseCommaSeparated\<close>

definition is_blank :: "char \<Rightarrow> bool" where
  "is_blank c \<longleftrightarrow> c = CHR '' '' \<or> c = CHR 0x09"

definition trim_end :: "string \<Rightarrow> string" where
  "trim_end s = rev (dropWhile is_blank (rev s))"

function comma_tokens :: "string \<Rightarrow> string list" where
  "comma_tokens s =
     (let s = dropWhile is_blank s
      in if s = [] then []
         else let token = trim_end (takeWhile (\<lambda>c. c \<noteq> CHR '','') s);
                  rest = comma_tokens (drop 1 (dropWhile (\<lambda>c. c \<noteq> CHR '','') s))
              in if token \<noteq> [] then token # rest else rest)"
  by auto
termination
proof (relation "measure length")
  fix s s' :: string
  assume "s' = dropWhile is_blank s" "s' \<noteq> []"
  then have "length s' \<le> length s" "0 < length s'" by (simp_all add: length_dropWhile_le)
  moreover have "length (drop 1 (dropWhile (\<lambda>c. c \<noteq> CHR '','') s')) < length s'"
    using \<open>0 < length s'\<close> length_dropWhile_le [of "\<lambda>c. c \<noteq> CHR '',''" s']
    by (simp del: length_greater_0_conv)
  ultimately show "(drop 1 (dropWhile (\<lambda>c. c \<noteq> CHR '','') s'), s) \<in> measure length" by simp
qed simp

declare comma_tokens.simps [simp del]

text \<open>A token whose conversion throws is skipped (and logged).\<close>

definition parse_comma_u32 :: "string \<Rightarrow> u32 list" where
  "parse_comma_u32 s = List.map_filter (\<lambda>t. map_option ucast (stoul t)) (comma_tokens s)"

definition parse_comma_int :: "string \<Rightarrow> int list" where
  "parse_comma_int s = List.map_filter stoi (comma_tokens s)"

section \<open>Lookups\<close>

lemma cv_step_lookup:
  "map_of (cv_step p e c) =
     (if take (length p) (fst e) = p then (map_of c)(drop (length p) (fst e) \<mapsto> snd e) else map_of c)"
  by (auto simp: cv_step_def update_conv')

lemma cv_fold_lookup:
  "cv_wf v \<Longrightarrow>
   map_of (fold (cv_step p) v c) k =
     (case map_of v (p @ k) of Some x \<Rightarrow> Some x | None \<Rightarrow> map_of c k)"
proof (induction v arbitrary: c)
  case (Cons e v)
  obtain k' x where e: "e = (k', x)" by (cases e)
  have wf: "cv_wf v" and new: "map_of v k' = None"
    using Cons.prems e by (simp_all add: cv_wf_def map_of_eq_None_iff)
  show ?case
  proof (cases "k' = p @ k")
    case True
    then show ?thesis using Cons.IH [OF wf] new e by (simp add: cv_step_lookup)
  next
    case False
    then have "map_of (cv_step p e c) k = map_of c k"
      using e by (auto simp: cv_step_lookup) (metis append_take_drop_id)
    then show ?thesis using Cons.IH [OF wf, of "cv_step p e c"] False e
      by (auto split: option.splits)
  qed
qed simp

text \<open>What \<open>operator[]\<close> returns: the part of the map below the key, and the key's own value.\<close>

lemma cv_child_lookup:
  "cv_wf v \<Longrightarrow>
   map_of (cv_child key v) k =
     (case map_of v (key @ ''.'' @ k) of
        Some x \<Rightarrow> Some x | None \<Rightarrow> if k = [] then map_of v key else None)"
  using cv_fold_lookup [of v "key @ ''.''" "case map_of v key of None \<Rightarrow> [] | Some x \<Rightarrow> [([], x)]" k]
  by (auto simp: cv_child_def split: option.splits)

lemma cv_wf_step: "cv_wf c \<Longrightarrow> cv_wf (cv_step p e c)"
  by (simp add: cv_wf_def cv_step_def distinct_update)

lemma cv_wf_fold: "cv_wf c \<Longrightarrow> cv_wf (fold (cv_step p) v c)"
  by (induction v arbitrary: c) (simp_all add: cv_wf_step)

lemma cv_wf_child: "cv_wf (cv_child key v)"
  unfolding cv_child_def Let_def
  by (rule cv_wf_fold) (simp add: cv_wf_def split: option.splits)

lemma cv_wf_set: "cv_wf v \<Longrightarrow> cv_wf (cv_set key x v)"
  by (simp add: cv_wf_def cv_set_def distinct_update)

lemma cv_wf_set_int: "cv_wf v \<Longrightarrow> cv_wf (cv_set_int key i v)"
  by (simp add: cv_wf_def cv_set_int_def distinct_update)

text \<open>
  Reading a nested key step by step is reading the dotted key at once, and a 64-bit integer
  stored under a key is read back by \<open>operator[]\<close> and \<open>AsInt\<close> (unless the map also has the key
  followed by a bare dot, whose value \<open>operator[]\<close> takes instead).
\<close>

theorem config_paths_and_ints:
  assumes "cv_wf v" "b \<noteq> []" "map_of v (a @ ''.'') = None" "- (2 ^ 63) \<le> i" "i < 2 ^ 63"
  shows "map_of (cv_child b (cv_child a v)) = map_of (cv_child (a @ ''.'' @ b) v) \<and>
    as_int (cv_child a (cv_set_int a i v)) d = i"
proof
  show "map_of (cv_child b (cv_child a v)) = map_of (cv_child (a @ ''.'' @ b) v)"
    using assms(1,2) by (intro ext) (simp add: cv_child_lookup cv_wf_child split: option.splits)
  have "map_of (cv_child a (cv_set_int a i v)) [] = Some (show_int i)"
    using assms(3) cv_child_lookup [OF cv_wf_set_int [OF assms(1)], of a a i "[]"]
    by (simp add: cv_set_int_def update_conv')
  then show "as_int (cv_child a (cv_set_int a i v)) d = i"
    using stoll_show [OF assms(4,5)] by (simp add: as_int_def)
qed

theorem config_paths_and_ints_witness:
  "as_int (cv_child ''port'' (cv_set_int ''port'' (-5) [(''port.x'', ''1'')])) 7 = -5"
  using config_paths_and_ints [of "[(''port.x'', ''1'')]" "''x''" "''port''" "-5" 7]
  by (simp add: cv_wf_def)

section \<open>Comma-separated lists\<close>

fun join_comma :: "string list \<Rightarrow> string" where
  "join_comma [] = []"
| "join_comma [t] = t"
| "join_comma (t # ts) = t @ CHR '','' # join_comma ts"

definition plain_token :: "string \<Rightarrow> bool" where
  "plain_token t \<longleftrightarrow> t \<noteq> [] \<and> list_all (\<lambda>c. c \<noteq> CHR '','' \<and> \<not> is_blank c) t"

lemma trim_plain: "plain_token t \<Longrightarrow> trim_end t = t"
  by (cases t rule: rev_cases) (auto simp: plain_token_def trim_end_def)

lemma comma_tokens_plain:
  assumes "plain_token t" "rest = [] \<or> hd rest = CHR '',''"
  shows "comma_tokens (t @ rest) = t # comma_tokens (drop 1 rest)"
proof -
  from assms(1) obtain c cs where t: "t = c # cs" "\<not> is_blank c"
    by (cases t) (auto simp: plain_token_def)
  have "takeWhile (\<lambda>c. c \<noteq> CHR '','') (t @ rest) = t"
    "dropWhile (\<lambda>c. c \<noteq> CHR '','') (t @ rest) = rest"
    using assms by (cases rest; simp add: plain_token_def takeWhile_append dropWhile_append list_all_iff)+
  then show ?thesis
    using t trim_plain [OF assms(1)] by (subst comma_tokens.simps) simp
qed

lemma comma_tokens_join:
  "list_all plain_token ts \<Longrightarrow> comma_tokens (join_comma ts) = ts"
proof (induction ts rule: join_comma.induct)
  case 1
  then show ?case by (subst comma_tokens.simps) simp
next
  case (2 t)
  moreover have "comma_tokens [] = []" by (subst comma_tokens.simps) simp
  ultimately show ?case using comma_tokens_plain [of t "[]"] by simp
next
  case (3 t u ts)
  then show ?case using comma_tokens_plain [of t "CHR '','' # join_comma (u # ts)"] by simp
qed

lemma plain_show_nat: "plain_token (show_nat n)"
proof -
  have "c \<noteq> CHR '','' \<and> \<not> is_blank c" if "is_digit c" for c
    using that not_digit_literals by (auto simp: is_blank_def is_digit_def)
  then show ?thesis
    using show_nat_digits [of n] by (auto simp: plain_token_def list_all_iff)
qed

lemma plain_show_int: "plain_token (show_int i)"
  using plain_show_nat by (auto simp: show_int_def plain_token_def is_blank_def)

lemma map_filter_all: "(\<And>x. x \<in> set xs \<Longrightarrow> f (g x) = Some x) \<Longrightarrow> List.map_filter f (map g xs) = xs"
  by (induction xs) (simp_all add: List.map_filter_simps)

text \<open>
  A list of 32-bit integers written with commas parses back to the list, and so does a list of
  unsigned 32-bit ones.
\<close>

theorem parse_comma_roundtrip:
  assumes "\<forall>i \<in> set is. - (2 ^ 31) \<le> i \<and> i < 2 ^ 31"
  shows "parse_comma_int (join_comma (map show_int is)) = is \<and>
    parse_comma_u32 (join_comma (map (\<lambda>w. show_nat (unat w)) ws)) = ws"
proof
  have "list_all plain_token (map show_int is)"
    by (simp add: list_all_iff plain_show_int)
  then show "parse_comma_int (join_comma (map show_int is)) = is"
    using assms by (simp add: parse_comma_int_def comma_tokens_join map_filter_all stoi_def sto_signed_show)
  have tok: "list_all plain_token (map (\<lambda>w. show_nat (unat w)) ws)"
    by (simp add: list_all_iff plain_show_nat)
  have "stoul (show_nat (unat w)) = Some (of_nat (unat w))" for w :: u32
    by (rule stoul_show) (rule less_trans [OF unsigned_less], simp)
  moreover have "take_bit 64 (unat w) = unat w" for w :: u32
    by (rule take_bit_nat_eq_self) (rule less_trans [OF unsigned_less], simp)
  moreover have "ucast (ucast w :: u64) = w" for w :: u32
    by (rule bit_word_eqI) (auto simp: bit_simps)
  ultimately have "map_option ucast (stoul (show_nat (unat w))) = Some w" for w :: u32
    by (simp add: unsigned_of_nat)
  with tok show "parse_comma_u32 (join_comma (map (\<lambda>w. show_nat (unat w)) ws)) = ws"
    by (simp add: parse_comma_u32_def comma_tokens_join map_filter_all)
qed

theorem parse_comma_roundtrip_witness:
  "parse_comma_int (join_comma (map show_int [3, -7, 0])) = [3, -7, 0]"
  using parse_comma_roundtrip [of "[3, -7, 0]" "[]"] by simp

end
