(* ===== verification/Controller.thy ===== *)
theory Controller
  imports Pipeline TimerWheel Config
begin

text \<open>
  Lifecycle and composition: \<open>Pipeline::Start\<close> and \<open>Stop\<close>, and the class \<open>PipelineController\<close> of
  \<open>src/core/engine/pipeline_controller.h\<close> and \<open>.cc\<close>: building the pipelines from the configuration,
  starting and stopping them all, and the timers that drive collection and flushing. The plugin
  registry and the plugins' \<open>Init\<close>, \<open>Start\<close> and \<open>Collect\<close> are parameters; what \<open>Start\<close> and \<open>Stop\<close>
  call, in which order, is recorded in a trace.
\<close>

section \<open>A pipeline's lifecycle\<close>

record source_info =
  si_push :: bool
  si_interval_ms :: u32

datatype part = PSource | PProcessor nat | PAggregator | PSink nat

datatype life_event =
    Started part | ThreadStarted | CallbackSet | Stopped part | ThreadJoined | SinkFlushed nat

record ('p, 'a, 's) managed =
  mp_pipeline :: "('p, 'a, 's) pipeline"
  mp_source :: "source_info option"
  mp_running :: bool
  mp_trace :: "life_event list"

definition managed_new :: "('p, 'a, 's) pipeline \<Rightarrow> ('p, 'a, 's) managed" where
  "managed_new pl = \<lparr>mp_pipeline = pl, mp_source = None, mp_running = False, mp_trace = []\<rparr>"

definition set_source :: "source_info \<Rightarrow> ('p, 'a, 's) managed \<Rightarrow> ('p, 'a, 's) managed" where
  "set_source src mp = mp\<lparr>mp_source := Some src\<rparr>"

definition log_events :: "life_event list \<Rightarrow> ('p, 'a, 's) managed \<Rightarrow> ('p, 'a, 's) managed" where
  "log_events es mp = mp\<lparr>mp_trace := mp_trace mp @ es\<rparr>"

definition inner_parts :: "('p, 'a, 's) pipeline \<Rightarrow> part list" where
  "inner_parts pl =
     map PProcessor [0..<length (pl_processors pl)] @
     (case pl_aggregator pl of None \<Rightarrow> [] | Some _ \<Rightarrow> [PAggregator])"

definition start_order :: "('p, 'a, 's) pipeline \<Rightarrow> part list" where
  "start_order pl = PSource # inner_parts pl @ map PSink [0..<length (pl_sinks pl)]"

text \<open>Starting parts in turn; the first error ends it. The result is the status and who started.\<close>

fun start_parts :: "(part \<Rightarrow> status) \<Rightarrow> part list \<Rightarrow> status \<times> part list" where
  "start_parts st [] = (status_ok, [])"
| "start_parts st (p # ps) =
     (if is_ok (st p) then (let (r, started) = start_parts st ps in (r, p # started)) else (st p, []))"

definition pipeline_start ::
  "(part \<Rightarrow> status) \<Rightarrow> ('p, 'a, 's) managed \<Rightarrow> ('p, 'a, 's) managed \<times> status" where
  "pipeline_start st mp =
     (case mp_source mp of
        None \<Rightarrow> (mp, status_error InvalidArgument (''Pipeline has no source: '' @ pl_name (mp_pipeline mp)))
      | Some src \<Rightarrow>
          if pl_sinks (mp_pipeline mp) = []
          then (mp, status_error InvalidArgument (''Pipeline has no sinks: '' @ pl_name (mp_pipeline mp)))
          else
            let (r, started) = start_parts st (start_order (mp_pipeline mp));
                mp = log_events (map Started started) mp
            in if \<not> is_ok r then (mp, r)
               else (log_events (ThreadStarted # (if si_push src then [CallbackSet] else []))
                       (mp\<lparr>mp_running := True\<rparr>), status_ok))"

text \<open>
  \<open>Stop\<close>. Its first action clears \<open>running_\<close>; the process thread then does the iterations it is still
  in (the list \<open>env\<close> of \<open>process_loop\<close>), drains and is joined.
\<close>

definition pipeline_stop ::
  "('p, 'a, 's) plugin_ops \<Rightarrow> ((nat \<Rightarrow> data_batch channel \<Rightarrow> data_batch channel) \<times> nat) list \<Rightarrow>
     ('p, 'a, 's) managed \<Rightarrow> ('p, 'a, 's) managed option" where
  "pipeline_stop ops env mp =
     (if \<not> mp_running mp then Some mp
      else
        let mp = log_events [Stopped PSource] (mp\<lparr>mp_running := False\<rparr>)
        in case process_loop ops env (mp_pipeline mp) of
             None \<Rightarrow> None
           | Some pl \<Rightarrow>
               Some (log_events
                 ([ThreadJoined] @ map Stopped (inner_parts pl) @
                  concat (map (\<lambda>i. [SinkFlushed i, Stopped (PSink i)]) [0..<length (pl_sinks pl)]))
                 (mp\<lparr>mp_pipeline := pl\<rparr>)))"

section \<open>Building pipelines from the configuration\<close>

record ('p, 'a, 's) registry =
  rg_source :: "string \<Rightarrow> source_info option"
  rg_processor :: "string \<Rightarrow> 'p option"
  rg_aggregator :: "string \<Rightarrow> 'a option"
  rg_sink :: "string \<Rightarrow> 's option"
  rg_init_source :: "source_info \<Rightarrow> config_value \<Rightarrow> source_info \<times> status"
  rg_init_processor :: "'p \<Rightarrow> config_value \<Rightarrow> 'p \<times> status"
  rg_init_aggregator :: "'a \<Rightarrow> config_value \<Rightarrow> 'a \<times> status"
  rg_init_sink :: "'s \<Rightarrow> config_value \<Rightarrow> 's \<times> status"

definition resolve_capacity :: "string \<Rightarrow> u64" where
  "resolve_capacity sz = (if sz = ''small'' then 1024 else if sz = ''large'' then 16384 else 4096)"

definition resolve_policy :: "string \<Rightarrow> drop_policy" where
  "resolve_policy s = (if s = ''drop_oldest'' then DropOldest else DropNewest)"

definition not_found :: "string \<Rightarrow> string \<Rightarrow> string \<Rightarrow> status" where
  "not_found kind ty name =
     status_error NotFound (kind @ '' plugin not found: '' @ ty @ '' (pipeline: '' @ name @ '')'')"

text \<open>One stage: create the plugin by its type and initialise it.\<close>

definition build_stage ::
  "string \<Rightarrow> (string \<Rightarrow> 'x option) \<Rightarrow> ('x \<Rightarrow> config_value \<Rightarrow> 'x \<times> status) \<Rightarrow> string \<Rightarrow>
     stage_config \<Rightarrow> 'x status_or" where
  "build_stage kind create init name sc =
     (case create (sc_type sc) of
        None \<Rightarrow> Failure (not_found kind (sc_type sc) name)
      | Some x \<Rightarrow>
          let (x, st) = init x (sc_config sc)
          in if is_ok st then Value x else Failure st)"

fun build_stages ::
  "string \<Rightarrow> (string \<Rightarrow> 'x option) \<Rightarrow> ('x \<Rightarrow> config_value \<Rightarrow> 'x \<times> status) \<Rightarrow> string \<Rightarrow>
     stage_config list \<Rightarrow> 'x list status_or" where
  "build_stages kind create init name [] = Value []"
| "build_stages kind create init name (sc # scs) =
     (case build_stage kind create init name sc of
        Failure e \<Rightarrow> Failure e
      | Value x \<Rightarrow>
          (case build_stages kind create init name scs of
             Failure e \<Rightarrow> Failure e
           | Value xs \<Rightarrow> Value (x # xs)))"

definition build_aggregator ::
  "('p, 'a, 's) registry \<Rightarrow> pipeline_config \<Rightarrow> 'a option status_or" where
  "build_aggregator reg pc =
     (case pc_aggregator pc of
        None \<Rightarrow> Value None
      | Some sc \<Rightarrow>
          (case build_stage ''Aggregator'' (rg_aggregator reg) (rg_init_aggregator reg) (pc_name pc) sc of
             Failure e \<Rightarrow> Failure e
           | Value a \<Rightarrow> Value (Some a)))"

definition empty_pipeline :: "engine_config \<Rightarrow> string \<Rightarrow> ('p, 'a, 's) pipeline" where
  "empty_pipeline eng name =
     pipeline_new name (resolve_capacity (cc_size (ec_channel eng)))
       (resolve_policy (cc_drop_policy (ec_channel eng)))
       (cc_backpressure_high (ec_channel eng)) (cc_backpressure_low (ec_channel eng))"

definition build_pipeline ::
  "('p, 'a, 's) registry \<Rightarrow> engine_config \<Rightarrow> pipeline_config \<Rightarrow> ('p, 'a, 's) managed status_or" where
  "build_pipeline reg eng pc =
     (case build_stage ''Source'' (rg_source reg) (rg_init_source reg) (pc_name pc) (pc_source pc) of
        Failure e \<Rightarrow> Failure e
      | Value src \<Rightarrow>
     (case build_stages ''Processor'' (rg_processor reg) (rg_init_processor reg) (pc_name pc)
             (pc_processors pc) of
        Failure e \<Rightarrow> Failure e
      | Value ps \<Rightarrow>
     (case build_aggregator reg pc of
        Failure e \<Rightarrow> Failure e
      | Value agg \<Rightarrow>
     (case build_stages ''Sink'' (rg_sink reg) (rg_init_sink reg) (pc_name pc) (pc_sinks pc) of
        Failure e \<Rightarrow> Failure e
      | Value ss \<Rightarrow>
          let pl = fold add_processor ps (empty_pipeline eng (pc_name pc));
              pl = (case agg of None \<Rightarrow> pl | Some a \<Rightarrow> set_aggregator a pl);
              pl = fold add_sink ss pl
          in Value (set_source src (managed_new pl))))))"

fun build_all ::
  "('p, 'a, 's) registry \<Rightarrow> engine_config \<Rightarrow> pipeline_config list \<Rightarrow> ('p, 'a, 's) managed list \<times> status" where
  "build_all reg eng [] = ([], status_ok)"
| "build_all reg eng (pc # pcs) =
     (case build_pipeline reg eng pc of
        Failure e \<Rightarrow> ([], e)
      | Value mp \<Rightarrow> (let (mps, st) = build_all reg eng pcs in (mp # mps, st)))"

section \<open>The controller\<close>

datatype timer_job = CollectJob nat | FlushJob nat | MetricsJob | PruneJob

record ('p, 'a, 's) controller =
  ct_pipelines :: "('p, 'a, 's) managed list"
  ct_sink_threads :: "nat option"
  ct_collect_threads :: "nat option"
  ct_storage :: bool
  ct_timer :: "timer_job wheel"

definition map_pipeline ::
  "(('p, 'a, 's) pipeline \<Rightarrow> ('p, 'a, 's) pipeline) \<Rightarrow> ('p, 'a, 's) managed \<Rightarrow> ('p, 'a, 's) managed" where
  "map_pipeline f mp = mp\<lparr>mp_pipeline := f (mp_pipeline mp)\<rparr>"

definition init_sink_pool ::
  "nat \<Rightarrow> nat \<Rightarrow> ('p, 'a, 's) controller \<Rightarrow> ('p, 'a, 's) controller" where
  "init_sink_pool hardware num_threads ct =
     ct\<lparr>ct_sink_threads := Some (if num_threads = 0 then max 2 (hardware div 2) else num_threads),
        ct_pipelines := map (map_pipeline (set_sink_pool \<lparr>sp_others = 0, sp_tasks = []\<rparr>)) (ct_pipelines ct)\<rparr>"

definition init_collect_pool :: "nat \<Rightarrow> ('p, 'a, 's) controller \<Rightarrow> ('p, 'a, 's) controller" where
  "init_collect_pool num_threads ct =
     ct\<lparr>ct_collect_threads := Some (if num_threads = 0 then 2 else num_threads)\<rparr>"

definition build_from_config ::
  "('p, 'a, 's) registry \<Rightarrow> nat \<Rightarrow> engine_config \<Rightarrow> pipeline_config list \<Rightarrow>
     ('p, 'a, 's) controller \<Rightarrow> ('p, 'a, 's) controller \<times> status" where
  "build_from_config reg hardware eng pcs ct =
     (let (mps, st) = build_all reg eng pcs;
          ct = ct\<lparr>ct_pipelines := ct_pipelines ct @ mps\<rparr>
      in if \<not> is_ok st then (ct, st)
         else (init_collect_pool (unat (ec_collect_pool_threads eng))
                 (init_sink_pool hardware (unat (ec_sink_pool_threads eng)) ct), status_ok))"

text \<open>\<open>StopAll\<close>: the timer, the collect pool, then every pipeline in turn.\<close>

fun stop_pipelines ::
  "('p, 'a, 's) plugin_ops \<Rightarrow> (nat \<Rightarrow> ((nat \<Rightarrow> data_batch channel \<Rightarrow> data_batch channel) \<times> nat) list) \<Rightarrow>
     nat \<Rightarrow> ('p, 'a, 's) managed list \<Rightarrow> ('p, 'a, 's) managed list option" where
  "stop_pipelines ops envs i [] = Some []"
| "stop_pipelines ops envs i (mp # mps) =
     (case pipeline_stop ops (envs i) mp of
        None \<Rightarrow> None
      | Some mp \<Rightarrow> map_option (\<lambda>mps. mp # mps) (stop_pipelines ops envs (i + 1) mps))"

definition stop_all ::
  "('p, 'a, 's) plugin_ops \<Rightarrow> (nat \<Rightarrow> ((nat \<Rightarrow> data_batch channel \<Rightarrow> data_batch channel) \<times> nat) list) \<Rightarrow>
     ('p, 'a, 's) controller \<Rightarrow> ('p, 'a, 's) controller option" where
  "stop_all ops envs ct =
     (let ct = ct\<lparr>ct_timer := wheel_stop (ct_timer ct), ct_collect_threads := None\<rparr>
      in map_option (\<lambda>mps. ct\<lparr>ct_pipelines := mps\<rparr>) (stop_pipelines ops envs 0 (ct_pipelines ct)))"

fun start_pipelines ::
  "(nat \<Rightarrow> part \<Rightarrow> status) \<Rightarrow> nat \<Rightarrow> ('p, 'a, 's) managed list \<Rightarrow> ('p, 'a, 's) managed list \<times> status" where
  "start_pipelines sts i [] = ([], status_ok)"
| "start_pipelines sts i (mp # mps) =
     (let (mp, r) = pipeline_start (sts i) mp
      in if is_ok r then (let (mps, r) = start_pipelines sts (i + 1) mps in (mp # mps, r))
         else (mp # mps, r))"

text \<open>The timers \<open>StartAll\<close> registers, with their intervals in nanoseconds.\<close>

definition ms :: "nat \<Rightarrow> int" where
  "ms n = int n * 1000000"

definition collect_timers :: "('p, 'a, 's) managed list \<Rightarrow> (int \<times> timer_job) list" where
  "collect_timers mps =
     concat (map (\<lambda>(i, mp). case mp_source mp of
                None \<Rightarrow> []
              | Some src \<Rightarrow> if si_push src then [] else [(ms (unat (si_interval_ms src)), CollectJob i)])
            (enumerate 0 mps))"

definition flush_timers :: "('a \<Rightarrow> u32) \<Rightarrow> ('p, 'a, 's) managed list \<Rightarrow> (int \<times> timer_job) list" where
  "flush_timers flush_interval mps =
     concat (map (\<lambda>(i, mp). case pl_aggregator (mp_pipeline mp) of
                None \<Rightarrow> []
              | Some a \<Rightarrow> [(ms (unat (flush_interval a)), FlushJob i)])
            (enumerate 0 mps))"

definition all_timers :: "('a \<Rightarrow> u32) \<Rightarrow> ('p, 'a, 's) controller \<Rightarrow> (int \<times> timer_job) list" where
  "all_timers flush_interval ct =
     collect_timers (ct_pipelines ct) @ flush_timers flush_interval (ct_pipelines ct) @
     [(ms 10000, MetricsJob)] @ (if ct_storage ct then [(ms 60000, PruneJob)] else [])"

fun register_timers :: "(nat \<Rightarrow> int \<times> int) \<Rightarrow> nat \<Rightarrow> (int \<times> timer_job) list \<Rightarrow> timer_job wheel \<Rightarrow> timer_job wheel" where
  "register_timers clock k [] w = w"
| "register_timers clock k ((ivl, job) # jobs) w =
     register_timers clock (k + 1) jobs (fst (add_repeating (fst (clock k)) (snd (clock k)) ivl job w))"

definition start_all ::
  "('p, 'a, 's) plugin_ops \<Rightarrow> (nat \<Rightarrow> ((nat \<Rightarrow> data_batch channel \<Rightarrow> data_batch channel) \<times> nat) list) \<Rightarrow>
     ('a \<Rightarrow> u32) \<Rightarrow> (nat \<Rightarrow> part \<Rightarrow> status) \<Rightarrow> (nat \<Rightarrow> int \<times> int) \<Rightarrow>
     ('p, 'a, 's) controller \<Rightarrow> (('p, 'a, 's) controller \<times> status) option" where
  "start_all ops envs flush_interval sts clock ct =
     (let (mps, r) = start_pipelines sts 0 (ct_pipelines ct); ct = ct\<lparr>ct_pipelines := mps\<rparr>
      in if \<not> is_ok r then map_option (\<lambda>ct. (ct, r)) (stop_all ops envs ct)
         else Some (ct\<lparr>ct_timer := wheel_start (register_timers clock 0 (all_timers flush_interval ct)
                                     (ct_timer ct))\<rparr>, status_ok))"

definition get_pipeline :: "string \<Rightarrow> ('p, 'a, 's) controller \<Rightarrow> ('p, 'a, 's) managed option" where
  "get_pipeline name ct = find (\<lambda>mp. pl_name (mp_pipeline mp) = name) (ct_pipelines ct)"

text \<open>
  What the callbacks of the collect and flush timers do to their pipeline: a collection, run by the
  collect pool, enqueues what the source returned.
\<close>

definition collect_task :: "data_batch option status_or \<Rightarrow> ('p, 'a, 's) managed \<Rightarrow> ('p, 'a, 's) managed option" where
  "collect_task result mp =
     (case result of
        Failure _ \<Rightarrow> Some mp
      | Value None \<Rightarrow> Some mp
      | Value (Some b) \<Rightarrow>
          if batch_empty b then Some mp
          else map_option (\<lambda>pl. mp\<lparr>mp_pipeline := pl\<rparr>) (enqueue (Some b) (mp_pipeline mp)))"

definition flush_job :: "('p, 'a, 's) managed \<Rightarrow> ('p, 'a, 's) managed option" where
  "flush_job mp =
     (if mp_running mp
      then map_option (\<lambda>pl. mp\<lparr>mp_pipeline := pl\<rparr>) (pipeline_inject_flush (mp_pipeline mp))
      else Some mp)"

section \<open>Building\<close>

lemma not_found_error [simp]: "\<not> is_ok (not_found k t n)"
  by (simp add: not_found_def)

lemma build_stage_error: "build_stage k cr ini nm sc = Failure e \<Longrightarrow> \<not> is_ok e"
  by (auto simp: build_stage_def split: option.splits prod.splits if_splits)

lemma build_stages_result:
  "build_stages k cr ini nm scs = Failure e \<Longrightarrow> \<not> is_ok e"
  "build_stages k cr ini nm scs = Value xs \<Longrightarrow> length xs = length scs"
  by (induction scs arbitrary: xs) (auto split: status_or.splits dest: build_stage_error)

lemma build_pipeline_error: "build_pipeline reg eng pc = Failure e \<Longrightarrow> \<not> is_ok e"
  by (auto simp: build_pipeline_def build_aggregator_def Let_def split: status_or.splits option.splits
      dest: build_stage_error build_stages_result(1))

lemma fold_add_processor:
  "fold add_processor ps pl = pl\<lparr>pl_processors := pl_processors pl @ ps\<rparr>"
  by (induction ps arbitrary: pl) (simp_all add: add_processor_def)

lemma fold_add_sink: "fold add_sink ss pl = pl\<lparr>pl_sinks := pl_sinks pl @ ss\<rparr>"
  by (induction ss arbitrary: pl) (simp_all add: add_sink_def)

lemmas build_folds = fold_add_processor fold_add_sink set_aggregator_def set_source_def managed_new_def

text \<open>What a built pipeline looks like.\<close>

definition built_from :: "engine_config \<Rightarrow> pipeline_config \<Rightarrow> ('p, 'a, 's) managed \<Rightarrow> bool" where
  "built_from eng pc mp \<longleftrightarrow>
     pl_name (mp_pipeline mp) = pc_name pc \<and> mp_source mp \<noteq> None \<and> \<not> mp_running mp \<and> mp_trace mp = [] \<and>
     length (pl_processors (mp_pipeline mp)) = length (pc_processors pc) \<and>
     (pl_aggregator (mp_pipeline mp) = None \<longleftrightarrow> pc_aggregator pc = None) \<and>
     length (pl_sinks (mp_pipeline mp)) = length (pc_sinks pc) \<and>
     channel_holds (unat (resolve_capacity (cc_size (ec_channel eng)))) 0 (pl_channel (mp_pipeline mp)) [] \<and>
     ch_policy (pl_channel (mp_pipeline mp)) = resolve_policy (cc_drop_policy (ec_channel eng))"

lemma resolve_capacity_channel:
  "channel_holds (unat (resolve_capacity s)) 0 (channel_init (resolve_capacity s) pol hi lo) []"
proof -
  have r: "round_up_pow2 (resolve_capacity s) = resolve_capacity s"
    "2 \<le> unat (resolve_capacity s)" "unat (resolve_capacity s) \<le> 2 ^ 63"
    unfolding resolve_capacity_def by (cases "s = ''small''"; cases "s = ''large''"; simp; code_simp)+
  show ?thesis using channel_init_holds [OF r(2,3)] by (simp add: r(1))
qed

lemma channel_init_policy [simp]: "ch_policy (channel_init n pol hi lo) = pol"
  by (simp add: channel_init_def)

lemma build_pipeline_built:
  "build_pipeline reg eng pc = Value mp \<Longrightarrow> built_from eng pc mp"
  by (auto simp: resolve_capacity_channel build_pipeline_def built_from_def build_aggregator_def build_folds Let_def
      empty_pipeline_def pipeline_new_def
      split: status_or.splits option.splits dest: build_stages_result(2))

lemma build_all_result:
  "build_all reg eng pcs = (mps, st) \<Longrightarrow>
   length mps \<le> length pcs \<and> (\<forall>j < length mps. built_from eng (pcs ! j) (mps ! j)) \<and>
   (if length mps < length pcs then \<not> is_ok st \<and> build_pipeline reg eng (pcs ! length mps) = Failure st
    else st = status_ok)"
proof (induction pcs arbitrary: mps)
  case (Cons pc pcs)
  show ?case
  proof (cases "build_pipeline reg eng pc")
    case (Failure e)
    then show ?thesis using Cons.prems build_pipeline_error by auto
  next
    case (Value mp)
    then obtain mps' where m: "build_all reg eng pcs = (mps', st)" "mps = mp # mps'"
      using Cons.prems by (auto split: prod.splits)
    from Cons.IH [OF m(1)] build_pipeline_built [OF Value] m(2) show ?thesis
      by (auto simp: nth_Cons split: nat.splits)
  qed
qed simp

section \<open>Starting and stopping\<close>

lemma start_parts_result:
  "start_parts st ps = (r, started) \<Longrightarrow>
   (if \<forall>p \<in> set ps. is_ok (st p) then r = status_ok \<and> started = ps
    else \<not> is_ok r \<and> (\<exists>k < length ps. started = take k ps \<and> r = st (ps ! k)))"
proof (induction ps arbitrary: started)
  case (Cons p ps)
  show ?case
  proof (cases "is_ok (st p)")
    case True
    then obtain sd where s: "start_parts st ps = (r, sd)" "started = p # sd"
      using Cons.prems by (auto split: prod.splits)
    from Cons.IH [OF s(1)] True s(2) show ?thesis
      by (auto split: if_splits intro: exI [of _ "Suc _"])
  qed (use Cons.prems in \<open>auto intro: exI [of _ 0]\<close>)
qed simp

lemma start_order_inner: "set (start_order pl) = insert PSource (set (inner_parts pl) \<union> PSink ` {..<length (pl_sinks pl)})"
  by (auto simp: start_order_def)

text \<open>The handlers keep the plugins' number.\<close>

definition same_shape :: "('p, 'a, 's) pipeline \<Rightarrow> ('p, 'a, 's) pipeline \<Rightarrow> bool" where
  "same_shape pl pl' \<longleftrightarrow> length (pl_processors pl') = length (pl_processors pl) \<and>
     (pl_aggregator pl' = None \<longleftrightarrow> pl_aggregator pl = None) \<and>
     length (pl_sinks pl') = length (pl_sinks pl)"

lemma same_shape_trans: "same_shape p q \<Longrightarrow> same_shape q r \<Longrightarrow> same_shape p r"
  by (simp add: same_shape_def)

lemma same_shape_write: "same_shape pl (write_sink ops b i pl)"
  by (simp add: same_shape_def write_sink_def count_error_def Let_def split: prod.split)

lemma same_shape_fold: "(\<And>x pl. same_shape pl (f x pl)) \<Longrightarrow> same_shape pl (fold f xs pl)"
proof (induction xs arbitrary: pl)
  case (Cons x xs)
  then show ?case using same_shape_trans by (metis fold_simps(2))
qed (simp add: same_shape_def)

lemma same_shape_writes: "same_shape pl (fold (write_sink ops b) is pl)"
  by (rule same_shape_fold) (rule same_shape_write)

lemma same_shape_submit: "same_shape pl (submit_to_sinks ops b pl)"
  using same_shape_writes [of pl ops b "[0..<length (pl_sinks pl)]"]
  by (auto simp: submit_to_sinks_def split: option.split) (simp_all add: same_shape_def count_error_def)

lemma same_shape_flush: "same_shape pl (handle_flush ops pl)"
proof -
  have "same_shape pl (fold (submit_to_sinks ops) bs (pl\<lparr>pl_aggregator := Some a\<rparr>))"
    if "pl_aggregator pl = Some a'" for bs a a'
    by (rule same_shape_trans [OF _ same_shape_fold [OF same_shape_submit]])
       (use that in \<open>simp add: same_shape_def\<close>)
  then show ?thesis
    by (simp add: handle_flush_def Let_def split: option.split prod.split status_or.split)
       (simp add: same_shape_def)
qed

lemma run_chain_length: "run_chain ops ps b = (ps', r) \<Longrightarrow> length ps' = length ps"
  by (induction ops ps b arbitrary: ps' r rule: run_chain.induct)
     (auto simp: Let_def split: prod.splits status_or.splits option.splits if_splits)

lemma same_shape_data: "same_shape pl (handle_data ops b pl)"
proof -
  let ?r = "pl_records_processed pl + of_nat (batch_size b)"
  have "same_shape pl ((submit_to_sinks ops b' (pl\<lparr>pl_records_processed := ?r, pl_processors := ps\<rparr>))
      \<lparr>pl_batches_processed := n\<rparr>)" if "length ps = length (pl_processors pl)" for b' ps n
    using that same_shape_submit [of "pl\<lparr>pl_records_processed := ?r, pl_processors := ps\<rparr>" ops b']
    by (simp add: same_shape_def)
  then show ?thesis
    using run_chain_length [of ops "pl_processors pl" b]
    by (simp add: handle_data_def Let_def count_error_def split: option.split prod.split chain_result.split)
       (simp add: same_shape_def)
qed

lemma same_shape_drained:
  "same_shape pl (handle_flush ops (fold (dispatch ops) xs pl))"
  by (rule same_shape_trans [OF same_shape_fold same_shape_flush])
     (simp add: dispatch_def same_shape_data same_shape_flush split: channel_item.split)

lemma same_shape_parts: "same_shape pl pl' \<Longrightarrow> inner_parts pl' = inner_parts pl"
  by (auto simp: same_shape_def inner_parts_def split: option.splits)

text \<open>What \<open>Stop\<close> does to a running pipeline whose process thread sees the cleared flag.\<close>

lemma pipeline_stop_running:
  assumes "mp_running mp" "channel_holds c n (pl_channel (mp_pipeline mp)) xs"
  shows "\<exists>ch'. channel_holds c n ch' [] \<and> pipeline_stop ops [] mp = Some (mp\<lparr>mp_running := False,
    mp_pipeline := (handle_flush ops (fold (dispatch ops) xs (mp_pipeline mp)))\<lparr>pl_channel := ch'\<rparr>,
    mp_trace := mp_trace mp @ [Stopped PSource, ThreadJoined] @ map Stopped (inner_parts (mp_pipeline mp)) @
      concat (map (\<lambda>i. [SinkFlushed i, Stopped (PSink i)]) [0..<length (pl_sinks (mp_pipeline mp))])\<rparr>)"
proof -
  let ?pl = "mp_pipeline mp"
  from drain_fifo [OF assms(2), of ops] obtain ch' where d: "channel_holds c n ch' []"
    "drain ops ?pl = Some ((handle_flush ops (fold (dispatch ops) xs ?pl))\<lparr>pl_channel := ch'\<rparr>)"
    by blast
  let ?pl' = "(handle_flush ops (fold (dispatch ops) xs ?pl))\<lparr>pl_channel := ch'\<rparr>"
  have sh: "same_shape ?pl ?pl'"
    using same_shape_drained [of ?pl ops xs] by (simp add: same_shape_def)
  then have "inner_parts ?pl' = inner_parts ?pl" "length (pl_sinks ?pl') = length (pl_sinks ?pl)"
    by (simp_all only: same_shape_parts) (simp add: same_shape_def)
  with d assms(1) show ?thesis
    by (intro exI [of _ ch']) (simp add: pipeline_stop_def Let_def log_events_def)
qed

lemma built_from_pool [simp]:
  "built_from eng pc (map_pipeline (set_sink_pool pool) mp) = built_from eng pc mp"
  by (simp add: built_from_def map_pipeline_def set_sink_pool_def)

lemma register_timers_heap:
  "mset (map (\<lambda>e. (te_interval e, te_callback e)) (tw_heap (register_timers clock k jobs w))) =
     mset (map (\<lambda>e. (te_interval e, te_callback e)) (tw_heap w)) + mset jobs \<and>
   (\<forall>e \<in> set (tw_heap (register_timers clock k jobs w)). e \<in> set (tw_heap w) \<or> te_repeating e)"
proof (induction clock k jobs w rule: register_timers.induct)
  case (2 clock k ivl job jobs w)
  let ?w = "fst (add_repeating (fst (clock k)) (snd (clock k)) ivl job w)"
  have "mset (map (\<lambda>e. (te_interval e, te_callback e)) (tw_heap ?w)) =
      add_mset (ivl, job) (mset (map (\<lambda>e. (te_interval e, te_callback e)) (tw_heap w)))"
    "\<forall>e \<in> set (tw_heap ?w). e \<in> set (tw_heap w) \<or> te_repeating e"
    by (simp_all add: add_repeating_def add_timer_def wakeup_def rearm_def Let_def)
  with 2 show ?case by auto
qed simp

lemma start_pipelines_ok:
  assumes "\<forall>i < length mps. mp_source (mps ! i) \<noteq> None \<and> pl_sinks (mp_pipeline (mps ! i)) \<noteq> [] \<and>
      (\<forall>p. is_ok (sts (k + i) p))"
  shows "\<exists>mps'. start_pipelines sts k mps = (mps', status_ok) \<and> length mps' = length mps \<and>
    (\<forall>i < length mps. mp_running (mps' ! i) \<and> mp_source (mps' ! i) = mp_source (mps ! i) \<and>
       mp_pipeline (mps' ! i) = mp_pipeline (mps ! i))"
  using assms
proof (induction mps arbitrary: k)
  case (Cons mp mps)
  obtain src where src: "mp_source mp = Some src" "pl_sinks (mp_pipeline mp) \<noteq> []" "\<forall>p. is_ok (sts k p)"
    using Cons.prems [rule_format, of 0] by auto
  obtain r sd where sp: "start_parts (sts k) (start_order (mp_pipeline mp)) = (r, sd)" by fastforce
  have "r = status_ok" using start_parts_result [OF sp] src(3) by simp
  with sp src obtain mp' where mp': "pipeline_start (sts k) mp = (mp', status_ok)"
    "mp_running mp'" "mp_source mp' = mp_source mp" "mp_pipeline mp' = mp_pipeline mp"
    by (auto simp: pipeline_start_def log_events_def)
  have "\<forall>i < length mps. mp_source (mps ! i) \<noteq> None \<and> pl_sinks (mp_pipeline (mps ! i)) \<noteq> [] \<and>
      (\<forall>p. is_ok (sts (k + 1 + i) p))"
    using Cons.prems [rule_format, of "Suc _"] by simp
  from Cons.IH [OF this] mp' show ?case by (auto simp: nth_Cons split: nat.splits)
qed simp

section \<open>Properties\<close>

text \<open>
  \<open>BuildFromConfig\<close> builds one pipeline per configuration entry, in order, up to the first entry that
  fails, and returns that entry's error; otherwise it succeeds and every pipeline has the sink pool.
  Each pipeline has the name, the number of stages and the drop policy of its entry, an empty channel
  of at least 1024 cells, and is not running.
\<close>

theorem build_from_config_spec:
  assumes "build_from_config reg hardware eng pcs ct = (ct', st)" "ct_pipelines ct = []"
  shows "length (ct_pipelines ct') \<le> length pcs \<and>
    (\<forall>j < length (ct_pipelines ct'). built_from eng (pcs ! j) (ct_pipelines ct' ! j)) \<and>
    1024 \<le> unat (resolve_capacity (cc_size (ec_channel eng))) \<and>
    (if length (ct_pipelines ct') < length pcs
     then \<not> is_ok st \<and> build_pipeline reg eng (pcs ! length (ct_pipelines ct')) = Failure st
     else st = status_ok \<and> (\<exists>n > 0. ct_sink_threads ct' = Some n) \<and>
       (\<forall>mp \<in> set (ct_pipelines ct'). pl_sink_pool (mp_pipeline mp) = Some \<lparr>sp_others = 0, sp_tasks = []\<rparr>))"
proof -
  obtain mps s where b: "build_all reg eng pcs = (mps, s)" by fastforce
  note r = build_all_result [OF b]
  have cap: "1024 \<le> unat (resolve_capacity (cc_size (ec_channel eng)))"
    by (simp add: resolve_capacity_def)
  show ?thesis
  proof (cases "is_ok s")
    case False
    then have "ct' = ct\<lparr>ct_pipelines := mps\<rparr>" "st = s" "s \<noteq> status_ok"
      using assms b by (auto simp: build_from_config_def)
    with r cap show ?thesis by (auto split: if_splits)
  next
    case True
    then have "s = status_ok" "length mps = length pcs"
      using r by (auto split: if_splits)
    with True assms b r cap show ?thesis
      by (auto simp: build_from_config_def init_collect_pool_def init_sink_pool_def
          map_pipeline_def set_sink_pool_def nth_map built_from_def)
  qed
qed

definition demo_registry :: "(unit, unit, nat) registry" where
  "demo_registry = \<lparr>rg_source = (\<lambda>t. if t = ''cpu'' then Some \<lparr>si_push = False, si_interval_ms = 1000\<rparr> else None),
     rg_processor = (\<lambda>_. Some ()), rg_aggregator = (\<lambda>_. None), rg_sink = (\<lambda>_. Some 0),
     rg_init_source = (\<lambda>x _. (x, status_ok)), rg_init_processor = (\<lambda>x _. (x, status_ok)),
     rg_init_aggregator = (\<lambda>x _. (x, status_ok)), rg_init_sink = (\<lambda>x _. (x, status_ok))\<rparr>"

definition demo_config :: "string \<Rightarrow> pipeline_config" where
  "demo_config src = \<lparr>pc_name = ''main'', pc_source = \<lparr>sc_type = src, sc_config = []\<rparr>, pc_processors = [],
     pc_aggregator = None, pc_sinks = [\<lparr>sc_type = ''console'', sc_config = []\<rparr>]\<rparr>"

definition demo_controller :: "(unit, unit, nat) controller" where
  "demo_controller = \<lparr>ct_pipelines = [], ct_sink_threads = None, ct_collect_threads = None,
     ct_storage = False, ct_timer = wheel_new\<rparr>"

theorem build_from_config_spec_witness:
  "\<exists>ct'. build_from_config demo_registry 8 default_engine_config [demo_config ''cpu'', demo_config ''gpu'']
      demo_controller = (ct', not_found ''Source'' ''gpu'' ''main'') \<and>
    built_from default_engine_config (demo_config ''cpu'') (ct_pipelines ct' ! 0)"
proof -
  obtain ct' where b: "build_from_config demo_registry 8 default_engine_config
      [demo_config ''cpu'', demo_config ''gpu''] demo_controller = (ct', not_found ''Source'' ''gpu'' ''main'')"
    "length (ct_pipelines ct') = 1"
    by (simp add: build_from_config_def build_pipeline_def build_stage_def build_aggregator_def
        demo_registry_def demo_config_def demo_controller_def Let_def)
  have "ct_pipelines demo_controller = []" by (simp add: demo_controller_def)
  from build_from_config_spec [OF b(1) this] b show ?thesis by auto
qed

text \<open>
  A start that fails part-way leaks. The parts before the failing one stay started, the pipeline is
  not marked running, and \<open>Stop\<close> (which \<open>StartAll\<close> calls to clean up) then does nothing: no started
  part is ever stopped.
\<close>

theorem start_failure_leaks:
  assumes "mp_source mp = Some src" "pl_sinks (mp_pipeline mp) \<noteq> []" "\<not> mp_running mp"
    "is_ok (st PSource)" "\<exists>p \<in> set (start_order (mp_pipeline mp)). \<not> is_ok (st p)"
    "pipeline_start st mp = (mp', r)"
  shows "\<not> is_ok r \<and> (\<exists>ps. mp_trace mp' = mp_trace mp @ map Started (PSource # ps)) \<and>
    pipeline_stop ops env mp' = Some mp'"
proof -
  obtain q sd where s: "start_parts st (start_order (mp_pipeline mp)) = (q, sd)" by fastforce
  then have q: "\<not> is_ok q" and "\<exists>ps. sd = PSource # ps"
    using start_parts_result [OF s] assms(4,5) by (auto simp: start_order_def split: prod.splits)
  then obtain ps where "sd = PSource # ps" by blast
  with q s assms show ?thesis
    by (auto simp: pipeline_start_def log_events_def pipeline_stop_def)
qed

definition demo_managed :: "bool \<Rightarrow> (unit, unit, nat) managed" where
  "demo_managed r = (set_source \<lparr>si_push = True, si_interval_ms = 0\<rparr> (managed_new demo_pipeline))\<lparr>mp_running := r\<rparr>"

theorem start_failure_leaks_witness:
  "\<exists>mp'. pipeline_start (\<lambda>p. if p = PSource then status_ok else status_error Internal ''x'') (demo_managed False) =
      (mp', status_error Internal ''x'') \<and> mp_trace mp' = [Started PSource] \<and>
    pipeline_stop demo_ops [] mp' = Some mp'"
proof -
  let ?st = "\<lambda>p. if p = PSource then status_ok else status_error Internal ''x''"
  have d: "mp_source (demo_managed False) = Some \<lparr>si_push = True, si_interval_ms = 0\<rparr>"
    "pl_sinks (mp_pipeline (demo_managed False)) \<noteq> []" "\<not> mp_running (demo_managed False)"
    "is_ok (?st PSource)"
    "\<exists>p \<in> set (start_order (mp_pipeline (demo_managed False))). \<not> is_ok (?st p)"
    by (simp_all add: demo_managed_def set_source_def managed_new_def demo_pipeline_def add_sink_def
        add_processor_def pipeline_new_def start_order_def)
  obtain mp' where s: "pipeline_start ?st (demo_managed False) = (mp', status_error Internal ''x'')"
    "mp_trace mp' = [Started PSource]"
    by (simp add: pipeline_start_def demo_managed_def set_source_def managed_new_def demo_pipeline_def
        add_sink_def add_processor_def pipeline_new_def start_order_def inner_parts_def log_events_def Let_def)
  from start_failure_leaks [OF d s(1)] s show ?thesis by blast
qed


lemma demo_managed_channel: "channel_holds 1024 0 (pl_channel (mp_pipeline (demo_managed r))) []"
  using demo_channel by (simp add: demo_managed_def set_source_def managed_new_def)


text \<open>
  With the sink pool, \<open>Stop\<close> flushes and stops the sinks while their writes are still pending: the
  batch that was queued when the pipeline stopped is handed to the pool, and its write tasks are
  still there after every sink was stopped.
\<close>

theorem stop_before_pending_writes:
  assumes "mp_running mp" "channel_holds c n (pl_channel (mp_pipeline mp)) [Data b]" "\<not> batch_empty b"
    "accepts ops f (pl_processors (mp_pipeline mp))" "pl_aggregator (mp_pipeline mp) = None"
    "pl_sink_pool (mp_pipeline mp) = Some pool" "sp_others pool + length (sp_tasks pool) \<le> 256"
  shows "\<exists>mp' pool'. pipeline_stop ops [] mp = Some mp' \<and>
    pl_sink_pool (mp_pipeline mp') = Some pool' \<and>
    (\<forall>i < length (pl_sinks (mp_pipeline mp)). Stopped (PSink i) \<in> set (mp_trace mp') \<and>
       (i, Some (fold f (pl_processors (mp_pipeline mp)) b)) \<in> set (sp_tasks pool'))"
proof -
  from pipeline_stop_running [OF assms(1,2), of ops] obtain ch where
    st: "pipeline_stop ops [] mp = Some (mp\<lparr>mp_running := False,
    mp_pipeline := (handle_flush ops (fold (dispatch ops) [Data b] (mp_pipeline mp)))\<lparr>pl_channel := ch\<rparr>,
    mp_trace := mp_trace mp @ [Stopped PSource, ThreadJoined] @ map Stopped (inner_parts (mp_pipeline mp)) @
      concat (map (\<lambda>i. [SinkFlushed i, Stopped (PSink i)]) [0..<length (pl_sinks (mp_pipeline mp))])\<rparr>)"
    by blast
  let ?b = "fold f (pl_processors (mp_pipeline mp)) b"
  have "\<not> max_pending_tasks < sp_others pool + length (sp_tasks pool)"
    using assms(7) by (simp add: max_pending_tasks_def)
  then have "pl_sink_pool (handle_flush ops (dispatch ops (Data b) (mp_pipeline mp))) =
      Some (pool\<lparr>sp_tasks := sp_tasks pool @ map (\<lambda>i. (i, Some ?b)) [0..<length (pl_sinks (mp_pipeline mp))]\<rparr>)"
    using assms(3-6)
    by (simp add: dispatch_def handle_data_def Let_def run_chain_accepts submit_to_sinks_def handle_flush_def)
  with st show ?thesis by auto
qed

theorem stop_before_pending_writes_witness:
  "\<exists>mp mp' pool'. pipeline_stop demo_ops [] mp = Some mp' \<and> pl_sinks (mp_pipeline mp) = [10, 0] \<and>
     Stopped (PSink 1) \<in> set (mp_trace mp') \<and> pl_sink_pool (mp_pipeline mp') = Some pool' \<and>
     (1, Some demo_batch) \<in> set (sp_tasks pool')"
proof -
  let ?pool = "\<lparr>sp_others = 0, sp_tasks = []\<rparr>"
  let ?mp0 = "map_pipeline (set_sink_pool ?pool) (demo_managed True)"
  have h: "channel_holds 1024 0 (pl_channel (mp_pipeline ?mp0)) []"
    using demo_managed_channel by (simp add: map_pipeline_def set_sink_pool_def)
  from enqueue_room [OF h, of demo_batch] demo_batch_not_empty(1) obtain ch bp no where
    e: "channel_holds 1024 1 ch [Data demo_batch]"
    by auto
  let ?mp = "map_pipeline (\<lambda>pl. pl\<lparr>pl_channel := ch\<rparr>) ?mp0"
  have m: "mp_running ?mp" "channel_holds 1024 1 (pl_channel (mp_pipeline ?mp)) [Data demo_batch]"
    "accepts demo_ops (\<lambda>_ b. b) (pl_processors (mp_pipeline ?mp))" "pl_aggregator (mp_pipeline ?mp) = None"
    "pl_sink_pool (mp_pipeline ?mp) = Some ?pool" "sp_others ?pool + length (sp_tasks ?pool) \<le> 256"
    "pl_sinks (mp_pipeline ?mp) = [10, 0]" "pl_processors (mp_pipeline ?mp) = [()]"
    using e by (simp_all add: map_pipeline_def set_sink_pool_def demo_managed_def set_source_def managed_new_def
        demo_pipeline_def add_sink_def add_processor_def pipeline_new_def accepts_def demo_ops_def)
  from stop_before_pending_writes [OF m(1,2) demo_batch_not_empty(1) m(3-6)] m(7,8) obtain mp' pool' where
    "pipeline_stop demo_ops [] ?mp = Some mp'" "pl_sink_pool (mp_pipeline mp') = Some pool'"
    "\<forall>i < 2. Stopped (PSink i) \<in> set (mp_trace mp') \<and> (i, Some demo_batch) \<in> set (sp_tasks pool')"
    by auto
  with m(7) show ?thesis by (intro exI [of _ ?mp] exI [of _ mp'] exI [of _ pool']) simp
qed

text \<open>
  When every part starts, \<open>StartAll\<close> leaves every pipeline and the timer running, and the timer holds
  exactly one repeating collection per pull source, one repeating flush per aggregator, the metrics
  job and, with a storage back end, the pruning job, each with its interval.
\<close>

theorem start_all_registers:
  assumes "\<forall>i < length (ct_pipelines ct). mp_source (ct_pipelines ct ! i) \<noteq> None \<and>
      pl_sinks (mp_pipeline (ct_pipelines ct ! i)) \<noteq> [] \<and> (\<forall>p. is_ok (sts i p))"
    "tw_heap (ct_timer ct) = []"
  shows "\<exists>ct'. start_all ops envs fi sts clock ct = Some (ct', status_ok) \<and>
    (\<forall>mp \<in> set (ct_pipelines ct'). mp_running mp) \<and> tw_running (ct_timer ct') \<and>
    mset (map (\<lambda>e. (te_interval e, te_callback e)) (tw_heap (ct_timer ct'))) = mset (all_timers fi ct) \<and>
    (\<forall>e \<in> set (tw_heap (ct_timer ct')). te_repeating e)"
proof -
  have "\<forall>i < length (ct_pipelines ct). mp_source (ct_pipelines ct ! i) \<noteq> None \<and>
      pl_sinks (mp_pipeline (ct_pipelines ct ! i)) \<noteq> [] \<and> (\<forall>p. is_ok (sts (0 + i) p))"
    using assms(1) by simp
  from start_pipelines_ok [OF this] obtain mps where
    s: "start_pipelines sts 0 (ct_pipelines ct) = (mps, status_ok)" "length mps = length (ct_pipelines ct)"
    "\<forall>i < length (ct_pipelines ct). mp_running (mps ! i) \<and> mp_source (mps ! i) = mp_source (ct_pipelines ct ! i) \<and>
       mp_pipeline (mps ! i) = mp_pipeline (ct_pipelines ct ! i)"
    by blast
  have c: "map (\<lambda>(i, mp). g i (mp_source mp) (mp_pipeline mp)) (enumerate 0 mps) =
      map (\<lambda>(i, mp). g i (mp_source mp) (mp_pipeline mp)) (enumerate 0 (ct_pipelines ct))"
    for g :: "nat \<Rightarrow> source_info option \<Rightarrow> ('a, 'b, 'c) pipeline \<Rightarrow> (int \<times> timer_job) list"
    using s(2,3) by (intro nth_equalityI) (simp_all add: nth_enumerate_eq)
  have t: "all_timers fi (ct\<lparr>ct_pipelines := mps\<rparr>) = all_timers fi ct"
    using c [of "\<lambda>i src _. case src of None \<Rightarrow> [] | Some src \<Rightarrow>
        if si_push src then [] else [(ms (unat (si_interval_ms src)), CollectJob i)]"]
      c [of "\<lambda>i _ pl. case pl_aggregator pl of None \<Rightarrow> [] | Some a \<Rightarrow> [(ms (unat (fi a)), FlushJob i)]"]
    by (simp add: all_timers_def collect_timers_def flush_timers_def)
  note r = register_timers_heap [of clock 0 "all_timers fi ct" "ct_timer ct"]
  have run: "\<forall>mp \<in> set mps. mp_running mp" using s(2,3) by (metis in_set_conv_nth)
  let ?ct = "ct\<lparr>ct_pipelines := mps, ct_timer := wheel_start (register_timers clock 0 (all_timers fi ct) (ct_timer ct))\<rparr>"
  have "start_all ops envs fi sts clock ct = Some (?ct, status_ok)"
    by (simp add: start_all_def s(1) t)
  with run r assms(2) show ?thesis
    by (intro exI [of _ ?ct]) (simp add: wheel_start_def)
qed

theorem start_all_registers_witness:
  "\<exists>ct'. start_all demo_ops (\<lambda>_. []) (\<lambda>_. 0) (\<lambda>_ _. status_ok) (\<lambda>_. (0, 0))
      (demo_controller\<lparr>ct_pipelines := [demo_managed False]\<rparr>) = Some (ct', status_ok) \<and>
    mset (map (\<lambda>e. (te_interval e, te_callback e)) (tw_heap (ct_timer ct'))) = {#(10000000000, MetricsJob)#}"
proof -
  let ?ct = "demo_controller\<lparr>ct_pipelines := [demo_managed False]\<rparr>"
  have h: "\<forall>i < length (ct_pipelines ?ct). mp_source (ct_pipelines ?ct ! i) \<noteq> None \<and>
      pl_sinks (mp_pipeline (ct_pipelines ?ct ! i)) \<noteq> [] \<and> (\<forall>p. is_ok ((\<lambda>_ _. status_ok) i p))"
    "tw_heap (ct_timer ?ct) = []"
    by (simp_all add: demo_managed_def set_source_def managed_new_def demo_pipeline_def add_sink_def
        add_processor_def pipeline_new_def demo_controller_def wheel_new_def)
  have "all_timers (\<lambda>_. 0) ?ct = [(10000000000, MetricsJob)]"
    by (simp add: all_timers_def collect_timers_def flush_timers_def demo_controller_def demo_managed_def
        set_source_def managed_new_def demo_pipeline_def add_sink_def add_processor_def pipeline_new_def ms_def)
  with start_all_registers [OF h, of demo_ops "\<lambda>_. []" "\<lambda>_. 0" "\<lambda>_. (0, 0)"] show ?thesis by auto
qed

end
