(* ===== verification/ThreadPool.thy ===== *)
theory ThreadPool
  imports Prelude "HOL-Library.Multiset"
begin

text \<open>
  The thread pool (\<open>src/core/threading/thread_pool.h\<close>) as a step relation over its worker threads.
  A step is one critical section or one notification; the predicate of the condition variable is
  evaluated under the lock, a waiting worker is \<open>Sleeping\<close> and may also wake spuriously. The
  notifications of \<open>Submit\<close> and of the destructor come after their critical sections and are steps
  of their own. A task that throws is caught, so its end is the same step as a return. \<open>Submit\<close>
  does not run once the destructor has begun, as for any object.
\<close>

section \<open>State and steps\<close>

datatype 't worker = Awake | Sleeping | Busy 't | Exited

record 't pool =
  tp_workers :: "nat \<Rightarrow> 't worker"
  tp_tasks :: "'t list"
  tp_stop :: bool
  tp_notify_one :: nat
  tp_notify_all :: bool
  tp_submitted :: "'t list"
  tp_started :: "'t list"
  tp_finished :: "'t list"

definition pool_size :: "nat \<Rightarrow> nat" where
  "pool_size num_threads = (if num_threads = 0 then 1 else num_threads)"

definition pool_new :: "'t pool" where
  "pool_new = \<lparr>tp_workers = (\<lambda>_. Awake), tp_tasks = [], tp_stop = False, tp_notify_one = 0,
     tp_notify_all = False, tp_submitted = [], tp_started = [], tp_finished = []\<rparr>"

abbreviation set_worker :: "'t pool \<Rightarrow> nat \<Rightarrow> 't worker \<Rightarrow> 't pool" where
  "set_worker s i x \<equiv> s\<lparr>tp_workers := (tp_workers s)(i := x)\<rparr>"

definition wake :: "'t worker \<Rightarrow> 't worker" where
  "wake x = (if x = Sleeping then Awake else x)"

inductive pool_step :: "nat \<Rightarrow> 't pool \<Rightarrow> 't pool \<Rightarrow> bool" for n :: nat where
  submit: "\<not> tp_stop s \<Longrightarrow>
    pool_step n s (s\<lparr>tp_tasks := tp_tasks s @ [t], tp_submitted := tp_submitted s @ [t],
                     tp_notify_one := tp_notify_one s + 1\<rparr>)"
| notify_one: "0 < tp_notify_one s \<Longrightarrow> i < n \<Longrightarrow> tp_workers s i = Sleeping \<Longrightarrow>
    pool_step n s ((set_worker s i Awake)\<lparr>tp_notify_one := tp_notify_one s - 1\<rparr>)"
| notify_none: "0 < tp_notify_one s \<Longrightarrow> \<forall>i < n. tp_workers s i \<noteq> Sleeping \<Longrightarrow>
    pool_step n s (s\<lparr>tp_notify_one := tp_notify_one s - 1\<rparr>)"
| spurious: "i < n \<Longrightarrow> tp_workers s i = Sleeping \<Longrightarrow> pool_step n s (set_worker s i Awake)"
| take: "i < n \<Longrightarrow> tp_workers s i = Awake \<Longrightarrow> tp_tasks s = t # ts \<Longrightarrow>
    pool_step n s ((set_worker s i (Busy t))\<lparr>tp_tasks := ts, tp_started := tp_started s @ [t]\<rparr>)"
| wait: "i < n \<Longrightarrow> tp_workers s i = Awake \<Longrightarrow> tp_tasks s = [] \<Longrightarrow> \<not> tp_stop s \<Longrightarrow>
    pool_step n s (set_worker s i Sleeping)"
| leave: "i < n \<Longrightarrow> tp_workers s i = Awake \<Longrightarrow> tp_tasks s = [] \<Longrightarrow> tp_stop s \<Longrightarrow>
    pool_step n s (set_worker s i Exited)"
| finish: "i < n \<Longrightarrow> tp_workers s i = Busy t \<Longrightarrow>
    pool_step n s ((set_worker s i Awake)\<lparr>tp_finished := tp_finished s @ [t]\<rparr>)"
| destroy: "\<not> tp_stop s \<Longrightarrow> pool_step n s (s\<lparr>tp_stop := True, tp_notify_all := True\<rparr>)"
| notify_all: "tp_notify_all s \<Longrightarrow>
    pool_step n s (s\<lparr>tp_notify_all := False, tp_workers := (\<lambda>i. wake (tp_workers s i))\<rparr>)"

inductive pool_reachable :: "nat \<Rightarrow> 't pool \<Rightarrow> bool" for n :: nat where
  start: "pool_reachable n pool_new"
| step: "pool_reachable n s \<Longrightarrow> pool_step n s s' \<Longrightarrow> pool_reachable n s'"

definition pending_tasks :: "'t pool \<Rightarrow> nat" where
  "pending_tasks s = length (tp_tasks s)"

section \<open>The invariant\<close>

fun in_progress :: "'t worker \<Rightarrow> 't multiset" where
  "in_progress (Busy t) = {#t#}"
| "in_progress _ = {#}"

definition running_tasks :: "nat \<Rightarrow> (nat \<Rightarrow> 't worker) \<Rightarrow> 't multiset" where
  "running_tasks n w = (\<Sum>i<n. in_progress (w i))"

definition pool_inv :: "nat \<Rightarrow> 't pool \<Rightarrow> bool" where
  "pool_inv n s \<longleftrightarrow> 0 < n \<and>
     tp_submitted s = tp_started s @ tp_tasks s \<and>
     mset (tp_started s) = mset (tp_finished s) + running_tasks n (tp_workers s) \<and>
     (tp_tasks s \<noteq> [] \<longrightarrow> 0 < tp_notify_one s \<or>
        (\<exists>i<n. tp_workers s i \<noteq> Sleeping)) \<and>
     ((\<exists>i<n. tp_workers s i = Exited) \<longrightarrow> tp_stop s \<and> tp_tasks s = []) \<and>
     (tp_stop s \<and> \<not> tp_notify_all s \<longrightarrow> (\<forall>i<n. tp_workers s i \<noteq> Sleeping)) \<and>
     (tp_notify_all s \<longrightarrow> tp_stop s)"

lemma sum_worker_upd:
  fixes f :: "'t worker \<Rightarrow> 'a :: cancel_comm_monoid_add"
  assumes "i < (n :: nat)"
  shows "(\<Sum>j<n. f ((w(i := x)) j)) + f (w i) = (\<Sum>j<n. f (w j)) + f x"
proof -
  have "(\<Sum>j\<in>{..<n} - {i}. f ((w(i := x)) j)) = (\<Sum>j\<in>{..<n} - {i}. f (w j))"
    by (rule sum.cong) auto
  then have "(\<Sum>j<n. f ((w(i := x)) j)) = f x + (\<Sum>j\<in>{..<n} - {i}. f (w j))"
    using sum.remove [of "{..<n}" i "\<lambda>j. f ((w(i := x)) j)"] assms by simp
  moreover have "(\<Sum>j<n. f (w j)) = f (w i) + (\<Sum>j\<in>{..<n} - {i}. f (w j))"
    using assms by (simp add: sum.remove [of "{..<n}" i])
  ultimately show ?thesis by (simp add: algebra_simps)
qed

lemma wake_simps [simp]:
  "in_progress (wake x) = in_progress x" "wake x \<noteq> Sleeping" "wake x = Exited \<longleftrightarrow> x = Exited"
  by (simp_all add: wake_def)

lemma running_upd:
  "i < n \<Longrightarrow> running_tasks n (w(i := x)) + in_progress (w i) = running_tasks n w + in_progress x"
  unfolding running_tasks_def by (rule sum_worker_upd)

lemma running_idle:
  "i < n \<Longrightarrow> in_progress (w i) = {#} \<Longrightarrow> running_tasks n (w(i := x)) = running_tasks n w + in_progress x"
  using running_upd [of i n w x] by simp

lemma running_wake [simp]: "running_tasks n (\<lambda>i. wake (w i)) = running_tasks n w"
  by (simp add: running_tasks_def)

lemma pool_step_inv:
  assumes "pool_step n s s'" "pool_inv n s"
  shows "pool_inv n s'"
  using assms
proof cases
  case (finish i t)
  then have "running_tasks n ((tp_workers s)(i := Awake)) + {#t#} = running_tasks n (tp_workers s)"
    using running_upd [of i n "tp_workers s" Awake] by simp
  with finish assms(2) show ?thesis by (auto simp: pool_inv_def)
qed (auto simp: pool_inv_def running_idle)

lemma pool_reachable_inv: "pool_reachable n s \<Longrightarrow> 0 < n \<Longrightarrow> pool_inv n s"
proof (induction rule: pool_reachable.induct)
  case start
  then show ?case by (auto simp: pool_inv_def pool_new_def running_tasks_def)
qed (blast intro: pool_step_inv)

section \<open>Shutdown\<close>

fun worker_rank :: "'t worker \<Rightarrow> nat" where
  "worker_rank Exited = 0"
| "worker_rank Awake = 1"
| "worker_rank Sleeping = 2"
| "worker_rank (Busy t) = 2"

definition pool_measure :: "nat \<Rightarrow> 't pool \<Rightarrow> nat" where
  "pool_measure n s = 2 * length (tp_tasks s) + (\<Sum>i<n. worker_rank (tp_workers s i)) +
     tp_notify_one s + (if tp_notify_all s then 1 else 0)"

lemma worker_rank_wake: "worker_rank (wake x) \<le> worker_rank x"
  by (cases x) (simp_all add: wake_def)

lemma pool_step_decreases:
  assumes "pool_step n s s'" "tp_stop s"
  shows "pool_measure n s' < pool_measure n s \<and> tp_stop s'"
  using assms
proof cases
  case (notify_all)
  have "(\<Sum>i<n. worker_rank (wake (tp_workers s i))) \<le> (\<Sum>i<n. worker_rank (tp_workers s i))"
    by (intro sum_mono worker_rank_wake)
  with notify_all assms show ?thesis by (simp add: pool_measure_def)
next
  case (notify_one i)
  then show ?thesis
    using sum_worker_upd [of i n worker_rank "tp_workers s" Awake] assms by (simp add: pool_measure_def)
next
  case (spurious i)
  then show ?thesis
    using sum_worker_upd [of i n worker_rank "tp_workers s" Awake] assms by (simp add: pool_measure_def)
next
  case (take i t ts)
  then show ?thesis
    using sum_worker_upd [of i n worker_rank "tp_workers s" "Busy t"] assms by (simp add: pool_measure_def)
next
  case (leave i)
  then show ?thesis
    using sum_worker_upd [of i n worker_rank "tp_workers s" Exited] assms by (simp add: pool_measure_def)
next
  case (finish i t)
  then show ?thesis
    using sum_worker_upd [of i n worker_rank "tp_workers s" Awake] assms by (simp add: pool_measure_def)
qed (use assms in \<open>simp_all add: pool_measure_def\<close>)

lemma active_worker_steps:
  assumes "i < n" "tp_workers s i = Awake \<or> (\<exists>t. tp_workers s i = Busy t)"
  shows "\<exists>s'. pool_step n s s'"
proof (cases "tp_workers s i")
  case Awake
  show ?thesis
  proof (cases "tp_tasks s")
    case Nil
    then show ?thesis
      using pool_step.wait [OF assms(1) Awake Nil] pool_step.leave [OF assms(1) Awake Nil]
      by (cases "tp_stop s") auto
  next
    case (Cons t ts)
    show ?thesis using pool_step.take [OF assms(1) Awake Cons] by (rule exI)
  qed
next
  case (Busy t)
  show ?thesis using pool_step.finish [OF assms(1) Busy] by (rule exI)
qed (use assms in auto)

section \<open>Properties\<close>

text \<open>
  C14: whatever the interleaving of submitters and workers, tasks start in the order they were
  submitted and each runs once: the submitted tasks are those started followed by those queued, and
  the started ones are those finished plus those in progress. While tasks are queued some worker is
  not waiting, or a notification is on its way that wakes one, so no wakeup is lost.
\<close>

theorem pool_runs_once:
  assumes "pool_reachable n s" "0 < n"
  shows "tp_submitted s = tp_started s @ tp_tasks s \<and>
    mset (tp_started s) = mset (tp_finished s) + running_tasks n (tp_workers s) \<and>
    (tp_tasks s \<noteq> [] \<longrightarrow> 0 < tp_notify_one s \<or> (\<exists>i<n. tp_workers s i \<notin> {Sleeping, Exited}))"
  using pool_reachable_inv [OF assms] by (auto simp: pool_inv_def)

lemma pool_demo: "pool_reachable 1 (pool_new\<lparr>tp_tasks := [t], tp_submitted := [t], tp_notify_one := 1\<rparr>)"
  using pool_reachable.step [OF pool_reachable.start pool_step.submit [of pool_new 1 t]]
  by (simp add: pool_new_def)

theorem pool_runs_once_witness:
  "pool_reachable 1 (pool_new\<lparr>tp_tasks := [7 :: nat], tp_submitted := [7], tp_notify_one := 1\<rparr>) \<and>
   (\<exists>i<(1 :: nat). tp_workers (pool_new :: nat pool) i \<notin> {Sleeping, Exited})"
  using pool_runs_once [OF pool_demo [of "7 :: nat"]] pool_demo [of "7 :: nat"]
  by (auto simp: pool_new_def)

text \<open>
  C15: the destructor's joins end, and only after every submitted task has run. From the moment the stop
  flag is set every step lowers a measure; as long as a worker has not left some step is possible,
  and not only by a spurious wakeup: a worker is not waiting or the notification of all is due; and
  when all have left, no task is queued and the tasks finished are the tasks submitted.
\<close>

theorem pool_shutdown_drains:
  assumes "pool_reachable n s" "0 < n" "tp_stop s"
  shows "(\<forall>s'. pool_step n s s' \<longrightarrow> tp_stop s' \<and> pool_measure n s' < pool_measure n s) \<and>
    ((\<exists>i<n. tp_workers s i \<noteq> Exited) \<longrightarrow>
       (\<exists>s'. pool_step n s s') \<and>
       (tp_notify_all s \<or> (\<exists>i<n. tp_workers s i \<notin> {Sleeping, Exited}))) \<and>
    ((\<forall>i<n. tp_workers s i = Exited) \<longrightarrow>
       tp_tasks s = [] \<and> mset (tp_finished s) = mset (tp_submitted s))"
proof (intro conjI allI impI)
  note inv = pool_reachable_inv [OF assms(1,2)]
  fix s' assume "pool_step n s s'"
  then show "tp_stop s'" "pool_measure n s' < pool_measure n s"
    using pool_step_decreases assms(3) by blast+
next
  note inv = pool_reachable_inv [OF assms(1,2)]
  assume "\<exists>i<n. tp_workers s i \<noteq> Exited"
  then obtain i where i: "i < n" "tp_workers s i \<noteq> Exited" by blast
  then show "tp_notify_all s \<or> (\<exists>i<n. tp_workers s i \<notin> {Sleeping, Exited})"
    using inv assms(3) by (auto simp: pool_inv_def)
  show "\<exists>s'. pool_step n s s'"
  proof (cases "tp_workers s i = Sleeping")
    case True
    show ?thesis using pool_step.spurious [OF i(1) True] by (rule exI)
  next
    case False
    with i show ?thesis using active_worker_steps [OF i(1)] by (cases "tp_workers s i") auto
  qed
next
  assume all: "\<forall>i<n. tp_workers s i = Exited"
  note inv = pool_reachable_inv [OF assms(1,2)]
  have "running_tasks n (tp_workers s) = {#}" using all by (simp add: running_tasks_def)
  with inv all assms(2) show "tp_tasks s = []" "mset (tp_finished s) = mset (tp_submitted s)"
    by (auto simp: pool_inv_def)
qed

lemma pool_demo_stop: "pool_reachable 1 (pool_new\<lparr>tp_stop := True, tp_notify_all := True\<rparr>)"
  using pool_reachable.step [OF pool_reachable.start pool_step.destroy [of pool_new 1]]
  by (simp add: pool_new_def)

theorem pool_shutdown_drains_witness:
  "let s = (pool_new :: nat pool)\<lparr>tp_stop := True, tp_notify_all := True\<rparr>
   in pool_reachable 1 s \<and>
      (\<forall>s'. pool_step 1 s s' \<longrightarrow> tp_stop s' \<and> pool_measure 1 s' < pool_measure 1 s)"
proof -
  let ?s = "(pool_new :: nat pool)\<lparr>tp_stop := True, tp_notify_all := True\<rparr>"
  have "(0 :: nat) < 1" "tp_stop ?s" by simp_all
  from pool_shutdown_drains [OF pool_demo_stop this] pool_demo_stop show ?thesis
    unfolding Let_def by blast
qed

end
