(* ===== verification/Arena.thy ===== *)
theory Arena
  imports Prelude
begin

text \<open>
  The bump allocator of \<open>src/core/memory/arena.h\<close> over a heap of bytes. The C library's \<open>malloc\<close>
  is a function of the heap that may fail; \<open>malloc_ok\<close> is what the C standard promises of it. A
  result \<open>None\<close> of an operation is the call of \<open>std::abort\<close>, or the undefined access to the last
  block of an arena that was moved from.
\<close>

section \<open>The heap\<close>

record heap =
  live :: "(nat \<times> nat) list"
  mem :: "nat \<Rightarrow> char"

type_synonym malloc = "heap \<Rightarrow> u64 \<Rightarrow> nat option"

abbreviation span :: "nat \<Rightarrow> nat \<Rightarrow> nat set" where
  "span p n \<equiv> {p..<p + n}"

definition heap_ok :: "heap \<Rightarrow> bool" where
  "heap_ok h \<longleftrightarrow> distinct (map fst (live h)) \<and>
     sorted_wrt (\<lambda>(a, m) (b, n). span a m \<inter> span b n = {}) (live h) \<and>
     (\<forall>(a, m) \<in> set (live h). a + m \<le> 2 ^ 63 \<and> 16 dvd a)"

definition malloc_ok :: "malloc \<Rightarrow> bool" where
  "malloc_ok mal \<longleftrightarrow> (\<forall>h n p. heap_ok h \<longrightarrow> mal h n = Some p \<longrightarrow>
     p \<notin> fst ` set (live h) \<and> (\<forall>(a, m) \<in> set (live h). span p (unat n) \<inter> span a m = {}) \<and>
     p + unat n \<le> 2 ^ 63 \<and> 16 dvd p)"

definition heap_add :: "nat \<Rightarrow> nat \<Rightarrow> heap \<Rightarrow> heap" where
  "heap_add p n h = h\<lparr>live := (p, n) # live h\<rparr>"

definition heap_free :: "nat \<Rightarrow> heap \<Rightarrow> heap" where
  "heap_free p h = h\<lparr>live := filter (\<lambda>r. fst r \<noteq> p) (live h)\<rparr>"

definition memcpy :: "nat \<Rightarrow> string \<Rightarrow> heap \<Rightarrow> heap" where
  "memcpy p s h =
     h\<lparr>mem := (\<lambda>a. if p \<le> a \<and> a < p + length s then s ! (a - p) else mem h a)\<rparr>"

section \<open>The arena\<close>

record block =
  blk_data :: nat
  blk_capacity :: u64

record arena =
  ar_oom_handler :: "(u64 \<Rightarrow> heap \<Rightarrow> heap) option"
  ar_blocks :: "block list"
  ar_current_offset :: u64
  ar_block_size :: u64
  ar_total_allocated :: u64

definition default_block_size :: u64 where
  "default_block_size = 65536"

definition align_up :: "u64 \<Rightarrow> u64 \<Rightarrow> u64" where
  "align_up offset alignment = (offset + alignment - 1) AND NOT (alignment - 1)"

definition push_block :: "nat \<Rightarrow> u64 \<Rightarrow> heap \<times> arena \<Rightarrow> heap \<times> arena" where
  "push_block p sz s =
     (heap_add p (unat sz) (fst s),
      (snd s)\<lparr>ar_blocks := ar_blocks (snd s) @ [\<lparr>blk_data = p, blk_capacity = sz\<rparr>],
              ar_current_offset := 0\<rparr>)"

definition allocate_block :: "malloc \<Rightarrow> u64 \<Rightarrow> heap \<times> arena \<Rightarrow> (heap \<times> arena) option" where
  "allocate_block mal sz s =
     (case mal (fst s) sz of
        Some p \<Rightarrow> Some (push_block p sz s)
      | None \<Rightarrow>
          (case ar_oom_handler (snd s) of
             None \<Rightarrow> None
           | Some handler \<Rightarrow>
               let h = handler sz (fst s)
               in case mal h sz of
                    None \<Rightarrow> None
                  | Some p \<Rightarrow> Some (push_block p sz (h, snd s))))"

definition arena_new :: "malloc \<Rightarrow> u64 \<Rightarrow> heap \<Rightarrow> (heap \<times> arena) option" where
  "arena_new mal block_size h =
     allocate_block mal block_size
       (h, \<lparr>ar_oom_handler = None, ar_blocks = [], ar_current_offset = 0,
            ar_block_size = block_size, ar_total_allocated = 0\<rparr>)"

definition arena_delete :: "heap \<times> arena \<Rightarrow> heap" where
  "arena_delete s = fold (\<lambda>b. heap_free (blk_data b)) (ar_blocks (snd s)) (fst s)"

text \<open>The move constructor: the new arena and what is left of the old one. The handler stays behind.\<close>

definition arena_move :: "arena \<Rightarrow> arena \<times> arena" where
  "arena_move other =
     (\<lparr>ar_oom_handler = None, ar_blocks = ar_blocks other,
       ar_current_offset = ar_current_offset other, ar_block_size = ar_block_size other,
       ar_total_allocated = ar_total_allocated other\<rparr>,
      other\<lparr>ar_blocks := [], ar_current_offset := 0, ar_total_allocated := 0\<rparr>)"

definition set_oom_handler :: "(u64 \<Rightarrow> heap \<Rightarrow> heap) \<Rightarrow> arena \<Rightarrow> arena" where
  "set_oom_handler handler ar = ar\<lparr>ar_oom_handler := Some handler\<rparr>"

definition bump :: "u64 \<Rightarrow> u64 \<Rightarrow> heap \<times> arena \<Rightarrow> (heap \<times> arena) \<times> nat" where
  "bump aligned_offset sz s =
     ((fst s, (snd s)\<lparr>ar_current_offset := aligned_offset + sz,
                      ar_total_allocated := ar_total_allocated (snd s) + sz\<rparr>),
      blk_data (last (ar_blocks (snd s))) + unat aligned_offset)"

definition allocate :: "malloc \<Rightarrow> u64 \<Rightarrow> u64 \<Rightarrow> heap \<times> arena \<Rightarrow> ((heap \<times> arena) \<times> nat) option" where
  "allocate mal sz alignment s =
     (let aligned_offset = align_up (ar_current_offset (snd s)) alignment
      in if ar_blocks (snd s) = [] then None
         else if blk_capacity (last (ar_blocks (snd s))) < aligned_offset + sz
         then (let new_block_size = max (ar_block_size (snd s)) (sz + alignment)
               in case allocate_block mal new_block_size s of
                    None \<Rightarrow> None
                  | Some s \<Rightarrow> Some (bump (align_up 0 alignment) sz s))
         else Some (bump aligned_offset sz s))"

text \<open>A \<open>string_view\<close>: address and length. The alignment is that of \<open>max_align_t\<close>.\<close>

type_synonym view = "nat \<times> nat"

definition max_align :: u64 where
  "max_align = 16"

definition copy_string :: "malloc \<Rightarrow> string \<Rightarrow> heap \<times> arena \<Rightarrow> ((heap \<times> arena) \<times> view) option" where
  "copy_string mal src s =
     (if src = [] then Some (s, (0, 0))
      else case allocate mal (of_nat (length src)) max_align s of
             None \<Rightarrow> None
           | Some ((h, ar), dst) \<Rightarrow> Some ((memcpy dst src h, ar), (dst, length src)))"

definition arena_reset :: "heap \<times> arena \<Rightarrow> heap \<times> arena" where
  "arena_reset s =
     (fold (\<lambda>b. heap_free (blk_data b)) (rev (drop 1 (ar_blocks (snd s)))) (fst s),
      (snd s)\<lparr>ar_blocks := take 1 (ar_blocks (snd s)), ar_current_offset := 0,
              ar_total_allocated := 0\<rparr>)"

definition read_view :: "heap \<Rightarrow> view \<Rightarrow> string" where
  "read_view h v = map (mem h) [fst v..<fst v + snd v]"

section \<open>AlignUp\<close>

lemma unat_and_not_mask:
  "unat ((x :: u64) AND NOT (2 ^ k - 1)) = unat x div 2 ^ k * 2 ^ k"
proof -
  have "x AND NOT (2 ^ k - 1) = x - take_bit k x"
  proof -
    have "x AND NOT (mask k) = push_bit k (drop_bit k x)"
      by (rule bit_word_eqI) (auto simp: bit_simps)
    moreover have "push_bit k (drop_bit k x) + take_bit k x = x" by (rule bits_ident)
    ultimately show ?thesis by (simp add: mask_eq_exp_minus_1 eq_diff_eq)
  qed
  moreover have "take_bit k x \<le> x"
    by (simp add: word_le_nat_alt unsigned_take_bit_eq)
  ultimately have "unat (x AND NOT (2 ^ k - 1)) = unat x - unat x mod 2 ^ k"
    by (simp add: unat_sub unsigned_take_bit_eq flip: take_bit_eq_mod)
  then show ?thesis by (metis minus_mod_eq_div_mult)
qed

lemma align_up_pow2:
  assumes "k \<le> 62" "unat off \<le> 2 ^ 63"
  shows "unat (align_up off (2 ^ k)) = (unat off + (2 ^ k - 1)) div 2 ^ k * 2 ^ k"
proof -
  have "(2::nat) ^ k \<le> 2 ^ 62" using assms(1) by (intro power_increasing) auto
  then have lt: "unat off + (2 ^ k - 1) < 2 ^ 64" using assms(2) by simp
  have one: "unat ((2 ^ k :: u64) - 1) = 2 ^ k - 1"
  proof -
    have "(1 :: u64) \<le> 2 ^ k" using assms(1) by (simp add: word_le_nat_alt unat_pow2_u64)
    then show ?thesis using assms(1) by (simp add: unat_sub unat_pow2_u64)
  qed
  have "unat (off + (2 ^ k - 1)) = unat off + (2 ^ k - 1)"
    using lt one by (simp add: unat_word_ariths)
  then show ?thesis
    by (simp add: align_up_def unat_and_not_mask add_diff_eq flip: diff_conv_add_uminus)
qed

lemma align_up_bounds:
  assumes "k \<le> 62" "unat off \<le> 2 ^ 63"
  shows "unat off \<le> unat (align_up off (2 ^ k))"
    and "unat (align_up off (2 ^ k)) < unat off + 2 ^ k"
    and "2 ^ k dvd unat (align_up off (2 ^ k))"
proof -
  let ?x = "unat off + (2 ^ k - 1)"
  have e: "unat (align_up off (2 ^ k)) = ?x - ?x mod 2 ^ k"
    using align_up_pow2 [OF assms] by (simp add: minus_mod_eq_div_mult)
  have "?x mod 2 ^ k < 2 ^ k" by simp
  then show "unat off \<le> unat (align_up off (2 ^ k))" unfolding e by linarith
  have "(1::nat) \<le> 2 ^ k" by simp
  then show "unat (align_up off (2 ^ k)) < unat off + 2 ^ k" unfolding e by linarith
  show "2 ^ k dvd unat (align_up off (2 ^ k))"
    using align_up_pow2 [OF assms] by simp
qed

section \<open>The invariant\<close>

text \<open>
  \<open>arena_ok h ar regions\<close>: the arena's blocks are live in the heap, and \<open>regions\<close>, the memory handed
  out since the last reset, lies in the blocks, below the offset of the current one, without
  overlaps.
\<close>

definition region_in :: "arena \<Rightarrow> nat \<times> nat \<Rightarrow> block \<Rightarrow> bool" where
  "region_in ar r b \<longleftrightarrow> span (fst r) (snd r) \<subseteq> span (blk_data b) (unat (blk_capacity b)) \<and>
     (b = last (ar_blocks ar) \<longrightarrow>
        span (fst r) (snd r) \<subseteq> span (blk_data b) (unat (ar_current_offset ar)))"

definition block_region :: "block \<Rightarrow> nat \<times> nat" where
  "block_region b = (blk_data b, unat (blk_capacity b))"

definition handler_ok :: "arena \<Rightarrow> bool" where
  "handler_ok ar \<longleftrightarrow> (\<forall>f. ar_oom_handler ar = Some f \<longrightarrow> (\<forall>n h. heap_ok h \<longrightarrow>
     heap_ok (f n h) \<and> set (live h) \<subseteq> set (live (f n h)) \<and> mem (f n h) = mem h))"

definition arena_ok :: "heap \<times> arena \<Rightarrow> (nat \<times> nat) list \<Rightarrow> bool" where
  "arena_ok s regions \<longleftrightarrow> heap_ok (fst s) \<and> handler_ok (snd s) \<and> ar_blocks (snd s) \<noteq> [] \<and>
     block_region ` set (ar_blocks (snd s)) \<subseteq> set (live (fst s)) \<and>
     ar_current_offset (snd s) \<le> blk_capacity (last (ar_blocks (snd s))) \<and>
     (\<forall>r \<in> set regions. \<exists>b \<in> set (ar_blocks (snd s)). region_in (snd s) r b) \<and>
     sorted_wrt (\<lambda>r q. span (fst r) (snd r) \<inter> span (fst q) (snd q) = {}) regions"

lemma heap_ok_add:
  "heap_ok h \<Longrightarrow> malloc_ok mal \<Longrightarrow> mal h n = Some p \<Longrightarrow> heap_ok (heap_add p (unat n) h)"
  unfolding malloc_ok_def by (auto simp: heap_ok_def heap_add_def)

lemma sorted_wrt_disjoint:
  "sorted_wrt (\<lambda>(a, m) (b, n). span a m \<inter> span b n = {}) rs \<Longrightarrow>
   (a, m) \<in> set rs \<Longrightarrow> (b, n) \<in> set rs \<Longrightarrow> a \<noteq> b \<Longrightarrow> span a m \<inter> span b n = {}"
  by (induction rs) fastforce+

lemma heap_ok_disjoint:
  "heap_ok h \<Longrightarrow> (a, m) \<in> set (live h) \<Longrightarrow> (b, n) \<in> set (live h) \<Longrightarrow> a \<noteq> b \<Longrightarrow>
   span a m \<inter> span b n = {}"
  unfolding heap_ok_def using sorted_wrt_disjoint by blast

lemma heap_ok_capacity:
  "arena_ok s rs \<Longrightarrow> b \<in> set (ar_blocks (snd s)) \<Longrightarrow>
   blk_data b + unat (blk_capacity b) \<le> 2 ^ 63 \<and> 16 dvd blk_data b"
  by (auto simp: arena_ok_def heap_ok_def block_region_def)

text \<open>A new block: the old regions stay where they are, the new block is empty.\<close>

lemma push_block_ok:
  assumes ok: "arena_ok s rs" and m: "malloc_ok mal" "mal (fst s) n = Some p"
  shows "arena_ok (push_block p n s) rs"
proof -
  let ?b = "\<lparr>blk_data = p, blk_capacity = n\<rparr>"
  have fresh: "p \<notin> fst ` set (live (fst s))"
    using ok m by (auto simp: malloc_ok_def arena_ok_def)
  have new: "b \<noteq> ?b" if "b \<in> set (ar_blocks (snd s))" for b
  proof
    assume "b = ?b"
    with that ok have "(p, unat n) \<in> set (live (fst s))"
      by (force simp: arena_ok_def block_region_def)
    with fresh show False by (metis fst_conv image_eqI)
  qed
  have "\<exists>b \<in> set (ar_blocks (snd (push_block p n s))). region_in (snd (push_block p n s)) r b"
    if r: "r \<in> set rs" for r
  proof -
    obtain b where b: "b \<in> set (ar_blocks (snd s))" "region_in (snd s) r b"
      using ok r by (auto simp: arena_ok_def)
    with new [OF b(1)] show ?thesis
      by (intro bexI [of _ b]) (auto simp: region_in_def push_block_def)
  qed
  then show ?thesis
    using ok heap_ok_add [OF _ m] unfolding arena_ok_def
    by (auto simp: push_block_def block_region_def heap_add_def handler_ok_def)
qed

lemma heap_subset_ok:
  "arena_ok (h, ar) rs \<Longrightarrow> heap_ok h' \<Longrightarrow> set (live h) \<subseteq> set (live h') \<Longrightarrow> arena_ok (h', ar) rs"
  unfolding arena_ok_def by auto

text \<open>What \<open>AllocateBlock\<close> achieves unless it aborts.\<close>

lemma allocate_block_ok:
  assumes ok: "arena_ok s rs" and m: "malloc_ok mal" and a: "allocate_block mal n s = Some s'"
  shows "arena_ok s' rs \<and> ar_current_offset (snd s') = 0 \<and> mem (fst s') = mem (fst s) \<and>
    blk_capacity (last (ar_blocks (snd s'))) = n \<and> ar_oom_handler (snd s') = ar_oom_handler (snd s) \<and>
    set (live (fst s)) \<subseteq> set (live (fst s'))"
proof (cases "mal (fst s) n")
  case (Some p)
  then have "s' = push_block p n s" using a by (simp add: allocate_block_def)
  then show ?thesis
    using push_block_ok [OF ok m Some] by (auto simp: push_block_def heap_add_def)
next
  case None
  with a obtain f p where f: "ar_oom_handler (snd s) = Some f"
    "mal (f n (fst s)) n = Some p" "s' = push_block p n (f n (fst s), snd s)"
    by (auto simp: allocate_block_def Let_def split: option.splits)
  have h: "heap_ok (f n (fst s))" "set (live (fst s)) \<subseteq> set (live (f n (fst s)))"
    "mem (f n (fst s)) = mem (fst s)"
    using ok f(1) by (auto simp: arena_ok_def handler_ok_def)
  have "arena_ok (f n (fst s), snd s) rs"
    using heap_subset_ok [of "fst s" "snd s"] ok h by simp
  from push_block_ok [OF this m, of n p] f h show ?thesis
    by (auto simp: push_block_def heap_add_def)
qed

lemma live_unique:
  "heap_ok h \<Longrightarrow> (a, m) \<in> set (live h) \<Longrightarrow> (a, n) \<in> set (live h) \<Longrightarrow> m = n"
  unfolding heap_ok_def by (metis eq_key_imp_eq_value)

lemma blocks_disjoint:
  assumes "arena_ok s rs" "b \<in> set (ar_blocks (snd s))" "c \<in> set (ar_blocks (snd s))" "b \<noteq> c"
  shows "span (blk_data b) (unat (blk_capacity b)) \<inter> span (blk_data c) (unat (blk_capacity c)) = {}"
proof -
  have l: "(blk_data b, unat (blk_capacity b)) \<in> set (live (fst s))"
    "(blk_data c, unat (blk_capacity c)) \<in> set (live (fst s))" "heap_ok (fst s)"
    using assms by (auto simp: arena_ok_def block_region_def)
  then have "blk_data b \<noteq> blk_data c"
  proof -
    have "b = c" if e: "blk_data b = blk_data c"
    proof -
      have "unat (blk_capacity b) = unat (blk_capacity c)"
        using live_unique [OF l(3,1)] l(2) e by simp
      then have "blk_capacity b = blk_capacity c" by (simp add: word_eq_iff_unsigned [where 'a = nat])
      then show ?thesis using e by (intro block.equality) simp_all
    qed
    with assms(4) show ?thesis by blast
  qed
  then show ?thesis using heap_ok_disjoint [OF l(3,1,2)] by simp
qed

lemma bump_ok:
  assumes ok: "arena_ok s rs" and off: "ar_current_offset (snd s) \<le> al"
    and fit: "unat al + unat sz \<le> unat (blk_capacity (last (ar_blocks (snd s))))"
    and b: "bump al sz s = (s', p)"
  shows "arena_ok s' ((p, unat sz) # rs) \<and>
    span p (unat sz) \<subseteq> span (blk_data (last (ar_blocks (snd s)))) (unat (blk_capacity (last (ar_blocks (snd s)))))"
proof -
  let ?l = "last (ar_blocks (snd s))"
  have l: "?l \<in> set (ar_blocks (snd s))" using ok by (simp add: arena_ok_def)
  have p: "p = blk_data ?l + unat al" and s': "fst s' = fst s" "ar_blocks (snd s') = ar_blocks (snd s)"
    "ar_current_offset (snd s') = al + sz" "ar_oom_handler (snd s') = ar_oom_handler (snd s)"
    using b by (auto simp: bump_def)
  have "unat al + unat sz < 2 ^ 64"
    using fit unat_u64_less [of "blk_capacity ?l"] by linarith
  then have sum: "unat (al + sz) = unat al + unat sz" by (simp add: unat_word_ariths)
  have offn: "unat (ar_current_offset (snd s)) \<le> unat al" using off by (simp add: word_le_nat_alt)
  have new: "region_in (snd s') (p, unat sz) ?l"
    using fit by (auto simp: region_in_def p s' sum)
  have old: "region_in (snd s') r b" if "region_in (snd s) r b" for r b
    using that offn by (fastforce simp: region_in_def s' sum)
  have disj: "span p (unat sz) \<inter> span (fst r) (snd r) = {}" if r: "r \<in> set rs" for r
  proof -
    obtain b where b: "b \<in> set (ar_blocks (snd s))" "region_in (snd s) r b"
      using ok r by (auto simp: arena_ok_def)
    show ?thesis
    proof (cases "b = ?l")
      case True
      with b have "span (fst r) (snd r) \<subseteq> span (blk_data ?l) (unat (ar_current_offset (snd s)))"
        by (simp add: region_in_def)
      moreover have "span p (unat sz) \<inter> span (blk_data ?l) (unat (ar_current_offset (snd s))) = {}"
        using offn by (auto simp: p)
      ultimately show ?thesis by blast
    next
      case False
      with blocks_disjoint [OF ok b(1) l] b(2) new show ?thesis
        by (auto simp: region_in_def)
    qed
  qed
  have "al + sz \<le> blk_capacity ?l" using fit by (simp add: word_le_nat_alt sum)
  moreover have "\<exists>b \<in> set (ar_blocks (snd s)). region_in (snd s') r b" if "r \<in> set ((p, unat sz) # rs)" for r
    using that new old l ok unfolding arena_ok_def by (metis set_ConsD)
  ultimately have "arena_ok s' ((p, unat sz) # rs)"
    using ok disj unfolding arena_ok_def handler_ok_def by (simp add: s' del: Int_atLeastLessThan atLeastLessThan_empty_iff)
  with new show ?thesis by (simp add: region_in_def)
qed

text \<open>
  \<open>Allocate\<close> with an alignment \<open>2 ^ k\<close>: unless it aborts, the region it returns is new, inside a
  live block, and as aligned as the block and the request allow.
\<close>

lemma allocate_ok:
  assumes ok: "arena_ok s rs" and m: "malloc_ok mal" and k: "k \<le> 62" and sz: "unat sz \<le> 2 ^ 62"
    and a: "allocate mal sz (2 ^ k) s = Some (s', p)"
  shows "arena_ok s' ((p, unat sz) # rs)" "mem (fst s') = mem (fst s)"
    "k \<le> 4 \<Longrightarrow> 2 ^ k dvd p"
proof -
  define al where "al = align_up (ar_current_offset (snd s)) (2 ^ k)"
  let ?l = "last (ar_blocks (snd s))"
  have l: "?l \<in> set (ar_blocks (snd s))" using ok by (simp add: arena_ok_def)
  have "ar_current_offset (snd s) \<le> blk_capacity ?l" using ok by (simp add: arena_ok_def)
  then have off: "unat (ar_current_offset (snd s)) \<le> 2 ^ 63"
    using heap_ok_capacity [OF ok l] by (simp add: word_le_nat_alt)
  have al: "unat (ar_current_offset (snd s)) \<le> unat al" "unat al < 2 ^ 63 + 2 ^ 62" "2 ^ k dvd unat al"
  proof -
    have "(2::nat) ^ k \<le> 2 ^ 62" using k by (intro power_increasing) auto
    then show "unat (ar_current_offset (snd s)) \<le> unat al" "unat al < 2 ^ 63 + 2 ^ 62" "2 ^ k dvd unat al"
      using align_up_bounds [OF k off] off by (simp_all add: al_def)
  qed
  have sum: "unat (al + sz) = unat al + unat sz"
    using al(2) sz by (simp add: unat_word_ariths)
  have concl: "arena_ok s' ((p, unat sz) # rs) \<and> mem (fst s') = mem (fst s) \<and> (k \<le> 4 \<longrightarrow> 2 ^ k dvd p)"
  proof (cases "blk_capacity ?l < al + sz")
    case False
    then have b: "bump al sz s = (s', p)"
      using a ok by (simp add: allocate_def al_def arena_ok_def Let_def split: if_splits)
    have fit: "unat al + unat sz \<le> unat (blk_capacity ?l)"
      using False by (simp add: word_less_nat_alt sum not_less)
    have "p = blk_data ?l + unat al" "mem (fst s') = mem (fst s)" using b by (auto simp: bump_def)
    moreover have "2 ^ k dvd blk_data ?l" if "k \<le> 4"
      using heap_ok_capacity [OF ok l] that le_imp_power_dvd [of k 4 "2::nat"] by (auto elim: dvd_trans)
    ultimately show ?thesis
      using bump_ok [OF ok _ fit b] al by (simp add: word_le_nat_alt)
  next
    case True
    define n where "n = max (ar_block_size (snd s)) (sz + 2 ^ k)"
    obtain t where t: "allocate_block mal n s = Some t" and b: "bump (align_up 0 (2 ^ k)) sz t = (s', p)"
      using a True ok by (auto simp: allocate_def al_def n_def arena_ok_def Let_def split: option.splits)
    note t' = allocate_block_ok [OF ok m t]
    have zero: "align_up 0 (2 ^ k) = (0 :: u64)"
      using align_up_bounds(2,3) [of k 0] k by (metis add_0 nat_dvd_not_less not_gr_zero
          unat_eq_zero unsigned_0 zero_le)
    have "(2::nat) ^ k \<le> 2 ^ 62" using k by (intro power_increasing) auto
    then have "unat (sz + 2 ^ k) = unat sz + 2 ^ k"
      using sz k by (simp add: unat_word_ariths unat_pow2_u64)
    then have fit: "unat (0 :: u64) + unat sz \<le> unat (blk_capacity (last (ar_blocks (snd t))))"
      using t' by (simp add: n_def max_def word_le_nat_alt)
    let ?m = "last (ar_blocks (snd t))"
    have "p = blk_data ?m" "mem (fst s') = mem (fst t)" using b by (auto simp: bump_def zero)
    moreover have "2 ^ k dvd blk_data ?m" if "k \<le> 4"
      using heap_ok_capacity [of t rs ?m] t' that le_imp_power_dvd [of k 4 "2::nat"]
      by (auto simp: arena_ok_def elim: dvd_trans)
    ultimately show ?thesis
      using bump_ok [of t rs 0 sz s' p] t' fit b by (simp add: zero)
  qed
  then show "arena_ok s' ((p, unat sz) # rs)" "mem (fst s') = mem (fst s)" "k \<le> 4 \<Longrightarrow> 2 ^ k dvd p"
    by blast+
qed

section \<open>Sequences of allocations\<close>

fun alloc_run ::
  "malloc \<Rightarrow> (u64 \<times> nat) list \<Rightarrow> heap \<times> arena \<Rightarrow> ((heap \<times> arena) \<times> nat list) option" where
  "alloc_run mal [] s = Some (s, [])"
| "alloc_run mal ((sz, k) # reqs) s =
     (case allocate mal sz (2 ^ k) s of
        None \<Rightarrow> None
      | Some (s, p) \<Rightarrow>
          (case alloc_run mal reqs s of None \<Rightarrow> None | Some (s, ps) \<Rightarrow> Some (s, p # ps)))"

lemma arena_new_ok:
  assumes "heap_ok h" "malloc_ok mal" "arena_new mal n h = Some s"
  shows "arena_ok s []"
proof -
  let ?b = "\<lambda>p. \<lparr>blk_data = p, blk_capacity = n\<rparr>"
  obtain p where p: "mal h n = Some p" "fst s = heap_add p (unat n) h" "ar_blocks (snd s) = [?b p]"
    "ar_current_offset (snd s) = 0" "ar_oom_handler (snd s) = None"
    using assms(3) by (auto simp: arena_new_def allocate_block_def push_block_def split: option.splits)
  then show ?thesis
    using heap_ok_add [OF assms(1,2) p(1)]
    by (simp add: arena_ok_def handler_ok_def block_region_def heap_add_def)
qed

lemma alloc_run_ok:
  assumes "malloc_ok mal" "arena_ok s rs" "list_all (\<lambda>(sz, k). unat sz \<le> 2 ^ 62 \<and> k \<le> 4) reqs"
    "alloc_run mal reqs s = Some (s', ps)"
  shows "arena_ok s' (rev (zip ps (map (unat \<circ> fst) reqs)) @ rs) \<and> length ps = length reqs \<and>
    list_all2 (\<lambda>p (sz, k). 2 ^ k dvd p) ps reqs"
  using assms(2-)
proof (induction reqs arbitrary: s rs ps)
  case (Cons req reqs)
  obtain sz k where req: "req = (sz, k)" by (cases req)
  with Cons.prems(3) obtain t p ps' where
    a: "allocate mal sz (2 ^ k) s = Some (t, p)" "alloc_run mal reqs t = Some (s', ps')" "ps = p # ps'"
    by (auto split: option.splits prod.splits)
  have k: "unat sz \<le> 2 ^ 62" "k \<le> 4" "k \<le> 62" using Cons.prems(2) req by auto
  note t = allocate_ok [OF Cons.prems(1) assms(1) k(3,1) a(1)]
  show ?case using Cons.IH [OF t(1) _ a(2)] Cons.prems(2) t(3) k a(3) req by simp
qed simp

text \<open>\<open>malloc\<close> that always succeeds makes every allocation return.\<close>

lemma alloc_run_returns:
  assumes "\<And>h n. mal h n \<noteq> None" "ar_blocks (snd s) \<noteq> []"
  shows "alloc_run mal reqs s \<noteq> None"
  using assms(2)
proof (induction reqs arbitrary: s)
  case (Cons req reqs)
  obtain sz k where req: "req = (sz, k)" by (cases req)
  have "\<exists>t p. allocate mal sz (2 ^ k) s = Some (t, p) \<and> ar_blocks (snd t) \<noteq> []"
  proof -
    obtain q where "mal (fst s) (max (ar_block_size (snd s)) (sz + 2 ^ k)) = Some q"
      using assms(1) by blast
    then show ?thesis
      using Cons.prems by (simp add: allocate_def allocate_block_def push_block_def bump_def Let_def)
  qed
  with Cons.IH req show ?case by fastforce
qed simp

section \<open>Interning\<close>

text \<open>
  \<open>DataBatch::InternString\<close> (\<open>src/core/engine/data_batch.h\<close>): the batch's arena, and the cache from
  the contents of a string to its view.
\<close>

record interner =
  in_store :: "heap \<times> arena"
  in_cache :: "(string \<times> view) list"

definition intern_string :: "malloc \<Rightarrow> string \<Rightarrow> interner \<Rightarrow> (interner \<times> view) option" where
  "intern_string mal s st =
     (if s = [] then Some (st, (0, 0))
      else case map_of (in_cache st) s of
             Some v \<Rightarrow> Some (st, v)
           | None \<Rightarrow>
               (case copy_string mal s (in_store st) of
                  None \<Rightarrow> None
                | Some (store, v) \<Rightarrow>
                    Some (st\<lparr>in_store := store, in_cache := (s, v) # in_cache st\<rparr>, v)))"

definition intern_clear :: "interner \<Rightarrow> interner" where
  "intern_clear st = st\<lparr>in_store := arena_reset (in_store st), in_cache := []\<rparr>"

fun intern_run :: "malloc \<Rightarrow> string list \<Rightarrow> interner \<Rightarrow> (interner \<times> view list) option" where
  "intern_run mal [] st = Some (st, [])"
| "intern_run mal (s # ss) st =
     (case intern_string mal s st of
        None \<Rightarrow> None
      | Some (st, v) \<Rightarrow>
          (case intern_run mal ss st of None \<Rightarrow> None | Some (st, vs) \<Rightarrow> Some (st, v # vs)))"

text \<open>The cached views are the regions handed out, and each still reads its string.\<close>

definition interner_ok :: "interner \<Rightarrow> bool" where
  "interner_ok st \<longleftrightarrow>
     (\<exists>rs. arena_ok (in_store st) rs \<and> snd ` set (in_cache st) \<subseteq> set rs) \<and>
     (\<forall>(s, v) \<in> set (in_cache st). read_view (fst (in_store st)) v = s)"

lemma read_view_memcpy: "read_view (memcpy p s h) (p, length s) = s"
  by (rule nth_equalityI) (auto simp: read_view_def memcpy_def)

lemma read_view_memcpy_other:
  "span p (length s) \<inter> span (fst v) (snd v) = {} \<Longrightarrow> read_view (memcpy p s h) v = read_view h v"
  by (fastforce simp: read_view_def memcpy_def disjoint_iff simp del: Int_atLeastLessThan)

lemma arena_ok_memcpy: "arena_ok (h, ar) rs \<Longrightarrow> arena_ok (memcpy p s h, ar) rs"
  by (simp add: arena_ok_def heap_ok_def memcpy_def)

lemma intern_string_ok:
  assumes st: "interner_ok st" and m: "malloc_ok mal" and len: "length s \<le> 2 ^ 62"
    and i: "intern_string mal s st = Some (st', v)"
  shows "interner_ok st'" "read_view (fst (in_store st')) v = s"
    "set (in_cache st) \<subseteq> set (in_cache st')" "s \<noteq> [] \<Longrightarrow> map_of (in_cache st') s = Some v"
    "\<And>k w. map_of (in_cache st) k = Some w \<Longrightarrow> map_of (in_cache st') k = Some w"
proof -
  have "interner_ok st' \<and> read_view (fst (in_store st')) v = s \<and>
    set (in_cache st) \<subseteq> set (in_cache st') \<and> (s \<noteq> [] \<longrightarrow> map_of (in_cache st') s = Some v) \<and>
    (\<forall>k w. map_of (in_cache st) k = Some w \<longrightarrow> map_of (in_cache st') k = Some w)"
  proof (cases "s = [] \<or> map_of (in_cache st) s \<noteq> None")
    case True
    then have same: "st' = st" "s = [] \<longrightarrow> v = (0, 0)" "s \<noteq> [] \<longrightarrow> map_of (in_cache st) s = Some v"
      using i by (auto simp: intern_string_def split: if_splits)
    then have "s \<noteq> [] \<longrightarrow> (s, v) \<in> set (in_cache st)" by (auto dest: map_of_SomeD)
    moreover have "read_view h (0, 0) = []" for h by (simp add: read_view_def)
    moreover have "\<forall>(s, v) \<in> set (in_cache st). read_view (fst (in_store st)) v = s"
      using st by (simp add: interner_ok_def)
    ultimately have "read_view (fst (in_store st)) v = s" using same(2) by (cases "s = []") auto
    with same st show ?thesis by simp
  next
    case False
    then have new: "s \<noteq> []" "map_of (in_cache st) s = None" by blast+
    obtain h ar where c: "copy_string mal s (in_store st) = Some ((h, ar), v)"
      "st' = st\<lparr>in_store := (h, ar), in_cache := (s, v) # in_cache st\<rparr>"
    proof (cases "copy_string mal s (in_store st)")
      case (Some r)
      with i new that [of "fst (fst r)" "snd (fst r)"] show ?thesis
        by (simp add: intern_string_def split: prod.splits)
    qed (use i new in \<open>simp add: intern_string_def\<close>)
    obtain h0 where a: "allocate mal (of_nat (length s)) (2 ^ 4) (in_store st) = Some ((h0, ar), fst v)"
      "h = memcpy (fst v) s h0" "snd v = length s"
      using c(1) new by (auto simp: copy_string_def max_align_def split: option.splits)
    obtain rs where rs: "arena_ok (in_store st) rs" "snd ` set (in_cache st) \<subseteq> set rs"
      "\<forall>(s, v) \<in> set (in_cache st). read_view (fst (in_store st)) v = s"
      using st by (auto simp: interner_ok_def)
    have l: "unat (of_nat (length s) :: u64) = length s"
      using len by (simp add: unsigned_of_nat take_bit_nat_eq_self)
    have al: "arena_ok (h0, ar) ((fst v, length s) # rs)" "mem h0 = mem (fst (in_store st))"
      using allocate_ok(1,2) [OF rs(1) m _ _ a(1)] len l by simp_all
    have keep: "read_view h w = t" if "(t, w) \<in> set (in_cache st)" for t w
    proof -
      have "w \<in> set rs" "read_view (fst (in_store st)) w = t" using that rs by auto
      moreover from this al(1) have "span (fst v) (length s) \<inter> span (fst w) (snd w) = {}"
        unfolding arena_ok_def by simp
      ultimately show ?thesis
        using al(2) read_view_memcpy_other [of "fst v" s w h0] a(2) by (simp add: read_view_def)
    qed
    have "read_view h v = s" using a read_view_memcpy [of "fst v" s h0] by (metis prod.collapse)
    moreover have "arena_ok (h, ar) (v # rs)"
      using arena_ok_memcpy [OF al(1)] a by (metis prod.collapse)
    ultimately show ?thesis
      using keep rs(2) False c(2) unfolding interner_ok_def by (fastforce dest: map_of_SomeD)
  qed
  then show "interner_ok st'" "read_view (fst (in_store st')) v = s"
    "set (in_cache st) \<subseteq> set (in_cache st')" "s \<noteq> [] \<Longrightarrow> map_of (in_cache st') s = Some v"
    "\<And>k w. map_of (in_cache st) k = Some w \<Longrightarrow> map_of (in_cache st') k = Some w"
    by blast+
qed

lemma intern_run_ok:
  assumes "malloc_ok mal" "list_all (\<lambda>s. length s \<le> 2 ^ 62) ss" "interner_ok st"
    "intern_run mal ss st = Some (st', vs)"
  shows "interner_ok st' \<and> map (read_view (fst (in_store st'))) vs = ss \<and>
    set (in_cache st) \<subseteq> set (in_cache st') \<and>
    (\<forall>k w. map_of (in_cache st) k = Some w \<longrightarrow> map_of (in_cache st') k = Some w) \<and>
    list_all2 (\<lambda>s v. if s = [] then v = (0, 0) else map_of (in_cache st') s = Some v) ss vs"
  using assms(2-)
proof (induction ss arbitrary: st vs)
  case (Cons s ss)
  then obtain t v ws where i: "intern_string mal s st = Some (t, v)"
    "intern_run mal ss t = Some (st', ws)" "vs = v # ws"
    by (auto split: option.splits prod.splits)
  have len: "length s \<le> 2 ^ 62" "list_all (\<lambda>s. length s \<le> 2 ^ 62) ss"
    using Cons.prems(1) by simp_all
  note t = intern_string_ok [OF Cons.prems(2) assms(1) len(1) i(1)]
  note ih = Cons.IH [OF len(2) t(1) i(2)]
  have v: "if s = [] then v = (0, 0) else map_of (in_cache st') s = Some v"
    using ih t(4) i(1) by (cases "s = []") (simp add: intern_string_def, metis)
  have "read_view (fst (in_store st')) v = s"
  proof (cases "s = []")
    case False
    then have "(s, v) \<in> set (in_cache st')" using v by (auto dest: map_of_SomeD)
    with ih show ?thesis by (auto simp: interner_ok_def)
  qed (use v in \<open>simp add: read_view_def\<close>)
  with ih t(3) v i(3) show ?case by (simp del: split_paired_All) (metis subset_trans t(5))
qed simp

section \<open>Properties\<close>

definition region_list :: "nat list \<Rightarrow> (u64 \<times> nat) list \<Rightarrow> (nat \<times> nat) list" where
  "region_list ps reqs = zip ps (map (unat \<circ> fst) reqs)"

definition bump_malloc :: malloc where
  "bump_malloc h n =
     (let top = foldr (\<lambda>(a, m) t. max (a + m) t) (live h) 0; p = (top + 16) div 16 * 16
      in if p + unat n \<le> 2 ^ 63 then Some p else None)"

lemma foldr_max_bound: "(a, m) \<in> set rs \<Longrightarrow> a + m \<le> foldr (\<lambda>(a, m) t. max (a + m) t) rs (0 :: nat)"
  by (induction rs) (auto simp: le_max_iff_disj)

lemma bump_malloc_ok: "malloc_ok bump_malloc"
  unfolding malloc_ok_def
proof (intro allI impI)
  fix h n p
  assume h: "heap_ok h" and m: "bump_malloc h n = Some p"
  let ?top = "foldr (\<lambda>(a, m) t. max (a + m) t) (live h) 0"
  have p: "p = (?top + 16) div 16 * 16" "p + unat n \<le> 2 ^ 63"
    using m by (auto simp: bump_malloc_def Let_def split: if_splits)
  then have "?top < p" by linarith
  then have above: "a + k < p" if "(a, k) \<in> set (live h)" for a k
    using foldr_max_bound [OF that] by simp
  then have "p \<notin> fst ` set (live h)" by force
  moreover have "\<forall>(a, m) \<in> set (live h). span p (unat n) \<inter> span a m = {}"
    using above by fastforce
  ultimately show "p \<notin> fst ` set (live h) \<and>
      (\<forall>(a, m) \<in> set (live h). span p (unat n) \<inter> span a m = {}) \<and> p + unat n \<le> 2 ^ 63 \<and> 16 dvd p"
    using p by simp
qed

text \<open>
  C16: the memory an arena hands out is usable. Over any sequence of \<open>Allocate\<close> calls that does not
  abort, every region lies in a block that is live in the heap, no two regions overlap, and each is
  aligned as asked (up to the 16 bytes \<open>malloc\<close> guarantees); and the calls abort only if \<open>malloc\<close>
  fails.
\<close>

theorem arena_allocations:
  assumes "heap_ok h" "malloc_ok mal" "arena_new mal n h = Some s0"
    "list_all (\<lambda>(sz, k). unat sz \<le> 2 ^ 62 \<and> k \<le> 4) reqs"
  shows "(alloc_run mal reqs s0 = Some (s, ps) \<longrightarrow>
      length ps = length reqs \<and> list_all2 (\<lambda>p (sz, k). 2 ^ k dvd p) ps reqs \<and>
      (\<forall>r \<in> set (region_list ps reqs). \<exists>b \<in> set (live (fst s)).
         span (fst r) (snd r) \<subseteq> span (fst b) (snd b)) \<and>
      sorted_wrt (\<lambda>r q. span (fst r) (snd r) \<inter> span (fst q) (snd q) = {})
        (rev (region_list ps reqs))) \<and>
    ((\<forall>h n. mal h n \<noteq> None) \<longrightarrow> alloc_run mal reqs s0 \<noteq> None)"
proof (intro conjI impI)
  note ok = arena_new_ok [OF assms(1-3)]
  show "alloc_run mal reqs s0 \<noteq> None" if "\<forall>h n. mal h n \<noteq> None"
    using alloc_run_returns [of mal s0 reqs] that ok by (simp add: arena_ok_def)
  assume run: "alloc_run mal reqs s0 = Some (s, ps)"
  have r: "arena_ok s (rev (region_list ps reqs))" "length ps = length reqs"
    "list_all2 (\<lambda>p (sz, k). 2 ^ k dvd p) ps reqs"
    using alloc_run_ok [OF assms(2) ok assms(4) run] by (simp_all add: region_list_def)
  then show "length ps = length reqs" "list_all2 (\<lambda>p (sz, k). 2 ^ k dvd p) ps reqs"
    "sorted_wrt (\<lambda>r q. span (fst r) (snd r) \<inter> span (fst q) (snd q) = {}) (rev (region_list ps reqs))"
    by (simp_all add: arena_ok_def)
  show "\<forall>r \<in> set (region_list ps reqs). \<exists>b \<in> set (live (fst s)).
         span (fst r) (snd r) \<subseteq> span (fst b) (snd b)"
  proof
    fix q assume "q \<in> set (region_list ps reqs)"
    then obtain b where b: "b \<in> set (ar_blocks (snd s))" "region_in (snd s) q b"
      using r(1) unfolding arena_ok_def by auto
    then have "block_region b \<in> set (live (fst s))" using r(1) unfolding arena_ok_def by blast
    with b show "\<exists>b \<in> set (live (fst s)). span (fst q) (snd q) \<subseteq> span (fst b) (snd b)"
      by (intro bexI [of _ "block_region b"]) (auto simp: region_in_def block_region_def)
  qed
qed

definition empty_heap :: heap where
  "empty_heap = \<lparr>live = [], mem = (\<lambda>_. CHR 0x00)\<rparr>"

lemma empty_heap_ok: "heap_ok empty_heap"
  by (simp add: heap_ok_def empty_heap_def)

theorem arena_allocations_witness:
  "\<exists>s0 s p q. arena_new bump_malloc 64 empty_heap = Some s0 \<and>
     alloc_run bump_malloc [(10, 0), (100, 4)] s0 = Some (s, [p, q]) \<and> 16 dvd q \<and>
     span q 100 \<inter> span p 10 = {}"
proof -
  obtain s0 where s0: "arena_new bump_malloc 64 empty_heap = Some s0"
    by (simp add: arena_new_def allocate_block_def bump_malloc_def empty_heap_def Let_def)
  have reqs: "list_all (\<lambda>(sz, k). unat sz \<le> 2 ^ 62 \<and> k \<le> 4) [(10 :: u64, 0 :: nat), (100, 4)]" by simp
  obtain s p q where run: "alloc_run bump_malloc [(10, 0), (100, 4)] s0 = Some (s, [p, q])"
    using s0
    by (auto simp: arena_new_def allocate_block_def allocate_def bump_malloc_def empty_heap_def Let_def
        push_block_def heap_add_def bump_def align_up_def)
  show ?thesis
    using arena_allocations [OF empty_heap_ok bump_malloc_ok s0 reqs, of s "[p, q]"] run s0
    by (auto simp: region_list_def)
qed

text \<open>
  Interned strings stay. After any sequence of \<open>InternString\<close> calls on a fresh batch, every view
  returned on the way still reads the string it was made for, and equal strings got equal views.
\<close>

theorem interned_views_stable:
  assumes "heap_ok h" "malloc_ok mal" "arena_new mal n h = Some s0"
    "list_all (\<lambda>s. length s \<le> 2 ^ 62) ss"
    "intern_run mal ss \<lparr>in_store = s0, in_cache = []\<rparr> = Some (st, vs)"
  shows "map (read_view (fst (in_store st))) vs = ss \<and>
    (\<forall>i < length ss. \<forall>j < length ss. ss ! i = ss ! j \<longrightarrow> vs ! i = vs ! j)"
proof -
  have "interner_ok \<lparr>in_store = s0, in_cache = []\<rparr>"
    using arena_new_ok [OF assms(1-3)] by (auto simp: interner_ok_def)
  note run = intern_run_ok [OF assms(2,4) this assms(5)]
  have "vs ! i = (if ss ! i = [] then (0, 0) else the (map_of (in_cache st) (ss ! i)))"
    if "i < length ss" for i
    using run that by (auto simp: list_all2_conv_all_nth)
  with run show ?thesis by simp
qed

theorem interned_views_stable_witness:
  "\<exists>s0 st vs. arena_new bump_malloc 64 empty_heap = Some s0 \<and>
     intern_run bump_malloc [''cpu'', ''pid'', ''cpu''] \<lparr>in_store = s0, in_cache = []\<rparr> = Some (st, vs) \<and>
     map (read_view (fst (in_store st))) vs = [''cpu'', ''pid'', ''cpu'']"
proof -
  obtain s0 where s0: "arena_new bump_malloc 64 empty_heap = Some s0"
    by (simp add: arena_new_def allocate_block_def bump_malloc_def empty_heap_def Let_def)
  have len: "list_all (\<lambda>s. length s \<le> 2 ^ 62) [''cpu'', ''pid'', ''cpu'']" by simp
  obtain st vs where run:
    "intern_run bump_malloc [''cpu'', ''pid'', ''cpu''] \<lparr>in_store = s0, in_cache = []\<rparr> = Some (st, vs)"
    using s0
    by (auto simp: arena_new_def allocate_block_def allocate_def bump_malloc_def empty_heap_def Let_def
        push_block_def heap_add_def bump_def align_up_def intern_string_def copy_string_def max_align_def
        memcpy_def)
  show ?thesis
    using s0 run conjunct1 [OF interned_views_stable [OF empty_heap_ok bump_malloc_ok s0 len run]]
    by (intro exI conjI)
qed

end
