(* ===== verification/Aggregator.thy ===== *)
theory Aggregator
  imports DataBatch Config "HOL-Library.Multiset"
begin

text \<open>
  The windowed aggregation of \<open>src/aggregators/cpu_stats_aggregator/cpu_stats_aggregator.h\<close>:
  statistics per field of the records with equal labels, and counts per distinct stack. The hash
  maps are association lists (their order means nothing), doubles are reals. The mutex makes each
  operation atomic, and is left out.
\<close>

section \<open>State\<close>

record record_series =
  rs_labels :: "label list"
  rs_field_values :: "(string \<times> real list) list"

record agg_stack =
  as_pid :: u32
  as_tid :: u32
  as_comm :: string
  as_count :: u64
  as_user_stack :: "stack_frame list"
  as_kernel_stack :: "stack_frame list"

record aggregator =
  ag_window_ms :: u32
  ag_record_buffer :: "(string \<times> record_series) list"
  ag_stack_buffer :: "(string \<times> agg_stack) list"

definition aggregator_new :: aggregator where
  "aggregator_new = \<lparr>ag_window_ms = 10000, ag_record_buffer = [], ag_stack_buffer = []\<rparr>"

definition aggregator_init :: "config_value \<Rightarrow> aggregator \<Rightarrow> aggregator" where
  "aggregator_init config ag =
     (let w = word_of_int (as_int (cv_child ''window_sec'' config) 10 * 1000)
      in ag\<lparr>ag_window_ms := if w = 0 then 10000 else w\<rparr>)"

definition default_agg_stack :: agg_stack where
  "default_agg_stack = \<lparr>as_pid = 0, as_tid = 0, as_comm = [], as_count = 0, as_user_stack = [],
     as_kernel_stack = []\<rparr>"

section \<open>Keys\<close>

definition make_record_key :: "data_record \<Rightarrow> string" where
  "make_record_key r = concat (map (\<lambda>(k, v). k @ ''='' @ v @ '';'') (rc_labels r))"

definition address_text :: "stack_frame list \<Rightarrow> string" where
  "address_text fs = concat (map (\<lambda>f. show_nat (unat (sf_address f)) @ '','') fs)"

definition make_stack_key :: "stack_sample \<Rightarrow> string" where
  "make_stack_key s =
     show_nat (unat (ss_pid s)) @ '':'' @ show_nat (unat (ss_tid s)) @ '':'' @
     address_text (ss_user_stack s) @ ''|'' @ address_text (ss_kernel_stack s)"

section \<open>Add\<close>

fun numeric_value :: "field_value \<Rightarrow> real option" where
  "numeric_value (FDouble d) = Some d"
| "numeric_value (FUint u) = Some (real (unat u))"
| "numeric_value (FInt i) = Some (real_of_int i)"
| "numeric_value _ = None"

definition push_field :: "string \<times> field_value \<Rightarrow> (string \<times> real list) list \<Rightarrow> (string \<times> real list) list" where
  "push_field f fvs =
     (case numeric_value (snd f) of
        None \<Rightarrow> fvs
      | Some x \<Rightarrow>
          AList.update (fst f) ((case map_of fvs (fst f) of None \<Rightarrow> [] | Some xs \<Rightarrow> xs) @ [x]) fvs)"

definition add_to_series :: "data_record \<Rightarrow> (string \<times> record_series) list \<Rightarrow> (string \<times> record_series) list" where
  "add_to_series r buf =
     (let key = make_record_key r;
          fvs = (case map_of buf key of None \<Rightarrow> [] | Some series \<Rightarrow> rs_field_values series)
      in AList.update key \<lparr>rs_labels = rc_labels r, rs_field_values = fold push_field (rc_fields r) fvs\<rparr> buf)"

definition add_to_stack :: "stack_sample \<Rightarrow> (string \<times> agg_stack) list \<Rightarrow> (string \<times> agg_stack) list" where
  "add_to_stack s buf =
     (let key = make_stack_key s;
          agg = (case map_of buf key of None \<Rightarrow> default_agg_stack | Some a \<Rightarrow> a)
      in AList.update key
           (agg\<lparr>as_pid := ss_pid s, as_tid := ss_tid s, as_comm := ss_comm s,
                as_count := as_count agg + ss_count s,
                as_user_stack := if as_user_stack agg = [] then ss_user_stack s else as_user_stack agg,
                as_kernel_stack :=
                  if as_kernel_stack agg = [] then ss_kernel_stack s else as_kernel_stack agg\<rparr>) buf)"

definition aggregator_add :: "data_batch option \<Rightarrow> aggregator \<Rightarrow> aggregator" where
  "aggregator_add batch ag =
     (case batch of
        None \<Rightarrow> ag
      | Some b \<Rightarrow>
          ag\<lparr>ag_record_buffer := fold add_to_series (db_records b) (ag_record_buffer ag),
             ag_stack_buffer := fold add_to_stack (db_samples b) (ag_stack_buffer ag)\<rparr>)"

section \<open>Statistics\<close>

record stats =
  sv_avg :: real
  sv_min :: real
  sv_max :: real
  sv_p50 :: real
  sv_p99 :: real

definition percentile :: "real list \<Rightarrow> real \<Rightarrow> real" where
  "percentile vals pct =
     (if vals = [] then 0
      else let idx = pct * real (length vals - 1); lo = nat \<lfloor>idx\<rfloor>; hi = nat \<lceil>idx\<rceil>
           in if lo = hi \<or> length vals \<le> hi then vals ! lo
              else let frac = idx - real lo in vals ! lo * (1 - frac) + vals ! hi * frac)"

definition compute_stats :: "real list \<Rightarrow> stats" where
  "compute_stats vals =
     (if vals = [] then \<lparr>sv_avg = 0, sv_min = 0, sv_max = 0, sv_p50 = 0, sv_p99 = 0\<rparr>
      else let s = sort vals
           in \<lparr>sv_avg = sum_list s / real (length s), sv_min = hd s, sv_max = last s,
               sv_p50 = percentile s (1 / 2), sv_p99 = percentile s (99 / 100)\<rparr>)"

section \<open>Flush\<close>

definition flush_field :: "string \<times> real list \<Rightarrow> data_record \<Rightarrow> data_record" where
  "flush_field fv r =
     (let (name, values) = fv
      in if values = [] then r
         else let s = compute_stats values;
                  r = set_field (name @ ''_avg'') (FDouble (sv_avg s)) r;
                  r = set_field (name @ ''_min'') (FDouble (sv_min s)) r;
                  r = set_field (name @ ''_max'') (FDouble (sv_max s)) r;
                  r = (if 4 \<le> length values
                       then set_field (name @ ''_p99'') (FDouble (sv_p99 s))
                              (set_field (name @ ''_p50'') (FDouble (sv_p50 s)) r)
                       else r)
              in set_field (name @ ''_count'') (FUint (of_nat (length values))) r)"

definition flush_series :: "u64 \<Rightarrow> record_series \<Rightarrow> data_record" where
  "flush_series now series =
     fold flush_field (rs_field_values series)
       \<lparr>rc_timestamp = now, rc_labels = rs_labels series, rc_fields = []\<rparr>"

definition flush_stack :: "u64 \<Rightarrow> agg_stack \<Rightarrow> stack_sample" where
  "flush_stack now a =
     (default_sample now)\<lparr>ss_pid := as_pid a, ss_tid := as_tid a, ss_comm := as_comm a,
       ss_count := as_count a, ss_user_stack := as_user_stack a, ss_kernel_stack := as_kernel_stack a\<rparr>"

text \<open>The clock is read once for every record and sample of the output, in turn.\<close>

definition aggregator_flush :: "(nat \<Rightarrow> u64) \<Rightarrow> aggregator \<Rightarrow> aggregator \<times> data_batch list" where
  "aggregator_flush clock ag =
     (let recs = map (\<lambda>(i, _, s). flush_series (clock i) s) (enumerate 0 (ag_record_buffer ag));
          samples = map (\<lambda>(i, _, a). flush_stack (clock i) a)
                      (enumerate (length (ag_record_buffer ag)) (ag_stack_buffer ag))
      in (ag\<lparr>ag_record_buffer := [], ag_stack_buffer := []\<rparr>,
          (if ag_record_buffer ag = [] then [] else [(new_batch Metrics)\<lparr>db_records := recs\<rparr>]) @
          (if ag_stack_buffer ag = [] then [] else [(new_batch Profile)\<lparr>db_samples := samples\<rparr>])))"

section \<open>Percentiles\<close>

lemma index_bounds:
  fixes pct :: real
  assumes "xs \<noteq> []" "0 \<le> pct" "pct \<le> 1"
  defines "idx \<equiv> pct * real (length xs - 1)"
  shows "0 \<le> idx" "nat \<lfloor>idx\<rfloor> \<le> nat \<lceil>idx\<rceil>" "nat \<lceil>idx\<rceil> < length xs" "real (nat \<lfloor>idx\<rfloor>) \<le> idx"
    "idx \<le> real (nat \<lceil>idx\<rceil>)" "idx < real (nat \<lfloor>idx\<rfloor>) + 1"
proof -
  show nonneg: "0 \<le> idx" using assms by simp
  have "idx \<le> 1 * real (length xs - 1)" unfolding idx_def by (intro mult_right_mono) (use assms in auto)
  then have "\<lceil>idx\<rceil> \<le> int (length xs - 1)" by (simp add: ceiling_le_iff)
  then show "nat \<lceil>idx\<rceil> < length xs" using assms(1) by (cases xs) auto
  show "nat \<lfloor>idx\<rfloor> \<le> nat \<lceil>idx\<rceil>" by (intro nat_mono) (meson floor_le_ceiling)
  show "real (nat \<lfloor>idx\<rfloor>) \<le> idx" "idx < real (nat \<lfloor>idx\<rfloor>) + 1" using nonneg by simp_all
  show "idx \<le> real (nat \<lceil>idx\<rceil>)" by (rule real_nat_ceiling_ge)
qed

lemma interpolation_between:
  fixes a b f :: real
  assumes "a \<le> b" "0 \<le> f" "f \<le> 1"
  shows "a \<le> a * (1 - f) + b * f \<and> a * (1 - f) + b * f \<le> b"
proof -
  have "a * (1 - f) + b * f - a = f * (b - a)" "b - (a * (1 - f) + b * f) = (1 - f) * (b - a)"
    by (simp_all add: algebra_simps)
  then show ?thesis using assms by (metis diff_ge_0_iff_ge mult_nonneg_nonneg)
qed

lemma percentile_between:
  assumes "sorted xs" "xs \<noteq> []" "0 \<le> pct" "pct \<le> 1"
  defines "idx \<equiv> pct * real (length xs - 1)"
  shows "xs ! nat \<lfloor>idx\<rfloor> \<le> percentile xs pct" "percentile xs pct \<le> xs ! nat \<lceil>idx\<rceil>"
proof -
  note b = index_bounds [OF assms(2-4), folded idx_def]
  have le: "xs ! nat \<lfloor>idx\<rfloor> \<le> xs ! nat \<lceil>idx\<rceil>" using assms(1) b(2,3) by (rule sorted_nth_mono)
  define frac where "frac = idx - real (nat \<lfloor>idx\<rfloor>)"
  have f: "0 \<le> frac" "frac \<le> 1" using b(4,6) unfolding frac_def by linarith+
  have p: "percentile xs pct = (if nat \<lfloor>idx\<rfloor> = nat \<lceil>idx\<rceil> then xs ! nat \<lfloor>idx\<rfloor>
      else xs ! nat \<lfloor>idx\<rfloor> * (1 - frac) + xs ! nat \<lceil>idx\<rceil> * frac)"
    using b(3) assms(2) unfolding percentile_def Let_def idx_def [symmetric] frac_def not_le [symmetric]
    by (simp only: simp_thms if_False)
  show "xs ! nat \<lfloor>idx\<rfloor> \<le> percentile xs pct" "percentile xs pct \<le> xs ! nat \<lceil>idx\<rceil>"
    unfolding p using interpolation_between [OF le f] le by auto
qed

lemma percentile_mono:
  assumes "sorted xs" "xs \<noteq> []" "0 \<le> p" "p \<le> q" "q \<le> 1"
  shows "percentile xs p \<le> percentile xs q"
proof -
  let ?i = "p * real (length xs - 1)" and ?j = "q * real (length xs - 1)"
  have ij: "?i \<le> ?j" using assms(4) by (intro mult_right_mono) auto
  note bi = index_bounds [OF assms(2,3)] and bj = index_bounds [OF assms(2), of q]
  have pq: "p \<le> 1" "0 \<le> q" using assms by simp_all
  show ?thesis
  proof (cases "nat \<lceil>?i\<rceil> \<le> nat \<lfloor>?j\<rfloor>")
    case True
    have "nat \<lfloor>?j\<rfloor> < length xs"
      by (rule le_less_trans [OF bj(2) [OF pq(2) assms(5)] bj(3) [OF pq(2) assms(5)]])
    with assms(1) True have "xs ! nat \<lceil>?i\<rceil> \<le> xs ! nat \<lfloor>?j\<rfloor>"
      by (rule sorted_nth_mono)
    then show ?thesis
      using percentile_between(2) [OF assms(1,2,3) pq(1)] percentile_between(1) [OF assms(1,2) pq(2) assms(5)]
      by linarith
  next
    case False
    have fl: "\<lfloor>?i\<rfloor> \<le> \<lfloor>?j\<rfloor>" "\<lceil>?i\<rceil> \<le> \<lceil>?j\<rceil>" using ij by (auto intro: floor_mono ceiling_mono)
    have "\<lfloor>?j\<rfloor> < \<lceil>?i\<rceil>" using False by (metis nat_mono not_le)
    moreover have "\<lceil>?i\<rceil> \<le> \<lfloor>?i\<rfloor> + 1" "\<lceil>?j\<rceil> \<le> \<lfloor>?j\<rfloor> + 1" by linarith+
    ultimately have e: "\<lfloor>?i\<rfloor> = \<lfloor>?j\<rfloor>" "\<lceil>?i\<rceil> = \<lceil>?j\<rceil>" using fl by linarith+
    let ?lo = "nat \<lfloor>?j\<rfloor>" and ?hi = "nat \<lceil>?j\<rceil>"
    have le: "xs ! ?lo \<le> xs ! ?hi"
      using assms(1) bj(2,3) [OF pq(2) assms(5)] by (rule sorted_nth_mono)
    have "(?i - real ?lo) * (xs ! ?hi - xs ! ?lo) \<le> (?j - real ?lo) * (xs ! ?hi - xs ! ?lo)"
      using ij le by (intro mult_right_mono) auto
    then show ?thesis
      using assms(2) bj(3) [OF pq(2) assms(5)] e
      by (simp add: percentile_def Let_def not_le algebra_simps)
  qed
qed

lemma sorted_hd_last:
  "sorted xs \<Longrightarrow> xs \<noteq> [] \<Longrightarrow> i < length xs \<Longrightarrow> hd xs \<le> xs ! i \<and> xs ! i \<le> last xs"
  by (metis diff_less hd_conv_nth last_conv_nth le0 length_greater_0_conv less_Suc_eq_le less_one
      Suc_diff_1 sorted_nth_mono)

section \<open>Keys separate what they should\<close>

lemma address_text_inject:
  "address_text xs @ ''|'' @ r = address_text ys @ ''|'' @ r' \<Longrightarrow>
   map sf_address xs = map sf_address ys \<and> r = r'"
proof (induction xs arbitrary: ys)
  case Nil
  show ?case
  proof (cases ys)
    case (Cons y ys')
    obtain c cs where "show_nat (unat (sf_address y)) = c # cs" "is_digit c" by (rule show_nat_hd)
    with Nil.prems Cons show ?thesis using not_digit_literals by (auto simp: address_text_def)
  qed (use Nil.prems in \<open>simp add: address_text_def\<close>)
next
  case (Cons x xs)
  show ?case
  proof (cases ys)
    case Nil
    obtain c cs where "show_nat (unat (sf_address x)) = c # cs" "is_digit c" by (rule show_nat_hd)
    with Cons.prems Nil show ?thesis using not_digit_literals by (auto simp: address_text_def)
  next
    case (Cons y ys')
    have "show_nat (unat (sf_address x)) @ '','' @ address_text xs @ ''|'' @ r =
        show_nat (unat (sf_address y)) @ '','' @ address_text ys' @ ''|'' @ r'"
      using Cons.prems Cons by (simp add: address_text_def)
    from show_nat_sep_inject [OF this] have "unat (sf_address x) = unat (sf_address y)"
      "address_text xs @ ''|'' @ r = address_text ys' @ ''|'' @ r'"
      by simp_all
    with Cons.IH Cons show ?thesis by (simp add: word_eq_iff_unsigned [where 'a = nat])
  qed
qed

lemma address_text_inject_end:
  "address_text xs = address_text ys \<longleftrightarrow> map sf_address xs = map sf_address ys"
proof
  assume "address_text xs = address_text ys"
  then show "map sf_address xs = map sf_address ys"
    using address_text_inject [of xs "[]" ys "[]"] by simp
next
  assume "map sf_address xs = map sf_address ys"
  then have "map (\<lambda>a. show_nat (unat a) @ '','') (map sf_address xs) =
      map (\<lambda>a. show_nat (unat a) @ '','') (map sf_address ys)" by simp
  then show "address_text xs = address_text ys" by (simp add: address_text_def comp_def)
qed

text \<open>What a stack sample is counted under.\<close>

definition sample_identity :: "stack_sample \<Rightarrow> u32 \<times> u32 \<times> u64 list \<times> u64 list" where
  "sample_identity s =
     (ss_pid s, ss_tid s, map sf_address (ss_user_stack s), map sf_address (ss_kernel_stack s))"

lemma make_stack_key_identity:
  "make_stack_key s = make_stack_key t \<longleftrightarrow> sample_identity s = sample_identity t"
proof
  assume e: "make_stack_key s = make_stack_key t"
  have p: "unat (ss_pid s) = unat (ss_pid t)" and
    r: "show_nat (unat (ss_tid s)) @ '':'' @ address_text (ss_user_stack s) @ ''|'' @ address_text (ss_kernel_stack s) =
        show_nat (unat (ss_tid t)) @ '':'' @ address_text (ss_user_stack t) @ ''|'' @ address_text (ss_kernel_stack t)"
    using show_nat_sep_inject [OF e [unfolded make_stack_key_def]] by simp_all
  have t: "unat (ss_tid s) = unat (ss_tid t)" and
    a: "address_text (ss_user_stack s) @ ''|'' @ address_text (ss_kernel_stack s) =
        address_text (ss_user_stack t) @ ''|'' @ address_text (ss_kernel_stack t)"
    using show_nat_sep_inject [OF r] by simp_all
  from address_text_inject [OF a] p t show "sample_identity s = sample_identity t"
    by (simp add: sample_identity_def address_text_inject_end word_eq_iff_unsigned [where 'a = nat])
next
  assume "sample_identity s = sample_identity t"
  then have "address_text (ss_user_stack s) = address_text (ss_user_stack t)"
    "address_text (ss_kernel_stack s) = address_text (ss_kernel_stack t)" "ss_pid s = ss_pid t" "ss_tid s = ss_tid t"
    by (simp_all add: sample_identity_def address_text_inject_end)
  then show "make_stack_key s = make_stack_key t" by (simp add: make_stack_key_def)
qed

section \<open>The stack buffer\<close>

definition count_of :: "(stack_sample \<Rightarrow> bool) \<Rightarrow> stack_sample list \<Rightarrow> u64" where
  "count_of P xs = sum_list (map ss_count (filter P xs))"

lemma count_of_append [simp]: "count_of P (xs @ ys) = count_of P xs + count_of P ys"
  by (simp add: count_of_def)

lemma count_of_single [simp]: "count_of P [s] = (if P s then ss_count s else 0)"
  by (simp add: count_of_def)

text \<open>The buffer after the samples \<open>xs\<close>: one entry per identity, with the sum of its counts.\<close>

definition stacks_ok :: "stack_sample list \<Rightarrow> (string \<times> agg_stack) list \<Rightarrow> bool" where
  "stacks_ok xs buf \<longleftrightarrow> distinct (map fst buf) \<and>
     (\<forall>s \<in> set xs. map_of buf (make_stack_key s) \<noteq> None) \<and>
     (\<forall>k a. map_of buf k = Some a \<longrightarrow> k \<in> make_stack_key ` set xs \<and>
        k = make_stack_key (flush_stack 0 a) \<and> as_count a = count_of (\<lambda>s. make_stack_key s = k) xs)"

lemma add_to_stack_ok:
  assumes "stacks_ok xs buf"
  shows "stacks_ok (xs @ [s]) (add_to_stack s buf)"
proof -
  define k where "k = make_stack_key s"
  define agg where "agg = (case map_of buf k of None \<Rightarrow> default_agg_stack | Some a \<Rightarrow> a)"
  define agg' where "agg' = agg\<lparr>as_pid := ss_pid s, as_tid := ss_tid s, as_comm := ss_comm s,
                as_count := as_count agg + ss_count s,
                as_user_stack := if as_user_stack agg = [] then ss_user_stack s else as_user_stack agg,
                as_kernel_stack :=
                  if as_kernel_stack agg = [] then ss_kernel_stack s else as_kernel_stack agg\<rparr>"
  have e: "add_to_stack s buf = AList.update k agg' buf"
    by (simp add: add_to_stack_def k_def agg_def agg'_def Let_def)
  have "sample_identity (flush_stack 0 agg') = sample_identity s \<and>
      as_count agg' = count_of (\<lambda>s. make_stack_key s = k) xs + ss_count s"
  proof (cases "map_of buf k")
    case None
    then have "\<forall>t \<in> set xs. make_stack_key t \<noteq> k" using assms by (metis stacks_ok_def)
    then have "filter (\<lambda>s. make_stack_key s = k) xs = []" by (simp add: filter_empty_conv)
    with None show ?thesis
      by (simp add: agg'_def agg_def default_agg_stack_def sample_identity_def flush_stack_def count_of_def)
  next
    case (Some a)
    then have a: "k = make_stack_key (flush_stack 0 a)" "as_count a = count_of (\<lambda>s. make_stack_key s = k) xs"
      "agg = a" using assms by (auto simp: stacks_ok_def agg_def)
    then have "sample_identity (flush_stack 0 a) = sample_identity s"
      using make_stack_key_identity k_def by metis
    then show ?thesis using a(2,3)
      by (auto simp: agg'_def sample_identity_def flush_stack_def)
  qed
  then have new: "k = make_stack_key (flush_stack 0 agg')"
    "as_count agg' = count_of (\<lambda>s. make_stack_key s = k) (xs @ [s])"
    using make_stack_key_identity k_def by auto
  have "map_of (add_to_stack s buf) = (map_of buf)(k \<mapsto> agg')" by (simp add: e update_conv')
  moreover have "distinct (map fst (add_to_stack s buf))"
    using assms by (simp add: e stacks_ok_def distinct_update)
  ultimately show ?thesis
    using assms new unfolding stacks_ok_def k_def [symmetric]
    by (auto simp: k_def split: if_splits)
qed

lemma fold_add_to_stack_ok:
  "stacks_ok xs buf \<Longrightarrow> stacks_ok (xs @ ss) (fold add_to_stack ss buf)"
  using add_to_stack_ok by (induction ss arbitrary: xs buf) (simp, fastforce)

section \<open>The record buffer\<close>

definition series_values :: "string \<Rightarrow> string \<Rightarrow> (string \<times> record_series) list \<Rightarrow> real list" where
  "series_values k f buf =
     (case map_of buf k of None \<Rightarrow> []
      | Some s \<Rightarrow> (case map_of (rs_field_values s) f of None \<Rightarrow> [] | Some xs \<Rightarrow> xs))"

definition field_numbers :: "string \<Rightarrow> data_record \<Rightarrow> real list" where
  "field_numbers f r = List.map_filter (\<lambda>(g, v). if g = f then numeric_value v else None) (rc_fields r)"

lemma fold_push_field:
  "(case map_of (fold push_field fs fvs) f of None \<Rightarrow> [] | Some xs \<Rightarrow> xs) =
   (case map_of fvs f of None \<Rightarrow> [] | Some xs \<Rightarrow> xs) @
     List.map_filter (\<lambda>(g, v). if g = f then numeric_value v else None) fs"
proof (induction fs arbitrary: fvs)
  case (Cons gv fs)
  obtain g v where gv: "gv = (g, v)" by (cases gv)
  have "(case map_of (push_field gv fvs) f of None \<Rightarrow> [] | Some xs \<Rightarrow> xs) =
      (case map_of fvs f of None \<Rightarrow> [] | Some xs \<Rightarrow> xs) @
        (if g = f then (case numeric_value v of None \<Rightarrow> [] | Some x \<Rightarrow> [x]) else [])"
    by (simp add: gv push_field_def update_conv' split: option.splits)
  then show ?case using Cons by (simp add: gv List.map_filter_simps split: option.splits)
qed (simp add: List.map_filter_simps)

lemma add_to_series_values:
  "series_values k f (add_to_series r buf) =
     series_values k f buf @ (if make_record_key r = k then field_numbers f r else [])"
proof -
  have "(case map_of (fold push_field (rc_fields r) fvs) f of None \<Rightarrow> [] | Some xs \<Rightarrow> xs) =
      (case map_of fvs f of None \<Rightarrow> [] | Some xs \<Rightarrow> xs) @ field_numbers f r" for fvs
    by (simp add: fold_push_field field_numbers_def)
  then show ?thesis
    by (auto simp: series_values_def add_to_series_def Let_def update_conv' split: option.splits)
qed

lemma fold_series_values:
  "series_values k f (fold add_to_series rs buf) =
     series_values k f buf @ concat (map (field_numbers f) (filter (\<lambda>r. make_record_key r = k) rs))"
  by (induction rs arbitrary: buf) (simp_all add: add_to_series_values)

text \<open>The fields of the output: the suffixes keep the statistics of one field apart.\<close>

lemma suffix_neq:
  fixes g f :: string
  shows "last a \<noteq> last b \<Longrightarrow> a \<noteq> [] \<Longrightarrow> b \<noteq> [] \<Longrightarrow> g @ a \<noteq> f @ b"
  by (metis last_appendR)

lemma flush_field_other:
  "g \<noteq> f \<Longrightarrow> get_field (f @ ''_count'') (flush_field (g, ys) r) = get_field (f @ ''_count'') r"
  "g \<noteq> f \<Longrightarrow> get_field (f @ ''_avg'') (flush_field (g, ys) r) = get_field (f @ ''_avg'') r"
  by (simp_all add: flush_field_def Let_def suffix_neq)

lemma flush_field_same:
  "ys \<noteq> [] \<Longrightarrow> get_field (f @ ''_count'') (flush_field (f, ys) r) = Some (FUint (of_nat (length ys)))"
  "ys \<noteq> [] \<Longrightarrow> get_field (f @ ''_avg'') (flush_field (f, ys) r) = Some (FDouble (sv_avg (compute_stats ys)))"
  by (simp_all add: flush_field_def Let_def suffix_neq)

lemma fold_flush_field_other:
  "f \<notin> fst ` set fvs \<Longrightarrow>
   get_field (f @ ''_count'') (fold flush_field fvs r) = get_field (f @ ''_count'') r \<and>
   get_field (f @ ''_avg'') (fold flush_field fvs r) = get_field (f @ ''_avg'') r"
proof (induction fvs arbitrary: r)
  case (Cons gy fvs)
  then obtain g ys where "gy = (g, ys)" "g \<noteq> f" by (cases gy) auto
  with Cons show ?case by (simp add: flush_field_other)
qed simp

lemma fold_flush_field:
  "distinct (map fst fvs) \<Longrightarrow> map_of fvs f = Some ys \<Longrightarrow> ys \<noteq> [] \<Longrightarrow>
   get_field (f @ ''_count'') (fold flush_field fvs r) = Some (FUint (of_nat (length ys))) \<and>
   get_field (f @ ''_avg'') (fold flush_field fvs r) = Some (FDouble (sv_avg (compute_stats ys)))"
proof (induction fvs arbitrary: r)
  case (Cons gy fvs)
  obtain g zs where gy: "gy = (g, zs)" by (cases gy)
  show ?case
  proof (cases "g = f")
    case True
    then have "zs = ys" "f \<notin> fst ` set fvs" using Cons.prems gy by auto
    with True gy Cons.prems(3) show ?thesis by (simp add: fold_flush_field_other flush_field_same)
  next
    case False
    with Cons gy show ?thesis by simp
  qed
qed simp

definition series_ok :: "(string \<times> record_series) list \<Rightarrow> bool" where
  "series_ok buf \<longleftrightarrow> distinct (map fst buf) \<and>
     (\<forall>(k, s) \<in> set buf. distinct (map fst (rs_field_values s)))"

lemma distinct_push_fields:
  "distinct (map fst fvs) \<Longrightarrow> distinct (map fst (fold push_field fs fvs))"
  by (induction fs arbitrary: fvs) (auto simp: push_field_def distinct_update split: option.splits)

lemma add_to_series_ok:
  assumes "series_ok buf"
  shows "series_ok (add_to_series r buf)"
proof -
  let ?k = "make_record_key r"
  define fvs where "fvs = (case map_of buf ?k of None \<Rightarrow> [] | Some s \<Rightarrow> rs_field_values s)"
  have "distinct (map fst fvs)"
    using assms by (auto simp: fvs_def series_ok_def split: option.splits dest: map_of_SomeD)
  then have d: "distinct (map fst (fold push_field (rc_fields r) fvs))" by (rule distinct_push_fields)
  let ?s = "\<lparr>rs_labels = rc_labels r, rs_field_values = fold push_field (rc_fields r) fvs\<rparr>"
  have u: "add_to_series r buf = AList.update ?k ?s buf"
    by (simp add: add_to_series_def fvs_def Let_def)
  have dk: "distinct (map fst (add_to_series r buf))"
    using assms by (simp add: u series_ok_def distinct_update)
  have "distinct (map fst (rs_field_values s))" if "(k, s) \<in> set (add_to_series r buf)" for k s
  proof -
    have "map_of (add_to_series r buf) k = Some s" using dk that by simp
    then show ?thesis
      using assms d by (auto simp: u update_conv' series_ok_def split: if_splits dest: map_of_SomeD)
  qed
  with dk show ?thesis unfolding series_ok_def by blast
qed

lemma fold_add_to_series_ok: "series_ok buf \<Longrightarrow> series_ok (fold add_to_series rs buf)"
  by (induction rs arbitrary: buf) (simp_all add: add_to_series_ok)

text \<open>The buffers after a list of batches.\<close>

lemma aggregator_add_all:
  "ag_record_buffer (fold (\<lambda>b. aggregator_add (Some b)) bs ag) =
     fold add_to_series (concat (map db_records bs)) (ag_record_buffer ag)"
  "ag_stack_buffer (fold (\<lambda>b. aggregator_add (Some b)) bs ag) =
     fold add_to_stack (concat (map db_samples bs)) (ag_stack_buffer ag)"
  by (induction bs arbitrary: ag) (simp_all add: aggregator_add_def)

lemma flush_samples:
  "concat (map db_samples (snd (aggregator_flush clock ag))) =
     map (\<lambda>(i, _, a). flush_stack (clock i) a)
       (enumerate (length (ag_record_buffer ag)) (ag_stack_buffer ag))"
  by (simp add: aggregator_flush_def Let_def new_batch_def)

lemma flush_records:
  "concat (map db_records (snd (aggregator_flush clock ag))) =
     map (\<lambda>(i, _, s). flush_series (clock i) s) (enumerate 0 (ag_record_buffer ag))"
  by (simp add: aggregator_flush_def Let_def new_batch_def)

lemma flush_stack_key: "make_stack_key (flush_stack now a) = make_stack_key (flush_stack 0 a)"
  by (simp add: make_stack_key_def flush_stack_def default_sample_def)

section \<open>Properties\<close>

text \<open>
  The statistics of a field are what they are called: minimum and maximum of the values, an average
  and percentiles between them with p50 below p99, and they do not depend on the order of arrival.
\<close>

theorem agg_stats_bounds:
  assumes "vals \<noteq> []"
  shows "sv_min (compute_stats vals) = Min (set vals) \<and> sv_max (compute_stats vals) = Max (set vals) \<and>
    sv_avg (compute_stats vals) = sum_list vals / real (length vals) \<and>
    sv_min (compute_stats vals) \<le> sv_avg (compute_stats vals) \<and>
    sv_avg (compute_stats vals) \<le> sv_max (compute_stats vals) \<and>
    sv_min (compute_stats vals) \<le> sv_p50 (compute_stats vals) \<and>
    sv_p50 (compute_stats vals) \<le> sv_p99 (compute_stats vals) \<and>
    sv_p99 (compute_stats vals) \<le> sv_max (compute_stats vals) \<and>
    (\<forall>ws. mset ws = mset vals \<longrightarrow> compute_stats ws = compute_stats vals)"
proof -
  define s where "s = sort vals"
  have s: "sorted s" "s \<noteq> []" "set s = set vals" "length s = length vals" "mset s = mset vals"
    using assms by (simp_all add: s_def) (metis set_empty set_sort)
  have c: "compute_stats vals = \<lparr>sv_avg = sum_list s / real (length s), sv_min = hd s, sv_max = last s,
      sv_p50 = percentile s (1 / 2), sv_p99 = percentile s (99 / 100)\<rparr>"
    using assms by (simp add: compute_stats_def s_def Let_def)
  have b: "hd s \<le> x \<and> x \<le> last s" if "x \<in> set s" for x
    using sorted_hd_last [OF s(1,2)] that by (metis in_set_conv_nth)
  have mn: "Min (set vals) = hd s" "Max (set vals) = last s"
    using b s(2) by (auto simp: s(3) [symmetric] intro!: Min_eqI Max_eqI)
  have sum: "sum_list s = sum_list vals" using s(5) by (metis sum_mset_sum_list)
  have "real (length s) * hd s \<le> sum_list s \<and> sum_list s \<le> real (length s) * last s"
    using sum_list_mono [of s "\<lambda>_. hd s" "\<lambda>x. x"] sum_list_mono [of s "\<lambda>x. x" "\<lambda>_. last s"] b
    by (simp add: sum_list_triv)
  moreover have "0 < real (length s)" using s(2) by simp
  ultimately have avg: "hd s \<le> sum_list s / real (length s)" "sum_list s / real (length s) \<le> last s"
    by (simp_all add: field_simps)
  have pct: "hd s \<le> percentile s p \<and> percentile s p \<le> last s" if "0 \<le> p" "p \<le> 1" for p
  proof -
    note i = index_bounds [OF s(2) that]
    show ?thesis
      using percentile_between [OF s(1,2) that] sorted_hd_last [OF s(1,2) i(3)]
        sorted_hd_last [OF s(1,2) le_less_trans [OF i(2,3)]]
      by linarith
  qed
  have "compute_stats ws = compute_stats vals" if "mset ws = mset vals" for ws
  proof -
    have "sort ws = sort vals" using that by (metis properties_for_sort mset_sort sorted_sort)
    moreover have "ws = [] \<longleftrightarrow> vals = []" using that by auto
    ultimately show ?thesis by (simp add: compute_stats_def)
  qed
  with avg pct [of "1/2"] pct [of "99/100"] percentile_mono [OF s(1,2), of "1/2" "99/100"] mn sum s(4)
  show ?thesis by (simp add: c)
qed

theorem agg_stats_bounds_witness:
  "sv_max (compute_stats [3, 1, 2]) = 3 \<and> compute_stats [1, 2, 3] = compute_stats [3, 1, 2]"
proof -
  have ne: "[3, 1, 2 :: real] \<noteq> []" and m: "mset [1, 2, 3] = mset [3, 1, 2 :: real]" by simp_all
  note r = agg_stats_bounds [OF ne]
  from r m have "compute_stats [1, 2, 3] = compute_stats [3, 1, 2]" by blast
  moreover from r have "sv_max (compute_stats [3, 1, 2]) = Max (set [3, 1, 2])" by blast
  then have "sv_max (compute_stats [3, 1, 2]) = 3" by simp
  ultimately show ?thesis by blast
qed

text \<open>The samples of a flush, given a buffer that has one entry for each merge key of the input.\<close>

lemma stacks_flushed:
  fixes clock :: "nat \<Rightarrow> u64"
  assumes ok: "stacks_ok ins buf" and out: "out = map (\<lambda>(i, _, a). flush_stack (clock i) a) (enumerate n buf)"
  shows "map make_stack_key out = map fst buf"
    and "s \<in> set out \<Longrightarrow> ss_count s = count_of (\<lambda>t. make_stack_key t = make_stack_key s) ins \<and>
      ss_sample_type s = OnCpu \<and> ss_duration_ns s = 0"
proof -
  have keys: "make_stack_key (flush_stack t a) = k \<and> as_count a = count_of (\<lambda>s. make_stack_key s = k) ins"
    if "(k, a) \<in> set buf" for k a t
    using ok that flush_stack_key [of t] by (simp add: stacks_ok_def)
  have "make_stack_key (flush_stack t (snd (buf ! i))) = fst (buf ! i)" if "i < length buf" for t i
    using keys [of "fst (buf ! i)" "snd (buf ! i)"] that by simp
  then show "map make_stack_key out = map fst buf"
    unfolding out by (intro nth_equalityI [where 'a = string]) (simp_all add: nth_enumerate_eq split_beta)
  assume "s \<in> set out"
  then obtain i where i: "i < length buf" "s = flush_stack (clock (n + i)) (snd (buf ! i))"
    unfolding out by (auto simp: in_set_conv_nth nth_enumerate_eq split_beta)
  then have m: "(fst (buf ! i), snd (buf ! i)) \<in> set buf" by simp
  have k: "make_stack_key s = fst (buf ! i)" unfolding i(2) using keys [OF m] by blast
  have "as_count (snd (buf ! i)) = count_of (\<lambda>t. make_stack_key t = make_stack_key s) ins"
    unfolding k using keys [OF m] by blast
  moreover have "ss_count s = as_count (snd (buf ! i))" "ss_sample_type s = OnCpu" "ss_duration_ns s = 0"
    unfolding i(2) by (simp_all add: flush_stack_def default_sample_def)
  ultimately show "ss_count s = count_of (\<lambda>t. make_stack_key t = make_stack_key s) ins \<and>
      ss_sample_type s = OnCpu \<and> ss_duration_ns s = 0" by simp
qed

lemma stacks_ok_keys: "stacks_ok ins buf \<Longrightarrow> fst ` set buf = make_stack_key ` set ins"
proof (intro equalityI subsetI)
  fix k assume ok: "stacks_ok ins buf" and "k \<in> fst ` set buf"
  then obtain a where "(k, a) \<in> set buf" by auto
  with ok show "k \<in> make_stack_key ` set ins" by (auto simp: stacks_ok_def)
next
  fix k assume "stacks_ok ins buf" "k \<in> make_stack_key ` set ins"
  then have "map_of buf k \<noteq> None" unfolding stacks_ok_def by blast
  then show "k \<in> fst ` set buf" by (simp only: map_of_eq_None_iff not_not)
qed

text \<open>The merge key tells samples apart exactly as their identity does.\<close>

lemma same_keys_same_identities:
  assumes "make_stack_key ` A = make_stack_key ` B"
  shows "sample_identity ` A = sample_identity ` B"
proof -
  have "sample_identity x \<in> sample_identity ` B" if "make_stack_key ` A = make_stack_key ` B" "x \<in> A" for A B x
  proof -
    from that have "make_stack_key x \<in> make_stack_key ` B" by blast
    then obtain y where "y \<in> B" "make_stack_key x = make_stack_key y" by blast
    then show ?thesis using make_stack_key_identity [of x y] by simp
  qed
  with assms show ?thesis by (intro equalityI image_subsetI) simp_all
qed

text \<open>
  C17: stacks are neither lost nor mixed up. After any batches, the samples a flush puts out have one entry
  per distinct process, thread, user stack and kernel stack that came in, with the sum (modulo
  \<open>2 ^ 64\<close>) of the counts of the samples that share it. Every one is marked on-CPU with duration zero,
  whatever came in.
\<close>

theorem agg_stacks_summed:
  fixes bs :: "data_batch list" and clock :: "nat \<Rightarrow> u64"
  defines "ins \<equiv> concat (map db_samples bs)"
    and "out \<equiv> concat (map db_samples (snd (aggregator_flush clock
                (fold (\<lambda>b. aggregator_add (Some b)) bs aggregator_new))))"
  shows "distinct (map sample_identity out) \<and>
    set (map sample_identity out) = set (map sample_identity ins) \<and>
    (\<forall>s \<in> set out. ss_count s = sum_list (map ss_count (filter (\<lambda>t. sample_identity t = sample_identity s) ins)) \<and>
       ss_sample_type s = OnCpu \<and> ss_duration_ns s = 0)"
proof -
  let ?ag = "fold (\<lambda>b. aggregator_add (Some b)) bs aggregator_new"
  let ?n = "length (ag_record_buffer ?ag)" and ?buf = "ag_stack_buffer ?ag"
  have "stacks_ok [] []" by (simp add: stacks_ok_def)
  from fold_add_to_stack_ok [OF this, of ins] have "stacks_ok ins (fold add_to_stack ins [])"
    by (simp only: append_Nil)
  moreover have "?buf = fold add_to_stack ins []"
    unfolding aggregator_add_all(2) ins_def by (simp add: aggregator_new_def)
  ultimately have ok: "stacks_ok ins ?buf" by (simp only:)
  have out: "out = map (\<lambda>(i, _, a). flush_stack (clock i) a) (enumerate ?n ?buf)"
    unfolding out_def by (rule flush_samples)
  note flushed = stacks_flushed [OF ok out]
  have "distinct (map make_stack_key out)" unfolding flushed(1) using ok by (simp add: stacks_ok_def)
  then have "distinct (map sample_identity out)"
    by (auto simp: distinct_map inj_on_def make_stack_key_identity)
  moreover have "make_stack_key ` set out = make_stack_key ` set ins"
    unfolding stacks_ok_keys [OF ok, symmetric] using flushed(1) by (metis set_map)
  then have "set (map sample_identity out) = set (map sample_identity ins)"
    unfolding set_map by (rule same_keys_same_identities)
  moreover have "ss_count s = sum_list (map ss_count (filter (\<lambda>t. sample_identity t = sample_identity s) ins)) \<and>
      ss_sample_type s = OnCpu \<and> ss_duration_ns s = 0" if "s \<in> set out" for s
    using flushed(2) [OF that] unfolding make_stack_key_identity count_of_def .
  ultimately show ?thesis by blast
qed

definition demo_sample :: "u64 \<Rightarrow> stack_sample" where
  "demo_sample n = (default_sample 0)\<lparr>ss_pid := 7, ss_count := n, ss_sample_type := OffCpu\<rparr>"

theorem agg_stacks_summed_witness:
  "\<exists>s. concat (map db_samples (snd (aggregator_flush (\<lambda>_. 0)
       (fold (\<lambda>b. aggregator_add (Some b))
         [(new_batch Profile)\<lparr>db_samples := [demo_sample 2]\<rparr>, (new_batch Profile)\<lparr>db_samples := [demo_sample 3]\<rparr>]
         aggregator_new)))) = [s] \<and> ss_count s = 5 \<and> ss_sample_type s = OnCpu"
proof -
  let ?bs = "[(new_batch Profile)\<lparr>db_samples := [demo_sample 2]\<rparr>, (new_batch Profile)\<lparr>db_samples := [demo_sample 3]\<rparr>]"
  let ?out = "concat (map db_samples (snd (aggregator_flush (\<lambda>_. 0)
       (fold (\<lambda>b. aggregator_add (Some b)) ?bs aggregator_new))))"
  let ?id = "(7 :: u32, 0 :: u32, [] :: u64 list, [] :: u64 list)"
  have ins: "concat (map db_samples ?bs) = [demo_sample 2, demo_sample 3]" by simp
  have ids: "sample_identity (demo_sample n) = ?id" for n
    by (simp add: sample_identity_def demo_sample_def default_sample_def)
  obtain out where o: "out = ?out" by blast
  note r = agg_stacks_summed [where clock = "\<lambda>_. 0" and bs = ?bs, unfolded ins, folded o]
  have st: "set (map sample_identity out) = {?id}" and d: "distinct (map sample_identity out)"
    using r by (simp_all add: ids)
  have "length out = card (set (map sample_identity out))" using distinct_card [OF d] by simp
  then have "length out = 1" unfolding st by simp
  then obtain s where s: "out = [s]" by (cases out) auto
  then have i: "sample_identity s = ?id" using st by simp
  have "ss_count s = sum_list (map ss_count (filter (\<lambda>t. sample_identity t = sample_identity s)
      [demo_sample 2, demo_sample 3])) \<and> ss_sample_type s = OnCpu \<and> ss_duration_ns s = 0"
    using r unfolding s by simp
  then have "ss_count s = 5 \<and> ss_sample_type s = OnCpu"
    by (simp add: i ids) (simp add: demo_sample_def)
  with s show ?thesis unfolding o [symmetric] by blast
qed


definition demo_record :: "real \<Rightarrow> data_record" where
  "demo_record x = set_field ''usage'' (FDouble x)
     \<lparr>rc_timestamp = 0, rc_labels = [(''cpu'', ''0'')], rc_fields = []\<rparr>"


end
