(* ===== verification/Processors.thy ===== *)
theory Processors
  imports DataBatch Config Pipeline
begin

text \<open>
  The processors of \<open>src/processors/\<close> that need no symbol tables: \<open>passthrough\<close>, \<open>filter\<close> and
  \<open>stack_merger\<close>. \<open>None\<close> around a result is the undefined access through a null batch.
\<close>

section \<open>passthrough and filter\<close>

definition passthrough_process :: "data_batch option \<Rightarrow> data_batch option status_or" where
  "passthrough_process input = Value input"

record filter_processor =
  fp_exclude_key :: string
  fp_exclude_value :: string

definition filter_init :: "config_value \<Rightarrow> filter_processor" where
  "filter_init config =
     \<lparr>fp_exclude_key = as_string (cv_child ''exclude_label_key'' config) [],
      fp_exclude_value = as_string (cv_child ''exclude_label_value'' config) []\<rparr>"

definition record_excluded :: "filter_processor \<Rightarrow> data_record \<Rightarrow> bool" where
  "record_excluded fp r \<longleftrightarrow>
     list_ex (\<lambda>l. fst l = fp_exclude_key fp \<and> snd l = fp_exclude_value fp) (rc_labels r)"

definition filter_process :: "filter_processor \<Rightarrow> data_batch option \<Rightarrow> data_batch option status_or option" where
  "filter_process fp input =
     (if fp_exclude_key fp = [] then Some (Value input)
      else case input of
             None \<Rightarrow> None
           | Some b \<Rightarrow>
               Some (Value (Some ((new_batch (db_type b))
                 \<lparr>db_records := filter (\<lambda>r. \<not> record_excluded fp r) (db_records b),
                  db_samples := db_samples b\<rparr>))))"

section \<open>stack_merger\<close>

datatype merge_group = ByComm | ByPid | ByTid | ByGlobal

record stack_merger =
  sm_group_by :: merge_group
  sm_include_kernel :: bool

definition merger_init :: "config_value \<Rightarrow> stack_merger" where
  "merger_init config =
     (let gb = as_string (cv_child ''group_by'' config) ''comm''
      in \<lparr>sm_group_by = (if gb = ''pid'' then ByPid else if gb = ''tid'' then ByTid
                         else if gb = ''global'' then ByGlobal else ByComm),
          sm_include_kernel = as_bool (cv_child ''include_kernel'' config) True\<rparr>)"

definition frame_text :: "string \<Rightarrow> stack_frame \<Rightarrow> string" where
  "frame_text kind f =
     (if sf_function_name f \<noteq> [] then sf_function_name f @ '';''
      else kind @ '':'' @ show_nat (unat (sf_address f)) @ '';'')"

definition stack_key :: "stack_merger \<Rightarrow> stack_sample \<Rightarrow> string" where
  "stack_key sm s =
     (case sm_group_by sm of
        ByComm \<Rightarrow> ss_comm s @ ''|''
      | ByPid \<Rightarrow> show_nat (unat (ss_pid s)) @ ''|''
      | ByTid \<Rightarrow> show_nat (unat (ss_pid s)) @ '':'' @ show_nat (unat (ss_tid s)) @ ''|''
      | ByGlobal \<Rightarrow> []) @
     (if sm_include_kernel sm then concat (map (frame_text ''k'') (ss_kernel_stack s)) @ ''|'' else []) @
     concat (map (frame_text ''u'') (ss_user_stack s))"

definition merge_sample ::
  "stack_merger \<Rightarrow> stack_sample \<Rightarrow> (string \<times> stack_sample) list \<Rightarrow> (string \<times> stack_sample) list" where
  "merge_sample sm src merged =
     (case map_of merged (stack_key sm src) of
        None \<Rightarrow> (stack_key sm src, src) # merged
      | Some t \<Rightarrow> AList.update (stack_key sm src) (t\<lparr>ss_count := ss_count t + ss_count src\<rparr>) merged)"

text \<open>
  The output samples are copies of the merged ones, field by field, with their strings interned in the
  new batch; the records are carried over.
\<close>

definition merger_process :: "stack_merger \<Rightarrow> data_batch option \<Rightarrow> data_batch option status_or" where
  "merger_process sm input =
     (case input of
        None \<Rightarrow> Value None
      | Some b \<Rightarrow>
          if db_samples b = [] then Value (Some b)
          else Value (Some ((new_batch (db_type b))
                 \<lparr>db_samples := map snd (fold (merge_sample sm) (db_samples b) []),
                  db_records := db_records b\<rparr>)))"

section \<open>Merging\<close>

definition first_with_key :: "stack_merger \<Rightarrow> string \<Rightarrow> stack_sample list \<Rightarrow> stack_sample \<Rightarrow> bool" where
  "first_with_key sm k xs t \<longleftrightarrow> (\<exists>us vs f. xs = us @ f # vs \<and> stack_key sm f = k \<and>
     (\<forall>u \<in> set us. stack_key sm u \<noteq> k) \<and> t = f\<lparr>ss_count := ss_count t\<rparr>)"

definition merged_ok :: "stack_merger \<Rightarrow> stack_sample list \<Rightarrow> (string \<times> stack_sample) list \<Rightarrow> bool" where
  "merged_ok sm xs merged \<longleftrightarrow> distinct (map fst merged) \<and> fst ` set merged = stack_key sm ` set xs \<and>
     (\<forall>(k, t) \<in> set merged. first_with_key sm k xs t \<and>
        ss_count t = sum_list (map ss_count (filter (\<lambda>s. stack_key sm s = k) xs)))"

lemma first_with_key_more: "first_with_key sm k xs t \<Longrightarrow> first_with_key sm k (xs @ [s]) t"
  unfolding first_with_key_def by (metis append.assoc append_Cons)

lemma first_with_key_count:
  "first_with_key sm k xs t \<Longrightarrow> first_with_key sm k xs (t\<lparr>ss_count := n\<rparr>)"
  unfolding first_with_key_def
  by (metis (no_types, lifting) stack_sample.select_convs(7) stack_sample.surjective
      stack_sample.update_convs(7))

lemma merge_sample_ok:
  assumes "merged_ok sm xs merged"
  shows "merged_ok sm (xs @ [s]) (merge_sample sm s merged)"
proof (cases "map_of merged (stack_key sm s)")
  case None
  then have new: "stack_key sm s \<notin> fst ` set merged" by (simp add: map_of_eq_None_iff)
  then have fresh: "\<forall>u \<in> set xs. stack_key sm u \<noteq> stack_key sm s"
    using assms by (auto simp: merged_ok_def) (metis imageI)
  then have f: "first_with_key sm (stack_key sm s) (xs @ [s]) s"
    unfolding first_with_key_def by (intro exI [of _ xs] exI [of _ "[]"] exI [of _ s]) simp
  have "filter (\<lambda>u. stack_key sm u = stack_key sm s) xs = []"
    using fresh by (simp add: filter_empty_conv)
  moreover have "k \<noteq> stack_key sm s" if "(k, t) \<in> set merged" for k t
    using new that by force
  ultimately show ?thesis
    using assms None new f first_with_key_more
    by (auto simp: merge_sample_def merged_ok_def)
next
  case (Some t)
  let ?k = "stack_key sm s" and ?t = "t\<lparr>ss_count := ss_count t + ss_count s\<rparr>"
  have m: "merge_sample sm s merged = AList.update ?k ?t merged" using Some by (simp add: merge_sample_def)
  have d: "distinct (map fst (AList.update ?k ?t merged))"
    using assms by (simp add: merged_ok_def distinct_update)
  have old: "first_with_key sm k xs u \<and> ss_count u = sum_list (map ss_count (filter (\<lambda>s. stack_key sm s = k) xs))"
    if "map_of merged k = Some u" for k u
    using assms that by (auto simp: merged_ok_def dest!: map_of_SomeD)
  have new: "first_with_key sm k (xs @ [s]) u \<and>
      ss_count u = sum_list (map ss_count (filter (\<lambda>s. stack_key sm s = k) (xs @ [s])))"
    if "(k, u) \<in> set (AList.update ?k ?t merged)" for k u
  proof -
    have u: "map_of (AList.update ?k ?t merged) k = Some u" using d that by simp
    show ?thesis
    proof (cases "k = ?k")
      case True
      then have "u = ?t" using u by (simp add: update_conv')
      then show ?thesis
        using old [OF Some] True first_with_key_more first_with_key_count by simp
    next
      case False
      then have "map_of merged k = Some u" using u by (simp add: update_conv')
      from old [OF this] False show ?thesis using first_with_key_more by simp
    qed
  qed
  have "?k \<in> fst ` set merged" using Some by (force dest: map_of_SomeD)
  then have "fst ` set (AList.update ?k ?t merged) = stack_key sm ` set (xs @ [s])"
    using assms by (simp add: merged_ok_def dom_update insert_absorb)
  with d new show ?thesis unfolding m merged_ok_def by blast
qed

lemma fold_merge_ok: "merged_ok sm xs merged \<Longrightarrow> merged_ok sm (xs @ ss) (fold (merge_sample sm) ss merged)"
  using merge_sample_ok by (induction ss arbitrary: xs merged) (simp, fastforce)

lemma stack_key_count [simp]: "stack_key sm (s\<lparr>ss_count := n\<rparr>) = stack_key sm s"
  by (simp add: stack_key_def split: merge_group.split)

lemma first_with_key_key: "first_with_key sm k xs t \<Longrightarrow> stack_key sm t = k"
  unfolding first_with_key_def by (metis stack_key_count)

definition total_count :: "stack_sample list \<Rightarrow> u64" where
  "total_count ss = sum_list (map ss_count ss)"

lemma total_count_simps [simp]:
  "total_count [] = 0"
  "total_count (s # ss) = ss_count s + total_count ss"
  "total_count (ss @ ss') = total_count ss + total_count ss'"
  by (simp_all add: total_count_def)

lemma total_count_update:
  assumes "map_of merged k = Some t"
  shows "total_count (map snd (AList.update k u merged)) + ss_count t =
    total_count (map snd merged) + ss_count u"
  using assms by (induction merged) (auto simp: algebra_simps)

lemma total_count_merge_sample:
  "total_count (map snd (merge_sample sm s merged)) = total_count (map snd merged) + ss_count s"
proof (cases "map_of merged (stack_key sm s)")
  case (Some t)
  from total_count_update [OF this, of "t\<lparr>ss_count := ss_count t + ss_count s\<rparr>"] Some
  show ?thesis by (simp add: merge_sample_def algebra_simps)
qed (simp add: merge_sample_def)

lemma total_count_merge:
  "total_count (map snd (fold (merge_sample sm) ss merged)) = total_count (map snd merged) + total_count ss"
  by (induction ss arbitrary: merged) (simp_all add: total_count_merge_sample algebra_simps)

text \<open>
  C19: merging keeps the profile. The output has one sample per merge key of the input, whose count is
  the sum (modulo \<open>2 ^ 64\<close>) of the counts of the samples with that key, and which has everything
  else, its duration and its sample type included, from the first of them; the total count, the
  records and the type of the batch are those of the input.
\<close>

theorem merger_merges_by_key:
  assumes "db_samples b \<noteq> []"
  shows "\<exists>out. merger_process sm (Some b) = Value (Some out) \<and>
    db_type out = db_type b \<and> db_records out = db_records b \<and>
    distinct (map (stack_key sm) (db_samples out)) \<and>
    set (map (stack_key sm) (db_samples out)) = set (map (stack_key sm) (db_samples b)) \<and>
    (\<forall>t \<in> set (db_samples out).
       first_with_key sm (stack_key sm t) (db_samples b) t \<and>
       ss_count t = total_count (filter (\<lambda>s. stack_key sm s = stack_key sm t) (db_samples b))) \<and>
    total_count (db_samples out) = total_count (db_samples b)"
proof -
  define merged where "merged = fold (merge_sample sm) (db_samples b) []"
  define out where "out = (new_batch (db_type b))\<lparr>db_samples := map snd merged, db_records := db_records b\<rparr>"
  have "merged_ok sm [] []" by (simp add: merged_ok_def)
  from fold_merge_ok [OF this, of "db_samples b"] have ok: "merged_ok sm (db_samples b) merged"
    by (simp add: merged_def)
  then have key: "stack_key sm t = k" if "(k, t) \<in> set merged" for k t
    using that first_with_key_key by (fastforce simp: merged_ok_def)
  then have keys: "map (stack_key sm) (map snd merged) = map fst merged" by auto
  have "first_with_key sm (stack_key sm t) (db_samples b) t \<and>
      ss_count t = total_count (filter (\<lambda>s. stack_key sm s = stack_key sm t) (db_samples b))"
    if "t \<in> set (map snd merged)" for t
    using that ok key by (fastforce simp: merged_ok_def total_count_def)
  moreover have "merger_process sm (Some b) = Value (Some out)"
    using assms by (simp add: merger_process_def out_def merged_def)
  moreover have "total_count (map snd merged) = total_count (db_samples b)"
    unfolding merged_def by (simp add: total_count_merge)
  moreover have "db_samples out = map snd merged" "db_type out = db_type b" "db_records out = db_records b"
    by (simp_all add: out_def new_batch_def)
  ultimately show ?thesis
    using ok by (intro exI [of _ out]) (simp only: keys merged_ok_def set_map, simp)
qed

lemma merger_merges_by_key_witness:
  defines "s1 \<equiv> (default_sample 5)\<lparr>ss_comm := ''a'', ss_count := 3, ss_duration_ns := 10\<rparr>"
    and "s2 \<equiv> (default_sample 6)\<lparr>ss_comm := ''a'', ss_count := 4, ss_duration_ns := 20\<rparr>"
  shows "\<exists>out. merger_process \<lparr>sm_group_by = ByComm, sm_include_kernel = True\<rparr>
      (Some ((new_batch Profile)\<lparr>db_samples := [s1, s2]\<rparr>)) = Value (Some out) \<and>
    total_count (db_samples out) = 7"
  using merger_merges_by_key [of "(new_batch Profile)\<lparr>db_samples := [s1, s2]\<rparr>"
      "\<lparr>sm_group_by = ByComm, sm_include_kernel = True\<rparr>"]
  by (simp add: s1_def s2_def) blast

section \<open>A chain of these processors\<close>

datatype builtin = Passthrough | Filter filter_processor | Merger stack_merger

text \<open>The chain hands out batches only, so the access of \<open>filter\<close> through a null batch does not arise.\<close>

definition builtin_process :: "builtin \<Rightarrow> data_batch option \<Rightarrow> builtin \<times> data_batch option status_or" where
  "builtin_process p input =
     (p, case p of
           Passthrough \<Rightarrow> passthrough_process input
         | Filter fp \<Rightarrow> (case filter_process fp input of None \<Rightarrow> Value None | Some r \<Rightarrow> r)
         | Merger sm \<Rightarrow> merger_process sm input)"

definition kept_by :: "builtin list \<Rightarrow> data_record \<Rightarrow> bool" where
  "kept_by ps r \<longleftrightarrow> (\<forall>p \<in> set ps. case p of
     Filter fp \<Rightarrow> fp_exclude_key fp = [] \<or> \<not> record_excluded fp r | _ \<Rightarrow> True)"

lemma builtin_process_batch:
  "\<exists>out. builtin_process p (Some b) = (p, Value (Some out)) \<and> db_type out = db_type b \<and>
     db_records out = filter (kept_by [p]) (db_records b) \<and>
     total_count (db_samples out) = total_count (db_samples b) \<and>
     (db_samples out = [] \<longleftrightarrow> db_samples b = [])"
proof (cases p)
  case Passthrough
  then show ?thesis by (simp add: builtin_process_def passthrough_process_def kept_by_def)
next
  case (Filter fp)
  moreover have "kept_by [Filter fp] = (\<lambda>r. fp_exclude_key fp = [] \<or> \<not> record_excluded fp r)"
    by (simp add: kept_by_def fun_eq_iff)
  ultimately show ?thesis
    by (cases "fp_exclude_key fp = []") (simp_all add: builtin_process_def filter_process_def new_batch_def)
next
  case (Merger sm)
  show ?thesis
  proof (cases "db_samples b = []")
    case True
    then show ?thesis using Merger by (simp add: builtin_process_def merger_process_def kept_by_def)
  next
    case False
    have "merged_ok sm [] []" by (simp add: merged_ok_def)
    from fold_merge_ok [OF this, of "db_samples b"] False
    have "fold (merge_sample sm) (db_samples b) [] \<noteq> []" by (auto simp: merged_ok_def)
    with False Merger show ?thesis
      by (simp add: builtin_process_def merger_process_def kept_by_def new_batch_def total_count_merge)
  qed
qed

text \<open>
  A chain of \<open>passthrough\<close>, \<open>filter\<close> and \<open>stack_merger\<close>, in any order, loses exactly what its filters
  name. It never fails; it drops the batch only when no record passes the filters and the batch had no
  samples; and the batch it hands on has the records that pass every filter, in order, and the same total
  count of samples.
\<close>

theorem builtin_chain_conserves:
  assumes "op_process ops = builtin_process" and "\<not> batch_empty b"
  shows "fst (run_chain ops ps b) = ps \<and>
    (case snd (run_chain ops ps b) of
       ChainError \<Rightarrow> False
     | ChainDropped \<Rightarrow> db_samples b = [] \<and> filter (kept_by ps) (db_records b) = []
     | ChainBatch out \<Rightarrow> db_type out = db_type b \<and> \<not> batch_empty out \<and>
         db_records out = filter (kept_by ps) (db_records b) \<and>
         total_count (db_samples out) = total_count (db_samples b))"
  using assms(2)
proof (induction ps arbitrary: b)
  case Nil
  then show ?case by (simp add: kept_by_def)
next
  case (Cons p ps)
  obtain out where out: "builtin_process p (Some b) = (p, Value (Some out))" "db_type out = db_type b"
    "db_records out = filter (kept_by [p]) (db_records b)"
    "total_count (db_samples out) = total_count (db_samples b)"
    "db_samples out = [] \<longleftrightarrow> db_samples b = []"
    using builtin_process_batch by blast
  have "kept_by (p # ps) = (\<lambda>r. kept_by [p] r \<and> kept_by ps r)" by (simp add: kept_by_def fun_eq_iff)
  then have kept: "filter (kept_by (p # ps)) (db_records b) = filter (kept_by ps) (db_records out)"
    by (simp add: out(3) conj_commute)
  show ?case
  proof (cases "batch_empty out")
    case True
    then have "db_records out = []" "db_samples b = []" using out(5) by (simp_all add: batch_empty_def)
    with kept True out(1) show ?thesis by (simp add: assms(1) del: filter_filter)
  next
    case False
    from Cons.IH [OF this] kept out False show ?thesis
      by (simp add: assms(1) split_beta split: chain_result.splits)
  qed
qed

lemma builtin_chain_conserves_witness:
  defines "s1 \<equiv> (default_sample 5)\<lparr>ss_comm := ''a'', ss_count := 3\<rparr>"
  defines "b \<equiv> (new_batch Profile)\<lparr>db_samples := [s1, s1],
      db_records := [\<lparr>rc_timestamp = 0, rc_labels = [(''k'', ''v'')], rc_fields = []\<rparr>]\<rparr>"
    and "ps \<equiv> [Filter \<lparr>fp_exclude_key = ''k'', fp_exclude_value = ''v''\<rparr>,
      Merger \<lparr>sm_group_by = ByComm, sm_include_kernel = True\<rparr>]"
    and "ops \<equiv> \<lparr>op_process = builtin_process, op_add = \<lambda>(a::unit) _. a,
      op_flush = \<lambda>a. (a, Value []), op_write = \<lambda>(s::unit) _. (s, status_ok)\<rparr>"
  shows "\<exists>out. snd (run_chain ops ps b) = ChainBatch out \<and> db_records out = [] \<and>
    total_count (db_samples out) = 6"
proof -
  have "\<not> batch_empty b" "op_process ops = builtin_process"
    by (simp_all add: b_def ops_def batch_empty_def)
  from builtin_chain_conserves [OF this(2) this(1), of ps] show ?thesis
    by (auto simp: b_def ps_def s1_def kept_by_def record_excluded_def split: chain_result.splits)
qed

end
