(* ===== verification/Bpf.thy ===== *)
theory Bpf
  imports Prelude
begin

text \<open>
  What the kernel probes share: the event types of \<open>src/ebpf/include/event_types.h\<close> and the BPF side
  of their environment. The helpers of the kernel are not part of the program. The results of the
  parameterless ones (time, task, processor, stack ids) are inputs of a probe (\<open>bpf_env\<close>), as is the
  memory that \<open>bpf_ringbuf_reserve\<close> returns (\<open>None\<close> when the ring buffer is full), whose old contents
  show through in fields a probe does not set. A hash map is a partial map; inserting into it is a
  parameter, since it fails on a full table (\<open>update_law\<close>). A \<open>char\<close> array is the C string it holds.
  A run of one probe is atomic: probes that run at once on two processors touch different keys, as the
  keys name the running task.
\<close>

section \<open>Event types\<close>

record il_stack_key =
  sk_pid :: u32
  sk_tid :: u32
  sk_kernel_stack_id :: s32
  sk_user_stack_id :: s32
  sk_comm :: string

record il_cpu_sample_event =
  ce_timestamp_ns :: u64
  ce_pid :: u32
  ce_tid :: u32
  ce_cpu :: u32
  ce_comm :: string
  ce_kernel_stack_id :: s32
  ce_user_stack_id :: s32

record il_mem_event =
  me_timestamp_ns :: u64
  me_pid :: u32
  me_tid :: u32
  me_addr :: u64
  me_size :: u64
  me_comm :: string
  me_alloc :: u8

record il_net_event =
  ne_timestamp_ns :: u64
  ne_pid :: u32
  ne_tid :: u32
  ne_saddr :: u32
  ne_daddr :: u32
  ne_sport :: u16
  ne_dport :: u16
  ne_protocol :: u32
  ne_bytes_sent :: u64
  ne_bytes_recv :: u64
  ne_comm :: string
  ne_event_type :: u8

record il_bio_event =
  be_timestamp_ns :: u64
  be_pid :: u32
  be_tid :: u32
  be_sector :: u64
  be_nr_sector :: u32
  be_dev :: u32
  be_latency_ns :: u64
  be_comm :: string
  be_rwflag :: u8

record il_sched_event =
  se_timestamp_ns :: u64
  se_prev_pid :: u32
  se_next_pid :: u32
  se_prev_tid :: u32
  se_next_tid :: u32
  se_cpu :: u32
  se_latency_ns :: u64
  se_prev_comm :: string
  se_next_comm :: string
  se_event_type :: u8

record il_offcpu_event =
  oe_timestamp_ns :: u64
  oe_pid :: u32
  oe_tid :: u32
  oe_cpu :: u32
  oe_duration_ns :: u64
  oe_kernel_stack_id :: s32
  oe_user_stack_id :: s32
  oe_comm :: string

record il_sched_stats =
  st_switch_count :: u64
  st_total_runqueue_latency_ns :: u64
  st_max_runqueue_latency_ns :: u64
  st_migrate_count :: u64
  st_comm :: string

section \<open>Helpers\<close>

record bpf_env =
  env_pid_tgid :: u64
  env_comm :: string
  env_cpu :: u32
  env_time :: u64
  env_kernel_stack :: s32
  env_user_stack :: s32

definition env_pid :: "bpf_env \<Rightarrow> u32" where
  "env_pid env = ucast (drop_bit 32 (env_pid_tgid env))"

definition env_tid :: "bpf_env \<Rightarrow> u32" where
  "env_tid env = ucast (env_pid_tgid env)"

definition task_comm_len :: nat where
  "task_comm_len = 16"

text \<open>\<open>bpf_probe_read_kernel_str\<close> into a \<open>char[TASK_COMM_LEN]\<close>.\<close>

definition read_comm :: "string \<Rightarrow> string" where
  "read_comm src = take (task_comm_len - 1) (takeWhile (\<lambda>c. c \<noteq> CHR 0x00) src)"

text \<open>An array map has all its elements, zero at first: the lookup of an index below its size succeeds.\<close>

definition array_lookup :: "'v list \<Rightarrow> u32 \<Rightarrow> 'v option" where
  "array_lookup vs k = (if unat k < length vs then Some (vs ! unat k) else None)"

type_synonym ('k, 'v) bpf_update = "'k \<Rightarrow> 'v \<Rightarrow> ('k \<rightharpoonup> 'v) \<Rightarrow> ('k \<rightharpoonup> 'v)"

text \<open>
  \<open>bpf_map_update_elem\<close> on a hash map: the element is replaced when the key is there; a new key is
  inserted, or refused and the map unchanged.
\<close>

definition update_law :: "('k, 'v) bpf_update \<Rightarrow> bool" where
  "update_law upd \<longleftrightarrow> (\<forall>k v m. upd k v m = m(k \<mapsto> v) \<or> (m k = None \<and> upd k v m = m))"

definition bounded_update :: "nat \<Rightarrow> ('k, 'v) bpf_update" where
  "bounded_update n k v m = (if m k \<noteq> None \<or> card (dom m) < n then m(k \<mapsto> v) else m)"

definition plain_update :: "('k, 'v) bpf_update" where
  "plain_update k v m = m(k \<mapsto> v)"

lemma bounded_update_law: "update_law (bounded_update n)"
  by (auto simp: update_law_def bounded_update_def)

lemma plain_update_law: "update_law plain_update"
  by (simp add: update_law_def plain_update_def)

lemma update_law_other:
  assumes "update_law upd" "k' \<noteq> k"
  shows "upd k v m k' = m k'"
proof -
  from assms(1) have "upd k v m = m(k \<mapsto> v) \<or> upd k v m = m" unfolding update_law_def by blast
  with assms(2) show ?thesis by auto
qed

lemma update_law_same:
  assumes "update_law upd"
  shows "upd k v m k = Some v \<or> (m k = None \<and> upd k v m k = None)"
proof -
  from assms have "upd k v m = m(k \<mapsto> v) \<or> (m k = None \<and> upd k v m = m)" unfolding update_law_def by blast
  then show ?thesis by auto
qed

lemma update_law_present:
  assumes "update_law upd" "m k \<noteq> None"
  shows "upd k v m = m(k \<mapsto> v)"
proof -
  from assms(1) have "upd k v m = m(k \<mapsto> v) \<or> (m k = None \<and> upd k v m = m)" unfolding update_law_def by blast
  with assms(2) show ?thesis by auto
qed

section \<open>Tables of things begun\<close>

text \<open>
  Most probes measure from one kernel event to another: the first leaves a snapshot in a table, the
  second takes it out. The contract: an event that touches a key leaves in its row nothing or the
  snapshot it starts, and an event that does not leaves the row alone. Then whatever a row holds was
  put there by the last event that touched it.
\<close>

definition last_touch ::
  "('ev \<Rightarrow> 's \<Rightarrow> 's) \<Rightarrow> ('s \<Rightarrow> 'ev \<Rightarrow> 'k \<Rightarrow> bool) \<Rightarrow> ('s \<Rightarrow> 'ev \<Rightarrow> 'k \<rightharpoonup> 'v) \<Rightarrow>
   's \<Rightarrow> 'ev list \<Rightarrow> 'k \<Rightarrow> 'v \<Rightarrow> 'ev list \<Rightarrow> 'ev \<Rightarrow> 'ev list \<Rightarrow> bool" where
  "last_touch step touches starts s0 evs k v us e vs \<longleftrightarrow>
     evs = us @ e # vs \<and> starts (fold step us s0) e k = Some v \<and>
     (\<forall>ws x xs. vs = ws @ x # xs \<longrightarrow> \<not> touches (fold step (us @ e # ws) s0) x k)"

locale start_table =
  fixes step :: "'ev \<Rightarrow> 's \<Rightarrow> 's"
    and table :: "'s \<Rightarrow> 'k \<rightharpoonup> 'v"
    and touches :: "'s \<Rightarrow> 'ev \<Rightarrow> 'k \<Rightarrow> bool"
    and starts :: "'s \<Rightarrow> 'ev \<Rightarrow> 'k \<rightharpoonup> 'v"
  assumes touched: "touches s e k \<Longrightarrow> table (step e s) k = None \<or> table (step e s) k = starts s e k"
    and untouched: "\<not> touches s e k \<Longrightarrow> table (step e s) k = table s k"
begin

lemma last_touch_snoc:
  assumes "last_touch step touches starts s0 evs k v us e vs" "\<not> touches (fold step evs s0) x k"
  shows "last_touch step touches starts s0 (evs @ [x]) k v us e (vs @ [x])"
  unfolding last_touch_def
proof (intro conjI allI impI)
  fix ws y xs
  assume eq: "vs @ [x] = ws @ y # xs"
  show "\<not> touches (fold step (us @ e # ws) s0) y k"
  proof (cases xs rule: rev_cases)
    case Nil
    with eq have "ws = vs" "y = x" by simp_all
    with assms show ?thesis by (simp add: last_touch_def)
  next
    case (snoc zs z)
    with eq have "vs = ws @ y # zs" by simp
    with assms(1) show ?thesis unfolding last_touch_def by blast
  qed
qed (use assms(1) in \<open>simp_all add: last_touch_def\<close>)

lemma row_from_last_touch:
  assumes "table s0 k = None" "table (fold step evs s0) k = Some v"
  shows "\<exists>us e vs. last_touch step touches starts s0 evs k v us e vs"
  using assms(2)
proof (induction evs rule: rev_induct)
  case Nil
  then show ?case using assms(1) by simp
next
  case (snoc x evs)
  let ?s = "fold step evs s0"
  show ?case
  proof (cases "touches ?s x k")
    case True
    with touched [OF this] snoc.prems have "starts ?s x k = Some v" by simp
    then have "last_touch step touches starts s0 (evs @ [x]) k v evs x []" by (simp add: last_touch_def)
    then show ?thesis by blast
  next
    case False
    with snoc.prems have "table ?s k = Some v" by (simp add: untouched)
    from snoc.IH [OF this] obtain us e vs where "last_touch step touches starts s0 evs k v us e vs" by blast
    from last_touch_snoc [OF this False] show ?thesis by blast
  qed
qed

end

end
