(* ===== verification/ProcReader.thy ===== *)
theory ProcReader
  imports Decimal
begin

text \<open>
  The readers of \<open>/proc\<close> in \<open>src/core/common/proc_reader.h\<close>, with what they use of the standard
  library's input streams. The files are a parameter: a function from a path to the contents, \<open>None\<close>
  for a file that cannot be opened.
\<close>

section \<open>Input streams\<close>

record istream =
  is_rest :: string
  is_good :: bool

definition istream_of :: "string \<Rightarrow> istream" where
  "istream_of s = \<lparr>is_rest = s, is_good = True\<rparr>"

text \<open>
  An extraction into a variable: the value stored, or \<open>None\<close> when the variable is left alone (the
  stream had failed or has nothing left).
\<close>

definition extract_word :: "istream \<Rightarrow> string option \<times> istream" where
  "extract_word s =
     (let r = dropWhile is_space (is_rest s)
      in if \<not> is_good s then (None, s)
         else if r = [] then (None, \<lparr>is_rest = [], is_good = False\<rparr>)
         else (Some (takeWhile (\<lambda>c. \<not> is_space c) r),
               \<lparr>is_rest = dropWhile (\<lambda>c. \<not> is_space c) r, is_good = True\<rparr>))"

text \<open>
  Integers: a missing number stores zero, one out of range the nearest value, and both fail the stream;
  an unsigned target takes a minus sign and negates modulo its range.
\<close>

datatype int_kind = Unsigned nat | Signed nat

definition split_sign :: "string \<Rightarrow> bool \<times> string" where
  "split_sign s = (case s of [] \<Rightarrow> (False, [])
     | c # cs \<Rightarrow> if c = CHR ''-'' then (True, cs) else if c = CHR ''+'' then (False, cs) else (False, c # cs))"

fun stored_int :: "int_kind \<Rightarrow> bool \<Rightarrow> nat \<Rightarrow> int \<times> bool" where
  "stored_int (Unsigned w) neg n =
     (if 2 ^ w \<le> n then (2 ^ w - 1, False) else (if neg then (- int n) mod 2 ^ w else int n, True))"
| "stored_int (Signed w) neg n =
     (let i = (if neg then - int n else int n)
      in if i < - (2 ^ (w - 1)) then (- (2 ^ (w - 1)), False)
         else if 2 ^ (w - 1) \<le> i then (2 ^ (w - 1) - 1, False) else (i, True))"

definition extract_int :: "int_kind \<Rightarrow> istream \<Rightarrow> int option \<times> istream" where
  "extract_int kind s =
     (let r = dropWhile is_space (is_rest s)
      in if \<not> is_good s then (None, s)
         else if r = [] then (None, \<lparr>is_rest = [], is_good = False\<rparr>)
         else let (neg, r) = split_sign r; ds = takeWhile is_digit r; rest = dropWhile is_digit r
              in if ds = [] then (Some 0, \<lparr>is_rest = rest, is_good = False\<rparr>)
                 else let (i, good) = stored_int kind neg (digits_value 0 ds)
                      in (Some i, \<lparr>is_rest = rest, is_good = good\<rparr>))"

fun extract_ints :: "int_kind list \<Rightarrow> istream \<Rightarrow> int option list \<times> istream" where
  "extract_ints [] s = ([], s)"
| "extract_ints (k # ks) s =
     (let (x, s) = extract_int k s; (xs, s) = extract_ints ks s in (x # xs, s))"

definition stored :: "int option \<Rightarrow> 'w::len word \<Rightarrow> 'w word" where
  "stored x old = (case x of None \<Rightarrow> old | Some i \<Rightarrow> word_of_int i)"

text \<open>\<open>std::getline\<close> until the end of the stream.\<close>

abbreviation newline :: char where
  "newline \<equiv> CHR 0x0A"

function getlines :: "char \<Rightarrow> string \<Rightarrow> string list" where
  "getlines d s =
     (if s = [] then [] else takeWhile (\<lambda>c. c \<noteq> d) s # getlines d (drop 1 (dropWhile (\<lambda>c. c \<noteq> d) s)))"
  by pat_completeness auto
termination
proof (relation "measure (\<lambda>(d, s). length s)")
  fix d :: char and s :: string
  assume "s \<noteq> []"
  then show "((d, drop 1 (dropWhile (\<lambda>c. c \<noteq> d) s)), d, s) \<in> measure (\<lambda>(d, s). length s)"
    using length_dropWhile_le [of "\<lambda>c. c \<noteq> d" s] by (cases s) auto
qed simp

declare getlines.simps [simp del]

abbreviation text_lines :: "string \<Rightarrow> string list" where
  "text_lines \<equiv> getlines newline"

section \<open>/proc/stat\<close>

record core_jiffies =
  cj_name :: string
  cj_user :: u64
  cj_nice :: u64
  cj_system :: u64
  cj_idle :: u64
  cj_iowait :: u64
  cj_irq :: u64
  cj_softirq :: u64
  cj_steal :: u64

definition jiffies_total :: "core_jiffies \<Rightarrow> u64" where
  "jiffies_total j = cj_user j + cj_nice j + cj_system j + cj_idle j + cj_iowait j + cj_irq j +
     cj_softirq j + cj_steal j"

definition jiffies_busy :: "core_jiffies \<Rightarrow> u64" where
  "jiffies_busy j = jiffies_total j - cj_idle j - cj_iowait j"

record cpu_snapshot =
  cs_cores :: "core_jiffies list"
  cs_ctxt :: u64
  cs_intr :: u64
  cs_procs_running :: u32
  cs_procs_blocked :: u32

definition empty_snapshot :: cpu_snapshot where
  "empty_snapshot = \<lparr>cs_cores = [], cs_ctxt = 0, cs_intr = 0, cs_procs_running = 0, cs_procs_blocked = 0\<rparr>"

definition parse_core :: "string \<Rightarrow> core_jiffies" where
  "parse_core line =
     (let (name, s) = extract_word (istream_of line);
          (vs, s) = extract_ints (replicate 8 (Unsigned 64)) s
      in \<lparr>cj_name = (case name of None \<Rightarrow> [] | Some n \<Rightarrow> n), cj_user = stored (vs ! 0) 0,
          cj_nice = stored (vs ! 1) 0, cj_system = stored (vs ! 2) 0, cj_idle = stored (vs ! 3) 0,
          cj_iowait = stored (vs ! 4) 0, cj_irq = stored (vs ! 5) 0, cj_softirq = stored (vs ! 6) 0,
          cj_steal = stored (vs ! 7) 0\<rparr>)"

definition is_cpu_line :: "string \<Rightarrow> bool" where
  "is_cpu_line line \<longleftrightarrow> take 3 line = ''cpu'' \<and>
     (case drop 3 line of [] \<Rightarrow> False | c # _ \<Rightarrow> c = CHR '' '' \<or> is_digit c)"

definition snapshot_line :: "string \<Rightarrow> cpu_snapshot \<Rightarrow> cpu_snapshot" where
  "snapshot_line line snap =
     (if is_cpu_line line then snap\<lparr>cs_cores := cs_cores snap @ [parse_core line]\<rparr>
      else if take 5 line = ''ctxt '' then
        snap\<lparr>cs_ctxt := stored (fst (extract_int (Unsigned 64) (istream_of (drop 5 line)))) (cs_ctxt snap)\<rparr>
      else if take 5 line = ''intr '' then
        snap\<lparr>cs_intr := stored (fst (extract_int (Unsigned 64) (istream_of (drop 5 line)))) (cs_intr snap)\<rparr>
      else if take 14 line = ''procs_running '' then
        snap\<lparr>cs_procs_running :=
          stored (fst (extract_int (Unsigned 32) (istream_of (drop 14 line)))) (cs_procs_running snap)\<rparr>
      else if take 14 line = ''procs_blocked '' then
        snap\<lparr>cs_procs_blocked :=
          stored (fst (extract_int (Unsigned 32) (istream_of (drop 14 line)))) (cs_procs_blocked snap)\<rparr>
      else snap)"

type_synonym files = "string \<Rightarrow> string option"

definition read_cpu_snapshot :: "files \<Rightarrow> cpu_snapshot" where
  "read_cpu_snapshot fs =
     (case fs ''/proc/stat'' of None \<Rightarrow> empty_snapshot
      | Some text \<Rightarrow> fold snapshot_line (text_lines text) empty_snapshot)"

lemma split_sign_Nil [simp]: "split_sign [] = (False, [])"
  by (simp add: split_sign_def)

lemma split_sign_length: "length (snd (split_sign s)) \<le> length s"
  by (cases s) (simp_all add: split_sign_def)

lemma extract_int_shrinks:
  assumes "extract_int k s = (x, s')" "is_good s'"
  shows "length (is_rest s') < length (is_rest s)"
proof -
  let ?r = "dropWhile is_space (is_rest s)"
  from assms have ne: "?r \<noteq> []" "is_good s"
    by (auto simp: extract_int_def Let_def split: if_splits)
  obtain neg r where r: "split_sign ?r = (neg, r)" by (cases "split_sign ?r")
  with assms ne have ds: "takeWhile is_digit r \<noteq> []" "is_rest s' = dropWhile is_digit r"
    by (auto simp: extract_int_def Let_def split: if_splits prod.splits)
  have "length r = length (takeWhile is_digit r) + length (dropWhile is_digit r)"
    by (metis length_append takeWhile_dropWhile_id)
  with ds have "length (is_rest s') < length r" by (cases "takeWhile is_digit r") auto
  moreover have "length r \<le> length ?r" using split_sign_length [of ?r] r by simp
  moreover have "length ?r \<le> length (is_rest s)" by (rule length_dropWhile_le)
  ultimately show ?thesis by linarith
qed

function sum_u64s :: "u64 \<Rightarrow> istream \<Rightarrow> u64" where
  "sum_u64s acc s =
     (let (x, s') = extract_int (Unsigned 64) s
      in if is_good s' then sum_u64s (acc + stored x 0) s' else acc)"
  by pat_completeness auto
termination
  by (relation "measure (\<lambda>(_, s). length (is_rest s))") (auto dest: extract_int_shrinks [OF sym])

declare sum_u64s.simps [simp del]

definition read_total_cpu_jiffies :: "files \<Rightarrow> u64" where
  "read_total_cpu_jiffies fs =
     (case fs ''/proc/stat'' of None \<Rightarrow> 0
      | Some text \<Rightarrow>
          (case text_lines text of [] \<Rightarrow> 0
           | line # _ \<Rightarrow>
               if take 4 line \<noteq> ''cpu '' then 0
               else sum_u64s 0 (snd (extract_word (istream_of line)))))"

definition count_online_cpus :: "files \<Rightarrow> nat" where
  "count_online_cpus fs =
     (case fs ''/proc/stat'' of None \<Rightarrow> 1
      | Some text \<Rightarrow>
          let count = length (filter (\<lambda>line. take 3 line = ''cpu'' \<and> 3 < length line \<and> is_digit (line ! 3))
                        (text_lines text))
          in if 0 < count then count else 1)"

text \<open>
  The loop over the processors stops at the first file that is missing: \<open>n\<close> is a number of processors that
  none has. An empty file leaves the variable as it was, \<open>junk\<close>.
\<close>

definition freq_path :: "nat \<Rightarrow> string" where
  "freq_path i = ''/sys/devices/system/cpu/cpu'' @ show_nat i @ ''/cpufreq/scaling_cur_freq''"

definition read_cpu_frequencies_mhz :: "files \<Rightarrow> u64 \<Rightarrow> nat \<Rightarrow> real list" where
  "read_cpu_frequencies_mhz fs junk n =
     map (\<lambda>i. real (unat (stored (fst (extract_int (Unsigned 64) (istream_of (the (fs (freq_path i)))))) junk)) / 1000)
       (takeWhile (\<lambda>i. fs (freq_path i) \<noteq> None) [0..<n])"

text \<open>The extraction of doubles is the parameter \<open>xreal\<close>: the value stored, if any, and the rest.\<close>

record load_avg =
  la_load1 :: real
  la_load5 :: real
  la_load15 :: real

type_synonym real_reader = "istream \<Rightarrow> real option \<times> istream"

definition read_load_avg :: "real_reader \<Rightarrow> files \<Rightarrow> load_avg" where
  "read_load_avg xreal fs =
     (case fs ''/proc/loadavg'' of None \<Rightarrow> \<lparr>la_load1 = 0, la_load5 = 0, la_load15 = 0\<rparr>
      | Some text \<Rightarrow>
          let (a, s) = xreal (istream_of text); (b, s) = xreal s; (c, _) = xreal s;
              val = (\<lambda>x. case x of None \<Rightarrow> 0 | Some r \<Rightarrow> r)
          in \<lparr>la_load1 = val a, la_load5 = val b, la_load15 = val c\<rparr>)"

section \<open>/proc/[pid]\<close>

record process_stat =
  ps_pid :: u32
  ps_comm :: string
  ps_state :: char
  ps_utime :: u64
  ps_stime :: u64
  ps_starttime :: u64
  ps_num_threads :: u32
  ps_vsize :: u64
  ps_rss_pages :: u64 \<comment> \<open>signed\<close>
  ps_voluntary_ctxt_switches :: u64
  ps_nonvoluntary_ctxt_switches :: u64

definition default_process_stat :: process_stat where
  "default_process_stat = \<lparr>ps_pid = 0, ps_comm = [], ps_state = CHR ''?'', ps_utime = 0, ps_stime = 0,
     ps_starttime = 0, ps_num_threads = 0, ps_vsize = 0, ps_rss_pages = 0,
     ps_voluntary_ctxt_switches = 0, ps_nonvoluntary_ctxt_switches = 0\<rparr>"

text \<open>The variables of the chain of extractions, in its order, from \<open>ppid\<close> to \<open>rss_pages\<close>.\<close>

definition stat_kinds :: "int_kind list" where
  "stat_kinds =
     [Signed 64, Signed 64, Signed 64, Signed 64, Signed 64,
      Unsigned 64, Unsigned 64, Unsigned 64, Unsigned 64, Unsigned 64,
      Unsigned 64, Unsigned 64, Unsigned 64, Unsigned 64,
      Signed 64, Signed 64, Unsigned 32, Signed 64,
      Unsigned 64, Unsigned 64, Signed 64]"

text \<open>
  The result and the changed output argument; \<open>None\<close> is the \<open>std::out_of_range\<close> of \<open>substr\<close>, when less
  than one character follows the closing parenthesis.
\<close>

definition parse_proc_stat :: "files \<Rightarrow> string \<Rightarrow> process_stat \<Rightarrow> (bool \<times> process_stat) option" where
  "parse_proc_stat fs path ps =
     (case fs path of None \<Rightarrow> Some (False, ps)
      | Some content \<Rightarrow>
          let before = takeWhile (\<lambda>c. c \<noteq> CHR ''('') content;
              after = rev (takeWhile (\<lambda>c. c \<noteq> CHR '')'') (rev content));
              close = length content - length after - 1
          in if CHR ''('' \<notin> set content \<or> CHR '')'' \<notin> set content then Some (False, ps)
             else
               let tail = drop (length before + 1) content;
                   comm = (if length before < close then take (close - length before - 1) tail else tail);
                   ps = ps\<lparr>ps_comm := comm\<rparr>
               in if after = [] then None
                  else
                    let (state_str, s) = extract_word (istream_of (drop 1 after));
                        (vs, _) = extract_ints stat_kinds s;
                        ps = ps\<lparr>ps_utime := stored (vs ! 10) (ps_utime ps),
                                ps_stime := stored (vs ! 11) (ps_stime ps),
                                ps_num_threads := stored (vs ! 16) (ps_num_threads ps),
                                ps_starttime := stored (vs ! 18) (ps_starttime ps),
                                ps_vsize := stored (vs ! 19) (ps_vsize ps),
                                ps_rss_pages := stored (vs ! 20) (ps_rss_pages ps)\<rparr>
                    in Some (True, case state_str of Some (c # _) \<Rightarrow> ps\<lparr>ps_state := c\<rparr> | _ \<Rightarrow> ps))"

definition ctxt_line :: "string \<Rightarrow> process_stat \<Rightarrow> process_stat" where
  "ctxt_line line ps =
     (if take 25 line = ''voluntary_ctxt_switches:'' @ [CHR 0x09] then
        ps\<lparr>ps_voluntary_ctxt_switches :=
          stored (fst (extract_int (Unsigned 64) (istream_of (drop 25 line)))) (ps_voluntary_ctxt_switches ps)\<rparr>
      else if take 28 line = ''nonvoluntary_ctxt_switches:'' @ [CHR 0x09] then
        ps\<lparr>ps_nonvoluntary_ctxt_switches :=
          stored (fst (extract_int (Unsigned 64) (istream_of (drop 28 line)))) (ps_nonvoluntary_ctxt_switches ps)\<rparr>
      else ps)"

definition read_ctxt_switches :: "files \<Rightarrow> u32 \<Rightarrow> process_stat \<Rightarrow> process_stat" where
  "read_ctxt_switches fs pid ps =
     (case fs (''/proc/'' @ show_nat (unat pid) @ ''/status'') of None \<Rightarrow> ps
      | Some text \<Rightarrow> fold ctxt_line (text_lines text) ps)"

text \<open>\<open>strtol\<close> of a whole name: its value, unless something is left over or it is not positive.\<close>

definition pid_of_name :: "string \<Rightarrow> int option" where
  "pid_of_name name =
     (let (neg, r) = split_sign (dropWhile is_space name); ds = takeWhile is_digit r;
          (i, _) = stored_int (Signed 64) neg (digits_value 0 ds)
      in if ds = [] \<or> dropWhile is_digit r \<noteq> [] \<or> i \<le> 0 then None else Some i)"

text \<open>The entries of the directory are pairs of the name and whether the entry is a directory.\<close>

fun scan_processes :: "files \<Rightarrow> (string \<times> bool) list \<Rightarrow> process_stat list option" where
  "scan_processes fs [] = Some []"
| "scan_processes fs ((name, is_dir) # entries) =
     (case (if is_dir then pid_of_name name else None) of
        None \<Rightarrow> scan_processes fs entries
      | Some pid \<Rightarrow>
          (case parse_proc_stat fs (''/proc/'' @ name @ ''/stat'')
                  (default_process_stat\<lparr>ps_pid := word_of_int pid\<rparr>) of
             None \<Rightarrow> None
           | Some (False, _) \<Rightarrow> scan_processes fs entries
           | Some (True, snap) \<Rightarrow> map_option ((#) snap) (scan_processes fs entries)))"

section \<open>Reading what the kernel prints\<close>

fun kind_range :: "int_kind \<Rightarrow> int \<Rightarrow> bool" where
  "kind_range (Unsigned w) i \<longleftrightarrow> 0 \<le> i \<and> i < 2 ^ w"
| "kind_range (Signed w) i \<longleftrightarrow> - (2 ^ (w - 1)) \<le> i \<and> i < 2 ^ (w - 1)"

definition print_ints :: "int list \<Rightarrow> string" where
  "print_ints is = concat (map (\<lambda>i. CHR '' '' # show_int i) is)"

lemma is_space_blank [simp]: "is_space (CHR '' '')"
  by (simp add: is_space_def)

lemma drop_digits_show:
  "rest = [] \<or> \<not> is_digit (hd rest) \<Longrightarrow> dropWhile is_digit (show_nat n @ rest) = rest"
  using show_nat_digits [of n] by (cases rest) (auto simp: dropWhile_append list_all_iff)

lemma split_sign_show_int:
  "split_sign (dropWhile is_space (CHR '' '' # show_int i @ rest)) = (i < 0, show_nat (nat \<bar>i\<bar>) @ rest)"
proof -
  obtain c cs where c: "show_nat (nat \<bar>i\<bar>) = c # cs" "is_digit c" by (rule show_nat_hd)
  then have "c \<noteq> CHR ''-''" "c \<noteq> CHR ''+''" "\<not> is_space c" using not_space_digit by auto
  moreover have "\<not> is_space (CHR ''-'')" by (simp add: is_space_def)
  ultimately show ?thesis using c(1) by (auto simp: show_int_def split_sign_def)
qed

lemma extract_printed_int:
  assumes "kind_range k i" "rest = [] \<or> \<not> is_digit (hd rest)"
  shows "extract_int k (istream_of (CHR '' '' # show_int i @ rest)) = (Some i, istream_of rest)"
proof -
  let ?n = "nat \<bar>i\<bar>"
  have v: "digits_value 0 (show_nat ?n) = ?n" by (rule digits_value_show)
  have st: "stored_int k (i < 0) ?n = (i, True)"
  proof (cases k)
    case (Unsigned w)
    then have "nat i < 2 ^ w" using assms(1) by (simp add: nat_less_iff)
    with Unsigned assms(1) show ?thesis by simp
  next
    case (Signed w)
    with assms(1) show ?thesis by (auto simp: Let_def)
  qed
  have "dropWhile is_space (CHR '' '' # show_int i @ rest) \<noteq> []"
    by (metis split_sign_show_int split_sign_Nil prod.inject append_is_Nil_conv show_nat_not_empty)
  then show ?thesis
    using split_sign_show_int [of i rest] assms(2) v st
    by (simp add: extract_int_def istream_of_def take_digits_show drop_digits_show Let_def)
qed

lemma print_ints_simps [simp]:
  "print_ints [] = []" "print_ints (i # is) = CHR '' '' # show_int i @ print_ints is"
  by (simp_all add: print_ints_def)

lemma extract_printed_ints:
  assumes "list_all2 kind_range ks is" "rest = [] \<or> \<not> is_digit (hd rest)"
  shows "extract_ints ks (istream_of (print_ints is @ rest)) = (map Some is, istream_of rest)"
  using assms(1)
proof (induction ks "is" rule: list_all2_induct)
  case (Cons k ks i "is")
  have "print_ints is @ rest = [] \<or> \<not> is_digit (hd (print_ints is @ rest))"
    using assms(2) by (cases "is") auto
  from extract_printed_int [OF Cons.hyps(1) this] Cons.IH show ?case by simp
qed simp

lemma print_ints_chars: "c \<in> set (print_ints is) \<Longrightarrow> c = CHR '' '' \<or> c = CHR ''-'' \<or> is_digit c"
  using show_nat_digits by (auto simp: print_ints_def show_int_def list_all_iff split: if_splits)

lemma print_ints_not [simp]:
  "CHR '')'' \<notin> set (print_ints is)" "newline \<notin> set (print_ints is)"
  by (auto dest!: print_ints_chars simp: is_digit_def)

lemma takeWhile_prefix: "c \<notin> set xs \<Longrightarrow> takeWhile (\<lambda>d. d \<noteq> c) (xs @ c # ys) = xs"
  by (induction xs) auto

lemma dropWhile_prefix: "c \<notin> set xs \<Longrightarrow> dropWhile (\<lambda>d. d \<noteq> c) (xs @ c # ys) = c # ys"
  by (induction xs) auto

lemma extract_word_single:
  assumes "w \<noteq> []" "list_all (\<lambda>c. \<not> is_space c) w" "rest = [] \<or> is_space (hd rest)"
  shows "extract_word (istream_of (w @ rest)) = (Some w, istream_of rest)"
proof -
  obtain c cs where w: "w = c # cs" using assms(1) by (cases w) auto
  have "takeWhile (\<lambda>c. \<not> is_space c) (w @ rest) = w" "dropWhile (\<lambda>c. \<not> is_space c) (w @ rest) = rest"
    using assms(2,3) by (cases rest; auto simp: takeWhile_append dropWhile_append list_all_iff)+
  then show ?thesis using assms(2) by (simp add: w extract_word_def istream_of_def)
qed

lemma parse_printed_stat:
  assumes "fs path = Some (show_nat pid @ '' ('' @ comm @ '') '' @ [st] @ print_ints is @ rest)"
    and "list_all2 kind_range stat_kinds is" "\<not> is_space st" "st \<noteq> CHR '')''"
    and "CHR '')'' \<notin> set rest" "rest = [] \<or> \<not> is_digit (hd rest)"
  shows "parse_proc_stat fs path ps = Some (True, ps
    \<lparr>ps_comm := comm, ps_utime := word_of_int (is ! 10), ps_stime := word_of_int (is ! 11),
     ps_num_threads := word_of_int (is ! 16), ps_starttime := word_of_int (is ! 18),
     ps_vsize := word_of_int (is ! 19), ps_rss_pages := word_of_int (is ! 20), ps_state := st\<rparr>)"
proof -
  let ?tail = "CHR '' '' # st # print_ints is @ rest"
  let ?before = "show_nat pid @ '' ''"
  define content where "content = ?before @ CHR ''('' # comm @ CHR '')'' # ?tail"
  have fl: "fs path = Some content" using assms(1) by (simp add: content_def)
  have "CHR ''('' \<notin> set (show_nat pid)"
    using show_nat_digits [of pid] by (auto simp: list_all_iff is_digit_def)
  then have "CHR ''('' \<notin> set ?before" by simp
  from takeWhile_prefix [OF this]
  have before: "takeWhile (\<lambda>c. c \<noteq> CHR ''('') content = ?before" unfolding content_def .
  have rc: "rev content = rev ?tail @ CHR '')'' # rev (?before @ CHR ''('' # comm)"
    by (simp add: content_def)
  have "CHR '')'' \<notin> set (rev ?tail)" using assms(4,5) by simp
  from takeWhile_prefix [OF this]
  have after: "rev (takeWhile (\<lambda>c. c \<noteq> CHR '')'') (rev content)) = ?tail" unfolding rc by simp
  have close: "length content - length ?tail - 1 = length ?before + 1 + length comm"
    by (simp add: content_def)
  have tail: "drop (length ?before + 1) content = comm @ CHR '')'' # ?tail"
    by (simp add: content_def)
  have len: "length is = 21" using list_all2_lengthD [OF assms(2)] by (simp add: stat_kinds_def)
  then obtain i js where "is = i # js" by (cases "is") auto
  then have "extract_word (istream_of ([st] @ (print_ints is @ rest))) = (Some [st], istream_of (print_ints is @ rest))"
    using assms(3) by (intro extract_word_single) auto
  moreover note extract_printed_ints [OF assms(2,6)]
  ultimately show ?thesis
    unfolding parse_proc_stat_def fl option.case Let_def before after close tail
    by (simp add: content_def stored_def len)
qed

text \<open>
  A process's stat file is read back whatever the process is called. For a line as the kernel prints
  it, with any name (blanks and parentheses included), the parser succeeds and every field it keeps has the
  printed value.
\<close>

theorem proc_stat_roundtrip:
  assumes "fs path = Some (show_nat pid @ '' ('' @ comm @ '') '' @ [st] @ print_ints is @ rest)"
    and "list_all2 kind_range stat_kinds is" "\<not> is_space st" "st \<noteq> CHR '')''"
    and "CHR '')'' \<notin> set rest" "rest = [] \<or> \<not> is_digit (hd rest)"
  shows "parse_proc_stat fs path ps = Some (True, ps
    \<lparr>ps_comm := comm, ps_utime := word_of_int (is ! 10), ps_stime := word_of_int (is ! 11),
     ps_num_threads := word_of_int (is ! 16), ps_starttime := word_of_int (is ! 18),
     ps_vsize := word_of_int (is ! 19), ps_rss_pages := word_of_int (is ! 20), ps_state := st\<rparr>)"
  using assms by (rule parse_printed_stat)

lemma proc_stat_roundtrip_witness:
  defines "is \<equiv> [1, 2, 2, 0, -1, 0, 0, 0, 0, 0, 70, 30, 0, 0, 20, 0, 4, 0, 99, 4096, 12]"
  shows "\<exists>ps. parse_proc_stat (\<lambda>_. Some (show_nat 7 @ '' ('' @ ''a) (b'' @ '') '' @ [CHR ''S''] @ print_ints is @ []))
    ''/proc/7/stat'' default_process_stat = Some (True, ps) \<and> ps_comm ps = ''a) (b'' \<and> ps_utime ps = 70"
  using proc_stat_roundtrip [of "\<lambda>_. Some (show_nat 7 @ '' ('' @ ''a) (b'' @ '') '' @ [CHR ''S''] @ print_ints is @ [])"
      "''/proc/7/stat''" 7 "''a) (b''" "CHR ''S''" "is" "[]" default_process_stat]
  by (simp add: is_def stat_kinds_def is_space_def)

section \<open>Two totals\<close>

lemma snapshot_line_cores: "\<exists>js. cs_cores (snapshot_line line snap) = cs_cores snap @ js"
  by (simp add: snapshot_line_def)

lemma snapshot_fold_cores: "\<exists>js. cs_cores (fold snapshot_line ls snap) = cs_cores snap @ js"
proof (induction ls arbitrary: snap)
  case (Cons l ls)
  from snapshot_line_cores [of l snap] Cons.IH [of "snapshot_line l snap"] show ?case by auto
qed simp

lemma text_lines_first:
  assumes "newline \<notin> set line" "line \<noteq> []"
  shows "text_lines (line @ newline # mtext) = line # text_lines mtext"
proof -
  from takeWhile_prefix [OF assms(1), of mtext] dropWhile_prefix [OF assms(1), of mtext]
  show ?thesis by (subst getlines.simps) simp
qed

lemma sum_u64s_printed:
  assumes "list_all (kind_range (Unsigned 64)) is"
  shows "sum_u64s acc (istream_of (print_ints is)) = acc + sum_list (map word_of_int is)"
  using assms
proof (induction "is" arbitrary: acc)
  case Nil
  then show ?case by (subst sum_u64s.simps) (simp add: extract_int_def istream_of_def)
next
  case (Cons i "is")
  have "print_ints is = [] \<or> \<not> is_digit (hd (print_ints is))" by (cases "is") auto
  with Cons.prems have "extract_int (Unsigned 64) (istream_of (print_ints (i # is))) = (Some i, istream_of (print_ints is))"
    using extract_printed_int [of "Unsigned 64" i "print_ints is"] by simp
  moreover have "is_good (istream_of (print_ints is))" by (simp add: istream_of_def)
  ultimately show ?case
    using Cons by (subst sum_u64s.simps) (simp add: stored_def algebra_simps)
qed

text \<open>
  The two readers of \<open>/proc/stat\<close> do not agree on the total. On the kernel's first line, with its ten
  counters, the snapshot's first core has the printed counters and its total leaves the guest times out;
  \<open>ReadTotalCpuJiffies\<close> adds all ten, so time spent in guests, which the kernel already counts as user and
  nice time, is counted twice there.
\<close>

theorem total_jiffies_count_guests:
  assumes "fs ''/proc/stat'' = Some (''cpu '' @ print_ints
      [user, nice, sys, idle, iowait, irq, softirq, steal, guest, guest_nice] @ newline # mtext)"
    and "list_all (kind_range (Unsigned 64))
      [user, nice, sys, idle, iowait, irq, softirq, steal, guest, guest_nice]"
  shows "\<exists>js. cs_cores (read_cpu_snapshot fs) =
      \<lparr>cj_name = ''cpu'', cj_user = word_of_int user, cj_nice = word_of_int nice, cj_system = word_of_int sys,
       cj_idle = word_of_int idle, cj_iowait = word_of_int iowait, cj_irq = word_of_int irq,
       cj_softirq = word_of_int softirq, cj_steal = word_of_int steal\<rparr> # js \<and>
    read_total_cpu_jiffies fs =
      jiffies_total (hd (cs_cores (read_cpu_snapshot fs))) + word_of_int guest + word_of_int guest_nice"
proof -
  let ?is = "[user, nice, sys, idle, iowait, irq, softirq, steal, guest, guest_nice]"
  let ?eight = "[user, nice, sys, idle, iowait, irq, softirq, steal]"
  let ?line = "''cpu '' @ print_ints ?is"
  have lines: "text_lines (?line @ newline # mtext) = ?line # text_lines mtext"
    by (rule text_lines_first) (simp_all del: print_ints_simps)
  have word: "extract_word (istream_of ?line) = (Some ''cpu'', istream_of (CHR '' '' # print_ints ?is))"
    using extract_word_single [of "''cpu''" "CHR '' '' # print_ints ?is"] by (simp add: is_space_def)
  have blank: "extract_int k (istream_of (CHR '' '' # CHR '' '' # r)) = extract_int k (istream_of (CHR '' '' # r))" for k r
    by (simp add: extract_int_def istream_of_def)
  have eight: "list_all2 kind_range (replicate 8 (Unsigned 64)) ?eight" using assms(2) by (simp add: numeral_eq_Suc)
  have rest: "print_ints [guest, guest_nice] = [] \<or> \<not> is_digit (hd (print_ints [guest, guest_nice]))" by simp
  have ints: "extract_ints (replicate 8 (Unsigned 64)) (istream_of (CHR '' '' # print_ints ?is)) =
      (map Some ?eight, istream_of (print_ints [guest, guest_nice]))"
  proof -
    have "extract_ints (replicate 8 (Unsigned 64)) (istream_of (CHR '' '' # print_ints ?is)) =
        extract_ints (replicate 8 (Unsigned 64)) (istream_of (print_ints ?is))"
      by (simp add: numeral_eq_Suc blank)
    moreover have "print_ints ?is = print_ints ?eight @ print_ints [guest, guest_nice]" by simp
    moreover note extract_printed_ints [OF eight rest]
    ultimately show ?thesis by (simp only:)
  qed
  let ?core = "\<lparr>cj_name = ''cpu'', cj_user = word_of_int user, cj_nice = word_of_int nice,
      cj_system = word_of_int sys, cj_idle = word_of_int idle, cj_iowait = word_of_int iowait,
      cj_irq = word_of_int irq, cj_softirq = word_of_int softirq, cj_steal = word_of_int steal\<rparr>"
  have core: "parse_core ?line = ?core"
    unfolding parse_core_def Let_def word prod.case ints by (simp add: stored_def)
  have "is_cpu_line ?line" by (simp add: is_cpu_line_def)
  then have "snapshot_line ?line empty_snapshot = empty_snapshot\<lparr>cs_cores := [?core]\<rparr>"
    unfolding snapshot_line_def core by (simp add: empty_snapshot_def)
  moreover have fl: "fs ''/proc/stat'' = Some (?line @ newline # mtext)" using assms(1) by simp
  moreover have "read_cpu_snapshot fs = fold snapshot_line (text_lines mtext) (snapshot_line ?line empty_snapshot)"
    unfolding read_cpu_snapshot_def fl option.case lines by simp
  ultimately obtain js where js: "cs_cores (read_cpu_snapshot fs) = ?core # js"
    using snapshot_fold_cores [of "text_lines mtext" "empty_snapshot\<lparr>cs_cores := [?core]\<rparr>"] by auto
  have "sum_u64s 0 (istream_of (CHR '' '' # print_ints ?is)) = sum_u64s 0 (istream_of (print_ints ?is))"
    by (subst (1 2) sum_u64s.simps) (simp add: blank)
  then have "read_total_cpu_jiffies fs = sum_list (map word_of_int ?is)"
    unfolding read_total_cpu_jiffies_def fl option.case lines list.case word snd_conv
    using sum_u64s_printed [OF assms(2), of 0] by (simp del: print_ints_simps)
  with js show ?thesis by (simp add: jiffies_total_def)
qed

lemma total_jiffies_count_guests_witness:
  defines "fs \<equiv> \<lambda>path :: string. Some (''cpu '' @ print_ints [100, 20, 30, 400, 5, 6, 7, 8, 90, 10] @ newline # ''intr 5'')"
  shows "read_total_cpu_jiffies fs = 676 \<and> jiffies_total (hd (cs_cores (read_cpu_snapshot fs))) = 576"
  using total_jiffies_count_guests [of fs 100 20 30 400 5 6 7 8 90 10 "''intr 5''"]
  by (auto simp: fs_def jiffies_total_def simp del: print_ints_simps)

end
