(* ===== verification/Scanf.thy ===== *)
theory Scanf
  imports ProcReader "HOL-Library.Monad_Syntax"
begin

text \<open>
  Hexadecimal numbers as \<open>printf\<close> writes them and the conversions of \<open>sscanf\<close> that the symbol
  tables are read with. A conversion returns what it stored and the rest of the input, \<open>None\<close> when
  it does not match.
\<close>

section \<open>Hexadecimal numbers\<close>

definition hex_char :: "nat \<Rightarrow> char" where
  "hex_char d = (if d < 10 then char_of (48 + d) else char_of (87 + d))"

fun show_hex :: "nat \<Rightarrow> string" where
  "show_hex n = (if n < 16 then [hex_char n] else show_hex (n div 16) @ [hex_char (n mod 16)])"

declare show_hex.simps [simp del]

definition hex_value :: "char \<Rightarrow> nat option" where
  "hex_value c =
     (let k = (of_char c :: nat)
      in if 48 \<le> k \<and> k \<le> 57 then Some (k - 48)
         else if 97 \<le> k \<and> k \<le> 102 then Some (k - 87)
         else if 65 \<le> k \<and> k \<le> 70 then Some (k - 55) else None)"

definition is_hex :: "char \<Rightarrow> bool" where
  "is_hex c \<longleftrightarrow> hex_value c \<noteq> None"

definition hex_number :: "string \<Rightarrow> nat" where
  "hex_number = foldl (\<lambda>n c. 16 * n + (case hex_value c of None \<Rightarrow> 0 | Some d \<Rightarrow> d)) 0"

section \<open>Conversions\<close>

definition c_str :: "string \<Rightarrow> string" where
  "c_str = takeWhile (\<lambda>c. c \<noteq> CHR 0x00)"

definition scan_literal :: "string \<Rightarrow> string \<Rightarrow> string option" where
  "scan_literal lit s = (if take (length lit) s = lit then Some (drop (length lit) s) else None)"

text \<open>The unsigned conversions are \<open>strtoul\<close>: the largest value when out of range, a minus sign negates.\<close>

definition unsigned_long :: "bool \<Rightarrow> nat \<Rightarrow> u64" where
  "unsigned_long neg n = (if 2 ^ 64 \<le> n then - 1 else if neg then - of_nat n else of_nat n)"

definition scan_lx :: "string \<Rightarrow> (u64 \<times> string) option" where
  "scan_lx s =
     (let (neg, s) = split_sign (dropWhile is_space s);
          s = (if take 2 s \<in> {''0x'', ''0X''} then drop 2 s else s);
          ds = takeWhile is_hex s
      in if ds = [] then None else Some (unsigned_long neg (hex_number ds), dropWhile is_hex s))"

definition scan_lu :: "string \<Rightarrow> (u64 \<times> string) option" where
  "scan_lu s =
     (let (neg, s) = split_sign (dropWhile is_space s); ds = takeWhile is_digit s
      in if ds = [] then None
         else Some (unsigned_long neg (digits_value 0 ds), dropWhile is_digit s))"

text \<open>\<open>%ns\<close> skips white space; \<open>%c\<close> and \<open>%n[...]\<close> do not.\<close>

definition scan_some :: "(char \<Rightarrow> bool) \<Rightarrow> nat \<Rightarrow> string \<Rightarrow> (string \<times> string) option" where
  "scan_some P n s =
     (let w = take n (takeWhile P s) in if w = [] then None else Some (w, drop (length w) s))"

definition scan_s :: "nat \<Rightarrow> string \<Rightarrow> (string \<times> string) option" where
  "scan_s n s = scan_some (\<lambda>c. \<not> is_space c) n (dropWhile is_space s)"

definition scan_c :: "string \<Rightarrow> (char \<times> string) option" where
  "scan_c s = (case s of [] \<Rightarrow> None | c # cs \<Rightarrow> Some (c, cs))"

section \<open>Reading what was printed\<close>

lemma hex_value_char: "d < 16 \<Longrightarrow> hex_value (hex_char d) = Some d"
  by (simp add: hex_value_def hex_char_def)

lemma show_hex_not_empty [simp]: "show_hex n \<noteq> []"
  by (subst show_hex.simps) simp

lemma is_hex_char: "d < 16 \<Longrightarrow> is_hex (hex_char d)"
  by (simp add: is_hex_def hex_value_char)

lemma show_hex_hex: "list_all is_hex (show_hex n)"
proof (induction n rule: show_hex.induct)
  case (1 n)
  then show ?case by (subst show_hex.simps) (simp add: is_hex_char)
qed

lemma hex_number_append:
  "hex_number (xs @ [c]) = 16 * hex_number xs + (case hex_value c of None \<Rightarrow> 0 | Some d \<Rightarrow> d)"
  by (simp add: hex_number_def)

lemma hex_number_show: "hex_number (show_hex n) = n"
proof (induction n rule: show_hex.induct)
  case (1 n)
  show ?case
  proof (cases "n < 16")
    case True
    then show ?thesis by (subst show_hex.simps) (simp add: hex_number_def hex_value_char)
  next
    case False
    with 1 show ?thesis by (subst show_hex.simps) (simp add: hex_number_append hex_value_char)
  qed
qed

lemma hex_number_zeros: "hex_number (replicate k (CHR ''0'') @ s) = hex_number s"
  by (induction k) (simp_all add: hex_number_def hex_value_def)

lemma is_hex_zero: "is_hex (CHR ''0'')"
  by (simp add: is_hex_def hex_value_def)

lemma not_hex_literals:
  "\<not> is_hex (CHR ''-'')" "\<not> is_hex (CHR '' '')" "\<not> is_hex (CHR '']'')" "\<not> is_hex (CHR ''x'')"
  "\<not> is_hex (CHR ''X'')" "\<not> is_hex (CHR ''+'')" "\<not> is_hex (CHR '':'')"
  by (simp_all add: is_hex_def hex_value_def)

lemma not_space_hex: "is_hex c \<Longrightarrow> \<not> is_space c"
  by (auto simp: is_hex_def hex_value_def is_space_def Let_def split: if_splits)

lemma takeWhile_app: "list_all P xs \<Longrightarrow> rest = [] \<or> \<not> P (hd rest) \<Longrightarrow>
    takeWhile P (xs @ rest) = xs \<and> dropWhile P (xs @ rest) = rest"
  by (induction xs) (cases rest, auto)

lemma take_two: "take 2 (a # b # xs) = [a, b]"
  by (simp add: numeral_2_eq_2)

text \<open>A zero-padded hexadecimal number is read up to the next other character.\<close>

lemma scan_lx_show:
  assumes "n < 2 ^ 64" "rest = [] \<or> \<not> is_hex (hd rest) \<and> hd rest \<noteq> CHR ''x'' \<and> hd rest \<noteq> CHR ''X''"
  shows "scan_lx (replicate k (CHR ''0'') @ show_hex n @ rest) = Some (of_nat n, rest)"
proof -
  let ?ds = "replicate k (CHR ''0'') @ show_hex n"
  have all: "list_all is_hex ?ds" using show_hex_hex [of n] by (auto simp: is_hex_zero list_all_iff)
  obtain c cs where c: "?ds = c # cs" "is_hex c" using all by (cases ?ds) auto
  from c(2) have nsp: "\<not> is_space c" "c \<noteq> CHR ''-''" "c \<noteq> CHR ''+''"
    using not_space_hex not_hex_literals by auto
  have tk: "takeWhile is_hex (?ds @ rest) = ?ds" "dropWhile is_hex (?ds @ rest) = rest"
    using takeWhile_app [OF all, of rest] assms(2) by auto
  have nx: "take 2 (?ds @ rest) \<notin> {''0x'', ''0X''}"
  proof (cases cs)
    case Nil
    then show ?thesis using c assms(2) by (cases rest) (auto simp: take_two)
  next
    case (Cons d ds)
    then have "is_hex d" using all c by simp
    then show ?thesis using c Cons not_hex_literals by (auto simp: take_two)
  qed
  have "split_sign (dropWhile is_space (?ds @ rest)) = (False, ?ds @ rest)"
    using c nsp by (simp add: split_sign_def)
  moreover have "unsigned_long False (hex_number ?ds) = of_nat n"
    using assms(1) by (simp add: unsigned_long_def hex_number_zeros hex_number_show)
  moreover have "?ds \<noteq> []" by simp
  ultimately show ?thesis
    unfolding scan_lx_def using tk nx by (simp add: Let_def del: append_is_Nil_conv)
qed

lemma scan_lu_show:
  assumes "n < 2 ^ 64" "rest = [] \<or> \<not> is_digit (hd rest)"
  shows "scan_lu (show_nat n @ rest) = Some (of_nat n, rest)"
proof -
  obtain c cs where c: "show_nat n = c # cs" "is_digit c" by (rule show_nat_hd)
  then have nsp: "\<not> is_space c" "c \<noteq> CHR ''-''" "c \<noteq> CHR ''+''"
    using not_digit_literals not_space_digit by metis+
  have tk: "takeWhile is_digit (show_nat n @ rest) = show_nat n" "dropWhile is_digit (show_nat n @ rest) = rest"
    using takeWhile_app [OF show_nat_digits assms(2)] by auto
  have "split_sign (dropWhile is_space (show_nat n @ rest)) = (False, show_nat n @ rest)"
    using c nsp by (simp add: split_sign_def)
  then show ?thesis
    unfolding scan_lu_def using tk assms(1) by (simp add: Let_def unsigned_long_def digits_value_show)
qed

lemma scan_some_all:
  assumes "list_all P w" "w \<noteq> []" "length w \<le> n" "rest = [] \<or> \<not> P (hd rest)"
  shows "scan_some P n (w @ rest) = Some (w, rest)"
  using takeWhile_app [OF assms(1,4)] assms(2,3) by (simp add: scan_some_def Let_def)

lemma scan_s_word:
  assumes "list_all (\<lambda>c. \<not> is_space c) w" "w \<noteq> []" "length w \<le> n" "rest = [] \<or> is_space (hd rest)"
  shows "scan_s n (CHR '' '' # w @ rest) = Some (w, rest)"
proof -
  have "dropWhile is_space (CHR '' '' # w @ rest) = w @ rest"
    using assms(1,2) by (cases w) (auto simp: is_space_def)
  then show ?thesis using assms by (simp add: scan_s_def scan_some_all)
qed

lemma skip_space: "scan_lx (CHR '' '' # s) = scan_lx s" "scan_lu (CHR '' '' # s) = scan_lu s"
  by (simp_all add: scan_lx_def scan_lu_def is_space_def)

end
