(* ===== verification/BpfLoader.thy ===== *)
theory BpfLoader
  imports Bpf Status DataBatch Scanf "HOL-Library.Multiset"
begin

text \<open>
  The user-space side of the probes (\<open>src/ebpf/loader/\<close>): \<open>BpfProgramManager\<close>, the probe of kernel
  features, the lookup of stack traces and the loop that walks a BPF table. libbpf and the kernel are
  the parameters of a record; what each call returns may depend on all calls made before it, which a
  manager keeps in \<open>bm_calls\<close>. Objects, links and ring buffers are handles.
\<close>

section \<open>libbpf\<close>

type_synonym handle = nat

datatype bpf_call =
    Open string "handle option"
  | Load handle int
  | Close handle
  | Attach handle string "handle option"
  | Destroy handle
  | RingNew int "handle option"
  | RingFree handle
  | PerfOpen int int
  | PerfIoctl int string bool
  | PerfClose int

record libbpf =
  lb_open :: "bpf_call list \<Rightarrow> string \<Rightarrow> handle option" \<comment> \<open>\<open>bpf_object__open\<close>\<close>
  lb_load :: "bpf_call list \<Rightarrow> handle \<Rightarrow> int" \<comment> \<open>\<open>bpf_object__load\<close>\<close>
  lb_map_fd :: "handle \<Rightarrow> string \<Rightarrow> int option" \<comment> \<open>\<open>bpf_object__find_map_by_name\<close>, \<open>bpf_map__fd\<close>\<close>
  lb_prog_fd :: "handle \<Rightarrow> string \<Rightarrow> int option" \<comment> \<open>\<open>bpf_object__find_program_by_name\<close>, \<open>bpf_program__fd\<close>\<close>
  lb_attach :: "bpf_call list \<Rightarrow> handle \<Rightarrow> string \<Rightarrow> handle option" \<comment> \<open>\<open>bpf_program__attach\<close>\<close>
  lb_ring_new :: "bpf_call list \<Rightarrow> int \<Rightarrow> handle option" \<comment> \<open>\<open>ring_buffer__new\<close>\<close>
  lb_perf_open :: "bpf_call list \<Rightarrow> int \<Rightarrow> int" \<comment> \<open>the system call \<open>perf_event_open\<close> on a processor\<close>
  lb_ioctl :: "bpf_call list \<Rightarrow> int \<Rightarrow> string \<Rightarrow> bool" \<comment> \<open>whether an \<open>ioctl\<close> of a perf event succeeds\<close>

section \<open>BpfProgramManager\<close>

record bpf_manager =
  bm_objects :: "(string \<times> handle) list"
  bm_links :: "handle list"
  bm_calls :: "bpf_call list"

definition bpf_manager_new :: bpf_manager where
  "bpf_manager_new = \<lparr>bm_objects = [], bm_links = [], bm_calls = []\<rparr>"

definition called :: "bpf_call list \<Rightarrow> bpf_manager \<Rightarrow> bpf_manager" where
  "called cs m = m\<lparr>bm_calls := bm_calls m @ cs\<rparr>"

definition load_object :: "libbpf \<Rightarrow> string \<Rightarrow> string \<Rightarrow> bpf_manager \<Rightarrow> status \<times> bpf_manager" where
  "load_object lb name path m =
     (let obj = lb_open lb (bm_calls m) path; m = called [Open path obj] m
      in case obj of
           None \<Rightarrow> (status_error Internal (''Failed to open BPF object: '' @ path), m)
         | Some h \<Rightarrow>
             (let err = lb_load lb (bm_calls m) h; m = called [Load h err] m
              in if err \<noteq> 0
                 then (status_error Internal (''Failed to load BPF object: '' @ path @ '' (err='' @ show_int err @ '')''),
                       called [Close h] m)
                 else (status_ok, m\<lparr>bm_objects := AList.update name h (bm_objects m)\<rparr>)))"

definition get_map_fd :: "libbpf \<Rightarrow> string \<Rightarrow> string \<Rightarrow> bpf_manager \<Rightarrow> int" where
  "get_map_fd lb obj_name map_name m =
     (case map_of (bm_objects m) obj_name of
        None \<Rightarrow> -1
      | Some h \<Rightarrow> (case lb_map_fd lb h map_name of None \<Rightarrow> -1 | Some fd \<Rightarrow> fd))"

definition get_prog_fd :: "libbpf \<Rightarrow> string \<Rightarrow> string \<Rightarrow> bpf_manager \<Rightarrow> int" where
  "get_prog_fd lb obj_name prog_name m =
     (case map_of (bm_objects m) obj_name of
        None \<Rightarrow> -1
      | Some h \<Rightarrow> (case lb_prog_fd lb h prog_name of None \<Rightarrow> -1 | Some fd \<Rightarrow> fd))"

definition attach_program :: "libbpf \<Rightarrow> string \<Rightarrow> string \<Rightarrow> bpf_manager \<Rightarrow> status \<times> bpf_manager" where
  "attach_program lb obj_name prog_name m =
     (case map_of (bm_objects m) obj_name of
        None \<Rightarrow> (status_error NotFound (''BPF object not found: '' @ obj_name), m)
      | Some h \<Rightarrow>
          (case lb_prog_fd lb h prog_name of
             None \<Rightarrow> (status_error NotFound (''BPF program not found: '' @ prog_name), m)
           | Some _ \<Rightarrow>
               (let link = lb_attach lb (bm_calls m) h prog_name; m = called [Attach h prog_name link] m
                in case link of
                     None \<Rightarrow> (status_error Internal (''Failed to attach: '' @ prog_name), m)
                   | Some l \<Rightarrow> (status_ok, m\<lparr>bm_links := bm_links m @ [l]\<rparr>))))"

fun attach_each :: "libbpf \<Rightarrow> string \<Rightarrow> string list \<Rightarrow> bpf_manager \<Rightarrow> nat \<times> bpf_manager" where
  "attach_each lb obj_name [] m = (0, m)"
| "attach_each lb obj_name (p # ps) m =
     (let (st, m) = attach_program lb obj_name p m; (failures, m) = attach_each lb obj_name ps m
      in ((if is_ok st then 0 else 1) + failures, m))"

definition attach_programs :: "libbpf \<Rightarrow> string \<Rightarrow> string list \<Rightarrow> bpf_manager \<Rightarrow> status \<times> bpf_manager" where
  "attach_programs lb obj_name prog_names m =
     (let (failures, m) = attach_each lb obj_name prog_names m
      in if prog_names \<noteq> [] \<and> failures = length prog_names
         then (status_error Internal (''Failed to attach all '' @ show_nat failures @
                 '' BPF program(s) for object: '' @ obj_name), m)
         else (status_ok, m))"

definition detach_all :: "bpf_manager \<Rightarrow> bpf_manager" where
  "detach_all m = called (map Destroy (bm_links m)) m\<lparr>bm_links := []\<rparr>"

definition create_ring_buffer :: "libbpf \<Rightarrow> int \<Rightarrow> bpf_manager \<Rightarrow> handle option \<times> bpf_manager" where
  "create_ring_buffer lb fd m =
     (let r = lb_ring_new lb (bm_calls m) fd in (r, called [RingNew fd r] m))"

text \<open>The destructor.\<close>

definition bpf_manager_destroy :: "bpf_manager \<Rightarrow> bpf_manager" where
  "bpf_manager_destroy m = (let m = detach_all m in called (map (Close \<circ> snd) (bm_objects m)) m)"

section \<open>What is live in the kernel\<close>

text \<open>
  The handles that the calls leave open; \<open>None\<close> for a handle freed that is not open, which is a double
  free or worse.
\<close>

record live =
  lv_objects :: "handle multiset"
  lv_links :: "handle multiset"
  lv_rings :: "handle multiset"
  lv_perf :: "int multiset"

definition nothing_live :: live where
  "nothing_live = \<lparr>lv_objects = {#}, lv_links = {#}, lv_rings = {#}, lv_perf = {#}\<rparr>"

fun account :: "bpf_call \<Rightarrow> live \<Rightarrow> live option" where
  "account (Open _ (Some h)) l = Some (l\<lparr>lv_objects := add_mset h (lv_objects l)\<rparr>)"
| "account (Close h) l =
     (if h \<in># lv_objects l then Some (l\<lparr>lv_objects := lv_objects l - {#h#}\<rparr>) else None)"
| "account (Attach _ _ (Some k)) l = Some (l\<lparr>lv_links := add_mset k (lv_links l)\<rparr>)"
| "account (Destroy k) l =
     (if k \<in># lv_links l then Some (l\<lparr>lv_links := lv_links l - {#k#}\<rparr>) else None)"
| "account (RingNew _ (Some r)) l = Some (l\<lparr>lv_rings := add_mset r (lv_rings l)\<rparr>)"
| "account (RingFree r) l =
     (if r \<in># lv_rings l then Some (l\<lparr>lv_rings := lv_rings l - {#r#}\<rparr>) else None)"
| "account (PerfOpen _ fd) l = Some (if fd < 0 then l else l\<lparr>lv_perf := add_mset fd (lv_perf l)\<rparr>)"
| "account (PerfClose fd) l =
     (if fd \<in># lv_perf l then Some (l\<lparr>lv_perf := lv_perf l - {#fd#}\<rparr>) else None)"
| "account _ l = Some l"

fun replay :: "bpf_call list \<Rightarrow> live \<Rightarrow> live option" where
  "replay [] l = Some l"
| "replay (c # cs) l = (case account c l of None \<Rightarrow> None | Some l \<Rightarrow> replay cs l)"

lemma replay_append [simp]:
  "replay (cs @ ds) l = (case replay cs l of None \<Rightarrow> None | Some l \<Rightarrow> replay ds l)"
  by (induction cs arbitrary: l) (simp_all split: option.split)

text \<open>
  The account of a manager: its objects and links are live, and besides them the objects \<open>lost\<close>, which
  no name stands for, the ring buffers and the perf events that its owner holds.
\<close>

definition accounts :: "handle multiset \<Rightarrow> handle multiset \<Rightarrow> int multiset \<Rightarrow> bpf_manager \<Rightarrow> bool" where
  "accounts lost rings perf m \<longleftrightarrow> distinct (map fst (bm_objects m)) \<and>
     replay (bm_calls m) nothing_live =
       Some \<lparr>lv_objects = mset (map snd (bm_objects m)) + lost, lv_links = mset (bm_links m),
             lv_rings = rings, lv_perf = perf\<rparr>"

lemma called_simps [simp]:
  "bm_objects (called cs m) = bm_objects m" "bm_links (called cs m) = bm_links m"
  "bm_calls (called cs m) = bm_calls m @ cs"
  by (simp_all add: called_def)

lemma accounts_new: "accounts {#} {#} {#} bpf_manager_new"
  by (simp add: accounts_def bpf_manager_new_def nothing_live_def)

text \<open>The objects that a load of \<open>name\<close> replaces.\<close>

definition replaced :: "string \<Rightarrow> bpf_manager \<Rightarrow> handle multiset" where
  "replaced name m = (case map_of (bm_objects m) name of None \<Rightarrow> {#} | Some h \<Rightarrow> {#h#})"

lemma mset_alist_update:
  "distinct (map fst al) \<Longrightarrow> mset (map snd (AList.update k v al)) +
     (case map_of al k of None \<Rightarrow> {#} | Some w \<Rightarrow> {#w#}) = add_mset v (mset (map snd al))"
proof (induction al)
  case (Cons e al)
  then show ?case by (cases e) (simp add: add_mset_commute map_of_eq_None_iff split: option.split)
qed simp

lemma accounts_load:
  assumes "accounts lost rings perf m" "load_object lb name path m = (st, m')"
  shows "accounts (if is_ok st then lost + replaced name m else lost) rings perf m'"
proof -
  have "mset (map snd (AList.update name h (bm_objects m))) + replaced name m =
      add_mset h (mset (map snd (bm_objects m)))" for h
    using assms(1) mset_alist_update [of "bm_objects m"] by (simp add: accounts_def replaced_def)
  with assms show ?thesis
    by (auto simp: load_object_def accounts_def Let_def distinct_update add.commute add.left_commute
        split: option.splits if_splits)
qed

lemma accounts_attach:
  assumes "accounts lost rings perf m" "attach_program lb obj p m = (st, m')"
  shows "accounts lost rings perf m' \<and> bm_objects m' = bm_objects m \<and>
    length (bm_links m') = length (bm_links m) + (if is_ok st then 1 else 0)"
  using assms by (auto simp: attach_program_def accounts_def Let_def split: option.splits)

lemma accounts_attach_each:
  assumes "accounts lost rings perf m" "attach_each lb obj ps m = (n, m')"
  shows "accounts lost rings perf m' \<and> bm_objects m' = bm_objects m \<and>
    length (bm_links m') + n = length (bm_links m) + length ps \<and> n \<le> length ps"
  using assms
proof (induction ps arbitrary: m n m')
  case (Cons p ps)
  obtain st m1 where a: "attach_program lb obj p m = (st, m1)" by (cases "attach_program lb obj p m")
  obtain k m2 where b: "attach_each lb obj ps m1 = (k, m2)" by (cases "attach_each lb obj ps m1")
  from accounts_attach [OF Cons.prems(1) a] Cons.IH [OF _ b] Cons.prems(2)
  show ?case by (auto simp: a b split: if_splits)
qed simp

lemma accounts_attach_programs:
  assumes "accounts lost rings perf m" "attach_programs lb obj ps m = (st, m')"
  shows "accounts lost rings perf m' \<and> bm_objects m' = bm_objects m \<and>
    (is_ok st \<longleftrightarrow> ps = [] \<or> length (bm_links m) < length (bm_links m'))"
proof -
  obtain n m1 where n: "attach_each lb obj ps m = (n, m1)" by (cases "attach_each lb obj ps m")
  from accounts_attach_each [OF assms(1) n] assms(2) show ?thesis
    by (auto simp: attach_programs_def n split: if_splits)
qed

lemma replay_destroys:
  "replay (map Destroy ks) (l\<lparr>lv_links := mset ks + x\<rparr>) = Some (l\<lparr>lv_links := x\<rparr>)"
  by (induction ks) simp_all

lemma replay_closes:
  "replay (map Close hs) (l\<lparr>lv_objects := mset hs + x\<rparr>) = Some (l\<lparr>lv_objects := x\<rparr>)"
  by (induction hs) simp_all

lemma accounts_detach: "accounts lost rings perf m \<Longrightarrow> accounts lost rings perf (detach_all m)"
  using replay_destroys [of "bm_links m" "{#}" "\<lparr>lv_objects = mset (map snd (bm_objects m)) + lost,
    lv_links = {#}, lv_rings = rings, lv_perf = perf\<rparr>"]
  by (simp add: accounts_def detach_all_def)

lemma detach_all_simps [simp]: "bm_links (detach_all m) = []" "bm_objects (detach_all m) = bm_objects m"
  by (simp_all add: detach_all_def)

lemma accounts_ring:
  "accounts lost rings perf m \<Longrightarrow> create_ring_buffer lb fd m = (r, m') \<Longrightarrow>
   accounts lost (rings + (case r of None \<Rightarrow> {#} | Some h \<Rightarrow> {#h#})) perf m' \<and>
   bm_objects m' = bm_objects m \<and> bm_links m' = bm_links m"
  by (auto simp: accounts_def create_ring_buffer_def Let_def split: option.splits)

lemma accounts_ring_free:
  "accounts lost (add_mset r rings) perf m \<Longrightarrow> accounts lost rings perf (called [RingFree r] m)"
  by (simp add: accounts_def)

lemma destroy_account:
  assumes "accounts lost rings perf m"
  shows "replay (bm_calls (bpf_manager_destroy m)) nothing_live =
    Some \<lparr>lv_objects = lost, lv_links = {#}, lv_rings = rings, lv_perf = perf\<rparr>"
  using accounts_detach [OF assms] replay_closes [of "map snd (bm_objects m)" lost
      "\<lparr>lv_objects = {#}, lv_links = {#}, lv_rings = rings, lv_perf = perf\<rparr>"]
  by (simp add: accounts_def bpf_manager_destroy_def comp_def)

section \<open>The manager releases what it holds\<close>

datatype manager_op =
    LoadOp string string
  | AttachOp string string
  | AttachManyOp string "string list"
  | DetachOp

fun manager_step :: "libbpf \<Rightarrow> manager_op \<Rightarrow> bpf_manager \<Rightarrow> bpf_manager" where
  "manager_step lb (LoadOp name path) m = snd (load_object lb name path m)"
| "manager_step lb (AttachOp obj prog) m = snd (attach_program lb obj prog m)"
| "manager_step lb (AttachManyOp obj progs) m = snd (attach_programs lb obj progs m)"
| "manager_step lb DetachOp m = detach_all m"

definition load_names :: "manager_op list \<Rightarrow> string list" where
  "load_names ops = List.map_filter (\<lambda>x. case x of LoadOp name _ \<Rightarrow> Some name | _ \<Rightarrow> None) ops"

lemma manager_run_accounts:
  assumes "accounts lost {#} {#} m"
  shows "\<exists>lost'. accounts lost' {#} {#} (fold (manager_step lb) ops m) \<and>
    (distinct (load_names ops) \<and> (\<forall>n \<in> set (load_names ops). map_of (bm_objects m) n = None) \<longrightarrow>
      lost' = lost)"
  using assms
proof (induction ops arbitrary: m lost)
  case Nil
  then show ?case by auto
next
  case (Cons x ops)
  show ?case
  proof (cases x)
    case (LoadOp name path)
    obtain st m1 where l: "load_object lb name path m = (st, m1)" by (cases "load_object lb name path m")
    let ?lost = "if is_ok st then lost + replaced name m else lost"
    from Cons.IH [OF accounts_load [OF Cons.prems l]] obtain lost' where
      run: "accounts lost' {#} {#} (fold (manager_step lb) ops m1)" and
      kept: "distinct (load_names ops) \<and> (\<forall>n \<in> set (load_names ops). map_of (bm_objects m1) n = None) \<longrightarrow>
        lost' = ?lost" by blast
    have objs: "bm_objects m1 = (if is_ok st then bm_objects m1 else bm_objects m) \<and>
        (\<forall>n. n \<noteq> name \<longrightarrow> map_of (bm_objects m1) n = map_of (bm_objects m) n)"
      using l by (auto simp: load_object_def Let_def update_conv' split: option.splits if_splits)
    have names: "load_names (x # ops) = name # load_names ops"
      by (simp add: load_names_def LoadOp List.map_filter_simps)
    have "lost' = lost" if "distinct (load_names (x # ops))"
      "\<forall>n \<in> set (load_names (x # ops)). map_of (bm_objects m) n = None"
    proof -
      from that names objs have "\<forall>n \<in> set (load_names ops). map_of (bm_objects m1) n = None" by auto
      with kept that names show ?thesis by (simp add: replaced_def)
    qed
    with run show ?thesis by (auto simp: LoadOp l)
  next
    case (AttachOp obj p)
    obtain st m1 where a: "attach_program lb obj p m = (st, m1)" by (cases "attach_program lb obj p m")
    from accounts_attach [OF Cons.prems a] Cons.IH [of lost m1] AttachOp a show ?thesis
      by (auto simp: load_names_def List.map_filter_simps)
  next
    case (AttachManyOp obj ps)
    obtain st m1 where a: "attach_programs lb obj ps m = (st, m1)" by (cases "attach_programs lb obj ps m")
    from accounts_attach_programs [OF Cons.prems a] Cons.IH [of lost m1] AttachManyOp a show ?thesis
      by (auto simp: load_names_def List.map_filter_simps)
  next
    case DetachOp
    with Cons.IH [OF accounts_detach [OF Cons.prems]] show ?thesis
      by (simp add: load_names_def List.map_filter_simps)
  qed
qed

text \<open>
  C33: the program manager frees what it opened, once. However loading, attaching and detaching fail and
  succeed, no handle is freed twice or without being open, and after the destructor no link is left;
  no object either, if no name was loaded twice. Loading a name again forgets the object it stood for
  (with its maps and programs in the kernel) without closing it.
\<close>

theorem manager_releases_all:
  "\<exists>lost. replay (bm_calls (bpf_manager_destroy (fold (manager_step lb) ops bpf_manager_new))) nothing_live =
      Some (nothing_live\<lparr>lv_objects := lost\<rparr>) \<and>
    (distinct (load_names ops) \<longrightarrow> lost = {#})"
proof -
  from manager_run_accounts [OF accounts_new, of lb ops] obtain lost where
    "accounts lost {#} {#} (fold (manager_step lb) ops bpf_manager_new)"
    "distinct (load_names ops) \<longrightarrow> lost = {#}"
    by (auto simp: bpf_manager_new_def)
  with destroy_account show ?thesis by (auto simp: nothing_live_def)
qed

definition sample_libbpf :: libbpf where
  "sample_libbpf = \<lparr>lb_open = \<lambda>calls _. Some (length calls), lb_load = \<lambda>_ _. 0,
     lb_map_fd = \<lambda>_ _. Some 3, lb_prog_fd = \<lambda>_ _. Some 4,
     lb_attach = \<lambda>calls _ _. Some (length calls), lb_ring_new = \<lambda>calls _. Some (length calls),
     lb_perf_open = \<lambda>calls cpu. 10 + cpu, lb_ioctl = \<lambda>_ _ _. True\<rparr>"

lemma manager_releases_all_witness:
  "replay (bm_calls (bpf_manager_destroy (fold (manager_step sample_libbpf)
     [LoadOp ''a'' ''a.o'', AttachOp ''a'' ''p''] bpf_manager_new))) nothing_live = Some nothing_live"
  using manager_releases_all [of sample_libbpf "[LoadOp ''a'' ''a.o'', AttachOp ''a'' ''p'']"]
  by (simp add: load_names_def List.map_filter_simps nothing_live_def)

lemma reload_loses_object:
  "replay (bm_calls (bpf_manager_destroy (fold (manager_step sample_libbpf)
     [LoadOp ''a'' ''a.o'', LoadOp ''a'' ''a.o''] bpf_manager_new))) nothing_live =
   Some (nothing_live\<lparr>lv_objects := {#0#}\<rparr>)"
  by (simp add: load_object_def called_def sample_libbpf_def bpf_manager_new_def bpf_manager_destroy_def
      detach_all_def nothing_live_def Let_def)

section \<open>Kernel features\<close>

text \<open>
  \<open>sscanf\<close> with the format of the code: a space of the format matches any white space, \<open>%d\<close> skips
  white space, and glibc reads it as a saturating \<open>long\<close> that it stores into the \<open>int\<close>.
\<close>

record kernel_features =
  kf_has_btf :: bool
  kf_has_ringbuf :: bool
  kf_has_bpf_tracing :: bool
  kf_major :: int
  kf_minor :: int
  kf_patch :: int

definition stored_long :: "int \<Rightarrow> int" where
  "stored_long i = sint (word_of_int (max (- (2 ^ 63)) (min (2 ^ 63 - 1) i)) :: s32)"

definition scan_int :: "string \<Rightarrow> (int \<times> string) option" where
  "scan_int s =
     (let s = dropWhile is_space s;
          (neg, s) = (case s of [] \<Rightarrow> (False, [])
                      | c # cs \<Rightarrow> if c = CHR ''-'' then (True, cs)
                                else if c = CHR ''+'' then (False, cs) else (False, c # cs));
          ds = takeWhile is_digit s; n = int (digits_value 0 ds)
      in if ds = [] then None else Some (stored_long (if neg then - n else n), dropWhile is_digit s))"

text \<open>The numbers that \<open>sscanf\<close> stores, in the order of the format.\<close>

fun scan_dotted :: "nat \<Rightarrow> string \<Rightarrow> int list" where
  "scan_dotted 0 s = []"
| "scan_dotted (Suc n) s =
     (case scan_int s of None \<Rightarrow> []
      | Some (i, rest) \<Rightarrow> i # (case scan_literal ''.'' rest of None \<Rightarrow> [] | Some rest \<Rightarrow> scan_dotted n rest))"

definition scan_version :: "string \<Rightarrow> int list" where
  "scan_version line =
     (case scan_literal ''Linux'' line of None \<Rightarrow> []
      | Some rest \<Rightarrow>
          (case scan_literal ''version'' (dropWhile is_space rest) of None \<Rightarrow> []
           | Some rest \<Rightarrow> scan_dotted 3 rest))"

text \<open>Of the files, \<open>btf\<close> is whether the first can be opened and \<open>version\<close> is the contents of the second.\<close>

definition probe_kernel_features :: "bool \<Rightarrow> string option \<Rightarrow> kernel_features" where
  "probe_kernel_features btf version =
     (let line = (case version of None \<Rightarrow> [] | Some s \<Rightarrow> takeWhile (\<lambda>c. c \<noteq> CHR 0x0A) s);
          (major, minor, patch) = (case scan_version line of
             [a, b, c] \<Rightarrow> (a, b, c) | [a, b] \<Rightarrow> (a, b, 0) | _ \<Rightarrow> (0, 0, 0))
      in \<lparr>kf_has_btf = btf, kf_has_ringbuf = major > 5 \<or> major = 5 \<and> minor \<ge> 8,
          kf_has_bpf_tracing = major > 4 \<or> major = 4 \<and> minor \<ge> 14,
          kf_major = major, kf_minor = minor, kf_patch = patch\<rparr>)"

lemma stored_long_small: "n < 2 ^ 31 \<Longrightarrow> stored_long (int n) = int n"
  by (simp add: stored_long_def sint_sbintrunc' signed_take_bit_int_eq_self del: of_int_of_nat_eq)

lemma scan_int_show:
  assumes "n < 2 ^ 31" "rest = [] \<or> \<not> is_digit (hd rest)" "sp = [] \<or> sp = '' ''"
  shows "scan_int (sp @ show_nat n @ rest) = Some (int n, rest)"
proof -
  obtain c cs where c: "show_nat n = c # cs" "is_digit c" by (rule show_nat_hd)
  then have sign: "c \<noteq> CHR ''-''" "c \<noteq> CHR ''+''" "\<not> is_space c"
    using not_digit_literals not_space_digit by metis+
  have space: "dropWhile is_space (sp @ c # cs @ rest) = c # cs @ rest"
    using sign assms(3) by (auto simp: is_space_def)
  have ds: "takeWhile is_digit (c # cs @ rest) = c # cs"
    using take_digits_show [OF assms(2), of n] c by simp
  have tl: "dropWhile is_digit (c # cs @ rest) = rest"
    using takeWhile_dropWhile_id [of is_digit "c # cs @ rest"] unfolding ds by simp
  have "digits_value 0 (c # cs) = n" using digits_value_show [of n] c by simp
  then show ?thesis
    using sign by (simp add: scan_int_def c(1) space ds tl stored_long_small [OF assms(1)] del: takeWhile.simps dropWhile.simps digits_value.simps)
qed

text \<open>
  On the banner of a kernel, the features are those of its version: the three numbers are read back,
  and ring buffers and tracing are there from 5.8 and 4.14 on, in the order of versions.
\<close>

theorem kernel_features_of_version:
  assumes "a < 2 ^ 31" "b < 2 ^ 31" "c < 2 ^ 31" "rest = [] \<or> \<not> is_digit (hd rest)" "CHR 0x0A \<notin> set rest"
  shows "probe_kernel_features btf
      (Some (''Linux version '' @ show_nat a @ ''.'' @ show_nat b @ ''.'' @ show_nat c @ rest @ [CHR 0x0A])) =
    \<lparr>kf_has_btf = btf, kf_has_ringbuf = 5 < a \<or> a = 5 \<and> 8 \<le> b, kf_has_bpf_tracing = 4 < a \<or> a = 4 \<and> 14 \<le> b,
     kf_major = int a, kf_minor = int b, kf_patch = int c\<rparr>"
proof -
  let ?line = "''Linux version '' @ show_nat a @ ''.'' @ show_nat b @ ''.'' @ show_nat c @ rest"
  have "CHR 0x0A \<notin> set (show_nat n)" for n
  proof
    assume "CHR 0x0A \<in> set (show_nat n)"
    with show_nat_digits [of n] have "is_digit (CHR 0x0A)" by (auto simp: list_all_iff)
    then show False by (simp add: is_digit_def)
  qed
  with assms(5) have "CHR 0x0A \<notin> set ?line" by simp
  then have line: "takeWhile (\<lambda>c. c \<noteq> CHR 0x0A) (?line @ [CHR 0x0A]) = ?line"
    by (subst takeWhile_append2) auto
  have "scan_dotted 3 ('' '' @ show_nat a @ ''.'' @ show_nat b @ ''.'' @ show_nat c @ rest) = [int a, int b, int c]"
    using scan_int_show [OF assms(1), of "''.'' @ show_nat b @ ''.'' @ show_nat c @ rest" "'' ''"]
      scan_int_show [OF assms(2), of "''.'' @ show_nat c @ rest" "[]"]
      scan_int_show [OF assms(3,4), of "[]"]
    by (simp add: numeral_3_eq_3 scan_literal_def split: option.split)
  then have "scan_version ?line = [int a, int b, int c]"
    by (simp add: scan_version_def scan_literal_def is_space_def)
  with line show ?thesis by (simp add: probe_kernel_features_def)
qed

lemma kernel_features_of_version_witness:
  "probe_kernel_features True (Some (''Linux version '' @ show_nat 5 @ ''.'' @ show_nat 15 @ ''.'' @ show_nat 0 @
     ''-91-generic'' @ [CHR 0x0A])) =
   \<lparr>kf_has_btf = True, kf_has_ringbuf = True, kf_has_bpf_tracing = True, kf_major = 5, kf_minor = 15, kf_patch = 0\<rparr>"
  by (subst kernel_features_of_version) simp_all

end
