(* ===== verification/BpfTables.thy ===== *)
theory BpfTables
  imports BpfLoader
begin

text \<open>
  How the sources read the tables of their probes: the lookup of stack traces
  (\<open>src/ebpf/loader/stack_trace_util.h\<close>), and the loops that walk a hash table with
  \<open>bpf_map_get_next_key\<close>. The kernel's order of keys is a parameter; \<open>walk_order\<close> states what the
  loops rely on: the rows of a table that only loses rows come in a fixed order. A loop that may not
  end has the result \<open>None\<close>.
\<close>

section \<open>Stack traces\<close>

definition max_stack_depth :: nat where
  "max_stack_depth = 127"

definition frame_at :: "u64 \<Rightarrow> stack_frame" where
  "frame_at ip = \<lparr>sf_address = ip, sf_function_name = [], sf_file_name = [], sf_line_number = 0, sf_module_name = []\<rparr>"

definition lookup_bpf_stack_trace ::
  "(s32 \<rightharpoonup> u64 list) \<Rightarrow> int \<Rightarrow> s32 \<Rightarrow> nat \<Rightarrow> stack_frame list" where
  "lookup_bpf_stack_trace stacks stacks_fd stack_id max_depth =
     (if sint stack_id \<le> 0 \<or> stacks_fd < 0 then []
      else case stacks stack_id of
             None \<Rightarrow> []
           | Some ips \<Rightarrow> map frame_at (takeWhile (\<lambda>ip. ip \<noteq> 0) (take (min max_depth max_stack_depth) ips)))"

lemma lookup_stack_length: "length (lookup_bpf_stack_trace stacks fd i n) \<le> max_stack_depth"
  unfolding lookup_bpf_stack_trace_def
  by (auto simp: min_def intro: order_trans [OF length_takeWhile_le] split: option.split)

text \<open>\<open>std::string_view(comm, strnlen(comm, TASK_COMM_LEN))\<close>.\<close>

definition comm_text :: "string \<Rightarrow> string" where
  "comm_text comm = takeWhile (\<lambda>c. c \<noteq> CHR 0x00) (take task_comm_len comm)"

section \<open>Walking a table\<close>

type_synonym ('k, 'v) next_key = "('k \<rightharpoonup> 'v) \<Rightarrow> 'k option \<Rightarrow> 'k option"

definition order_next :: "'k list \<Rightarrow> ('k, 'v) next_key" where
  "order_next ks m cur =
     (let rest = (case cur of None \<Rightarrow> ks | Some k \<Rightarrow> drop 1 (dropWhile (\<lambda>x. x \<noteq> k) ks))
      in List.find (\<lambda>k. m k \<noteq> None) rest)"

definition walk_order :: "('k, 'v) next_key \<Rightarrow> 'k list \<Rightarrow> ('k \<rightharpoonup> 'v) \<Rightarrow> bool" where
  "walk_order nxt ks m \<longleftrightarrow> distinct ks \<and> set ks = dom m \<and>
     (\<forall>m' cur. m' \<subseteq>\<^sub>m m \<and> (\<forall>k. cur = Some k \<longrightarrow> m' k \<noteq> None) \<longrightarrow> nxt m' cur = order_next ks m' cur)"

partial_function (option) keys_from :: "('k option \<Rightarrow> 'k option) \<Rightarrow> 'k list \<Rightarrow> 'k option \<Rightarrow> 'k list option" where
  "keys_from nxt keys cur =
     (case nxt cur of
        None \<Rightarrow> Some keys
      | Some k \<Rightarrow> keys_from nxt (keys @ [k]) (Some k))"

partial_function (option) delete_from ::
  "('k, 'v) next_key \<Rightarrow> 'k option \<Rightarrow> ('k \<rightharpoonup> 'v) \<Rightarrow> ('k \<rightharpoonup> 'v) option" where
  "delete_from nxt cur m =
     (case cur of
        None \<Rightarrow> Some m
      | Some k \<Rightarrow> delete_from nxt (nxt m (Some k)) (m(k := None)))"

definition map_keys :: "('k, 'v) next_key \<Rightarrow> ('k \<rightharpoonup> 'v) \<Rightarrow> 'k list option" where
  "map_keys nxt m = keys_from (nxt m) [] None"

definition delete_all :: "('k, 'v) next_key \<Rightarrow> ('k \<rightharpoonup> 'v) \<Rightarrow> ('k \<rightharpoonup> 'v) option" where
  "delete_all nxt m = delete_from nxt (nxt m None) m"

lemma order_next_after:
  assumes "distinct (us @ k # vs)"
  shows "order_next (us @ k # vs) m (Some k) = List.find (\<lambda>k. m k \<noteq> None) vs"
proof -
  from assms have "k \<notin> set us" by simp
  then have "dropWhile (\<lambda>x. x \<noteq> k) (us @ k # vs) = k # vs"
    by (subst dropWhile_append2) auto
  then show ?thesis by (simp add: order_next_def)
qed

lemma find_present:
  "set vs \<subseteq> dom m \<Longrightarrow> List.find (\<lambda>k. m k \<noteq> None) vs = (case vs of [] \<Rightarrow> None | v # _ \<Rightarrow> Some v)"
  by (cases vs) (auto simp: dom_def)

lemma walk_order_next:
  assumes "walk_order nxt ks m" "ks = us @ k # vs" "m' \<subseteq>\<^sub>m m" "m' k \<noteq> None" "set vs \<subseteq> dom m'"
  shows "nxt m' (Some k) = (case vs of [] \<Rightarrow> None | v # _ \<Rightarrow> Some v)"
proof -
  from assms(1-4) have "nxt m' (Some k) = order_next ks m' (Some k)" unfolding walk_order_def by blast
  also have "\<dots> = List.find (\<lambda>k. m' k \<noteq> None) vs"
    unfolding assms(2) by (rule order_next_after) (use assms(1,2) in \<open>simp add: walk_order_def\<close>)
  also have "\<dots> = (case vs of [] \<Rightarrow> None | v # _ \<Rightarrow> Some v)" by (rule find_present [OF assms(5)])
  finally show ?thesis .
qed

lemma walk_order_first:
  assumes "walk_order nxt ks m"
  shows "nxt m None = (case ks of [] \<Rightarrow> None | k # _ \<Rightarrow> Some k)"
proof -
  from assms have "nxt m None = order_next ks m None" unfolding walk_order_def by auto
  also have "\<dots> = (case ks of [] \<Rightarrow> None | k # _ \<Rightarrow> Some k)"
    using assms find_present [of ks m] by (simp add: order_next_def walk_order_def)
  finally show ?thesis .
qed

lemma map_keys_walk:
  assumes "walk_order nxt ks m"
  shows "map_keys nxt m = Some ks"
proof -
  have step: "keys_from (nxt m) acc (Some k) = Some (acc @ vs)" if "ks = us @ k # vs" for us k vs acc
    using that
  proof (induction vs arbitrary: us k acc)
    case Nil
    have "m k \<noteq> None" using assms Nil by (auto simp: walk_order_def dom_def)
    with walk_order_next [OF assms Nil, of m] show ?case by (simp add: keys_from.simps [of _ _ "Some k"])
  next
    case (Cons v vs)
    have "set ks = dom m" using assms by (simp add: walk_order_def)
    with Cons.prems have "m k \<noteq> None" "set (v # vs) \<subseteq> dom m" by auto
    from walk_order_next [OF assms Cons.prems, of m] this have "nxt m (Some k) = Some v" by simp
    with Cons.IH [of "us @ [k]" v] Cons.prems show ?case by (simp add: keys_from.simps [of _ _ "Some k"])
  qed
  show ?thesis
  proof (cases ks)
    case Nil
    with walk_order_first [OF assms] show ?thesis by (simp add: map_keys_def keys_from.simps)
  next
    case (Cons k vs)
    with walk_order_first [OF assms] step [of "[]" k vs] show ?thesis
      by (simp add: map_keys_def keys_from.simps [of _ _ None])
  qed
qed

lemma delete_all_walk:
  assumes "walk_order nxt ks m"
  shows "delete_all nxt m = Some Map.empty"
proof -
  have dom: "set ks = dom m" and dist: "distinct ks" using assms by (simp_all add: walk_order_def)
  have step: "delete_from nxt (case vs of [] \<Rightarrow> None | v # _ \<Rightarrow> Some v) (m |` set vs) = Some Map.empty"
    if "ks = us @ vs" for us vs
    using that
  proof (induction vs arbitrary: us)
    case Nil
    show ?case by (simp add: delete_from.simps)
  next
    case (Cons v vs)
    let ?m = "m |` set (v # vs)"
    have sub: "?m \<subseteq>\<^sub>m m" by (auto simp: map_le_def restrict_map_def)
    have pres: "?m v \<noteq> None" "set vs \<subseteq> dom ?m" using Cons.prems dom
      by (auto simp: restrict_map_def dom_def subset_iff)
    have "v \<notin> set vs" using Cons.prems dist by simp
    then have del: "set (v # vs) - {v} = set vs" by auto
    show ?case
      using walk_order_next [OF assms Cons.prems sub pres] Cons.IH [of "us @ [v]"] Cons.prems
      by (simp add: delete_from.simps [of _ "Some v"] del [simplified])
  qed
  have "m |` set ks = m"
    unfolding dom by (rule ext) (simp add: restrict_map_def dom_def)
  with step [of "[]" ks] show ?thesis by (simp add: delete_all_def walk_order_first [OF assms])
qed

lemma walk_order_order_next: "distinct ks \<Longrightarrow> set ks = dom m \<Longrightarrow> walk_order (order_next ks) ks m"
  by (simp add: walk_order_def)

text \<open>
  A table over its life: the keys it may hold have an order in the kernel (the buckets of its hash), and
  every walk of it, whatever rows it holds then, follows that order.
\<close>

definition key_order :: "('k, 'v) next_key \<Rightarrow> 'k list \<Rightarrow> bool" where
  "key_order nxt order \<longleftrightarrow> distinct order \<and>
     (\<forall>m cur. dom m \<subseteq> set order \<and> (\<forall>k. cur = Some k \<longrightarrow> m k \<noteq> None) \<longrightarrow> nxt m cur = order_next order m cur)"

definition present_keys :: "'k list \<Rightarrow> ('k \<rightharpoonup> 'v) \<Rightarrow> 'k list" where
  "present_keys order m = filter (\<lambda>k. m k \<noteq> None) order"

lemma after_filter:
  "P k \<Longrightarrow> drop 1 (dropWhile (\<lambda>x. x \<noteq> k) (filter P xs)) = filter P (drop 1 (dropWhile (\<lambda>x. x \<noteq> k) xs))"
  by (induction xs) auto

lemma find_filter: "(\<And>x. Q x \<Longrightarrow> P x) \<Longrightarrow> List.find Q (filter P xs) = List.find Q xs"
  by (induction xs) auto

lemma order_next_present:
  assumes "m' \<subseteq>\<^sub>m m" "\<forall>k. cur = Some k \<longrightarrow> m' k \<noteq> None"
  shows "order_next (present_keys order m) m' cur = order_next order m' cur"
proof -
  have sub: "m k \<noteq> None" if "m' k \<noteq> None" for k using assms(1) that by (metis domIff map_le_def)
  show ?thesis
  proof (cases cur)
    case None
    then show ?thesis by (simp add: order_next_def present_keys_def find_filter [OF sub] del: not_None_eq)
  next
    case (Some k)
    with assms(2) sub have "m k \<noteq> None" by simp
    then show ?thesis
      using find_filter [OF sub] after_filter [where P = "\<lambda>k. m k \<noteq> None"]
      by (simp add: order_next_def present_keys_def Some del: not_None_eq drop_Suc)
  qed
qed

lemma key_order_walk:
  assumes "key_order nxt order" "dom m \<subseteq> set order"
  shows "walk_order nxt (present_keys order m) m"
  unfolding walk_order_def
proof (intro conjI allI impI)
  show "distinct (present_keys order m)" using assms(1) by (simp add: key_order_def present_keys_def)
  show "set (present_keys order m) = dom m" using assms(2) by (auto simp: present_keys_def dom_def)
  fix m' cur
  assume sub: "m' \<subseteq>\<^sub>m m \<and> (\<forall>k. cur = Some k \<longrightarrow> m' k \<noteq> None)"
  then have "dom m' \<subseteq> set order" using assms(2) by (meson map_le_implies_dom_le order_trans)
  with assms(1) sub have "nxt m' cur = order_next order m' cur" unfolding key_order_def by blast
  with order_next_present [of m' m cur order] sub
  show "nxt m' cur = order_next (present_keys order m) m' cur" by simp
qed

lemma key_order_order_next: "distinct order \<Longrightarrow> key_order (order_next order) order"
  by (simp add: key_order_def)

lemma distinct_present_keys: "key_order nxt order \<Longrightarrow> distinct (present_keys order m)"
  by (simp add: key_order_def present_keys_def)

lemma in_present_keys: "dom m \<subseteq> set order \<Longrightarrow> k \<in> set (present_keys order m) \<longleftrightarrow> m k \<noteq> None"
  by (auto simp: present_keys_def dom_def)

end
