(* ===== verification/IoProbes.thy ===== *)
theory IoProbes
  imports Bpf
begin

text \<open>
  The probes of block I/O, of the heap and of TCP connections: \<open>bio_latency.bpf.c\<close>,
  \<open>mem_tracer.bpf.c\<close> and \<open>net_tracer.bpf.c\<close> under \<open>src/ebpf/probes/\<close>.
\<close>

section \<open>bio_latency.bpf.c\<close>

record ns_request_start =
  rq_start_ns :: u64
  rq_pid :: u32
  rq_tid :: u32
  rq_comm :: string

record block_rq_ctx =
  bq_sector :: u64
  bq_nr_sector :: u32
  bq_rwbs :: string

record bio_maps =
  bl_req_starts :: "u64 \<rightharpoonup> ns_request_start"
  bl_events :: "il_bio_event list"

datatype bio_run =
    Issue bpf_env block_rq_ctx
  | Complete bpf_env block_rq_ctx "il_bio_event option"

definition request_start :: "bpf_env \<Rightarrow> ns_request_start" where
  "request_start env =
     \<lparr>rq_start_ns = env_time env, rq_pid = env_pid env, rq_tid = env_tid env, rq_comm = env_comm env\<rparr>"

definition trace_block_rq_issue ::
  "(u64, ns_request_start) bpf_update \<Rightarrow> bpf_env \<Rightarrow> block_rq_ctx \<Rightarrow> bio_maps \<Rightarrow> bio_maps" where
  "trace_block_rq_issue upd env ctx maps =
     maps\<lparr>bl_req_starts := upd (bq_sector ctx) (request_start env) (bl_req_starts maps)\<rparr>"

definition bio_event :: "bpf_env \<Rightarrow> block_rq_ctx \<Rightarrow> ns_request_start \<Rightarrow> il_bio_event \<Rightarrow> il_bio_event" where
  "bio_event env ctx start e =
     e\<lparr>be_timestamp_ns := env_time env, be_pid := rq_pid start, be_tid := rq_tid start,
       be_latency_ns := env_time env - rq_start_ns start, be_sector := bq_sector ctx,
       be_nr_sector := bq_nr_sector ctx, be_comm := rq_comm start,
       be_rwflag := (case bq_rwbs ctx of c # _ \<Rightarrow> if c = CHR ''W'' then 1 else 0 | [] \<Rightarrow> 0)\<rparr>"

definition trace_block_rq_complete ::
  "bpf_env \<Rightarrow> block_rq_ctx \<Rightarrow> il_bio_event option \<Rightarrow> bio_maps \<Rightarrow> bio_maps" where
  "trace_block_rq_complete env ctx reserved maps =
     (case bl_req_starts maps (bq_sector ctx) of
        None \<Rightarrow> maps
      | Some start \<Rightarrow>
          let gone = maps\<lparr>bl_req_starts := (bl_req_starts maps)(bq_sector ctx := None)\<rparr>
          in case reserved of
               None \<Rightarrow> gone
             | Some e \<Rightarrow> gone\<lparr>bl_events := bl_events maps @ [bio_event env ctx start e]\<rparr>)"

fun bio_step :: "(u64, ns_request_start) bpf_update \<Rightarrow> bio_run \<Rightarrow> bio_maps \<Rightarrow> bio_maps" where
  "bio_step upd (Issue env ctx) = trace_block_rq_issue upd env ctx"
| "bio_step upd (Complete env ctx r) = trace_block_rq_complete env ctx r"

fun run_sector :: "bio_run \<Rightarrow> u64" where
  "run_sector (Issue env ctx) = bq_sector ctx"
| "run_sector (Complete env ctx r) = bq_sector ctx"

fun bio_starts :: "bio_maps \<Rightarrow> bio_run \<Rightarrow> u64 \<rightharpoonup> ns_request_start" where
  "bio_starts _ (Issue env ctx) k = (if k = bq_sector ctx then Some (request_start env) else None)"
| "bio_starts _ (Complete env ctx r) k = None"

lemma bio_start_table:
  assumes "update_law upd"
  shows "start_table (bio_step upd) bl_req_starts (\<lambda>_ x k. run_sector x = k) bio_starts"
proof
  fix x :: bio_run and s :: bio_maps and k
  show "bl_req_starts (bio_step upd x s) k = None \<or> bl_req_starts (bio_step upd x s) k = bio_starts s x k"
    if "run_sector x = k"
    using that update_law_same [OF assms, of k _ "bl_req_starts s"]
    by (cases x) (auto simp: trace_block_rq_issue_def trace_block_rq_complete_def Let_def split: option.split)
  show "bl_req_starts (bio_step upd x s) k = bl_req_starts s k" if "run_sector x \<noteq> k"
    using that update_law_other [OF assms]
    by (cases x) (auto simp: trace_block_rq_issue_def trace_block_rq_complete_def Let_def split: option.split)
qed

interpretation bio: start_table "bio_step (bounded_update n)" bl_req_starts "\<lambda>_ x k. run_sector x = k" bio_starts
  for n
  by (rule bio_start_table [OF bounded_update_law])

lemma bio_event_request:
  fixes runs :: "bio_run list"
  assumes "update_law upd" "bl_req_starts m0 = Map.empty" "bl_events m0 = []"
    and "e \<in> set (bl_events (fold (bio_step upd) runs m0))"
  shows "\<exists>us env ctx ws env' ctx' raw vs.
    runs = us @ Issue env ctx # ws @ Complete env' ctx' (Some raw) # vs \<and>
    bq_sector ctx = be_sector e \<and> bq_sector ctx' = be_sector e \<and>
    (\<forall>w \<in> set ws. run_sector w \<noteq> be_sector e) \<and>
    be_latency_ns e = env_time env' - env_time env \<and> be_timestamp_ns e = env_time env' \<and>
    be_pid e = env_pid env \<and> be_tid e = env_tid env \<and> be_comm e = env_comm env \<and> be_dev e = be_dev raw"
  using assms(4)
proof (induction runs rule: rev_induct)
  case Nil
  then show ?case by (simp add: assms(3))
next
  case (snoc y us)
  let ?s = "fold (bio_step upd) us m0"
  show ?case
  proof (cases "e \<in> set (bl_events ?s)")
    case True
    from snoc.IH [OF this] show ?thesis by fastforce
  next
    case False
    with snoc.prems obtain env' ctx' raw start where y: "y = Complete env' ctx' (Some raw)"
      and row: "bl_req_starts ?s (bq_sector ctx') = Some start" and e: "e = bio_event env' ctx' start raw"
      by (cases y) (auto simp: trace_block_rq_issue_def trace_block_rq_complete_def Let_def
          split: option.splits)
    from start_table.row_from_last_touch [OF bio_start_table [OF assms(1)] _ row] assms(2)
    obtain ts x ws where t: "last_touch (bio_step upd) (\<lambda>_ x k. run_sector x = k) bio_starts m0 us
        (bq_sector ctx') start ts x ws" by auto
    then obtain env ctx where x: "x = Issue env ctx" "bq_sector ctx = bq_sector ctx'" "start = request_start env"
      by (cases x) (auto simp: last_touch_def split: if_splits)
    have ws: "\<forall>w \<in> set ws. run_sector w \<noteq> bq_sector ctx'"
      using t unfolding last_touch_def by (metis split_list)
    from t x y have eq: "us @ [y] = ts @ Issue env ctx # ws @ Complete env' ctx' (Some raw) # []"
      by (simp add: last_touch_def)
    have "be_sector e = bq_sector ctx'" "be_latency_ns e = env_time env' - env_time env"
      "be_timestamp_ns e = env_time env'" "be_pid e = env_pid env" "be_tid e = env_tid env"
      "be_comm e = env_comm env" "be_dev e = be_dev raw"
      by (simp_all add: e x(3) bio_event_def request_start_def)
    with eq x(2) ws show ?thesis by (metis (no_types, lifting))
  qed
qed

text \<open>
  Every block event is a request that really went from issue to completion: its latency runs from
  the last issue of its sector to its completion, no other request of that sector lies between, and its
  task is the one that issued it. Its device number is never written: it is whatever the ring buffer's
  memory held.
\<close>

theorem bio_events_measure_requests:
  fixes runs :: "bio_run list"
  assumes "update_law upd" "bl_req_starts m0 = Map.empty" "bl_events m0 = []"
    and "e \<in> set (bl_events (fold (bio_step upd) runs m0))"
  shows "\<exists>us env ctx ws env' ctx' raw vs.
    runs = us @ Issue env ctx # ws @ Complete env' ctx' (Some raw) # vs \<and>
    bq_sector ctx = be_sector e \<and> bq_sector ctx' = be_sector e \<and>
    (\<forall>w \<in> set ws. run_sector w \<noteq> be_sector e) \<and>
    be_latency_ns e = env_time env' - env_time env \<and> be_timestamp_ns e = env_time env' \<and>
    be_pid e = env_pid env \<and> be_tid e = env_tid env \<and> be_comm e = env_comm env \<and> be_dev e = be_dev raw"
  by (rule bio_event_request [OF assms])

lemma bio_events_measure_requests_witness:
  defines "env \<equiv> \<lambda>t. \<lparr>env_pid_tgid = 0x700000009, env_comm = ''a'', env_cpu = 1, env_time = t,
      env_kernel_stack = 2, env_user_stack = 3\<rparr>"
    and "ctx \<equiv> \<lparr>bq_sector = 64, bq_nr_sector = 8, bq_rwbs = ''WS''\<rparr>"
    and "m0 \<equiv> \<lparr>bl_req_starts = Map.empty, bl_events = []\<rparr>"
    and "raw \<equiv> \<lparr>be_timestamp_ns = 0, be_pid = 0, be_tid = 0, be_sector = 0, be_nr_sector = 0, be_dev = 77,
      be_latency_ns = 0, be_comm = [], be_rwflag = 0\<rparr>"
  shows "\<exists>e. bl_events (fold (bio_step plain_update) [Issue (env 100) ctx, Complete (env 350) ctx (Some raw)] m0) =
    [e] \<and> be_latency_ns e = 250 \<and> be_dev e = 77"
proof -
  let ?e = "bio_event (env 350) ctx (request_start (env 100)) raw"
  have run: "bl_events (fold (bio_step plain_update) [Issue (env 100) ctx, Complete (env 350) ctx (Some raw)] m0) = [?e]"
    by (simp add: m0_def trace_block_rq_issue_def trace_block_rq_complete_def plain_update_def)
  from bio_events_measure_requests [OF plain_update_law, of m0 ?e
      "[Issue (env 100) ctx, Complete (env 350) ctx (Some raw)]"] run
  have "\<exists>us v c ws v' c' raw' vs. [Issue (env 100) ctx, Complete (env 350) ctx (Some raw)] =
      us @ Issue v c # ws @ Complete v' c' (Some raw') # vs \<and> be_dev ?e = be_dev raw'"
    by (simp add: m0_def) blast
  then have "be_dev ?e = be_dev raw" by (auto simp: append_eq_Cons_conv Cons_eq_append_conv)
  with run show ?thesis by (simp add: bio_event_def request_start_def env_def raw_def)
qed

section \<open>mem_tracer.bpf.c\<close>

record mem_maps =
  mm_allocs :: "u64 \<rightharpoonup> il_mem_event"
  mm_alloc_sizes :: "u64 \<rightharpoonup> u64"
  mm_events :: "il_mem_event list"

datatype mem_run =
    MallocEnter bpf_env u64 \<comment> \<open>the size asked for\<close>
  | MallocReturn bpf_env u64 "il_mem_event option" \<comment> \<open>the address returned\<close>
  | FreeEnter bpf_env u64 "il_mem_event option"

definition uprobe_malloc :: "(u64, u64) bpf_update \<Rightarrow> bpf_env \<Rightarrow> u64 \<Rightarrow> mem_maps \<Rightarrow> mem_maps" where
  "uprobe_malloc upd env sz maps =
     maps\<lparr>mm_alloc_sizes := upd (env_pid_tgid env) sz (mm_alloc_sizes maps)\<rparr>"

definition mem_event :: "bpf_env \<Rightarrow> u64 \<Rightarrow> u64 \<Rightarrow> u8 \<Rightarrow> il_mem_event \<Rightarrow> il_mem_event" where
  "mem_event env addr sz alloc e =
     e\<lparr>me_timestamp_ns := env_time env, me_pid := env_pid env, me_tid := env_tid env, me_addr := addr,
       me_size := sz, me_alloc := alloc, me_comm := env_comm env\<rparr>"

definition uretprobe_malloc ::
  "(u64, il_mem_event) bpf_update \<Rightarrow> bpf_env \<Rightarrow> u64 \<Rightarrow> il_mem_event option \<Rightarrow> mem_maps \<Rightarrow> mem_maps" where
  "uretprobe_malloc upd env addr reserved maps =
     (let tid = env_pid_tgid env;
          done = (\<lambda>maps. maps\<lparr>mm_alloc_sizes := (mm_alloc_sizes maps)(tid := None)\<rparr>)
      in case mm_alloc_sizes maps tid of
           None \<Rightarrow> maps
         | Some sz \<Rightarrow>
             if addr = 0 then done maps
             else case reserved of
                    None \<Rightarrow> done maps
                  | Some e \<Rightarrow>
                      let e = mem_event env addr sz 1 e
                      in done (maps\<lparr>mm_allocs := upd addr e (mm_allocs maps),
                                    mm_events := mm_events maps @ [e]\<rparr>))"

definition uprobe_free :: "bpf_env \<Rightarrow> u64 \<Rightarrow> il_mem_event option \<Rightarrow> mem_maps \<Rightarrow> mem_maps" where
  "uprobe_free env addr reserved maps =
     (if addr = 0 then maps
      else case mm_allocs maps addr of
             None \<Rightarrow> maps
           | Some alloc \<Rightarrow>
               let gone = maps\<lparr>mm_allocs := (mm_allocs maps)(addr := None)\<rparr>
               in case reserved of
                    None \<Rightarrow> gone
                  | Some e \<Rightarrow>
                      gone\<lparr>mm_events := mm_events maps @ [mem_event env addr (me_size alloc) 0 e]\<rparr>)"

fun mem_step ::
  "(u64, u64) bpf_update \<Rightarrow> (u64, il_mem_event) bpf_update \<Rightarrow> mem_run \<Rightarrow> mem_maps \<Rightarrow> mem_maps" where
  "mem_step upds upda (MallocEnter env sz) = uprobe_malloc upds env sz"
| "mem_step upds upda (MallocReturn env addr r) = uretprobe_malloc upda env addr r"
| "mem_step upds upda (FreeEnter env addr r) = uprobe_free env addr r"

fun thread_call :: "mem_run \<Rightarrow> u64 \<Rightarrow> bool" where
  "thread_call (MallocEnter env sz) t \<longleftrightarrow> t = env_pid_tgid env"
| "thread_call (MallocReturn env addr r) t \<longleftrightarrow> t = env_pid_tgid env"
| "thread_call (FreeEnter env addr r) t \<longleftrightarrow> False"

fun sizes_started :: "mem_maps \<Rightarrow> mem_run \<Rightarrow> u64 \<rightharpoonup> u64" where
  "sizes_started _ (MallocEnter env sz) t = (if t = env_pid_tgid env then Some sz else None)"
| "sizes_started _ _ t = None"

fun allocs_touched :: "mem_maps \<Rightarrow> mem_run \<Rightarrow> u64 \<Rightarrow> bool" where
  "allocs_touched s (MallocEnter env sz) a \<longleftrightarrow> False"
| "allocs_touched s (MallocReturn env addr r) a \<longleftrightarrow>
     a = addr \<and> addr \<noteq> 0 \<and> r \<noteq> None \<and> mm_alloc_sizes s (env_pid_tgid env) \<noteq> None"
| "allocs_touched s (FreeEnter env addr r) a \<longleftrightarrow> a = addr \<and> addr \<noteq> 0"

fun allocs_started :: "mem_maps \<Rightarrow> mem_run \<Rightarrow> u64 \<rightharpoonup> il_mem_event" where
  "allocs_started s (MallocReturn env addr r) a =
     (case (mm_alloc_sizes s (env_pid_tgid env), r) of
        (Some sz, Some e) \<Rightarrow> if a = addr \<and> addr \<noteq> 0 then Some (mem_event env addr sz 1 e) else None
      | _ \<Rightarrow> None)"
| "allocs_started s _ a = None"

lemma sizes_start_table:
  assumes "update_law upds"
  shows "start_table (mem_step upds upda) mm_alloc_sizes (\<lambda>_. thread_call) sizes_started"
proof
  fix x :: mem_run and s :: mem_maps and k
  show "mm_alloc_sizes (mem_step upds upda x s) k = None \<or>
      mm_alloc_sizes (mem_step upds upda x s) k = sizes_started s x k" if "thread_call x k"
    using that update_law_same [OF assms, of k _ "mm_alloc_sizes s"]
    by (cases x) (auto simp: uprobe_malloc_def uretprobe_malloc_def Let_def split: option.split)
  show "mm_alloc_sizes (mem_step upds upda x s) k = mm_alloc_sizes s k" if "\<not> thread_call x k"
    using that update_law_other [OF assms]
    by (cases x) (auto simp: uprobe_malloc_def uretprobe_malloc_def uprobe_free_def Let_def split: option.split)
qed

lemma allocs_start_table:
  assumes "update_law upda"
  shows "start_table (mem_step upds upda) mm_allocs allocs_touched allocs_started"
proof
  fix x :: mem_run and s :: mem_maps and k
  show "mm_allocs (mem_step upds upda x s) k = None \<or>
      mm_allocs (mem_step upds upda x s) k = allocs_started s x k" if "allocs_touched s x k"
    using that update_law_same [OF assms, of k _ "mm_allocs s"]
    by (cases x) (auto simp: uprobe_free_def uretprobe_malloc_def Let_def split: option.split)
  show "mm_allocs (mem_step upds upda x s) k = mm_allocs s k" if "\<not> allocs_touched s x k"
    using that update_law_other [OF assms]
    by (cases x) (auto simp: uprobe_malloc_def uretprobe_malloc_def uprobe_free_def Let_def split: option.split)
qed

interpretation mem_sizes: start_table "mem_step (bounded_update n) upda" mm_alloc_sizes "\<lambda>_. thread_call" sizes_started
  for n upda
  by (rule sizes_start_table [OF bounded_update_law])

interpretation mem_allocs: start_table "mem_step upds (bounded_update n)" mm_allocs allocs_touched allocs_started
  for n upds
  by (rule allocs_start_table [OF bounded_update_law])

fun frees :: "u64 \<Rightarrow> mem_run \<Rightarrow> bool" where
  "frees a (FreeEnter env addr r) \<longleftrightarrow> addr = a"
| "frees a _ \<longleftrightarrow> False"

text \<open>
  \<open>e\<close> is the allocation of address \<open>a\<close> by the malloc call that returns at the end of \<open>us\<close>, with the size
  its thread asked for when it entered.
\<close>

definition allocation :: "il_mem_event \<Rightarrow> u64 \<Rightarrow> mem_run list \<Rightarrow> bool" where
  "allocation e a us \<longleftrightarrow> (\<exists>ts env sz ws env' raw.
     us = ts @ MallocEnter env sz # ws @ [MallocReturn env' a (Some raw)] \<and>
     env_pid_tgid env = env_pid_tgid env' \<and> (\<forall>w \<in> set ws. \<not> thread_call w (env_pid_tgid env)) \<and>
     a \<noteq> 0 \<and> e = mem_event env' a sz 1 raw)"

lemma alloc_row_allocated:
  assumes "update_law upds" "update_law upda" "mm_allocs m0 = Map.empty" "mm_alloc_sizes m0 = Map.empty"
    and row: "mm_allocs (fold (mem_step upds upda) runs m0) a = Some e"
  shows "\<exists>us vs. runs = us @ vs \<and> allocation e a us \<and> (\<forall>v \<in> set vs. \<not> frees a v)"
proof -
  let ?m = "\<lambda>xs. fold (mem_step upds upda) xs m0"
  from start_table.row_from_last_touch [OF allocs_start_table [OF assms(2)] _ row] assms(3)
  obtain us x vs where t: "last_touch (mem_step upds upda) allocs_touched allocs_started m0 runs a e us x vs"
    by auto
  from t obtain env' sz raw where x: "x = MallocReturn env' a (Some raw)" "a \<noteq> 0"
    and sz: "mm_alloc_sizes (?m us) (env_pid_tgid env') = Some sz" and e: "e = mem_event env' a sz 1 raw"
    by (cases x) (auto simp: last_touch_def split: option.splits if_splits)
  from start_table.row_from_last_touch [OF sizes_start_table [OF assms(1)] _ sz] assms(4)
  obtain ts y ws where u: "last_touch (mem_step upds upda) (\<lambda>_. thread_call) sizes_started m0 us
      (env_pid_tgid env') sz ts y ws" by auto
  then obtain env where y: "y = MallocEnter env sz" "env_pid_tgid env = env_pid_tgid env'"
    by (cases y) (auto simp: last_touch_def split: if_splits)
  have ws: "\<forall>w \<in> set ws. \<not> thread_call w (env_pid_tgid env)"
    using u y(2) unfolding last_touch_def by (metis split_list)
  have "us = ts @ MallocEnter env sz # ws" using u y(1) by (simp add: last_touch_def)
  then have alloc: "allocation e a (us @ [x])"
    unfolding allocation_def using x y(2) ws e
    by (intro exI [of _ ts] exI [of _ env] exI [of _ sz] exI [of _ ws] exI [of _ env'] exI [of _ raw]) simp
  have "\<not> frees a v" if "v \<in> set vs" for v
  proof -
    from that obtain as bs where "vs = as @ v # bs" by (meson split_list)
    with t have "\<not> allocs_touched (?m (us @ x # as)) v a" unfolding last_touch_def by blast
    with x(2) show ?thesis by (cases v) auto
  qed
  moreover have "runs = (us @ [x]) @ vs" using t by (simp add: last_touch_def)
  ultimately show ?thesis using alloc by blast
qed

text \<open>
  The heap tracer pairs mallocs and frees rightly. What the leak table holds for an address is an
  allocation of that address, of the size its thread asked for in that very call, and nothing freed the
  address since; a free event carries the size of the allocation that the free ends.
\<close>

theorem mem_leak_table_sound:
  fixes runs :: "mem_run list"
  assumes "update_law upds" "update_law upda"
    and "mm_allocs m0 = Map.empty" "mm_alloc_sizes m0 = Map.empty" "mm_events m0 = []"
  shows "(\<forall>a e. mm_allocs (fold (mem_step upds upda) runs m0) a = Some e \<longrightarrow>
      (\<exists>us vs. runs = us @ vs \<and> allocation e a us \<and> (\<forall>v \<in> set vs. \<not> frees a v))) \<and>
    (\<forall>e \<in> set (mm_events (fold (mem_step upds upda) runs m0)). me_alloc e = 0 \<longrightarrow>
      (\<exists>us vs env raw ws e0. runs = us @ vs @ FreeEnter env (me_addr e) raw # ws \<and>
         allocation e0 (me_addr e) us \<and> (\<forall>v \<in> set vs. \<not> frees (me_addr e) v) \<and>
         me_size e = me_size e0 \<and> me_pid e = env_pid env \<and> me_timestamp_ns e = env_time env))"
proof -
  let ?m = "\<lambda>xs. fold (mem_step upds upda) xs m0"
  let ?P = "\<lambda>xs e. \<exists>us vs env raw ws e0. xs = us @ vs @ FreeEnter env (me_addr e) raw # ws \<and>
         allocation e0 (me_addr e) us \<and> (\<forall>v \<in> set vs. \<not> frees (me_addr e) v) \<and>
         me_size e = me_size e0 \<and> me_pid e = env_pid env \<and> me_timestamp_ns e = env_time env"
  have "?P runs e" if "e \<in> set (mm_events (?m runs))" "me_alloc e = 0" for e
    using that(1)
  proof (induction runs rule: rev_induct)
    case Nil
    then show ?case by (simp add: assms(5))
  next
    case (snoc y xs)
    show ?case
    proof (cases "e \<in> set (mm_events (?m xs))")
      case True
      from snoc.IH [OF this] obtain us vs env raw ws e0 where
        "xs = us @ vs @ FreeEnter env (me_addr e) raw # ws" "allocation e0 (me_addr e) us"
        "\<forall>v \<in> set vs. \<not> frees (me_addr e) v" "me_size e = me_size e0" "me_pid e = env_pid env"
        "me_timestamp_ns e = env_time env" by blast
      then show ?thesis
        by (intro exI [of _ us] exI [of _ vs] exI [of _ env] exI [of _ raw] exI [of _ "ws @ [y]"] exI [of _ e0]) simp
    next
      case False
      with snoc.prems that(2) obtain env addr raw e0 where y: "y = FreeEnter env addr (Some raw)"
        and row: "mm_allocs (?m xs) addr = Some e0" and e: "e = mem_event env addr (me_size e0) 0 raw"
        by (cases y) (auto simp: uprobe_malloc_def uretprobe_malloc_def uprobe_free_def mem_event_def Let_def
            split: option.splits if_splits)
      from alloc_row_allocated [OF assms(1-4) row] obtain us vs where "xs = us @ vs" "allocation e0 addr us"
        "\<forall>v \<in> set vs. \<not> frees addr v" by blast
      with y e show ?thesis
        by (intro exI [of _ us] exI [of _ vs] exI [of _ env] exI [of _ "Some raw"] exI [of _ "[]"] exI [of _ e0])
          (simp add: mem_event_def)
    qed
  qed
  then show ?thesis using alloc_row_allocated [OF assms(1-4)] by blast
qed

lemma mem_leak_table_sound_witness:
  defines "env \<equiv> \<lambda>t. \<lparr>env_pid_tgid = 0x700000009, env_comm = ''a'', env_cpu = 1, env_time = t,
      env_kernel_stack = 2, env_user_stack = 3\<rparr>"
    and "raw \<equiv> \<lparr>me_timestamp_ns = 0, me_pid = 0, me_tid = 0, me_addr = 0, me_size = 0, me_comm = [], me_alloc = 0\<rparr>"
    and "m0 \<equiv> \<lparr>mm_allocs = Map.empty, mm_alloc_sizes = Map.empty, mm_events = []\<rparr>"
  shows "\<exists>us vs. [MallocEnter (env 1) 48, MallocReturn (env 2) 4096 (Some raw)] = us @ vs \<and>
    allocation (mem_event (env 2) 4096 48 1 raw) 4096 us \<and> (\<forall>v \<in> set vs. \<not> frees 4096 v)"
proof -
  have "mm_allocs (fold (mem_step plain_update plain_update)
      [MallocEnter (env 1) 48, MallocReturn (env 2) 4096 (Some raw)] m0) 4096 =
      Some (mem_event (env 2) 4096 48 1 raw)"
    by (simp add: m0_def uprobe_malloc_def uretprobe_malloc_def plain_update_def env_def Let_def)
  with mem_leak_table_sound [OF plain_update_law plain_update_law, of m0
      "[MallocEnter (env 1) 48, MallocReturn (env 2) 4096 (Some raw)]"]
  show ?thesis by (simp add: m0_def)
qed

section \<open>net_tracer.bpf.c\<close>

record sock_state_ctx =
  ns_family :: u16
  ns_protocol :: u16
  ns_sport :: u16
  ns_dport :: u16
  ns_saddr :: u32
  ns_daddr :: u32
  ns_oldstate :: s32
  ns_newstate :: s32

text \<open>
  The event is filled in the reserved memory before the state is looked at; for a state that is neither
  established nor closed the memory is discarded. \<open>oldstate\<close> is read and not used.
\<close>

definition trace_inet_sock_set_state ::
  "bpf_env \<Rightarrow> sock_state_ctx \<Rightarrow> il_net_event option \<Rightarrow> il_net_event list \<Rightarrow> il_net_event list" where
  "trace_inet_sock_set_state env ctx reserved events =
     (if ns_family ctx \<noteq> 2 then events
      else case reserved of
             None \<Rightarrow> events
           | Some e \<Rightarrow>
               let e = e\<lparr>ne_timestamp_ns := env_time env, ne_pid := env_pid env, ne_tid := env_tid env,
                         ne_protocol := ucast (ns_protocol ctx), ne_sport := ns_sport ctx,
                         ne_dport := ns_dport ctx, ne_comm := env_comm env,
                         ne_saddr := ns_saddr ctx, ne_daddr := ns_daddr ctx\<rparr>
               in if ns_newstate ctx = 1
                  then events @ [e\<lparr>ne_event_type := 0, ne_bytes_sent := 0, ne_bytes_recv := 0\<rparr>]
                  else if ns_newstate ctx = 7
                  then events @ [e\<lparr>ne_event_type := 2, ne_bytes_sent := 0, ne_bytes_recv := 0\<rparr>]
                  else events)"

end
