(* ===== verification/RingSources.thy ===== *)
theory RingSources
  imports BpfTables IoProbes Config
begin

text \<open>
  The push sources on top of a probe's ring buffer: the base class
  (\<open>src/sources/ebpf_ring_buffer_source.h\<close>) with its life cycle, and the three sources that derive from
  it, \<open>ebpf_io_monitor\<close>, \<open>ebpf_net_tracer\<close> and \<open>ebpf_sched_tracer\<close>, whose handlers turn an event into a
  batch. Starting returns \<open>None\<close> where the program is terminated: a polling thread is assigned over one
  that is still joinable. The contract that every source with probes keeps is the locale \<open>bpf_source\<close>.
\<close>

section \<open>The contract of a source with probes\<close>

datatype source_op = StartOp | StopOp

text \<open>
  A source is started when it is idle, as the controller does: \<open>None\<close> stands for a start while the polling
  thread runs, which terminates the program or loses the ring buffer.
\<close>

fun source_run ::
  "('s \<Rightarrow> (status \<times> 's) option) \<Rightarrow> ('s \<Rightarrow> 's) \<Rightarrow> ('s \<Rightarrow> bool) \<Rightarrow> source_op list \<Rightarrow> 's \<Rightarrow> 's option" where
  "source_run start stop busy [] s = Some s"
| "source_run start stop busy (StartOp # ops) s =
     (if busy s then None
      else case start s of None \<Rightarrow> None | Some (_, s) \<Rightarrow> source_run start stop busy ops s)"
| "source_run start stop busy (StopOp # ops) s = source_run start stop busy ops (stop s)"

fun restarts :: "nat \<Rightarrow> source_op list" where
  "restarts 0 = []"
| "restarts (Suc n) = StartOp # StopOp # restarts n"

text \<open>Nothing of the source is left in the kernel but objects that are loaded.\<close>

definition detached :: "bpf_manager \<Rightarrow> bool" where
  "detached m \<longleftrightarrow> bm_links m = [] \<and> (\<exists>lost. accounts lost {#} {#} m)"

lemma detached_live:
  "detached m \<Longrightarrow> \<exists>objs. replay (bm_calls m) nothing_live = Some (nothing_live\<lparr>lv_objects := objs\<rparr>)"
  by (auto simp: detached_def accounts_def nothing_live_def)

locale restartable =
  fixes start :: "'s \<Rightarrow> (status \<times> 's) option"
    and stop :: "'s \<Rightarrow> 's"
    and busy :: "'s \<Rightarrow> bool"
    and inv :: "'s \<Rightarrow> bool"
  assumes start_inv: "inv s \<Longrightarrow> \<not> busy s \<Longrightarrow> start s = Some (st, s') \<Longrightarrow> inv s'"
    and start_defined: "inv s \<Longrightarrow> \<not> busy s \<Longrightarrow> start s \<noteq> None"
    and stop_inv: "inv s \<Longrightarrow> inv (stop s)"
    and stop_idle: "inv s \<Longrightarrow> \<not> busy (stop s)"
begin

lemma run_inv: "inv s \<Longrightarrow> source_run start stop busy ops s = Some s' \<Longrightarrow> inv s'"
proof (induction ops arbitrary: s)
  case (Cons x ops)
  then show ?case by (cases x) (auto intro: stop_inv dest: start_inv split: option.splits if_splits)
qed simp

text \<open>A sequence that stops before each new start runs to its end.\<close>

lemma restarts_run:
  assumes "inv s" "\<not> busy s"
  shows "\<exists>s'. source_run start stop busy (restarts n) s = Some s'"
  using assms
proof (induction n arbitrary: s)
  case (Suc n)
  from start_defined [OF Suc.prems] obtain st s1 where s1: "start s = Some (st, s1)" by auto
  from start_inv [OF Suc.prems s1] have "inv s1" .
  with Suc.IH [of "stop s1"] stop_inv stop_idle Suc.prems(2) s1 show ?case by simp
qed simp

end

text \<open>With probes: whatever the starts and stops before, a stopped source has nothing attached.\<close>

locale bpf_source = restartable start stop busy inv
  for start :: "'s \<Rightarrow> (status \<times> 's) option" and stop busy inv +
  fixes mgr :: "'s \<Rightarrow> bpf_manager"
  assumes stop_detached: "inv s \<Longrightarrow> detached (mgr (stop s))"
begin

lemma stop_after_run:
  "inv s \<Longrightarrow> source_run start stop busy ops s = Some s' \<Longrightarrow> detached (mgr (stop s')) \<and> \<not> busy (stop s')"
  using run_inv stop_detached stop_idle by blast

end

section \<open>EbpfRingBufferSource\<close>

record ebpf_source_bpf_config =
  eb_object_name :: string
  eb_program_names :: "string list"
  eb_map_name :: string
  eb_thread_name :: string

record ring_source =
  rg_bpf_obj_path :: string
  rg_running :: bool
  rg_stub_mode :: bool
  rg_bpf_mgr :: bpf_manager
  rg_ring_buf :: "handle option"
  rg_poll_thread :: bool \<comment> \<open>whether the thread is joinable\<close>
  rg_callback :: bool \<comment> \<open>whether \<open>callback_\<close> is set\<close>

definition ring_source_new :: ring_source where
  "ring_source_new = \<lparr>rg_bpf_obj_path = [], rg_running = False, rg_stub_mode = False,
     rg_bpf_mgr = bpf_manager_new, rg_ring_buf = None, rg_poll_thread = False, rg_callback = False\<rparr>"

text \<open>A subclass: its configuration and its override of \<open>OnStubStart\<close>.\<close>

record ring_class =
  kl_bpf_config :: ebpf_source_bpf_config
  kl_on_stub_start :: "ring_source \<Rightarrow> status \<times> ring_source"

definition ring_source_init :: "config_value \<Rightarrow> ring_source \<Rightarrow> status \<times> ring_source" where
  "ring_source_init config rg =
     (status_ok, rg\<lparr>rg_bpf_obj_path := as_string (cv_child ''bpf_object'' config) []\<rparr>)"

definition ring_source_start :: "libbpf \<Rightarrow> ring_class \<Rightarrow> ring_source \<Rightarrow> (status \<times> ring_source) option" where
  "ring_source_start lb kl rg =
     (if rg_bpf_obj_path rg = [] then Some (kl_on_stub_start kl (rg\<lparr>rg_stub_mode := True\<rparr>))
      else
        let cfg = kl_bpf_config kl;
            (st, m) = load_object lb (eb_object_name cfg) (rg_bpf_obj_path rg) (rg_bpf_mgr rg);
            rg = rg\<lparr>rg_bpf_mgr := m\<rparr>
        in if \<not> is_ok st then Some (st, rg)
        else let (st, m) = attach_programs lb (eb_object_name cfg) (eb_program_names cfg) m;
                 rg = rg\<lparr>rg_bpf_mgr := m\<rparr>
        in if \<not> is_ok st then Some (st, rg)
        else let map_fd = get_map_fd lb (eb_object_name cfg) (eb_map_name cfg) m
        in if map_fd < 0 then Some (status_error Internal (eb_map_name cfg @ '' map not found''), rg)
        else let (ring, m) = create_ring_buffer lb map_fd m;
                 rg = rg\<lparr>rg_bpf_mgr := m, rg_ring_buf := ring\<rparr>
        in if ring = None
           then Some (status_error Internal (''Failed to create ring buffer for '' @ eb_object_name cfg), rg)
           else let rg = rg\<lparr>rg_running := True\<rparr>
        in if rg_poll_thread rg then None
        else Some (status_ok, rg\<lparr>rg_poll_thread := True\<rparr>))"

definition free_ring :: "handle option \<Rightarrow> bpf_manager \<Rightarrow> bpf_manager" where
  "free_ring ring m = (case ring of None \<Rightarrow> m | Some r \<Rightarrow> called [RingFree r] m)"

definition ring_source_stop :: "ring_source \<Rightarrow> ring_source" where
  "ring_source_stop rg =
     rg\<lparr>rg_running := False, rg_poll_thread := False, rg_ring_buf := None,
        rg_bpf_mgr := detach_all (free_ring (rg_ring_buf rg) (rg_bpf_mgr rg))\<rparr>"

section \<open>The sources\<close>

definition io_monitor_class :: ring_class where
  "io_monitor_class =
     \<lparr>kl_bpf_config = \<lparr>eb_object_name = ''bio_latency'',
        eb_program_names = [''trace_block_rq_issue'', ''trace_block_rq_complete''],
        eb_map_name = ''bio_events'', eb_thread_name = ''io-poll''\<rparr>,
      kl_on_stub_start = (\<lambda>rg. (status_ok, rg))\<rparr>"

definition net_tracer_class :: ring_class where
  "net_tracer_class =
     \<lparr>kl_bpf_config = \<lparr>eb_object_name = ''net_tracer'', eb_program_names = [''trace_inet_sock_set_state''],
        eb_map_name = ''net_events'', eb_thread_name = ''net-poll''\<rparr>,
      kl_on_stub_start = (\<lambda>rg. (status_ok, rg\<lparr>rg_running := True\<rparr>))\<rparr>"

definition sched_tracer_class :: ring_class where
  "sched_tracer_class =
     \<lparr>kl_bpf_config = \<lparr>eb_object_name = ''sched_tracer'',
        eb_program_names = [''trace_sched_wakeup'', ''trace_sched_switch''],
        eb_map_name = ''sched_events'', eb_thread_name = ''schedtrc-poll''\<rparr>,
      kl_on_stub_start = (\<lambda>rg. (status_ok, rg))\<rparr>"

text \<open>
  The handlers: an event of the ring buffer has a size, and \<open>sizeof\<close> is that of the structure with its
  padding. What the callback is given is the result. \<open>now\<close> is the time stamp of the record.
\<close>

definition sizeof_bio_event :: nat where
  "sizeof_bio_event = 64"

definition sizeof_net_event :: nat where
  "sizeof_net_event = 72"

definition sizeof_sched_event :: nat where
  "sizeof_sched_event = 80"

definition u64_of :: "'w::len word \<Rightarrow> field_value" where
  "u64_of w = FUint (ucast w)"

definition io_batch :: "u64 \<Rightarrow> il_bio_event \<Rightarrow> data_batch" where
  "io_batch now e =
     add_record now
       (set_fields
          [(''pid'', u64_of (be_pid e)), (''comm'', FString (comm_text (be_comm e))),
           (''latency_us'', u64_of (be_latency_ns e div 1000)), (''sector'', FUint (be_sector e)),
           (''nr_sector'', u64_of (be_nr_sector e)),
           (''rw'', FString (if be_rwflag e \<noteq> 0 then ''write'' else ''read''))] \<circ>
        push_label ''type'' ''bio'')
       (new_batch Metrics)"

definition io_monitor_handle_event :: "u64 \<Rightarrow> nat \<Rightarrow> il_bio_event \<Rightarrow> ring_source \<Rightarrow> data_batch list" where
  "io_monitor_handle_event now sz e rg =
     (if sz < sizeof_bio_event then [] else if rg_callback rg then [io_batch now e] else [])"

text \<open>\<open>inet_ntop\<close>: the bytes of the address in memory order, which is lowest first on the machines supported.\<close>

definition inet_ntop4 :: "u32 \<Rightarrow> string" where
  "inet_ntop4 a =
     show_nat (unat (a AND 255)) @ ''.'' @ show_nat (unat (drop_bit 8 a AND 255)) @ ''.'' @
     show_nat (unat (drop_bit 16 a AND 255)) @ ''.'' @ show_nat (unat (drop_bit 24 a AND 255))"

definition net_event_name :: "u8 \<Rightarrow> string" where
  "net_event_name ty = [''connect'', ''accept'', ''close''] ! (if ty < 3 then unat ty else 0)"

definition net_batch :: "u64 \<Rightarrow> il_net_event \<Rightarrow> data_batch" where
  "net_batch now e =
     add_record now
       (set_fields
          [(''pid'', u64_of (ne_pid e)), (''comm'', FString (comm_text (ne_comm e))),
           (''saddr'', FString (inet_ntop4 (ne_saddr e))), (''daddr'', FString (inet_ntop4 (ne_daddr e))),
           (''sport'', u64_of (ne_sport e)), (''dport'', u64_of (ne_dport e)),
           (''event'', FString (net_event_name (ne_event_type e)))] \<circ>
        push_label ''type'' ''net_connection'')
       (new_batch Metrics)"

definition net_tracer_handle_event :: "u64 \<Rightarrow> nat \<Rightarrow> il_net_event \<Rightarrow> ring_source \<Rightarrow> data_batch list" where
  "net_tracer_handle_event now sz e rg =
     (if sz < sizeof_net_event then [] else if rg_callback rg then [net_batch now e] else [])"

definition sched_event_name :: "u8 \<Rightarrow> string" where
  "sched_event_name ty = [''switch'', ''wakeup''] ! (if ty < 2 then unat ty else 0)"

definition sched_batch :: "u64 \<Rightarrow> il_sched_event \<Rightarrow> data_batch" where
  "sched_batch now e =
     add_record now
       (set_fields
          [(''prev_pid'', u64_of (se_prev_pid e)), (''next_pid'', u64_of (se_next_pid e)),
           (''cpu'', u64_of (se_cpu e)), (''latency_us'', u64_of (se_latency_ns e div 1000)),
           (''prev_comm'', FString (comm_text (se_prev_comm e))),
           (''next_comm'', FString (comm_text (se_next_comm e)))] \<circ>
        push_label ''event'' (sched_event_name (se_event_type e)) \<circ> push_label ''type'' ''sched'')
       (new_batch Trace)"

definition sched_tracer_handle_event :: "u64 \<Rightarrow> nat \<Rightarrow> il_sched_event \<Rightarrow> ring_source \<Rightarrow> data_batch list" where
  "sched_tracer_handle_event now sz e rg =
     (if sz < sizeof_sched_event then [] else if rg_callback rg then [sched_batch now e] else [])"

section \<open>Life cycle\<close>

definition ring_handles :: "handle option \<Rightarrow> handle multiset" where
  "ring_handles ring = (case ring of None \<Rightarrow> {#} | Some r \<Rightarrow> {#r#})"

definition ring_source_inv :: "ring_source \<Rightarrow> bool" where
  "ring_source_inv rg \<longleftrightarrow> (\<exists>lost. accounts lost (ring_handles (rg_ring_buf rg)) {#} (rg_bpf_mgr rg)) \<and>
     (rg_ring_buf rg \<noteq> None \<longrightarrow> rg_poll_thread rg)"

lemma ring_handles_simps [simp]: "ring_handles None = {#}" "ring_handles (Some r) = {#r#}"
  by (simp_all add: ring_handles_def)

lemma accounts_new_ring:
  "accounts lost {#} perf m \<Longrightarrow> create_ring_buffer lb fd m = (r, m') \<Longrightarrow> accounts lost (ring_handles r) perf m'"
  using accounts_ring [of lost "{#}" perf m lb fd r m'] by (auto simp: ring_handles_def)

lemma detached_free_ring:
  "accounts lost (ring_handles ring) {#} m \<Longrightarrow> detached (detach_all (free_ring ring m))"
  using accounts_detach [of lost "{#}" "{#}"] accounts_ring_free [of lost _ "{#}" "{#}" m]
  by (cases ring) (auto simp: detached_def free_ring_def)

lemmas source_steps = load_object_def attach_programs_def create_ring_buffer_def

text \<open>What a start returns and leaves behind, case by case.\<close>

lemma ring_source_start_cases:
  assumes "ring_source_inv rg" "\<not> rg_poll_thread rg" "rg_bpf_obj_path rg \<noteq> []"
  obtains st rg' where "ring_source_start lb kl rg = Some (st, rg')" "ring_source_inv rg'"
    "is_ok st \<longleftrightarrow> rg_poll_thread rg'"
    "is_ok st \<Longrightarrow> rg_running rg' \<and> rg_ring_buf rg' \<noteq> None \<and>
       (eb_program_names (kl_bpf_config kl) = [] \<or> length (bm_links (rg_bpf_mgr rg)) < length (bm_links (rg_bpf_mgr rg')))"
proof -
  let ?cfg = "kl_bpf_config kl"
  have ring: "rg_ring_buf rg = None" using assms(1,2) by (auto simp: ring_source_inv_def)
  with assms(1) obtain lost where a0: "accounts lost {#} {#} (rg_bpf_mgr rg)"
    by (auto simp: ring_source_inv_def)
  obtain st1 m1 where l: "load_object lb (eb_object_name ?cfg) (rg_bpf_obj_path rg) (rg_bpf_mgr rg) = (st1, m1)"
    by (cases "load_object lb (eb_object_name ?cfg) (rg_bpf_obj_path rg) (rg_bpf_mgr rg)")
  from accounts_load [OF a0 l] obtain lost1 where a1: "accounts lost1 {#} {#} m1" by blast
  have links1: "bm_links m1 = bm_links (rg_bpf_mgr rg)"
    using l by (auto simp: load_object_def Let_def split: option.splits if_splits)
  obtain st2 m2 where b: "attach_programs lb (eb_object_name ?cfg) (eb_program_names ?cfg) m1 = (st2, m2)"
    by (cases "attach_programs lb (eb_object_name ?cfg) (eb_program_names ?cfg) m1")
  note a2 = accounts_attach_programs [OF a1 b]
  let ?fd = "get_map_fd lb (eb_object_name ?cfg) (eb_map_name ?cfg) m2"
  obtain r m3 where c: "create_ring_buffer lb ?fd m2 = (r, m3)" by (cases "create_ring_buffer lb ?fd m2")
  have a3: "accounts lost1 (ring_handles r) {#} m3" using a2 accounts_new_ring [OF _ c] by simp
  have links3: "bm_links m3 = bm_links m2" using c by (auto simp: create_ring_buffer_def Let_def)
  note simps = ring_source_start_def assms(2,3) l b c Let_def ring_source_inv_def ring
  consider "\<not> is_ok st1" | "is_ok st1" "\<not> is_ok st2" | "is_ok st1" "is_ok st2" "?fd < 0"
    | "is_ok st1" "is_ok st2" "\<not> ?fd < 0" "r = None"
    | "is_ok st1" "is_ok st2" "\<not> ?fd < 0" "r \<noteq> None"
    by blast
  then show ?thesis
  proof cases
    case 1
    with a1 assms(2) show ?thesis by (intro that [of st1 "rg\<lparr>rg_bpf_mgr := m1\<rparr>"]) (auto simp: simps)
  next
    case 2
    with a2 assms(2) show ?thesis by (intro that [of st2 "rg\<lparr>rg_bpf_mgr := m2\<rparr>"]) (auto simp: simps)
  next
    case 3
    with a2 assms(2) show ?thesis
      by (intro that [of "status_error Internal (eb_map_name ?cfg @ '' map not found'')" "rg\<lparr>rg_bpf_mgr := m2\<rparr>"])
        (auto simp: simps)
  next
    case 4
    with a3 assms(2) show ?thesis
      by (intro that [of "status_error Internal (''Failed to create ring buffer for '' @ eb_object_name ?cfg)"
            "rg\<lparr>rg_bpf_mgr := m3, rg_ring_buf := None\<rparr>"]) (auto simp: simps)
  next
    case 5
    with a2 a3 links1 links3 show ?thesis
      by (intro that [of status_ok "rg\<lparr>rg_bpf_mgr := m3, rg_ring_buf := r, rg_running := True, rg_poll_thread := True\<rparr>"])
        (auto simp: simps)
  qed
qed

lemma ring_source_stop_detached:
  "ring_source_inv rg \<Longrightarrow> ring_source_inv (ring_source_stop rg) \<and> detached (rg_bpf_mgr (ring_source_stop rg)) \<and>
   \<not> rg_poll_thread (ring_source_stop rg)"
  using detached_free_ring [of _ "rg_ring_buf rg" "rg_bpf_mgr rg"]
  by (auto simp: ring_source_inv_def ring_source_stop_def detached_def)

definition ring_classes :: "ring_class list" where
  "ring_classes = [io_monitor_class, net_tracer_class, sched_tracer_class]"

lemma stub_start_keeps:
  assumes "kl \<in> set ring_classes"
  obtains rg' where "kl_on_stub_start kl rg = (status_ok, rg')" "rg_bpf_mgr rg' = rg_bpf_mgr rg"
    "rg_ring_buf rg' = rg_ring_buf rg" "rg_poll_thread rg' = rg_poll_thread rg"
  using assms
  by (auto simp: ring_classes_def io_monitor_class_def net_tracer_class_def sched_tracer_class_def)

lemma ring_source_contract:
  assumes "kl \<in> set ring_classes"
  shows "bpf_source (ring_source_start lb kl) ring_source_stop rg_poll_thread ring_source_inv rg_bpf_mgr"
proof
  fix s :: ring_source
  assume inv: "ring_source_inv s"
  show "ring_source_inv (ring_source_stop s)"
    "\<not> rg_poll_thread (ring_source_stop s)" "detached (rg_bpf_mgr (ring_source_stop s))"
    using ring_source_stop_detached [OF inv] by simp_all
  assume idle: "\<not> rg_poll_thread s"
  have "\<exists>st s'. ring_source_start lb kl s = Some (st, s') \<and> ring_source_inv s'"
  proof (cases "rg_bpf_obj_path s = []")
    case True
    obtain s' where "kl_on_stub_start kl (s\<lparr>rg_stub_mode := True\<rparr>) = (status_ok, s')" "rg_bpf_mgr s' = rg_bpf_mgr s"
      "rg_ring_buf s' = rg_ring_buf s" "rg_poll_thread s' = rg_poll_thread s"
      using stub_start_keeps [OF assms, of "s\<lparr>rg_stub_mode := True\<rparr>"] by auto
    with True inv show ?thesis by (auto simp: ring_source_start_def ring_source_inv_def)
  next
    case False
    with ring_source_start_cases [OF inv idle] show ?thesis by metis
  qed
  then show "ring_source_start lb kl s \<noteq> None"
    and "\<And>st s'. ring_source_start lb kl s = Some (st, s') \<Longrightarrow> ring_source_inv s'" by auto
qed

interpretation io_monitor: bpf_source "ring_source_start lb io_monitor_class" ring_source_stop rg_poll_thread
  ring_source_inv rg_bpf_mgr for lb
  by (rule ring_source_contract) (simp add: ring_classes_def)

interpretation net_tracer: bpf_source "ring_source_start lb net_tracer_class" ring_source_stop rg_poll_thread
  ring_source_inv rg_bpf_mgr for lb
  by (rule ring_source_contract) (simp add: ring_classes_def)

interpretation sched_tracer: bpf_source "ring_source_start lb sched_tracer_class" ring_source_stop rg_poll_thread
  ring_source_inv rg_bpf_mgr for lb
  by (rule ring_source_contract) (simp add: ring_classes_def)

lemma ring_source_new_inv [simp]: "ring_source_inv (ring_source_new\<lparr>rg_bpf_obj_path := path\<rparr>)"
  using accounts_new by (auto simp: ring_source_inv_def ring_source_new_def)

lemma start_keeps_path:
  "kl \<in> set ring_classes \<Longrightarrow> ring_source_start lb kl rg = Some (st, rg') \<Longrightarrow>
   rg_bpf_obj_path rg' = rg_bpf_obj_path rg"
  by (auto simp: ring_source_start_def Let_def ring_classes_def io_monitor_class_def net_tracer_class_def
      sched_tracer_class_def split: prod.splits if_splits)

lemma run_keeps_path:
  "kl \<in> set ring_classes \<Longrightarrow> source_run (ring_source_start lb kl) ring_source_stop rg_poll_thread ops rg = Some rg' \<Longrightarrow>
   rg_bpf_obj_path rg' = rg_bpf_obj_path rg"
proof (induction ops arbitrary: rg)
  case (Cons x ops)
  then show ?case
    by (cases x) (auto simp: ring_source_stop_def dest: start_keeps_path split: option.splits if_splits)
qed simp



section \<open>What the sources report\<close>

text \<open>The batches of the events that the ring buffer delivers to a source, each at its time.\<close>

definition io_monitor_poll :: "(u64 \<times> nat \<times> il_bio_event) list \<Rightarrow> ring_source \<Rightarrow> data_batch list" where
  "io_monitor_poll evs rg = concat (map (\<lambda>(now, sz, e). io_monitor_handle_event now sz e rg) evs)"

lemma io_monitor_poll_full:
  assumes "rg_callback rg" "list_all (\<lambda>(now, sz, e). sizeof_bio_event \<le> sz) evs"
  shows "io_monitor_poll evs rg = map (\<lambda>(now, sz, e). io_batch now e) evs"
  using assms(2)
  by (induction evs) (auto simp: io_monitor_poll_def io_monitor_handle_event_def assms(1))

text \<open>
  What the I/O monitor reports are requests. When it polls the events of any run of the probe, it
  pushes one batch with one record for each, and each record names the task that issued a request, as
  it was called, and has the microseconds from the last issue of the sector to its completion.
\<close>

theorem io_monitor_reports_requests:
  fixes runs :: "bio_run list"
  assumes "update_law upd" "bl_req_starts m0 = Map.empty" "bl_events m0 = []" "rg_callback rg"
    and "map (\<lambda>(now, sz, e). e) evs = bl_events (fold (bio_step upd) runs m0)"
    and "list_all (\<lambda>(now, sz, e). sizeof_bio_event \<le> sz) evs"
  shows "length (io_monitor_poll evs rg) = length (bl_events (fold (bio_step upd) runs m0)) \<and>
    (\<forall>b \<in> set (io_monitor_poll evs rg). \<exists>us env ctx ws env' ctx' raw vs r.
      runs = us @ Issue env ctx # ws @ Complete env' ctx' (Some raw) # vs \<and>
      bq_sector ctx = bq_sector ctx' \<and> (\<forall>w \<in> set ws. run_sector w \<noteq> bq_sector ctx) \<and>
      db_records b = [r] \<and> get_field ''sector'' r = Some (FUint (bq_sector ctx)) \<and>
      get_field ''pid'' r = Some (u64_of (env_pid env)) \<and>
      get_field ''comm'' r = Some (FString (comm_text (env_comm env))) \<and>
      get_field ''latency_us'' r = Some (FUint ((env_time env' - env_time env) div 1000)))"
proof (intro conjI ballI)
  let ?evs = "bl_events (fold (bio_step upd) runs m0)"
  note poll = io_monitor_poll_full [OF assms(4,6)]
  show "length (io_monitor_poll evs rg) = length ?evs"
    using assms(5) by (simp add: poll flip: assms(5))
  fix b
  assume "b \<in> set (io_monitor_poll evs rg)"
  then obtain now sz e where e: "(now, sz, e) \<in> set evs" and b: "b = io_batch now e" by (auto simp: poll)
  have "e \<in> (\<lambda>(now, sz, e). e) ` set evs" by (rule image_eqI [OF _ e]) simp
  then have "e \<in> set ?evs" by (simp flip: assms(5))
  from bio_event_request [OF assms(1-3) this] obtain us env ctx ws env' ctx' raw vs
    where req: "runs = us @ Issue env ctx # ws @ Complete env' ctx' (Some raw) # vs"
      "bq_sector ctx = be_sector e" "bq_sector ctx' = be_sector e" "\<forall>w \<in> set ws. run_sector w \<noteq> be_sector e"
      "be_latency_ns e = env_time env' - env_time env" "be_pid e = env_pid env" "be_comm e = env_comm env"
    by blast
  let ?r = "hd (db_records b)"
  have "db_records b = [?r]" by (simp add: b io_batch_def add_record_def new_batch_def)
  moreover have "get_field ''sector'' ?r = Some (FUint (be_sector e))"
    "get_field ''pid'' ?r = Some (u64_of (be_pid e))" "get_field ''comm'' ?r = Some (FString (comm_text (be_comm e)))"
    "get_field ''latency_us'' ?r = Some (FUint (be_latency_ns e div 1000))"
    by (simp_all add: b io_batch_def add_record_def new_batch_def set_fields_def u64_of_def)
  ultimately show "\<exists>us env ctx ws env' ctx' raw vs r.
      runs = us @ Issue env ctx # ws @ Complete env' ctx' (Some raw) # vs \<and>
      bq_sector ctx = bq_sector ctx' \<and> (\<forall>w \<in> set ws. run_sector w \<noteq> bq_sector ctx) \<and>
      db_records b = [r] \<and> get_field ''sector'' r = Some (FUint (bq_sector ctx)) \<and>
      get_field ''pid'' r = Some (u64_of (env_pid env)) \<and>
      get_field ''comm'' r = Some (FString (comm_text (env_comm env))) \<and>
      get_field ''latency_us'' r = Some (FUint ((env_time env' - env_time env) div 1000))"
    using req by metis
qed

lemma io_monitor_reports_requests_witness:
  defines "env \<equiv> \<lambda>t. \<lparr>env_pid_tgid = 0x700000009, env_comm = ''a'', env_cpu = 1, env_time = t,
      env_kernel_stack = 2, env_user_stack = 3\<rparr>"
    and "ctx \<equiv> \<lparr>bq_sector = 64, bq_nr_sector = 8, bq_rwbs = ''WS''\<rparr>"
    and "m0 \<equiv> \<lparr>bl_req_starts = Map.empty, bl_events = []\<rparr>"
    and "raw \<equiv> \<lparr>be_timestamp_ns = 0, be_pid = 0, be_tid = 0, be_sector = 0, be_nr_sector = 0, be_dev = 77,
      be_latency_ns = 0, be_comm = [], be_rwflag = 0\<rparr>"
    and "rg \<equiv> ring_source_new\<lparr>rg_callback := True\<rparr>"
  shows "\<exists>e. bl_events (fold (bio_step plain_update) [Issue (env 100) ctx, Complete (env 9350) ctx (Some raw)] m0) = [e] \<and>
    length (io_monitor_poll [(5, 64, e)] rg) = 1"
proof -
  let ?runs = "[Issue (env 100) ctx, Complete (env 9350) ctx (Some raw)]"
  let ?e = "bio_event (env 9350) ctx (request_start (env 100)) raw"
  have run: "bl_events (fold (bio_step plain_update) ?runs m0) = [?e]"
    by (simp add: m0_def trace_block_rq_issue_def trace_block_rq_complete_def plain_update_def)
  from io_monitor_reports_requests [OF plain_update_law, of m0 rg "[(5, 64, ?e)]" ?runs] run
  show ?thesis by (simp add: m0_def rg_def sizeof_bio_event_def)
qed

end
