(* ===== verification/CpuProbes.thy ===== *)
theory CpuProbes
  imports Bpf
begin

text \<open>
  The two CPU sampling probes of \<open>src/ebpf/probes/cpu/\<close>. A probe's state is its maps and the events it
  submitted; each run of the probe has an environment and the memory its ring buffer reserves.
\<close>

section \<open>cpu_profiler.bpf.c\<close>

record profiler_maps =
  pf_cfg :: "u32 list" \<comment> \<open>\<open>cpu_profiler_cfg\<close>\<close>
  pf_target_pids :: "u32 \<rightharpoonup> u8"
  pf_target_comms :: "string \<rightharpoonup> u8"
  pf_stack_counts :: "il_stack_key \<rightharpoonup> u64"
  pf_cpu_events :: "il_cpu_sample_event list"

definition sample_key :: "bpf_env \<Rightarrow> il_stack_key" where
  "sample_key env =
     \<lparr>sk_pid = env_pid env, sk_tid = env_tid env, sk_kernel_stack_id = env_kernel_stack env,
      sk_user_stack_id = env_user_stack env, sk_comm = env_comm env\<rparr>"

definition count_sample ::
  "(il_stack_key, u64) bpf_update \<Rightarrow> il_stack_key \<Rightarrow> (il_stack_key \<rightharpoonup> u64) \<Rightarrow> (il_stack_key \<rightharpoonup> u64)" where
  "count_sample upd key counts =
     (case counts key of Some n \<Rightarrow> counts(key \<mapsto> n + 1) | None \<Rightarrow> upd key 1 counts)"

definition profiler_on_cpu_sample ::
  "(il_stack_key, u64) bpf_update \<Rightarrow> bpf_env \<times> il_cpu_sample_event option \<Rightarrow> profiler_maps \<Rightarrow> profiler_maps" where
  "profiler_on_cpu_sample upd = (\<lambda>(env, reserved) maps.
     let pid = env_pid env; tid = env_tid env
     in if pid = 0 then maps
        else
          let cfg_flags = (case array_lookup (pf_cfg maps) 0 of Some v \<Rightarrow> v | None \<Rightarrow> 1)
          in if cfg_flags AND 2 \<noteq> 0 \<and> pf_target_pids maps pid = None then maps
             else if cfg_flags AND 4 \<noteq> 0 \<and> pf_target_comms maps (env_comm env) = None then maps
             else
               let maps = maps\<lparr>pf_stack_counts := count_sample upd (sample_key env) (pf_stack_counts maps)\<rparr>
               in if cfg_flags AND 1 = 0 then maps
                  else case reserved of
                         None \<Rightarrow> maps
                       | Some e \<Rightarrow>
                           maps\<lparr>pf_cpu_events := pf_cpu_events maps @
                             [e\<lparr>ce_timestamp_ns := env_time env, ce_pid := pid, ce_tid := tid,
                                ce_cpu := env_cpu env, ce_comm := env_comm env,
                                ce_kernel_stack_id := env_kernel_stack env,
                                ce_user_stack_id := env_user_stack env\<rparr>]\<rparr>)"

section \<open>cpu_sampler.bpf.c\<close>

record sampler_maps =
  sp_stack_counts :: "il_stack_key \<rightharpoonup> u64"
  sp_cpu_events :: "il_cpu_sample_event list"

text \<open>The key of \<open>stack_counts\<close> is made of the stack ids of the event, which are those of the environment.\<close>

definition sampler_on_cpu_sample ::
  "(il_stack_key, u64) bpf_update \<Rightarrow> bpf_env \<times> il_cpu_sample_event option \<Rightarrow> sampler_maps \<Rightarrow> sampler_maps" where
  "sampler_on_cpu_sample upd = (\<lambda>(env, reserved) maps.
     if env_pid env = 0 then maps
     else case reserved of
            None \<Rightarrow> maps
          | Some e \<Rightarrow>
              let e = e\<lparr>ce_timestamp_ns := env_time env, ce_pid := env_pid env, ce_tid := env_tid env,
                        ce_cpu := env_cpu env, ce_comm := env_comm env,
                        ce_kernel_stack_id := env_kernel_stack env,
                        ce_user_stack_id := env_user_stack env\<rparr>
              in maps\<lparr>sp_stack_counts := count_sample upd (sample_key env) (sp_stack_counts maps),
                      sp_cpu_events := sp_cpu_events maps @ [e]\<rparr>)"

section \<open>Counting\<close>

definition counts_samples :: "(il_stack_key \<rightharpoonup> u64) \<Rightarrow> il_stack_key list \<Rightarrow> bool" where
  "counts_samples counts ks \<longleftrightarrow>
     (\<forall>k. counts k = (if k \<in> set ks then Some (of_nat (count_list ks k)) else None))"

text \<open>
  The rows of \<open>stack_counts\<close> after the samples \<open>ks\<close>: each key counts its samples from the one on that
  found room in the table.
\<close>

definition counts_from_insertion :: "(il_stack_key \<rightharpoonup> u64) \<Rightarrow> il_stack_key list \<Rightarrow> bool" where
  "counts_from_insertion counts ks \<longleftrightarrow>
     (\<forall>k n. counts k = Some n \<longrightarrow> (\<exists>us vs. ks = us @ k # vs \<and> n = of_nat (count_list (k # vs) k)))"

lemma count_sample_exact:
  assumes "counts_samples counts ks"
  shows "counts_samples (count_sample plain_update k counts) (ks @ [k])"
  using assms by (auto simp: counts_samples_def count_sample_def plain_update_def count_list_0_iff algebra_simps)

lemma count_sample_from_insertion:
  assumes "update_law upd" "counts_from_insertion counts ks"
  shows "counts_from_insertion (count_sample upd k counts) (ks @ [k])"
  unfolding counts_from_insertion_def
proof (intro allI impI)
  fix k' n
  assume row: "count_sample upd k counts k' = Some n"
  have old: "\<exists>us vs. ks = us @ k' # vs \<and> m = of_nat (count_list (k' # vs) k')" if "counts k' = Some m" for m
    using assms(2) that by (simp add: counts_from_insertion_def)
  consider (other) "k' \<noteq> k" "counts k' = Some n"
    | (again) m where "k' = k" "counts k = Some m" "n = m + 1"
    | (new) "k' = k" "n = 1"
    using row update_law_other [OF assms(1)] update_law_same [OF assms(1), of k 1 counts]
    by (cases "k' = k") (auto simp: count_sample_def split: option.splits)
  then show "\<exists>us vs. ks @ [k] = us @ k' # vs \<and> n = of_nat (count_list (k' # vs) k')"
  proof cases
    case other
    with old [OF other(2)] obtain us vs where "ks = us @ k' # vs" "n = of_nat (count_list (k' # vs) k')" by blast
    with other(1) show ?thesis by (intro exI [of _ us] exI [of _ "vs @ [k]"]) simp
  next
    case again
    with old [of m] obtain us vs where "ks = us @ k # vs" "m = of_nat (count_list (k # vs) k)" by blast
    with again show ?thesis by (intro exI [of _ us] exI [of _ "vs @ [k]"]) simp
  next
    case new
    then show ?thesis by (intro exI [of _ ks] exI [of _ "[]"]) simp
  qed
qed

definition profiler_flags :: "profiler_maps \<Rightarrow> u32" where
  "profiler_flags maps = (case array_lookup (pf_cfg maps) 0 of Some v \<Rightarrow> v | None \<Rightarrow> 1)"

definition profiler_accepts :: "profiler_maps \<Rightarrow> bpf_env \<Rightarrow> bool" where
  "profiler_accepts maps env \<longleftrightarrow> env_pid env \<noteq> 0 \<and>
     (profiler_flags maps AND 2 \<noteq> 0 \<longrightarrow> pf_target_pids maps (env_pid env) \<noteq> None) \<and>
     (profiler_flags maps AND 4 \<noteq> 0 \<longrightarrow> pf_target_comms maps (env_comm env) \<noteq> None)"

definition event_key :: "il_cpu_sample_event \<Rightarrow> il_stack_key" where
  "event_key e = \<lparr>sk_pid = ce_pid e, sk_tid = ce_tid e, sk_kernel_stack_id = ce_kernel_stack_id e,
     sk_user_stack_id = ce_user_stack_id e, sk_comm = ce_comm e\<rparr>"

lemma profiler_config_kept [simp]:
  "pf_cfg (profiler_on_cpu_sample upd x maps) = pf_cfg maps"
  "pf_target_pids (profiler_on_cpu_sample upd x maps) = pf_target_pids maps"
  "pf_target_comms (profiler_on_cpu_sample upd x maps) = pf_target_comms maps"
  by (cases x; simp add: profiler_on_cpu_sample_def Let_def split: option.split)+

lemma profiler_config_fold [simp]:
  "pf_cfg (fold (profiler_on_cpu_sample upd) xs maps) = pf_cfg maps"
  "pf_target_pids (fold (profiler_on_cpu_sample upd) xs maps) = pf_target_pids maps"
  "pf_target_comms (fold (profiler_on_cpu_sample upd) xs maps) = pf_target_comms maps"
  by (induction xs arbitrary: maps) simp_all

lemma profiler_fold_accepts [simp]:
  "profiler_flags (fold (profiler_on_cpu_sample upd) xs maps) = profiler_flags maps"
  "profiler_accepts (fold (profiler_on_cpu_sample upd) xs maps) = profiler_accepts maps"
  by (simp_all add: profiler_flags_def profiler_accepts_def fun_eq_iff)

lemma profiler_step_counts:
  "pf_stack_counts (profiler_on_cpu_sample upd (env, r) maps) =
     (if profiler_accepts maps env then count_sample upd (sample_key env) (pf_stack_counts maps)
      else pf_stack_counts maps)"
  by (auto simp: profiler_on_cpu_sample_def profiler_accepts_def profiler_flags_def Let_def split: option.splits)

lemma profiler_step_events:
  "map event_key (pf_cpu_events (profiler_on_cpu_sample upd (env, r) maps)) =
     map event_key (pf_cpu_events maps) @
     (if profiler_accepts maps env \<and> profiler_flags maps AND 1 \<noteq> 0 \<and> r \<noteq> None then [sample_key env] else [])"
  by (auto simp: profiler_on_cpu_sample_def profiler_accepts_def profiler_flags_def Let_def event_key_def
      sample_key_def split: option.splits)

definition accepted_keys :: "profiler_maps \<Rightarrow> (bpf_env \<times> il_cpu_sample_event option) list \<Rightarrow> il_stack_key list" where
  "accepted_keys maps xs = map (sample_key \<circ> fst) (filter (profiler_accepts maps \<circ> fst) xs)"

lemma accepted_keys_snoc:
  "accepted_keys maps (xs @ [(env, r)]) =
     accepted_keys maps xs @ (if profiler_accepts maps env then [sample_key env] else [])"
  by (simp add: accepted_keys_def)

text \<open>With room in the table, from any contents: each accepted sample adds one to its row.\<close>

definition key_count :: "profiler_maps \<Rightarrow> il_stack_key \<Rightarrow> u64" where
  "key_count maps k = (case pf_stack_counts maps k of None \<Rightarrow> 0 | Some n \<Rightarrow> n)"

lemma accepted_keys_append: "accepted_keys maps (xs @ ys) = accepted_keys maps xs @ accepted_keys maps ys"
  by (simp add: accepted_keys_def)

lemma accepted_keys_fold [simp]:
  "accepted_keys (fold (profiler_on_cpu_sample upd) xs maps) = accepted_keys maps"
  by (simp add: accepted_keys_def fun_eq_iff)

lemma count_sample_plain:
  "count_sample plain_update k counts =
     counts(k \<mapsto> (case counts k of None \<Rightarrow> 1 | Some n \<Rightarrow> n + 1))"
  by (simp add: count_sample_def plain_update_def split: option.split)

lemma profiler_fold_key_count:
  "key_count (fold (profiler_on_cpu_sample plain_update) xs maps) k =
     key_count maps k + of_nat (count_list (accepted_keys maps xs) k)"
proof (induction xs rule: rev_induct)
  case Nil
  show ?case by (simp add: accepted_keys_def)
next
  case (snoc x xs)
  then show ?case
    by (cases x) (auto simp: key_count_def profiler_step_counts accepted_keys_snoc count_sample_plain
        split: option.splits)
qed

lemma profiler_fold_dom:
  "dom (pf_stack_counts (fold (profiler_on_cpu_sample plain_update) xs maps)) =
     dom (pf_stack_counts maps) \<union> set (accepted_keys maps xs)"
proof (induction xs rule: rev_induct)
  case Nil
  show ?case by (simp add: accepted_keys_def)
next
  case (snoc x xs)
  then show ?case
    by (cases x) (auto simp: profiler_step_counts accepted_keys_snoc count_sample_plain split: if_splits)
qed

text \<open>
  C23: the profiler counts exactly the samples it is to count. After any run from an empty table, a row
  of \<open>stack_counts\<close> holds the number (modulo \<open>2 ^ 64\<close>) of the samples of its task and stacks that the
  filters let through, from the one for which the table had room on; with a table that never fills,
  the rows are the accepted samples, counted. Events go out for the accepted samples for which there
  was room, in streaming mode only. A table of flags as the kernel creates it means no streaming: the
  default of the code is never used.
\<close>

theorem profiler_counts_samples:
  fixes samples :: "(bpf_env \<times> il_cpu_sample_event option) list"
  assumes "update_law upd" and "pf_stack_counts m0 = Map.empty" "pf_cpu_events m0 = []"
  shows "counts_from_insertion (pf_stack_counts (fold (profiler_on_cpu_sample upd) samples m0))
      (accepted_keys m0 samples) \<and>
    (upd = plain_update \<longrightarrow>
      counts_samples (pf_stack_counts (fold (profiler_on_cpu_sample upd) samples m0)) (accepted_keys m0 samples)) \<and>
    map event_key (pf_cpu_events (fold (profiler_on_cpu_sample upd) samples m0)) =
      (if profiler_flags m0 AND 1 = 0 then []
       else accepted_keys m0 (filter (\<lambda>(env, r). r \<noteq> None) samples)) \<and>
    (pf_cfg m0 = [0] \<longrightarrow> pf_cpu_events (fold (profiler_on_cpu_sample upd) samples m0) = [])"
proof -
  let ?m = "\<lambda>xs. fold (profiler_on_cpu_sample upd) xs m0"
  have "counts_from_insertion (pf_stack_counts (?m samples)) (accepted_keys m0 samples)"
  proof (induction samples rule: rev_induct)
    case Nil
    show ?case by (simp add: counts_from_insertion_def assms(2))
  next
    case (snoc x xs)
    then show ?case
      by (cases x) (simp add: profiler_step_counts accepted_keys_snoc count_sample_from_insertion [OF assms(1)])
  qed
  moreover have "counts_samples (pf_stack_counts (?m samples)) (accepted_keys m0 samples)"
    if "upd = plain_update"
  proof (induction samples rule: rev_induct)
    case Nil
    show ?case by (simp add: counts_samples_def assms(2) accepted_keys_def)
  next
    case (snoc x xs)
    then show ?case
      by (cases x) (simp add: that profiler_step_counts accepted_keys_snoc count_sample_exact)
  qed
  moreover have ev: "map event_key (pf_cpu_events (?m samples)) =
      (if profiler_flags m0 AND 1 = 0 then []
       else accepted_keys m0 (filter (\<lambda>(env, r). r \<noteq> None) samples))"
  proof (induction samples rule: rev_induct)
    case Nil
    show ?case by (simp add: assms(3) accepted_keys_def)
  next
    case (snoc x xs)
    then show ?case by (cases x) (simp add: profiler_step_events accepted_keys_snoc del: not_None_eq)
  qed
  moreover have "pf_cpu_events (?m samples) = []" if "pf_cfg m0 = [0]"
    using ev that by (simp add: profiler_flags_def array_lookup_def)
  ultimately show ?thesis by blast
qed

lemma profiler_counts_samples_witness:
  defines "env \<equiv> \<lparr>env_pid_tgid = 0x700000009, env_comm = ''a'', env_cpu = 1, env_time = 5,
      env_kernel_stack = 2, env_user_stack = 3\<rparr>"
    and "m0 \<equiv> \<lparr>pf_cfg = [0], pf_target_pids = Map.empty, pf_target_comms = Map.empty,
      pf_stack_counts = Map.empty, pf_cpu_events = []\<rparr>"
  shows "pf_stack_counts (fold (profiler_on_cpu_sample plain_update) [(env, None), (env, None)] m0)
      (sample_key env) = Some 2"
proof -
  have m0: "pf_stack_counts m0 = Map.empty" "pf_cpu_events m0 = []" by (simp_all add: m0_def)
  have acc: "accepted_keys m0 [(env, None), (env, None)] = [sample_key env, sample_key env]"
    by (simp add: accepted_keys_def profiler_accepts_def profiler_flags_def array_lookup_def m0_def
        env_def env_pid_def drop_bit_eq_div)
  from profiler_counts_samples [OF plain_update_law m0, of "[(env, None), (env, None)]"] acc
  have "counts_samples (pf_stack_counts (fold (profiler_on_cpu_sample plain_update)
      [(env, None), (env, None)] m0)) [sample_key env, sample_key env]"
    by (metis (no_types, lifting))
  then show ?thesis by (simp add: counts_samples_def)
qed

text \<open>
  The sampler's table holds the samples it streamed and no others: a sample for which the ring buffer
  has no room is not counted either, so the table does not go on counting when nobody reads the events.
\<close>

theorem sampler_counts_streamed:
  fixes samples :: "(bpf_env \<times> il_cpu_sample_event option) list"
  assumes "update_law upd" and "sp_stack_counts m0 = Map.empty" "sp_cpu_events m0 = []"
  defines "m \<equiv> fold (sampler_on_cpu_sample upd) samples m0"
  shows "map event_key (sp_cpu_events m) =
      map (sample_key \<circ> fst) (filter (\<lambda>(env, r). env_pid env \<noteq> 0 \<and> r \<noteq> None) samples) \<and>
    counts_from_insertion (sp_stack_counts m) (map event_key (sp_cpu_events m)) \<and>
    (upd = plain_update \<longrightarrow> counts_samples (sp_stack_counts m) (map event_key (sp_cpu_events m)))"
proof -
  let ?m = "\<lambda>xs. fold (sampler_on_cpu_sample upd) xs m0"
  let ?ks = "\<lambda>xs. map (sample_key \<circ> fst) (filter (\<lambda>(env, r). env_pid env \<noteq> 0 \<and> r \<noteq> None) xs)"
  have step: "sp_stack_counts (sampler_on_cpu_sample u (env, r) ms) =
      (if env_pid env \<noteq> 0 \<and> r \<noteq> None then count_sample u (sample_key env) (sp_stack_counts ms)
       else sp_stack_counts ms)"
    "map event_key (sp_cpu_events (sampler_on_cpu_sample u (env, r) ms)) =
      map event_key (sp_cpu_events ms) @ (if env_pid env \<noteq> 0 \<and> r \<noteq> None then [sample_key env] else [])"
    for env r ms u
    by (simp_all add: sampler_on_cpu_sample_def Let_def event_key_def sample_key_def split: option.split)
  have events: "map event_key (sp_cpu_events (?m samples)) = ?ks samples"
  proof (induction samples rule: rev_induct)
    case Nil
    show ?case by (simp add: assms(3))
  next
    case (snoc x xs)
    then show ?case by (cases x) (simp add: step del: not_None_eq)
  qed
  have "counts_from_insertion (sp_stack_counts (?m samples)) (?ks samples)"
  proof (induction samples rule: rev_induct)
    case Nil
    show ?case by (simp add: counts_from_insertion_def assms(2))
  next
    case (snoc x xs)
    then show ?case by (cases x) (simp add: step count_sample_from_insertion [OF assms(1)] del: not_None_eq)
  qed
  moreover have "counts_samples (sp_stack_counts (?m samples)) (?ks samples)"
    if "upd = plain_update"
  proof (induction samples rule: rev_induct)
    case Nil
    show ?case by (simp add: counts_samples_def assms(2))
  next
    case (snoc x xs)
    then show ?case by (cases x) (simp add: that step count_sample_exact del: not_None_eq)
  qed
  ultimately show ?thesis unfolding m_def events by blast
qed

lemma sampler_counts_streamed_witness:
  defines "env \<equiv> \<lparr>env_pid_tgid = 0x700000009, env_comm = ''a'', env_cpu = 1, env_time = 5,
      env_kernel_stack = 2, env_user_stack = 3\<rparr>"
    and "m0 \<equiv> \<lparr>sp_stack_counts = Map.empty, sp_cpu_events = []\<rparr>"
    and "e \<equiv> \<lparr>ce_timestamp_ns = 0, ce_pid = 0, ce_tid = 0, ce_cpu = 0, ce_comm = [],
      ce_kernel_stack_id = 0, ce_user_stack_id = 0\<rparr>"
  shows "map event_key (sp_cpu_events (fold (sampler_on_cpu_sample (bounded_update 65536))
      [(env, Some e), (env, None)] m0)) = [sample_key env]"
  using sampler_counts_streamed [OF bounded_update_law [of 65536], of m0 "[(env, Some e), (env, None)]"]
  by (simp add: m0_def env_def env_pid_def drop_bit_eq_div)

end
