(* ===== verification/CpuProfilerSource.thy ===== *)
theory CpuProfilerSource
  imports RingSources CpuProbes
begin

text \<open>
  The CPU profiler in user space (\<open>src/sources/cpu/cpu_profiler/cpu_profiler.h\<close>): its configuration, the
  perf events it opens on every processor, the filters it writes into the maps of its probe, and the two
  ways it reports samples, by walking the table of counts or by streaming events. The maps are the
  \<open>profiler_maps\<close> of \<open>CpuProbes\<close>; a run of the aggregation thread takes what the probe does between
  its snapshot and its deletes as an argument.
\<close>

section \<open>Parsing\<close>

text \<open>Successive \<open>std::getline\<close> calls with a separator: nothing follows a separator at the very end.\<close>

function split_tokens :: "char \<Rightarrow> string \<Rightarrow> string list" where
  "split_tokens d s =
     (if s = [] then []
      else takeWhile (\<lambda>c. c \<noteq> d) s # split_tokens d (drop 1 (dropWhile (\<lambda>c. c \<noteq> d) s)))"
  by auto
termination
proof (relation "measure (length \<circ> snd)")
  fix d :: char and s :: string
  assume "s \<noteq> []"
  then show "((d, drop 1 (dropWhile (\<lambda>c. c \<noteq> d) s)), d, s) \<in> measure (length \<circ> snd)"
    using length_dropWhile_le [of "\<lambda>c. c \<noteq> d" s] by (cases s) auto
qed simp

declare split_tokens.simps [simp del]

text \<open>What one part contributes; a part whose conversion throws is skipped (and logged).\<close>

definition cpu_range :: "string \<Rightarrow> int list" where
  "cpu_range part =
     (if CHR ''-'' \<notin> set part
      then (case stoi part of None \<Rightarrow> [] | Some c \<Rightarrow> [c])
      else case stoi (takeWhile (\<lambda>c. c \<noteq> CHR ''-'') part) of
             None \<Rightarrow> []
           | Some lo \<Rightarrow>
               (case stoi (drop 1 (dropWhile (\<lambda>c. c \<noteq> CHR ''-'') part)) of
                  None \<Rightarrow> []
                | Some hi \<Rightarrow> [lo..hi]))"

definition parse_online_cpu_ids :: "string option \<Rightarrow> int list" where
  "parse_online_cpu_ids contents =
     (case contents of
        None \<Rightarrow> []
      | Some s \<Rightarrow> concat (map cpu_range (split_tokens (CHR '','') (takeWhile (\<lambda>c. c \<noteq> CHR 0x0A) s))))"

definition parse_comma_separated_strings :: "string \<Rightarrow> string list" where
  "parse_comma_separated_strings s =
     filter (\<lambda>t. t \<noteq> []) (map (\<lambda>t. trim_end (dropWhile is_blank t)) (split_tokens (CHR '','') s))"

section \<open>State and configuration\<close>

record cpu_profiler =
  cp_frequency_hz :: int
  cp_aggregate_interval_ms :: u32
  cp_stack_depth :: int
  cp_user_stacks :: bool
  cp_kernel_stacks :: bool
  cp_stream_mode :: bool
  cp_stub_mode :: bool
  cp_bpf_obj_path :: string
  cp_target_pids :: "u32 list"
  cp_target_comms :: "string list"
  cp_running :: bool
  cp_bpf_mgr :: bpf_manager
  cp_stacks_fd :: int
  cp_counts_fd :: int
  cp_perf_fds :: "int list"
  cp_ring_buf :: "handle option"
  cp_poll_thread :: bool
  cp_agg_thread :: bool
  cp_last_batch :: "data_batch option"
  cp_callback :: bool

definition cpu_profiler_new :: cpu_profiler where
  "cpu_profiler_new = \<lparr>cp_frequency_hz = 49, cp_aggregate_interval_ms = 1000,
     cp_stack_depth = int max_stack_depth, cp_user_stacks = True, cp_kernel_stacks = True,
     cp_stream_mode = False, cp_stub_mode = False, cp_bpf_obj_path = [], cp_target_pids = [],
     cp_target_comms = [], cp_running = False, cp_bpf_mgr = bpf_manager_new, cp_stacks_fd = -1,
     cp_counts_fd = -1, cp_perf_fds = [], cp_ring_buf = None, cp_poll_thread = False,
     cp_agg_thread = False, cp_last_batch = None, cp_callback = False\<rparr>"

definition c_int :: "int \<Rightarrow> int" where
  "c_int i = sint (word_of_int i :: s32)"

definition cpu_profiler_init :: "config_value \<Rightarrow> cpu_profiler \<Rightarrow> status \<times> cpu_profiler" where
  "cpu_profiler_init config s =
     (let depth = c_int (as_int (cv_child ''stack_depth'' config) 128)
      in (status_ok,
          s\<lparr>cp_frequency_hz := c_int (as_int (cv_child ''frequency_hz'' config) 49),
            cp_aggregate_interval_ms := word_of_int (as_int (cv_child ''aggregate_interval_ms'' config) 1000),
            cp_stack_depth := (if int max_stack_depth < depth then int max_stack_depth else depth),
            cp_user_stacks := as_bool (cv_child ''user_stacks'' config) True,
            cp_kernel_stacks := as_bool (cv_child ''kernel_stacks'' config) True,
            cp_stream_mode := as_string (cv_child ''mode'' config) ''aggregated'' = ''stream'',
            cp_bpf_obj_path := as_string (cv_child ''bpf_object'' config) [],
            cp_target_pids := parse_comma_u32 (as_string (cv_child ''target_pids'' config) []),
            cp_target_comms := parse_comma_separated_strings (as_string (cv_child ''target_comms'' config) [])\<rparr>))"

section \<open>Filters\<close>

definition filter_flags :: "cpu_profiler \<Rightarrow> u32" where
  "filter_flags s = (if cp_stream_mode s then 1 else 0) OR (if cp_target_pids s \<noteq> [] then 2 else 0) OR
     (if cp_target_comms s \<noteq> [] then 4 else 0)"

definition comm_key :: "string \<Rightarrow> string" where
  "comm_key name = take (task_comm_len - 1) name"

definition apply_filter_maps ::
  "libbpf \<Rightarrow> (u32, u8) bpf_update \<Rightarrow> (string, u8) bpf_update \<Rightarrow> cpu_profiler \<Rightarrow> profiler_maps \<Rightarrow> profiler_maps" where
  "apply_filter_maps lb updp updc s maps =
     (let fd = (\<lambda>name. get_map_fd lb ''cpu_profiler'' name (cp_bpf_mgr s));
          maps = (if 0 \<le> fd ''cpu_profiler_cfg'' then maps\<lparr>pf_cfg := (pf_cfg maps)[0 := filter_flags s]\<rparr> else maps);
          maps = (if 0 \<le> fd ''target_pids'' \<and> cp_target_pids s \<noteq> []
                  then maps\<lparr>pf_target_pids := fold (\<lambda>pid. updp pid 1) (cp_target_pids s) (pf_target_pids maps)\<rparr>
                  else maps)
      in if 0 \<le> fd ''target_comms'' \<and> cp_target_comms s \<noteq> []
         then maps\<lparr>pf_target_comms := fold (\<lambda>name. updc (comm_key name) 1) (cp_target_comms s) (pf_target_comms maps)\<rparr>
         else maps)"

section \<open>Start and stop\<close>

definition open_perf_event :: "libbpf \<Rightarrow> int \<Rightarrow> bpf_manager \<Rightarrow> int option \<times> bpf_manager" where
  "open_perf_event lb cpu m =
     (let fd = lb_perf_open lb (bm_calls m) cpu; m = called [PerfOpen cpu fd] m
      in if fd < 0 then (None, m)
         else let ok = lb_ioctl lb (bm_calls m) fd ''SET_BPF''; m = called [PerfIoctl fd ''SET_BPF'' ok] m
         in if \<not> ok then (None, called [PerfClose fd] m)
         else let ok = lb_ioctl lb (bm_calls m) fd ''RESET''; m = called [PerfIoctl fd ''RESET'' ok] m
         in if \<not> ok then (None, called [PerfClose fd] m)
         else let ok = lb_ioctl lb (bm_calls m) fd ''ENABLE''; m = called [PerfIoctl fd ''ENABLE'' ok] m
         in if \<not> ok then (None, called [PerfClose fd] m)
         else (Some fd, m))"

fun open_perf_events :: "libbpf \<Rightarrow> int list \<Rightarrow> int list \<times> bpf_manager \<Rightarrow> int list \<times> bpf_manager" where
  "open_perf_events lb [] (fds, m) = (fds, m)"
| "open_perf_events lb (cpu # cpus) (fds, m) =
     (let (fd, m) = open_perf_event lb cpu m
      in open_perf_events lb cpus (fds @ (case fd of None \<Rightarrow> [] | Some fd \<Rightarrow> [fd]), m))"

definition start_cpus :: "string option \<Rightarrow> int list" where
  "start_cpus online = (let cpus = parse_online_cpu_ids online in if cpus = [] then [0] else cpus)"

text \<open>\<open>online\<close>: the contents of \<open>/sys/devices/system/cpu/online\<close>. The maps written are \<open>apply_filter_maps\<close>.\<close>

definition cpu_profiler_start :: "libbpf \<Rightarrow> string option \<Rightarrow> cpu_profiler \<Rightarrow> (status \<times> cpu_profiler) option" where
  "cpu_profiler_start lb online s =
     (if cp_bpf_obj_path s = [] then Some (status_ok, s\<lparr>cp_stub_mode := True, cp_running := False\<rparr>)
      else
        let (st, m) = load_object lb ''cpu_profiler'' (cp_bpf_obj_path s) (cp_bpf_mgr s);
            s = s\<lparr>cp_bpf_mgr := m\<rparr>
        in if \<not> is_ok st then Some (st, s)
        else let stacks_fd = get_map_fd lb ''cpu_profiler'' ''stacks'' m;
                 counts_fd = get_map_fd lb ''cpu_profiler'' ''stack_counts'' m
        in if stacks_fd < 0 \<or> counts_fd < 0
           then Some (status_error Internal ''cpu_profiler: stacks/stack_counts maps missing'', s)
        else let s = s\<lparr>cp_stacks_fd := stacks_fd, cp_counts_fd := counts_fd\<rparr>
        in if get_prog_fd lb ''cpu_profiler'' ''on_cpu_sample'' m < 0
           then Some (status_error Internal ''cpu_profiler: on_cpu_sample program missing'', s)
        else let (fds, m) = open_perf_events lb (start_cpus online) (cp_perf_fds s, m);
                 s = s\<lparr>cp_bpf_mgr := m, cp_perf_fds := fds\<rparr>
        in if fds = [] then Some (status_error Internal ''cpu_profiler: failed to open any perf events'', s)
        else let s = s\<lparr>cp_running := True\<rparr>
        in if cp_stream_mode s
           then let rb_fd = get_map_fd lb ''cpu_profiler'' ''cpu_events'' m
                in if rb_fd < 0 then Some (status_error Internal ''cpu_profiler: cpu_events ringbuf missing'', s)
                else let (ring, m) = create_ring_buffer lb rb_fd m;
                         s = s\<lparr>cp_bpf_mgr := m, cp_ring_buf := ring\<rparr>
                in if ring = None then Some (status_error Internal ''cpu_profiler: ring buffer init failed'', s)
                else if cp_poll_thread s then None
                else Some (status_ok, s\<lparr>cp_poll_thread := True\<rparr>)
           else if cp_agg_thread s then None
                else Some (status_ok, s\<lparr>cp_agg_thread := True\<rparr>))"

fun close_perf_events :: "libbpf \<Rightarrow> int list \<Rightarrow> bpf_manager \<Rightarrow> bpf_manager" where
  "close_perf_events lb [] m = m"
| "close_perf_events lb (fd # fds) m =
     close_perf_events lb fds
       (called [PerfIoctl fd ''DISABLE'' (lb_ioctl lb (bm_calls m) fd ''DISABLE''), PerfClose fd] m)"

definition cpu_profiler_stop :: "libbpf \<Rightarrow> cpu_profiler \<Rightarrow> cpu_profiler" where
  "cpu_profiler_stop lb s =
     s\<lparr>cp_running := False, cp_poll_thread := False, cp_agg_thread := False, cp_ring_buf := None, cp_perf_fds := [],
       cp_bpf_mgr := detach_all (close_perf_events lb (cp_perf_fds s) (free_ring (cp_ring_buf s) (cp_bpf_mgr s)))\<rparr>"

section \<open>Back-pressure\<close>

text \<open>
  The period set on each perf event; \<open>None\<close>: a division by zero, which kills the process. The argument
  of \<open>ioctl\<close> is the period the code computes, in nanoseconds.
\<close>

definition cpu_on_backpressure :: "bool \<Rightarrow> cpu_profiler \<Rightarrow> (int \<times> u64) list option" where
  "cpu_on_backpressure active s =
     (let new_freq = (if active then word_of_int (max 1 (cp_frequency_hz s div 4)) else word_of_int (cp_frequency_hz s)) :: u64
      in if cp_perf_fds s = [] then Some []
         else if new_freq = 0 then None
         else Some (map (\<lambda>fd. (fd, 1000000000 div new_freq)) (cp_perf_fds s)))"

section \<open>Samples\<close>

text \<open>\<open>static_cast<size_t>\<close> of the depth.\<close>

definition depth_limit :: "cpu_profiler \<Rightarrow> nat" where
  "depth_limit s = unat (word_of_int (cp_stack_depth s) :: u64)"

definition count_fill ::
  "(s32 \<rightharpoonup> u64 list) \<Rightarrow> cpu_profiler \<Rightarrow> il_stack_key \<Rightarrow> u64 \<Rightarrow> stack_sample \<Rightarrow> stack_sample" where
  "count_fill stacks s key n r =
     r\<lparr>ss_pid := sk_pid key, ss_tid := sk_tid key, ss_comm := comm_text (sk_comm key), ss_count := n,
       ss_sample_type := OnCpu, ss_kernel_stack_id := sk_kernel_stack_id key, ss_user_stack_id := sk_user_stack_id key,
       ss_kernel_stack := lookup_bpf_stack_trace stacks (cp_stacks_fd s) (sk_kernel_stack_id key) (depth_limit s),
       ss_user_stack := lookup_bpf_stack_trace stacks (cp_stacks_fd s) (sk_user_stack_id key) (depth_limit s)\<rparr>"

definition snapshot_key ::
  "(nat \<Rightarrow> u64) \<Rightarrow> (s32 \<rightharpoonup> u64 list) \<Rightarrow> cpu_profiler \<Rightarrow> (il_stack_key \<rightharpoonup> u64) \<Rightarrow> il_stack_key \<Rightarrow> data_batch \<Rightarrow> data_batch" where
  "snapshot_key clock stacks s counts key b =
     (case counts key of
        None \<Rightarrow> b
      | Some n \<Rightarrow> add_stack_sample (clock (length (db_samples b))) (count_fill stacks s key n) b)"

definition snapshot_aggregated_counts ::
  "(il_stack_key, u64) next_key \<Rightarrow> (nat \<Rightarrow> u64) \<Rightarrow> (s32 \<rightharpoonup> u64 list) \<Rightarrow> cpu_profiler \<Rightarrow> profiler_maps \<Rightarrow>
   data_batch \<Rightarrow> data_batch option" where
  "snapshot_aggregated_counts nxt clock stacks s maps b =
     (if cp_counts_fd s < 0 then Some b
      else map_option (\<lambda>keys. fold (snapshot_key clock stacks s (pf_stack_counts maps)) keys b)
             (map_keys nxt (pf_stack_counts maps)))"

definition cpu_collect ::
  "(il_stack_key, u64) next_key \<Rightarrow> (nat \<Rightarrow> u64) \<Rightarrow> (s32 \<rightharpoonup> u64 list) \<Rightarrow> profiler_maps \<Rightarrow> cpu_profiler \<Rightarrow>
   data_batch status_or option" where
  "cpu_collect nxt clock stacks maps s =
     (case cp_last_batch s of
        Some b \<Rightarrow>
          if \<not> batch_empty b then Some (Value b)
          else if cp_counts_fd s < 0 \<or> cp_stacks_fd s < 0 then Some (Failure (status_error Unavailable ''BPF not loaded''))
          else map_option Value (snapshot_aggregated_counts nxt clock stacks s maps (new_batch Profile))
      | None \<Rightarrow>
          if cp_counts_fd s < 0 \<or> cp_stacks_fd s < 0 then Some (Failure (status_error Unavailable ''BPF not loaded''))
          else map_option Value (snapshot_aggregated_counts nxt clock stacks s maps (new_batch Profile)))"

text \<open>
  One round of the aggregation thread: what it pushes, and the new state of maps and source.
  \<open>between\<close> is what the probe does after the snapshot and before the rows are deleted.
\<close>

definition flush_aggregated_counts ::
  "(il_stack_key, u64) next_key \<Rightarrow> (nat \<Rightarrow> u64) \<Rightarrow> (s32 \<rightharpoonup> u64 list) \<Rightarrow> (profiler_maps \<Rightarrow> profiler_maps) \<Rightarrow>
   profiler_maps \<times> cpu_profiler \<Rightarrow> (data_batch list \<times> profiler_maps \<times> cpu_profiler) option" where
  "flush_aggregated_counts nxt clock stacks between = (\<lambda>(maps, s).
     if cp_counts_fd s < 0 \<or> \<not> cp_callback s then Some ([], between maps, s)
     else case snapshot_aggregated_counts nxt clock stacks s maps (new_batch Profile) of
            None \<Rightarrow> None
          | Some b \<Rightarrow>
              (let maps = between maps
               in case delete_all nxt (pf_stack_counts maps) of
                    None \<Rightarrow> None
                  | Some counts \<Rightarrow>
                      (let maps = maps\<lparr>pf_stack_counts := counts\<rparr>
                       in if db_samples b = [] then Some ([], maps, s)
                          else Some ([b], maps, s\<lparr>cp_last_batch := Some b\<rparr>))))"

definition sizeof_cpu_sample_event :: nat where
  "sizeof_cpu_sample_event = 48"

definition stream_fill :: "(s32 \<rightharpoonup> u64 list) \<Rightarrow> cpu_profiler \<Rightarrow> il_cpu_sample_event \<Rightarrow> stack_sample \<Rightarrow> stack_sample" where
  "stream_fill stacks s e r =
     r\<lparr>ss_pid := ce_pid e, ss_tid := ce_tid e, ss_cpu := ce_cpu e, ss_comm := comm_text (ce_comm e), ss_count := 1,
       ss_sample_type := OnCpu, ss_kernel_stack_id := ce_kernel_stack_id e, ss_user_stack_id := ce_user_stack_id e,
       ss_kernel_stack := lookup_bpf_stack_trace stacks (cp_stacks_fd s) (ce_kernel_stack_id e) (depth_limit s),
       ss_user_stack := lookup_bpf_stack_trace stacks (cp_stacks_fd s) (ce_user_stack_id e) (depth_limit s)\<rparr>"

definition handle_stream_event ::
  "(s32 \<rightharpoonup> u64 list) \<Rightarrow> u64 \<Rightarrow> nat \<Rightarrow> il_cpu_sample_event \<Rightarrow> cpu_profiler \<Rightarrow> data_batch list" where
  "handle_stream_event stacks now sz e s =
     (if sz < sizeof_cpu_sample_event then []
      else if \<not> cp_callback s then []
      else [add_stack_sample now (stream_fill stacks s e) (new_batch Profile)])"

section \<open>Filters are enforced\<close>

lemma fold_plain_update: "fold (\<lambda>x. plain_update (f x) v) xs m = (\<lambda>k. if k \<in> f ` set xs then Some v else m k)"
  by (induction xs arbitrary: m) (auto simp: plain_update_def fun_eq_iff)

definition fresh_profiler_maps :: profiler_maps where
  "fresh_profiler_maps = \<lparr>pf_cfg = [0], pf_target_pids = Map.empty, pf_target_comms = Map.empty,
     pf_stack_counts = Map.empty, pf_cpu_events = []\<rparr>"

definition filters_pass :: "cpu_profiler \<Rightarrow> bpf_env \<Rightarrow> bool" where
  "filters_pass s env \<longleftrightarrow> env_pid env \<noteq> 0 \<and>
     (cp_target_pids s = [] \<or> env_pid env \<in> set (cp_target_pids s)) \<and>
     (cp_target_comms s = [] \<or> env_comm env \<in> comm_key ` set (cp_target_comms s))"

definition has_maps :: "libbpf \<Rightarrow> cpu_profiler \<Rightarrow> bool" where
  "has_maps lb s \<longleftrightarrow> list_all (\<lambda>name. 0 \<le> get_map_fd lb ''cpu_profiler'' name (cp_bpf_mgr s))
     [''cpu_profiler_cfg'', ''target_pids'', ''target_comms'']"

definition applied_maps :: "libbpf \<Rightarrow> cpu_profiler \<Rightarrow> profiler_maps" where
  "applied_maps lb s = apply_filter_maps lb plain_update plain_update s fresh_profiler_maps"

lemma filter_flags_bits:
  "filter_flags s AND 1 \<noteq> 0 \<longleftrightarrow> cp_stream_mode s"
  "filter_flags s AND 2 \<noteq> 0 \<longleftrightarrow> cp_target_pids s \<noteq> []"
  "filter_flags s AND 4 \<noteq> 0 \<longleftrightarrow> cp_target_comms s \<noteq> []"
  by (cases "cp_stream_mode s"; cases "cp_target_pids s = []"; cases "cp_target_comms s = []";
      simp add: filter_flags_def)+

lemma applied_maps_simps:
  assumes "has_maps lb s"
  shows "pf_cfg (applied_maps lb s) = [filter_flags s]"
    "pf_target_pids (applied_maps lb s) =
       (if cp_target_pids s = [] then Map.empty else (\<lambda>p. if p \<in> set (cp_target_pids s) then Some 1 else None))"
    "pf_target_comms (applied_maps lb s) =
       (if cp_target_comms s = [] then Map.empty
        else (\<lambda>c. if c \<in> comm_key ` set (cp_target_comms s) then Some 1 else None))"
    "pf_stack_counts (applied_maps lb s) = Map.empty" "pf_cpu_events (applied_maps lb s) = []"
  using assms fold_plain_update [of "\<lambda>x. x" 1 "cp_target_pids s"] fold_plain_update [of comm_key 1]
  by (auto simp: applied_maps_def apply_filter_maps_def has_maps_def fresh_profiler_maps_def Let_def)

lemma applied_flags: "has_maps lb s \<Longrightarrow> profiler_flags (applied_maps lb s) = filter_flags s"
  by (simp add: profiler_flags_def array_lookup_def applied_maps_simps)

lemma applied_accepts: "has_maps lb s \<Longrightarrow> profiler_accepts (applied_maps lb s) env \<longleftrightarrow> filters_pass s env"
  by (simp add: profiler_accepts_def filters_pass_def applied_flags filter_flags_bits applied_maps_simps)

text \<open>
  C25: the filters of the configuration are the filters of the probe. After the source wrote them into
  the maps of a freshly loaded probe, the probe accepts exactly the samples of the listed processes and
  of the listed names (of which a map key holds the first 15 characters), an empty list meaning any, and
  it streams events exactly in streaming mode.
\<close>

theorem cpu_filters_enforced:
  assumes "has_maps lb s"
  shows "(profiler_accepts (applied_maps lb s) env \<longleftrightarrow> filters_pass s env) \<and>
    (profiler_flags (applied_maps lb s) AND 1 \<noteq> 0 \<longleftrightarrow> cp_stream_mode s)"
  by (simp add: applied_accepts applied_flags filter_flags_bits assms)

definition sample_profiler :: cpu_profiler where
  "sample_profiler = cpu_profiler_new\<lparr>cp_target_pids := [7], cp_target_comms := [''worker''],
     cp_counts_fd := 3, cp_stacks_fd := 3, cp_bpf_mgr := snd (load_object sample_libbpf ''cpu_profiler'' ''p.o'' bpf_manager_new)\<rparr>"

definition sample_env :: "string \<Rightarrow> bpf_env" where
  "sample_env comm = \<lparr>env_pid_tgid = 0x700000009, env_comm = comm, env_cpu = 1, env_time = 5,
      env_kernel_stack = 2, env_user_stack = 3\<rparr>"

lemma sample_profiler_maps: "has_maps sample_libbpf sample_profiler"
  by (simp add: has_maps_def get_map_fd_def sample_profiler_def load_object_def sample_libbpf_def Let_def
      bpf_manager_new_def)

lemma sample_env_pid [simp]: "env_pid (sample_env comm) = 7" "env_comm (sample_env comm) = comm"
  by (simp_all add: env_pid_def sample_env_def drop_bit_eq_div)

lemma cpu_filters_enforced_witness:
  "profiler_accepts (applied_maps sample_libbpf sample_profiler) (sample_env ''worker'') \<and>
   \<not> profiler_accepts (applied_maps sample_libbpf sample_profiler) (sample_env ''other'')"
  using cpu_filters_enforced [OF sample_profiler_maps, of "sample_env ''worker''"]
    cpu_filters_enforced [OF sample_profiler_maps, of "sample_env ''other''"]
  by (simp add: filters_pass_def sample_profiler_def comm_key_def task_comm_len_def)

section \<open>What a batch reports\<close>

definition smp_key :: "stack_sample \<Rightarrow> il_stack_key" where
  "smp_key r = \<lparr>sk_pid = ss_pid r, sk_tid = ss_tid r, sk_kernel_stack_id = ss_kernel_stack_id r,
     sk_user_stack_id = ss_user_stack_id r, sk_comm = ss_comm r\<rparr>"

definition reported :: "data_batch \<Rightarrow> il_stack_key \<Rightarrow> u64" where
  "reported b k = sum_list (map ss_count (filter (\<lambda>r. smp_key r = k) (db_samples b)))"

text \<open>The names in the keys are C strings.\<close>

definition c_string_keys :: "il_stack_key list \<Rightarrow> bool" where
  "c_string_keys ks \<longleftrightarrow> list_all (\<lambda>k. comm_text (sk_comm k) = sk_comm k) ks"

lemma snapshot_keys_samples:
  "set keys \<subseteq> dom counts \<Longrightarrow> c_string_keys keys \<Longrightarrow>
   map (\<lambda>r. (smp_key r, ss_count r)) (db_samples (fold (snapshot_key clock stacks s counts) keys b)) =
   map (\<lambda>r. (smp_key r, ss_count r)) (db_samples b) @ map (\<lambda>k. (k, the (counts k))) keys"
proof (induction keys arbitrary: b)
  case (Cons k keys)
  then obtain n where "counts k = Some n" by auto
  with Cons show ?case
    by (simp add: snapshot_key_def add_stack_sample_def count_fill_def smp_key_def c_string_keys_def)
qed simp

lemma reported_pairs:
  "reported b k = sum_list (map snd (filter (\<lambda>p. fst p = k) (map (\<lambda>r. (smp_key r, ss_count r)) (db_samples b))))"
  by (simp add: reported_def filter_map comp_def)

lemma sum_of_distinct_key:
  "distinct ks \<Longrightarrow> sum_list (map snd (filter (\<lambda>p. fst p = k) (map (\<lambda>k. (k, f k)) ks))) =
     (if k \<in> set ks then f k else (0 :: u64))"
  by (induction ks) auto

lemma snapshot_reports_table:
  assumes "key_order nxt order" "c_string_keys order" "dom (pf_stack_counts maps) \<subseteq> set order" "0 \<le> cp_counts_fd s"
  obtains b where "snapshot_aggregated_counts nxt clock stacks s maps (new_batch Profile) = Some b"
    "\<And>k. reported b k = key_count maps k" "db_samples b = [] \<longleftrightarrow> pf_stack_counts maps = Map.empty"
proof -
  let ?ks = "present_keys order (pf_stack_counts maps)"
  let ?b = "fold (snapshot_key clock stacks s (pf_stack_counts maps)) ?ks (new_batch Profile)"
  have dom: "set ?ks = dom (pf_stack_counts maps)" using assms(3) by (auto simp: present_keys_def dom_def)
  have cs: "c_string_keys ?ks" using assms(2) by (simp add: c_string_keys_def present_keys_def list_all_iff)
  have walk: "map_keys nxt (pf_stack_counts maps) = Some ?ks"
    by (rule map_keys_walk [OF key_order_walk [OF assms(1,3)]])
  have pairs: "map (\<lambda>r. (smp_key r, ss_count r)) (db_samples ?b) = map (\<lambda>k. (k, the (pf_stack_counts maps k))) ?ks"
    using snapshot_keys_samples [of ?ks "pf_stack_counts maps"] dom cs by (simp add: new_batch_def)
  have "reported ?b k = (if k \<in> set ?ks then the (pf_stack_counts maps k) else 0)" for k
    unfolding reported_pairs pairs by (rule sum_of_distinct_key [OF distinct_present_keys [OF assms(1)]])
  then have "reported ?b k = key_count maps k" for k
    unfolding in_present_keys [OF assms(3)] by (cases "pf_stack_counts maps k") (simp_all add: key_count_def)
  moreover have "db_samples ?b = [] \<longleftrightarrow> pf_stack_counts maps = Map.empty"
  proof -
    have "db_samples ?b = [] \<longleftrightarrow> ?ks = []"
      using arg_cong [OF pairs, of length] by (simp only: length_map flip: length_0_conv)
    also have "\<dots> \<longleftrightarrow> dom (pf_stack_counts maps) = {}" by (simp only: set_empty flip: dom)
    also have "\<dots> \<longleftrightarrow> pf_stack_counts maps = Map.empty" by (rule dom_eq_empty_conv)
    finally show ?thesis .
  qed
  moreover have "snapshot_aggregated_counts nxt clock stacks s maps (new_batch Profile) = Some ?b"
    using assms(4) walk by (simp add: snapshot_aggregated_counts_def)
  ultimately show ?thesis using that by blast
qed

section \<open>Collections and flushes\<close>

type_synonym sample_run = "bpf_env \<times> il_cpu_sample_event option"

definition probe_runs :: "sample_run list \<Rightarrow> profiler_maps \<Rightarrow> profiler_maps" where
  "probe_runs xs = fold (profiler_on_cpu_sample plain_update) xs"

lemma probe_runs_simps [simp]:
  "key_count (probe_runs xs maps) k = key_count maps k + of_nat (count_list (accepted_keys maps xs) k)"
  "dom (pf_stack_counts (probe_runs xs maps)) = dom (pf_stack_counts maps) \<union> set (accepted_keys maps xs)"
  "accepted_keys (probe_runs xs maps) = accepted_keys maps"
  by (simp_all add: probe_runs_def profiler_fold_key_count profiler_fold_dom)


text \<open>
  Rounds of the aggregation thread: what the probe samples before each, and what it samples between the
  snapshot and the deletes.
\<close>

fun flush_rounds ::
  "(il_stack_key, u64) next_key \<Rightarrow> (nat \<Rightarrow> u64) \<Rightarrow> (s32 \<rightharpoonup> u64 list) \<Rightarrow> (sample_run list \<times> sample_run list) list \<Rightarrow>
   profiler_maps \<times> cpu_profiler \<Rightarrow> (data_batch list \<times> profiler_maps \<times> cpu_profiler) option" where
  "flush_rounds nxt clock stacks [] (maps, s) = Some ([], maps, s)"
| "flush_rounds nxt clock stacks ((xs, ys) # rounds) (maps, s) =
     (case flush_aggregated_counts nxt clock stacks (probe_runs ys) (probe_runs xs maps, s) of
        None \<Rightarrow> None
      | Some (bs, maps, s) \<Rightarrow>
          (case flush_rounds nxt clock stacks rounds (maps, s) of
             None \<Rightarrow> None
           | Some (cs, maps, s) \<Rightarrow> Some (bs @ cs, maps, s)))"

definition total_reported :: "data_batch list \<Rightarrow> il_stack_key \<Rightarrow> u64" where
  "total_reported bs k = sum_list (map (\<lambda>b. reported b k) bs)"

lemma accepted_keys_counts: "accepted_keys (maps\<lparr>pf_stack_counts := counts\<rparr>) = accepted_keys maps"
proof -
  have "profiler_accepts (maps\<lparr>pf_stack_counts := counts\<rparr>) = profiler_accepts maps"
    by (rule ext) (simp add: profiler_accepts_def profiler_flags_def)
  then show ?thesis unfolding accepted_keys_def by (intro ext) (simp only:)
qed

lemma flush_reports_and_empties:
  assumes "key_order nxt order" "c_string_keys order" "0 \<le> cp_counts_fd s" "cp_callback s"
    and "dom (pf_stack_counts maps) \<union> set (accepted_keys maps ys) \<subseteq> set order"
  obtains bs maps' s' where "flush_aggregated_counts nxt clock stacks (probe_runs ys) (maps, s) = Some (bs, maps', s')"
    "\<And>k. total_reported bs k = key_count maps k" "pf_stack_counts maps' = Map.empty"
    "accepted_keys maps' = accepted_keys maps" "cp_counts_fd s' = cp_counts_fd s" "cp_callback s'"
proof -
  from assms(5) have dom: "dom (pf_stack_counts maps) \<subseteq> set order" by simp
  obtain b where b: "snapshot_aggregated_counts nxt clock stacks s maps (new_batch Profile) = Some b"
    "\<And>k. reported b k = key_count maps k" "db_samples b = [] \<longleftrightarrow> pf_stack_counts maps = Map.empty"
    by (rule snapshot_reports_table [OF assms(1,2) dom assms(3)]) blast
  have "dom (pf_stack_counts (probe_runs ys maps)) \<subseteq> set order" using assms(5) by simp
  from delete_all_walk [OF key_order_walk [OF assms(1) this]]
  have del: "delete_all nxt (pf_stack_counts (probe_runs ys maps)) = Some Map.empty" .
  let ?maps = "probe_runs ys maps\<lparr>pf_stack_counts := Map.empty\<rparr>"
  have acc: "accepted_keys ?maps = accepted_keys (probe_runs ys maps)"
    by (rule accepted_keys_counts)
  show ?thesis
  proof (cases "db_samples b = []")
    case True
    then have "key_count maps k = 0" for k using b(3) by (simp add: key_count_def)
    with True assms(3,4) b del acc show ?thesis
      by (intro that [of "[]" ?maps s]) (simp_all add: flush_aggregated_counts_def total_reported_def)
  next
    case False
    with assms(3,4) b del acc show ?thesis
      by (intro that [of "[b]" ?maps "s\<lparr>cp_last_batch := Some b\<rparr>"])
        (simp_all add: flush_aggregated_counts_def total_reported_def)
  qed
qed


text \<open>The two at a concrete configuration: two runs of one thread, one of another.\<close>

definition worker_key :: il_stack_key where
  "worker_key = \<lparr>sk_pid = 7, sk_tid = 9, sk_kernel_stack_id = 2, sk_user_stack_id = 3, sk_comm = ''worker''\<rparr>"

lemma sample_key_env: "sample_key (sample_env ''worker'') = worker_key"
  by (simp add: sample_key_def worker_key_def) (simp add: sample_env_def env_tid_def)

lemma worker_passes: "filters_pass sample_profiler (sample_env ''worker'')"
  by (simp add: filters_pass_def sample_profiler_def comm_key_def task_comm_len_def)

lemma worker_c_string: "c_string_keys [worker_key]"
  by (simp add: c_string_keys_def comm_text_def worker_key_def task_comm_len_def)



section \<open>Life cycle\<close>

definition cpu_busy :: "cpu_profiler \<Rightarrow> bool" where
  "cpu_busy s \<longleftrightarrow> cp_poll_thread s \<or> cp_agg_thread s"

definition cpu_profiler_inv :: "cpu_profiler \<Rightarrow> bool" where
  "cpu_profiler_inv s \<longleftrightarrow>
     (\<exists>lost. accounts lost (ring_handles (cp_ring_buf s)) (mset (cp_perf_fds s)) (cp_bpf_mgr s)) \<and>
     list_all (\<lambda>fd. 0 \<le> fd) (cp_perf_fds s) \<and> bm_links (cp_bpf_mgr s) = [] \<and>
     (cp_ring_buf s \<noteq> None \<longrightarrow> cp_poll_thread s)"

lemma accounts_perf_open:
  assumes "accounts lost rings perf m" "open_perf_event lb cpu m = (fd, m')"
  shows "accounts lost rings (perf + (case fd of None \<Rightarrow> {#} | Some fd \<Rightarrow> {#fd#})) m' \<and>
    (\<forall>i. fd = Some i \<longrightarrow> 0 \<le> i) \<and> bm_links m' = bm_links m"
  using assms by (auto simp: accounts_def open_perf_event_def Let_def split: if_splits)

lemma accounts_perf_opens:
  assumes "accounts lost rings (mset fds) m" "open_perf_events lb cpus (fds, m) = (fds', m')"
    and "list_all (\<lambda>fd. 0 \<le> fd) fds"
  shows "accounts lost rings (mset fds') m' \<and> list_all (\<lambda>fd. 0 \<le> fd) fds' \<and> bm_links m' = bm_links m"
  using assms
proof (induction cpus arbitrary: fds m)
  case (Cons cpu cpus)
  obtain fd m1 where o1: "open_perf_event lb cpu m = (fd, m1)" by (cases "open_perf_event lb cpu m")
  let ?fds = "fds @ (case fd of None \<Rightarrow> [] | Some fd \<Rightarrow> [fd])"
  note a = accounts_perf_open [OF Cons.prems(1) o1]
  have "accounts lost rings (mset ?fds) m1" "list_all (\<lambda>fd. 0 \<le> fd) ?fds"
    using a Cons.prems(3) by (auto split: option.splits)
  moreover have "open_perf_events lb cpus (?fds, m1) = (fds', m')" using Cons.prems(2) o1 by simp
  ultimately have "accounts lost rings (mset fds') m' \<and> list_all (\<lambda>fd. 0 \<le> fd) fds' \<and> bm_links m' = bm_links m1"
    using Cons.IH by blast
  with a show ?case by simp
qed simp

lemma accounts_perf_closes:
  assumes "accounts lost rings (mset fds + perf) m"
  shows "accounts lost rings perf (close_perf_events lb fds m) \<and>
    bm_links (close_perf_events lb fds m) = bm_links m"
  using assms
proof (induction fds arbitrary: m)
  case (Cons fd fds)
  let ?m = "called [PerfIoctl fd ''DISABLE'' (lb_ioctl lb (bm_calls m) fd ''DISABLE''), PerfClose fd] m"
  have "accounts lost rings (mset fds + perf) ?m" using Cons.prems by (simp add: accounts_def)
  from Cons.IH [OF this] show ?case by simp
qed simp

lemma accounts_free_ring:
  "accounts lost (ring_handles ring) perf m \<Longrightarrow> accounts lost {#} perf (free_ring ring m) \<and>
   bm_links (free_ring ring m) = bm_links m"
  using accounts_ring_free [of lost _ "{#}" perf m] by (cases ring) (auto simp: free_ring_def)

lemma cpu_profiler_stop_detached:
  assumes "cpu_profiler_inv s"
  shows "cpu_profiler_inv (cpu_profiler_stop lb s) \<and> detached (cp_bpf_mgr (cpu_profiler_stop lb s)) \<and>
    \<not> cpu_busy (cpu_profiler_stop lb s)"
proof -
  from assms obtain lost where "accounts lost (ring_handles (cp_ring_buf s)) (mset (cp_perf_fds s)) (cp_bpf_mgr s)"
    by (auto simp: cpu_profiler_inv_def)
  from accounts_free_ring [OF this]
  have "accounts lost {#} (mset (cp_perf_fds s) + {#}) (free_ring (cp_ring_buf s) (cp_bpf_mgr s))" by simp
  from accounts_perf_closes [OF this, of lb] accounts_detach
  have "accounts lost {#} {#} (cp_bpf_mgr (cpu_profiler_stop lb s))" by (simp add: cpu_profiler_stop_def)
  then show ?thesis
    by (auto simp: cpu_profiler_inv_def detached_def cpu_busy_def cpu_profiler_stop_def)
qed

lemma cpu_profiler_start_cases:
  assumes "cpu_profiler_inv s" "\<not> cpu_busy s"
  obtains st s' where "cpu_profiler_start lb online s = Some (st, s')" "cpu_profiler_inv s'"
    "cp_bpf_obj_path s \<noteq> [] \<Longrightarrow> is_ok st \<longleftrightarrow> cpu_busy s'"
    "cp_bpf_obj_path s \<noteq> [] \<Longrightarrow> is_ok st \<Longrightarrow> cp_perf_fds s' \<noteq> [] \<and> cp_running s' \<and>
       (cp_stream_mode s \<longleftrightarrow> cp_ring_buf s' \<noteq> None)"
proof (cases "cp_bpf_obj_path s = []")
  case True
  with assms show ?thesis
    by (intro that [of status_ok "s\<lparr>cp_stub_mode := True, cp_running := False\<rparr>"])
      (auto simp: cpu_profiler_start_def cpu_profiler_inv_def)
next
  case False
  have idle: "\<not> cp_poll_thread s" "\<not> cp_agg_thread s" using assms(2) by (simp_all add: cpu_busy_def)
  have ring: "cp_ring_buf s = None" using assms(1) idle by (auto simp: cpu_profiler_inv_def)
  from assms(1) obtain lost where a0: "accounts lost {#} (mset (cp_perf_fds s)) (cp_bpf_mgr s)"
    and pos: "list_all (\<lambda>fd. 0 \<le> fd) (cp_perf_fds s)" and links: "bm_links (cp_bpf_mgr s) = []"
    by (auto simp: cpu_profiler_inv_def ring)
  obtain st1 m1 where l: "load_object lb ''cpu_profiler'' (cp_bpf_obj_path s) (cp_bpf_mgr s) = (st1, m1)"
    by (cases "load_object lb ''cpu_profiler'' (cp_bpf_obj_path s) (cp_bpf_mgr s)")
  from accounts_load [OF a0 l] obtain lost1 where a1: "accounts lost1 {#} (mset (cp_perf_fds s)) m1" by blast
  have links1: "bm_links m1 = []"
    using l links by (auto simp: load_object_def Let_def split: option.splits if_splits)
  let ?sfd = "get_map_fd lb ''cpu_profiler'' ''stacks'' m1"
  let ?cfd = "get_map_fd lb ''cpu_profiler'' ''stack_counts'' m1"
  let ?pfd = "get_prog_fd lb ''cpu_profiler'' ''on_cpu_sample'' m1"
  obtain fds m2 where o: "open_perf_events lb (start_cpus online) (cp_perf_fds s, m1) = (fds, m2)"
    by (cases "open_perf_events lb (start_cpus online) (cp_perf_fds s, m1)")
  from accounts_perf_opens [OF a1 o pos]
  have a2: "accounts lost1 {#} (mset fds) m2" and pos2: "list_all (\<lambda>fd. 0 \<le> fd) fds" and links2: "bm_links m2 = []"
    by (simp_all add: links1)
  let ?fd = "get_map_fd lb ''cpu_profiler'' ''cpu_events'' m2"
  obtain r m3 where c: "create_ring_buffer lb ?fd m2 = (r, m3)" by (cases "create_ring_buffer lb ?fd m2")
  have a3: "accounts lost1 (ring_handles r) (mset fds) m3" by (rule accounts_new_ring [OF a2 c])
  have links3: "bm_links m3 = []" using c links2 by (auto simp: create_ring_buffer_def Let_def)
  note simps = cpu_profiler_start_def idle False l o c Let_def cpu_profiler_inv_def ring cpu_busy_def
  let ?s1 = "s\<lparr>cp_bpf_mgr := m1, cp_stacks_fd := ?sfd, cp_counts_fd := ?cfd\<rparr>"
  let ?s2 = "?s1\<lparr>cp_bpf_mgr := m2, cp_perf_fds := fds\<rparr>"
  consider "\<not> is_ok st1" | "is_ok st1" "?sfd < 0 \<or> ?cfd < 0"
    | "is_ok st1" "\<not> (?sfd < 0 \<or> ?cfd < 0)" "?pfd < 0"
    | "is_ok st1" "\<not> (?sfd < 0 \<or> ?cfd < 0)" "\<not> ?pfd < 0" "fds = []"
    | "is_ok st1" "\<not> (?sfd < 0 \<or> ?cfd < 0)" "\<not> ?pfd < 0" "fds \<noteq> []" "\<not> cp_stream_mode s"
    | "is_ok st1" "\<not> (?sfd < 0 \<or> ?cfd < 0)" "\<not> ?pfd < 0" "fds \<noteq> []" "cp_stream_mode s" "?fd < 0"
    | "is_ok st1" "\<not> (?sfd < 0 \<or> ?cfd < 0)" "\<not> ?pfd < 0" "fds \<noteq> []" "cp_stream_mode s" "\<not> ?fd < 0" "r = None"
    | "is_ok st1" "\<not> (?sfd < 0 \<or> ?cfd < 0)" "\<not> ?pfd < 0" "fds \<noteq> []" "cp_stream_mode s" "\<not> ?fd < 0" "r \<noteq> None"
    by blast
  then show ?thesis
  proof cases
    case 1
    with a1 links1 pos show ?thesis by (intro that [of st1 "s\<lparr>cp_bpf_mgr := m1\<rparr>"]) (auto simp: simps)
  next
    case 2
    with a1 links1 pos show ?thesis
      by (intro that [of "status_error Internal ''cpu_profiler: stacks/stack_counts maps missing''"
            "s\<lparr>cp_bpf_mgr := m1\<rparr>"]) (auto simp: simps)
  next
    case 3
    with a1 links1 pos show ?thesis
      by (intro that [of "status_error Internal ''cpu_profiler: on_cpu_sample program missing''" ?s1]) (auto simp: simps)
  next
    case 4
    with a2 links2 pos2 show ?thesis
      by (intro that [of "status_error Internal ''cpu_profiler: failed to open any perf events''" ?s2]) (auto simp: simps)
  next
    case 5
    with a2 links2 pos2 show ?thesis
      by (intro that [of status_ok "?s2\<lparr>cp_running := True, cp_agg_thread := True\<rparr>"]) (auto simp: simps)
  next
    case 6
    with a2 links2 pos2 show ?thesis
      by (intro that [of "status_error Internal ''cpu_profiler: cpu_events ringbuf missing''"
            "?s2\<lparr>cp_running := True\<rparr>"]) (auto simp: simps)
  next
    case 7
    with a3 links3 pos2 show ?thesis
      by (intro that [of "status_error Internal ''cpu_profiler: ring buffer init failed''"
            "?s2\<lparr>cp_running := True, cp_bpf_mgr := m3, cp_ring_buf := None\<rparr>"]) (auto simp: simps)
  next
    case 8
    with a3 links3 pos2 show ?thesis
      by (intro that [of status_ok "?s2\<lparr>cp_running := True, cp_bpf_mgr := m3, cp_ring_buf := r, cp_poll_thread := True\<rparr>"])
        (auto simp: simps)
  qed
qed

interpretation cpu_life: bpf_source "cpu_profiler_start lb online" "cpu_profiler_stop lb" cpu_busy
  cpu_profiler_inv cp_bpf_mgr for lb online
proof
  fix s :: cpu_profiler
  assume inv: "cpu_profiler_inv s"
  show "cpu_profiler_inv (cpu_profiler_stop lb s)"
    "\<not> cpu_busy (cpu_profiler_stop lb s)" "detached (cp_bpf_mgr (cpu_profiler_stop lb s))"
    using cpu_profiler_stop_detached [OF inv] by simp_all
  assume idle: "\<not> cpu_busy s"
  obtain st s' where "cpu_profiler_start lb online s = Some (st, s')" "cpu_profiler_inv s'"
    using cpu_profiler_start_cases [OF inv idle] by metis
  then show "cpu_profiler_start lb online s \<noteq> None"
    and "\<And>st s'. cpu_profiler_start lb online s = Some (st, s') \<Longrightarrow> cpu_profiler_inv s'" by auto
qed

lemma cpu_profiler_new_inv [simp]: "cpu_profiler_inv (cpu_profiler_new\<lparr>cp_bpf_obj_path := path, cp_stream_mode := stream\<rparr>)"
  using accounts_new by (auto simp: cpu_profiler_inv_def cpu_profiler_new_def bpf_manager_new_def)



end
