(* ===== verification/OffcpuProbe.thy ===== *)
theory OffcpuProbe
  imports Bpf
begin

text \<open>
  The off-CPU probe \<open>src/ebpf/probes/sched/offcpu_profiler.bpf.c\<close>: one program on \<open>sched_switch\<close>, which
  leaves a snapshot of the task that goes off the processor and measures the one that comes on.
\<close>

record sched_switch_ctx =
  sw_prev_comm :: string
  sw_prev_pid :: u32
  sw_next_comm :: string
  sw_next_pid :: u32

record offcpu_key =
  ok_pid :: u32
  ok_tid :: u32

record offcpu_val =
  ov_timestamp_ns :: u64
  ov_kernel_stack_id :: s32
  ov_user_stack_id :: s32
  ov_comm :: string

record offcpu_maps =
  oc_start :: "offcpu_key \<rightharpoonup> offcpu_val"
  oc_events :: "il_offcpu_event list"

definition default_min_duration_ns :: u64 where
  "default_min_duration_ns = 100000"

type_synonym switch_run = "bpf_env \<times> sched_switch_ctx \<times> il_offcpu_event option"

definition task_key :: "u32 \<Rightarrow> offcpu_key" where
  "task_key pid = \<lparr>ok_pid = pid, ok_tid = pid\<rparr>"

definition offcpu_snapshot :: "bpf_env \<Rightarrow> sched_switch_ctx \<Rightarrow> offcpu_val" where
  "offcpu_snapshot env ctx =
     \<lparr>ov_timestamp_ns = env_time env, ov_kernel_stack_id = env_kernel_stack env,
      ov_user_stack_id = env_user_stack env, ov_comm = read_comm (sw_prev_comm ctx)\<rparr>"

definition offcpu_event :: "bpf_env \<Rightarrow> u32 \<Rightarrow> offcpu_val \<Rightarrow> il_offcpu_event \<Rightarrow> il_offcpu_event" where
  "offcpu_event env pid start e =
     e\<lparr>oe_timestamp_ns := ov_timestamp_ns start, oe_pid := pid, oe_tid := pid, oe_cpu := env_cpu env,
       oe_duration_ns := env_time env - ov_timestamp_ns start,
       oe_kernel_stack_id := ov_kernel_stack_id start,
       oe_user_stack_id := ov_user_stack_id start, oe_comm := ov_comm start\<rparr>"

definition trace_offcpu ::
  "(offcpu_key, offcpu_val) bpf_update \<Rightarrow> u64 \<Rightarrow> switch_run \<Rightarrow> offcpu_maps \<Rightarrow> offcpu_maps" where
  "trace_offcpu upd min_duration_ns = (\<lambda>(env, ctx, reserved) maps.
     let ts = env_time env; prev_pid = sw_prev_pid ctx; next_pid = sw_next_pid ctx;
         maps = (if prev_pid \<noteq> 0
                 then maps\<lparr>oc_start := upd (task_key prev_pid) (offcpu_snapshot env ctx) (oc_start maps)\<rparr>
                 else maps);
         gone = maps\<lparr>oc_start := (oc_start maps)(task_key next_pid := None)\<rparr>
     in if next_pid = 0 then maps
        else case oc_start maps (task_key next_pid) of
               None \<Rightarrow> maps
             | Some start \<Rightarrow>
                 let duration = ts - ov_timestamp_ns start
                 in if duration < min_duration_ns then gone
                    else case reserved of
                           None \<Rightarrow> gone
                         | Some e \<Rightarrow>
                             gone\<lparr>oc_events := oc_events maps @ [offcpu_event env next_pid start e]\<rparr>)"

section \<open>The table of tasks off the processor\<close>

definition switches :: "u32 \<Rightarrow> switch_run \<Rightarrow> bool" where
  "switches pid = (\<lambda>(env, ctx, _). sw_prev_pid ctx = pid \<or> sw_next_pid ctx = pid)"

fun offcpu_touches :: "offcpu_maps \<Rightarrow> switch_run \<Rightarrow> offcpu_key \<Rightarrow> bool" where
  "offcpu_touches _ (env, ctx, r) k \<longleftrightarrow>
     sw_prev_pid ctx \<noteq> 0 \<and> k = task_key (sw_prev_pid ctx) \<or> sw_next_pid ctx \<noteq> 0 \<and> k = task_key (sw_next_pid ctx)"

fun offcpu_starts :: "offcpu_maps \<Rightarrow> switch_run \<Rightarrow> offcpu_key \<rightharpoonup> offcpu_val" where
  "offcpu_starts _ (env, ctx, r) k =
     (if sw_prev_pid ctx \<noteq> 0 \<and> sw_next_pid ctx \<noteq> sw_prev_pid ctx \<and> k = task_key (sw_prev_pid ctx)
      then Some (offcpu_snapshot env ctx) else None)"

lemma task_key_inject [simp]: "task_key p = task_key q \<longleftrightarrow> p = q"
  by (simp add: task_key_def)

definition after_switch_out ::
  "(offcpu_key, offcpu_val) bpf_update \<Rightarrow> bpf_env \<Rightarrow> sched_switch_ctx \<Rightarrow> offcpu_maps \<Rightarrow> (offcpu_key \<rightharpoonup> offcpu_val)" where
  "after_switch_out upd env ctx maps =
     (if sw_prev_pid ctx \<noteq> 0 then upd (task_key (sw_prev_pid ctx)) (offcpu_snapshot env ctx) (oc_start maps)
      else oc_start maps)"

lemma trace_offcpu_start:
  "oc_start (trace_offcpu upd d (env, ctx, r) maps) =
     (if sw_next_pid ctx = 0 then after_switch_out upd env ctx maps
      else (after_switch_out upd env ctx maps)(task_key (sw_next_pid ctx) := None))"
  by (auto simp: trace_offcpu_def after_switch_out_def Let_def fun_eq_iff split: option.split)

lemma trace_offcpu_events:
  "oc_events (trace_offcpu upd d (env, ctx, r) maps) = oc_events maps @
     (case after_switch_out upd env ctx maps (task_key (sw_next_pid ctx)) of
        None \<Rightarrow> []
      | Some start \<Rightarrow>
          (case r of
             None \<Rightarrow> []
           | Some e \<Rightarrow>
               if sw_next_pid ctx = 0 \<or> env_time env - ov_timestamp_ns start < d then []
               else [offcpu_event env (sw_next_pid ctx) start e]))"
  by (auto simp: trace_offcpu_def after_switch_out_def Let_def split: option.split)

text \<open>The probe keeps the contract of a start table; the interpretation is of the probe with an update that obeys its law.\<close>

lemma trace_offcpu_start_table:
  assumes "update_law upd"
  shows "start_table (trace_offcpu upd d) oc_start offcpu_touches offcpu_starts"
proof
  fix e :: switch_run and s :: offcpu_maps and k
  obtain env ctx r where e: "e = (env, ctx, r)" by (cases e) auto
  note [simp] = update_law_other [OF assms]
  show "oc_start (trace_offcpu upd d e s) k = None \<or> oc_start (trace_offcpu upd d e s) k = offcpu_starts s e k"
    if "offcpu_touches s e k"
    using that update_law_same [OF assms, of "task_key (sw_prev_pid ctx)" "offcpu_snapshot env ctx" "oc_start s"]
    by (auto simp: e trace_offcpu_start after_switch_out_def)
  show "oc_start (trace_offcpu upd d e s) k = oc_start s k" if "\<not> offcpu_touches s e k"
    using that by (auto simp: e trace_offcpu_start after_switch_out_def)
qed

interpretation offcpu: start_table "trace_offcpu (bounded_update n) d" oc_start offcpu_touches offcpu_starts
  for n d
  by (rule trace_offcpu_start_table [OF bounded_update_law])

section \<open>Intervals\<close>

text \<open>
  \<open>e\<close> measures the task from the run \<open>x\<close> of the probe, which switches it out, to the run \<open>y\<close>, which
  switches it in, with nothing about it in the runs \<open>ws\<close> between.
\<close>

fun measures :: "il_offcpu_event \<Rightarrow> switch_run \<Rightarrow> switch_run list \<Rightarrow> switch_run \<Rightarrow> bool" where
  "measures e (env, ctx, r) ws (env', ctx', r') \<longleftrightarrow>
     oe_pid e \<noteq> 0 \<and> sw_prev_pid ctx = oe_pid e \<and> sw_next_pid ctx \<noteq> oe_pid e \<and>
     sw_next_pid ctx' = oe_pid e \<and> (\<forall>w \<in> set ws. \<not> switches (oe_pid e) w) \<and>
     oe_timestamp_ns e = env_time env \<and> oe_duration_ns e = env_time env' - env_time env \<and>
     oe_kernel_stack_id e = env_kernel_stack env \<and> oe_user_stack_id e = env_user_stack env \<and>
     oe_comm e = read_comm (sw_prev_comm ctx) \<and> oe_cpu e = env_cpu env' \<and> oe_tid e = oe_pid e"

lemma trace_offcpu_emits:
  assumes "update_law upd" "0 < d" "oc_start m0 = Map.empty"
    and "e \<in> set (oc_events (trace_offcpu upd d y (fold (trace_offcpu upd d) us m0)))"
    and "e \<notin> set (oc_events (fold (trace_offcpu upd d) us m0))"
  shows "d \<le> oe_duration_ns e \<and> (\<exists>vs x ws. us = vs @ x # ws \<and> measures e x ws y)"
proof -
  let ?s = "fold (trace_offcpu upd d) us m0"
  obtain env' ctx' r' where y: "y = (env', ctx', r')" by (cases y) auto
  let ?k = "task_key (sw_next_pid ctx')"
  from assms(4,5) obtain start raw where row: "after_switch_out upd env' ctx' ?s ?k = Some start"
    and next0: "sw_next_pid ctx' \<noteq> 0" and dur: "d \<le> env_time env' - ov_timestamp_ns start"
    and e: "e = offcpu_event env' (sw_next_pid ctx') start raw"
    by (cases "after_switch_out upd env' ctx' ?s ?k"; cases r')
      (auto simp: y trace_offcpu_events not_less split: if_splits)
  have "sw_prev_pid ctx' \<noteq> sw_next_pid ctx'"
  proof
    assume eq: "sw_prev_pid ctx' = sw_next_pid ctx'"
    with row next0 update_law_same [OF assms(1), of ?k "offcpu_snapshot env' ctx'" "oc_start ?s"]
    have "start = offcpu_snapshot env' ctx'" by (auto simp: after_switch_out_def)
    with dur have "d \<le> 0" by (simp add: offcpu_snapshot_def)
    with assms(2) show False by simp
  qed
  with row have "oc_start ?s ?k = Some start"
    by (auto simp: after_switch_out_def update_law_other [OF assms(1)] split: if_splits)
  then obtain vs x ws where t: "last_touch (trace_offcpu upd d) offcpu_touches offcpu_starts m0 us ?k start vs x ws"
    using start_table.row_from_last_touch [OF trace_offcpu_start_table [OF assms(1), of d], of m0 ?k us start]
    by (auto simp: assms(3))
  obtain env ctx r where x: "x = (env, ctx, r)" by (cases x) auto
  from t have us: "us = vs @ x # ws"
    and st: "sw_prev_pid ctx = sw_next_pid ctx'" "sw_next_pid ctx \<noteq> sw_next_pid ctx'"
      "start = offcpu_snapshot env ctx"
    by (auto simp: last_touch_def x split: if_splits)
  have "\<not> switches (sw_next_pid ctx') w" if "w \<in> set ws" for w
  proof -
    from that obtain as bs where "ws = as @ w # bs" by (meson split_list)
    with t have "\<not> offcpu_touches (fold (trace_offcpu upd d) (vs @ x # as) m0) w ?k"
      unfolding last_touch_def by blast
    with next0 show ?thesis by (cases w) (auto simp: switches_def)
  qed
  with us st next0 dur show ?thesis
    by (intro conjI exI [of _ vs] exI [of _ x] exI [of _ ws]) (simp_all add: e y x offcpu_snapshot_def offcpu_event_def)
qed

lemma offcpu_event_interval:
  fixes runs :: "switch_run list"
  assumes "update_law upd" "0 < d" "oc_start m0 = Map.empty" "oc_events m0 = []"
    and "e \<in> set (oc_events (fold (trace_offcpu upd d) runs m0))"
  shows "d \<le> oe_duration_ns e \<and> (\<exists>us x ws y vs. runs = us @ x # ws @ y # vs \<and> measures e x ws y)"
  using assms(5)
proof (induction runs rule: rev_induct)
  case Nil
  then show ?case by (simp add: assms(4))
next
  case (snoc y us)
  let ?s = "fold (trace_offcpu upd d) us m0"
  show ?case
  proof (cases "e \<in> set (oc_events ?s)")
    case True
    from snoc.IH [OF this] obtain ts x ws z vs where "d \<le> oe_duration_ns e" "us = ts @ x # ws @ z # vs"
      "measures e x ws z" by blast
    then show ?thesis
      by (intro conjI exI [of _ ts] exI [of _ x] exI [of _ ws] exI [of _ z] exI [of _ "vs @ [y]"]) simp_all
  next
    case False
    from snoc.prems have "e \<in> set (oc_events (trace_offcpu upd d y ?s))" by simp
    from trace_offcpu_emits [OF assms(1-3) this False] obtain vs x ws
      where "d \<le> oe_duration_ns e" "us = vs @ x # ws" "measures e x ws y" by blast
    then show ?thesis
      by (intro conjI exI [of _ vs] exI [of _ x] exI [of _ ws] exI [of _ y] exI [of _ "[]"]) simp_all
  qed
qed

text \<open>
  Every off-CPU event is an interval a task really spent off the processor. It starts at the last
  switch that took the task off, with that switch's stacks and name, ends at the switch that brings it
  back, which it names the processor of, no other switch of the task lies between, and it lasts the
  minimum at least. This holds for full tables and full ring buffers too.
\<close>

theorem offcpu_events_are_intervals:
  fixes runs :: "switch_run list"
  assumes "update_law upd" "0 < d" "oc_start m0 = Map.empty" "oc_events m0 = []"
    and "e \<in> set (oc_events (fold (trace_offcpu upd d) runs m0))"
  shows "d \<le> oe_duration_ns e \<and> (\<exists>us x ws y vs. runs = us @ x # ws @ y # vs \<and> measures e x ws y)"
  by (rule offcpu_event_interval [OF assms])

lemma offcpu_events_are_intervals_witness:
  defines "env \<equiv> \<lambda>t. \<lparr>env_pid_tgid = 0, env_comm = ''a'', env_cpu = 1, env_time = t,
      env_kernel_stack = 2, env_user_stack = 3\<rparr>"
    and "away \<equiv> \<lparr>sw_prev_comm = ''a'', sw_prev_pid = 7, sw_next_comm = ''b'', sw_next_pid = 8\<rparr>"
    and "back \<equiv> \<lparr>sw_prev_comm = ''b'', sw_prev_pid = 8, sw_next_comm = ''a'', sw_next_pid = 7\<rparr>"
    and "raw \<equiv> \<lparr>oe_timestamp_ns = 0, oe_pid = 0, oe_tid = 0, oe_cpu = 0, oe_duration_ns = 0,
      oe_kernel_stack_id = 0, oe_user_stack_id = 0, oe_comm = []\<rparr>"
    and "m0 \<equiv> \<lparr>oc_start = Map.empty, oc_events = []\<rparr>"
  shows "\<exists>e. oc_events (fold (trace_offcpu plain_update 100000)
      [(env 1000, away, None), (env 501000, back, Some raw)] m0) = [e] \<and> (100000 :: u64) \<le> oe_duration_ns e \<and>
    oe_timestamp_ns e = 1000"
proof -
  let ?runs = "[(env 1000, away, None), (env 501000, back, Some raw)]"
  let ?e = "raw\<lparr>oe_timestamp_ns := 1000, oe_pid := 7, oe_tid := 7, oe_cpu := 1, oe_duration_ns := 500000,
      oe_kernel_stack_id := 2, oe_user_stack_id := 3, oe_comm := ''a''\<rparr>"
  have run: "oc_events (fold (trace_offcpu plain_update 100000) ?runs m0) = [?e]"
    by (simp add: env_def away_def back_def raw_def m0_def trace_offcpu_def plain_update_def
        offcpu_snapshot_def offcpu_event_def read_comm_def task_comm_len_def)
  from offcpu_events_are_intervals [OF plain_update_law, of 100000 m0 ?e ?runs] run
  have "(100000 :: u64) \<le> oe_duration_ns ?e" by (simp add: m0_def)
  with run show ?thesis by auto
qed

text \<open>
  C40: no interval is lost. When a task is switched out, is in no switch until it is switched in again,
  and was away for the minimum at least, and there was room in the table and the ring buffer, its event
  is there.
\<close>

theorem offcpu_reports_interval:
  fixes us ws vs :: "switch_run list"
  assumes "update_law upd" "sw_prev_pid ctx \<noteq> 0" "sw_next_pid ctx \<noteq> sw_prev_pid ctx"
    and "after_switch_out upd env ctx (fold (trace_offcpu upd d) us m0) (task_key (sw_prev_pid ctx)) \<noteq> None"
    and "\<forall>w \<in> set ws. \<not> switches (sw_prev_pid ctx) w"
    and "sw_next_pid ctx' = sw_prev_pid ctx" "sw_prev_pid ctx' \<noteq> sw_prev_pid ctx"
    and "d \<le> env_time env' - env_time env"
  shows "\<exists>e \<in> set (oc_events (fold (trace_offcpu upd d)
      (us @ (env, ctx, r) # ws @ (env', ctx', Some raw) # vs) m0)).
    measures e (env, ctx, r) ws (env', ctx', Some raw)"
proof -
  let ?t = "trace_offcpu upd d" and ?k = "task_key (sw_prev_pid ctx)"
  let ?s = "fold ?t us m0"
  have out: "oc_start (?t (env, ctx, r) ?s) ?k = Some (offcpu_snapshot env ctx)"
    using assms(2,3,4) update_law_same [OF assms(1), of ?k "offcpu_snapshot env ctx" "oc_start ?s"]
    by (auto simp: trace_offcpu_start after_switch_out_def)
  have away: "oc_start (fold ?t ws s) ?k = oc_start s ?k" for s
    using assms(5)
  proof (induction ws arbitrary: s)
    case (Cons w ws)
    have "\<not> offcpu_touches s w ?k" using Cons.prems by (cases w) (auto simp: switches_def)
    with Cons start_table.untouched [OF trace_offcpu_start_table [OF assms(1)]] show ?case by simp
  qed simp
  let ?s2 = "fold ?t ws (?t (env, ctx, r) ?s)"
  have "after_switch_out upd env' ctx' ?s2 ?k = Some (offcpu_snapshot env ctx)"
    using out away assms(7) by (simp add: after_switch_out_def update_law_other [OF assms(1)])
  then have "\<exists>e \<in> set (oc_events (?t (env', ctx', Some raw) ?s2)). measures e (env, ctx, r) ws (env', ctx', Some raw)"
    using assms(2,3,5,6) leD [OF assms(8)] by (simp add: trace_offcpu_events offcpu_snapshot_def offcpu_event_def)
  moreover have "set (oc_events s) \<subseteq> set (oc_events (fold ?t vs s))" for s
  proof (induction vs arbitrary: s)
    case (Cons v vs)
    have "set (oc_events s) \<subseteq> set (oc_events (?t v s))" by (cases v) (simp add: trace_offcpu_events)
    also have "\<dots> \<subseteq> set (oc_events (fold ?t vs (?t v s)))" by (rule Cons.IH)
    finally show ?case by simp
  qed simp
  ultimately show ?thesis by fastforce
qed

lemma offcpu_reports_interval_witness:
  defines "env \<equiv> \<lambda>t. \<lparr>env_pid_tgid = 0, env_comm = ''a'', env_cpu = 1, env_time = t,
      env_kernel_stack = 2, env_user_stack = 3\<rparr>"
    and "away \<equiv> \<lparr>sw_prev_comm = ''a'', sw_prev_pid = 7, sw_next_comm = ''b'', sw_next_pid = 8\<rparr>"
    and "back \<equiv> \<lparr>sw_prev_comm = ''b'', sw_prev_pid = 8, sw_next_comm = ''a'', sw_next_pid = 7\<rparr>"
    and "raw \<equiv> \<lparr>oe_timestamp_ns = 0, oe_pid = 0, oe_tid = 0, oe_cpu = 0, oe_duration_ns = 0,
      oe_kernel_stack_id = 0, oe_user_stack_id = 0, oe_comm = []\<rparr>"
    and "m0 \<equiv> \<lparr>oc_start = Map.empty, oc_events = []\<rparr>"
  shows "\<exists>e \<in> set (oc_events (fold (trace_offcpu plain_update 100000)
      ([] @ (env 1000, away, None) # [] @ (env 501000, back, Some raw) # []) m0)).
    measures e (env 1000, away, None) [] (env 501000, back, Some raw)"
  by (rule offcpu_reports_interval [OF plain_update_law])
    (simp_all add: away_def back_def env_def after_switch_out_def plain_update_def)

end
