(* ===== verification/OffcpuSource.thy ===== *)
theory OffcpuSource
  imports RingSources OffcpuProbe
begin

text \<open>
  The off-CPU profiler (\<open>src/sources/sched/offcpu_profiler/offcpu_profiler.h\<close>): a source that gathers
  the events of its ring buffer into a cached batch, which \<open>Collect\<close> takes. Handler and \<open>Collect\<close> run
  under one mutex, so an execution is a sequence of them.
\<close>

section \<open>State and configuration\<close>

record offcpu_source =
  of_stub_mode :: bool
  of_min_duration_us :: u32
  of_user_stacks :: bool
  of_kernel_stacks :: bool
  of_bpf_obj_path :: string
  of_target_pids :: "u32 list"
  of_target_pid_allow :: "u32 set"
  of_running :: bool
  of_bpf_mgr :: bpf_manager
  of_stacks_fd :: int
  of_ring_buf :: "handle option"
  of_poll_thread :: bool
  of_cached_batch :: "data_batch option"
  of_callback :: bool

definition offcpu_source_new :: offcpu_source where
  "offcpu_source_new = \<lparr>of_stub_mode = False, of_min_duration_us = 100, of_user_stacks = True,
     of_kernel_stacks = True, of_bpf_obj_path = [], of_target_pids = [], of_target_pid_allow = {},
     of_running = False, of_bpf_mgr = bpf_manager_new, of_stacks_fd = -1, of_ring_buf = None,
     of_poll_thread = False, of_cached_batch = None, of_callback = False\<rparr>"

definition offcpu_init :: "config_value \<Rightarrow> offcpu_source \<Rightarrow> status \<times> offcpu_source" where
  "offcpu_init config s =
     (let pids = parse_comma_u32 (as_string (cv_child ''target_pids'' config) [])
      in (status_ok,
          s\<lparr>of_min_duration_us := word_of_int (as_int (cv_child ''min_duration_us'' config) 100),
            of_user_stacks := as_bool (cv_child ''user_stacks'' config) True,
            of_kernel_stacks := as_bool (cv_child ''kernel_stacks'' config) True,
            of_bpf_obj_path := as_string (cv_child ''bpf_object'' config) [],
            of_target_pids := pids, of_target_pid_allow := set pids\<rparr>))"

section \<open>Start and stop\<close>

definition offcpu_start :: "libbpf \<Rightarrow> offcpu_source \<Rightarrow> (status \<times> offcpu_source) option" where
  "offcpu_start lb s =
     (if of_bpf_obj_path s = [] then Some (status_ok, s\<lparr>of_stub_mode := True, of_running := False\<rparr>)
      else
        let (st, m) = load_object lb ''offcpu_profiler'' (of_bpf_obj_path s) (of_bpf_mgr s);
            s = s\<lparr>of_bpf_mgr := m\<rparr>
        in if \<not> is_ok st then Some (st, s)
        else let (st, m) = attach_program lb ''offcpu_profiler'' ''trace_offcpu'' m;
                 s = s\<lparr>of_bpf_mgr := m\<rparr>
        in if \<not> is_ok st then Some (st, s)
        else let s = s\<lparr>of_stacks_fd := get_map_fd lb ''offcpu_profiler'' ''offcpu_stacks'' m\<rparr>;
                 rb_fd = get_map_fd lb ''offcpu_profiler'' ''offcpu_events'' m
        in if rb_fd < 0 then Some (status_error Internal ''offcpu_events ringbuf missing'', s)
        else let (ring, m) = create_ring_buffer lb rb_fd m;
                 s = s\<lparr>of_bpf_mgr := m, of_ring_buf := ring\<rparr>
        in if ring = None then Some (status_error Internal ''offcpu ring buffer init failed'', s)
        else let s = s\<lparr>of_running := True\<rparr>
        in if of_poll_thread s then None
        else Some (status_ok, s\<lparr>of_poll_thread := True\<rparr>))"

definition offcpu_stop :: "offcpu_source \<Rightarrow> offcpu_source" where
  "offcpu_stop s =
     s\<lparr>of_running := False, of_poll_thread := False, of_ring_buf := None,
       of_bpf_mgr := detach_all (free_ring (of_ring_buf s) (of_bpf_mgr s)), of_stacks_fd := -1\<rparr>"

section \<open>Events and collections\<close>

definition sizeof_offcpu_event :: nat where
  "sizeof_offcpu_event = 56"

definition allow_pid :: "u32 set \<Rightarrow> u32 \<Rightarrow> bool" where
  "allow_pid allow pid \<longleftrightarrow> (if allow = {} then True else pid \<in> allow)"

definition offcpu_sample :: "(s32 \<rightharpoonup> u64 list) \<Rightarrow> int \<Rightarrow> il_offcpu_event \<Rightarrow> stack_sample \<Rightarrow> stack_sample" where
  "offcpu_sample stacks stacks_fd e r =
     r\<lparr>ss_pid := oe_pid e, ss_tid := oe_tid e, ss_cpu := oe_cpu e, ss_comm := comm_text (oe_comm e),
       ss_sample_type := OffCpu, ss_duration_ns := oe_duration_ns e, ss_count := 1,
       ss_kernel_stack_id := oe_kernel_stack_id e, ss_user_stack_id := oe_user_stack_id e,
       ss_kernel_stack := lookup_bpf_stack_trace stacks stacks_fd (oe_kernel_stack_id e) max_stack_depth,
       ss_user_stack := lookup_bpf_stack_trace stacks stacks_fd (oe_user_stack_id e) max_stack_depth\<rparr>"

text \<open>The handler, with what it passes to the callback. \<open>now\<close> is the time stamp of the samples it makes.\<close>

definition offcpu_handle_event ::
  "(s32 \<rightharpoonup> u64 list) \<Rightarrow> u64 \<Rightarrow> nat \<Rightarrow> il_offcpu_event \<Rightarrow> offcpu_source \<Rightarrow> data_batch list \<times> offcpu_source" where
  "offcpu_handle_event stacks now sz e s =
     (if sz < sizeof_offcpu_event then ([], s)
      else if \<not> allow_pid (of_target_pid_allow s) (oe_pid e) then ([], s)
      else
        let sample = offcpu_sample stacks (of_stacks_fd s) e;
            cached = (case of_cached_batch s of None \<Rightarrow> new_batch Profile | Some b \<Rightarrow> b);
            s = s\<lparr>of_cached_batch := Some (add_stack_sample now sample cached)\<rparr>
        in (if of_callback s then [add_stack_sample now sample (new_batch Profile)] else [], s))"

definition offcpu_collect :: "offcpu_source \<Rightarrow> data_batch \<times> offcpu_source" where
  "offcpu_collect s =
     ((case of_cached_batch s of None \<Rightarrow> new_batch Profile | Some b \<Rightarrow> b),
      s\<lparr>of_cached_batch := Some (new_batch Profile)\<rparr>)"

datatype offcpu_op = OffcpuEvent u64 nat il_offcpu_event | OffcpuCollect

text \<open>A run: the batches that were pushed and those that were collected, in order.\<close>

fun offcpu_ops ::
  "(s32 \<rightharpoonup> u64 list) \<Rightarrow> offcpu_op list \<Rightarrow> offcpu_source \<Rightarrow> data_batch list \<times> data_batch list \<times> offcpu_source" where
  "offcpu_ops stacks [] s = ([], [], s)"
| "offcpu_ops stacks (OffcpuEvent now sz e # ops) s =
     (let (ps, s) = offcpu_handle_event stacks now sz e s; (pss, cs, s) = offcpu_ops stacks ops s
      in (ps @ pss, cs, s))"
| "offcpu_ops stacks (OffcpuCollect # ops) s =
     (let (c, s) = offcpu_collect s; (ps, cs, s) = offcpu_ops stacks ops s in (ps, c # cs, s))"

section \<open>Life cycle\<close>

definition offcpu_source_inv :: "offcpu_source \<Rightarrow> bool" where
  "offcpu_source_inv s \<longleftrightarrow> (\<exists>lost. accounts lost (ring_handles (of_ring_buf s)) {#} (of_bpf_mgr s)) \<and>
     (of_ring_buf s \<noteq> None \<longrightarrow> of_poll_thread s)"

lemma offcpu_start_cases:
  assumes "offcpu_source_inv s" "\<not> of_poll_thread s"
  obtains st s' where "offcpu_start lb s = Some (st, s')" "offcpu_source_inv s'"
    "of_bpf_obj_path s \<noteq> [] \<Longrightarrow> is_ok st \<longleftrightarrow> of_poll_thread s'"
    "of_bpf_obj_path s \<noteq> [] \<Longrightarrow> is_ok st \<Longrightarrow>
       length (bm_links (of_bpf_mgr s')) = length (bm_links (of_bpf_mgr s)) + 1"
proof (cases "of_bpf_obj_path s = []")
  case True
  with assms show ?thesis
    by (intro that [of status_ok "s\<lparr>of_stub_mode := True, of_running := False\<rparr>"])
      (auto simp: offcpu_start_def offcpu_source_inv_def)
next
  case False
  have ring: "of_ring_buf s = None" using assms by (auto simp: offcpu_source_inv_def)
  with assms(1) obtain lost where a0: "accounts lost {#} {#} (of_bpf_mgr s)"
    by (auto simp: offcpu_source_inv_def)
  obtain st1 m1 where l: "load_object lb ''offcpu_profiler'' (of_bpf_obj_path s) (of_bpf_mgr s) = (st1, m1)"
    by (cases "load_object lb ''offcpu_profiler'' (of_bpf_obj_path s) (of_bpf_mgr s)")
  from accounts_load [OF a0 l] obtain lost1 where a1: "accounts lost1 {#} {#} m1" by blast
  have links1: "bm_links m1 = bm_links (of_bpf_mgr s)"
    using l by (auto simp: load_object_def Let_def split: option.splits if_splits)
  obtain st2 m2 where b: "attach_program lb ''offcpu_profiler'' ''trace_offcpu'' m1 = (st2, m2)"
    by (cases "attach_program lb ''offcpu_profiler'' ''trace_offcpu'' m1")
  note a2 = accounts_attach [OF a1 b]
  let ?sfd = "get_map_fd lb ''offcpu_profiler'' ''offcpu_stacks'' m2"
  let ?fd = "get_map_fd lb ''offcpu_profiler'' ''offcpu_events'' m2"
  obtain r m3 where c: "create_ring_buffer lb ?fd m2 = (r, m3)" by (cases "create_ring_buffer lb ?fd m2")
  have a3: "accounts lost1 (ring_handles r) {#} m3" using a2 accounts_new_ring [OF _ c] by simp
  have links3: "bm_links m3 = bm_links m2" using c by (auto simp: create_ring_buffer_def Let_def)
  note simps = offcpu_start_def assms(2) False l b c Let_def offcpu_source_inv_def ring
  consider "\<not> is_ok st1" | "is_ok st1" "\<not> is_ok st2" | "is_ok st1" "is_ok st2" "?fd < 0"
    | "is_ok st1" "is_ok st2" "\<not> ?fd < 0" "r = None"
    | "is_ok st1" "is_ok st2" "\<not> ?fd < 0" "r \<noteq> None"
    by blast
  then show ?thesis
  proof cases
    case 1
    with a1 assms(2) show ?thesis by (intro that [of st1 "s\<lparr>of_bpf_mgr := m1\<rparr>"]) (auto simp: simps)
  next
    case 2
    with a2 assms(2) show ?thesis by (intro that [of st2 "s\<lparr>of_bpf_mgr := m2\<rparr>"]) (auto simp: simps)
  next
    case 3
    with a2 assms(2) show ?thesis
      by (intro that [of "status_error Internal ''offcpu_events ringbuf missing''"
            "s\<lparr>of_bpf_mgr := m2, of_stacks_fd := ?sfd\<rparr>"]) (auto simp: simps)
  next
    case 4
    with a3 assms(2) show ?thesis
      by (intro that [of "status_error Internal ''offcpu ring buffer init failed''"
            "s\<lparr>of_bpf_mgr := m3, of_stacks_fd := ?sfd, of_ring_buf := None\<rparr>"]) (auto simp: simps)
  next
    case 5
    with a2 a3 links1 links3 show ?thesis
      by (intro that [of status_ok "s\<lparr>of_bpf_mgr := m3, of_stacks_fd := ?sfd, of_ring_buf := r, of_running := True,
            of_poll_thread := True\<rparr>"]) (auto simp: simps)
  qed
qed

lemma offcpu_stop_detached:
  "offcpu_source_inv s \<Longrightarrow> offcpu_source_inv (offcpu_stop s) \<and> detached (of_bpf_mgr (offcpu_stop s)) \<and>
   \<not> of_poll_thread (offcpu_stop s)"
  using detached_free_ring [of _ "of_ring_buf s" "of_bpf_mgr s"]
  by (auto simp: offcpu_source_inv_def offcpu_stop_def detached_def)

interpretation offcpu_life: bpf_source "offcpu_start lb" offcpu_stop of_poll_thread offcpu_source_inv of_bpf_mgr for lb
proof
  fix s :: offcpu_source
  assume inv: "offcpu_source_inv s"
  show "offcpu_source_inv (offcpu_stop s)"
    "\<not> of_poll_thread (offcpu_stop s)" "detached (of_bpf_mgr (offcpu_stop s))"
    using offcpu_stop_detached [OF inv] by simp_all
  assume idle: "\<not> of_poll_thread s"
  obtain st s' where "offcpu_start lb s = Some (st, s')" "offcpu_source_inv s'"
    using offcpu_start_cases [OF inv idle] by metis
  then show "offcpu_start lb s \<noteq> None" and "\<And>st s'. offcpu_start lb s = Some (st, s') \<Longrightarrow> offcpu_source_inv s'"
    by auto
qed

section \<open>Samples\<close>

definition accepted_event :: "u32 set \<Rightarrow> offcpu_op \<Rightarrow> (u64 \<times> il_offcpu_event) option" where
  "accepted_event allow x = (case x of OffcpuCollect \<Rightarrow> None
     | OffcpuEvent now sz e \<Rightarrow>
         if sizeof_offcpu_event \<le> sz \<and> allow_pid allow (oe_pid e) then Some (now, e) else None)"

definition cached_samples :: "offcpu_source \<Rightarrow> stack_sample list" where
  "cached_samples s = (case of_cached_batch s of None \<Rightarrow> [] | Some b \<Rightarrow> db_samples b)"

definition offcpu_samples :: "(s32 \<rightharpoonup> u64 list) \<Rightarrow> offcpu_source \<Rightarrow> offcpu_op list \<Rightarrow> stack_sample list" where
  "offcpu_samples stacks s ops =
     map (\<lambda>(now, e). offcpu_sample stacks (of_stacks_fd s) e (default_sample now))
       (List.map_filter (accepted_event (of_target_pid_allow s)) ops)"

lemma handle_event_step:
  assumes "offcpu_handle_event stacks now sz e s = (ps, s')"
  shows "cached_samples s' = cached_samples s @ offcpu_samples stacks s [OffcpuEvent now sz e] \<and>
    of_target_pid_allow s' = of_target_pid_allow s \<and> of_stacks_fd s' = of_stacks_fd s \<and> of_callback s' = of_callback s \<and>
    concat (map db_samples ps) = (if of_callback s then offcpu_samples stacks s [OffcpuEvent now sz e] else [])"
  using assms
  by (auto simp: offcpu_handle_event_def Let_def cached_samples_def offcpu_samples_def accepted_event_def
      add_stack_sample_def new_batch_def not_less split: if_splits option.split)

lemma offcpu_samples_cong:
  "of_target_pid_allow s' = of_target_pid_allow s \<Longrightarrow> of_stacks_fd s' = of_stacks_fd s \<Longrightarrow>
   offcpu_samples stacks s' ops = offcpu_samples stacks s ops"
  by (simp add: offcpu_samples_def)

lemma offcpu_samples_Cons:
  "offcpu_samples stacks s (x # ops) = offcpu_samples stacks s [x] @ offcpu_samples stacks s ops"
  by (simp add: offcpu_samples_def List.map_filter_simps split: option.split)

lemma offcpu_ops_samples:
  assumes "offcpu_ops stacks ops s = (ps, cs, s')"
  shows "cached_samples s @ offcpu_samples stacks s ops = concat (map db_samples cs) @ cached_samples s' \<and>
    concat (map db_samples ps) = (if of_callback s then offcpu_samples stacks s ops else [])"
  using assms
proof (induction ops arbitrary: s ps cs s')
  case Nil
  then show ?case by (auto simp: offcpu_samples_def)
next
  case (Cons x ops)
  show ?case
  proof (cases x)
    case (OffcpuEvent now sz e)
    obtain qs s1 where h: "offcpu_handle_event stacks now sz e s = (qs, s1)"
      by (cases "offcpu_handle_event stacks now sz e s")
    obtain pss css s2 where r: "offcpu_ops stacks ops s1 = (pss, css, s2)" by (cases "offcpu_ops stacks ops s1")
    from Cons.prems h r OffcpuEvent have eq: "ps = qs @ pss" "cs = css" "s' = s2" by simp_all
    note st = handle_event_step [OF h]
    with Cons.IH [OF r] offcpu_samples_cong [of s1 s stacks ops] show ?thesis
      unfolding OffcpuEvent eq offcpu_samples_Cons [of stacks s _ ops] by simp
  next
    case OffcpuCollect
    obtain c s1 where c: "offcpu_collect s = (c, s1)" by (cases "offcpu_collect s")
    then have c': "db_samples c = cached_samples s" "cached_samples s1 = []" "of_callback s1 = of_callback s"
      "of_target_pid_allow s1 = of_target_pid_allow s" "of_stacks_fd s1 = of_stacks_fd s"
      by (auto simp: offcpu_collect_def cached_samples_def new_batch_def split: option.split)
    obtain pss css s2 where r: "offcpu_ops stacks ops s1 = (pss, css, s2)" by (cases "offcpu_ops stacks ops s1")
    from Cons.prems c r OffcpuCollect have eq: "ps = pss" "cs = c # css" "s' = s2" by simp_all
    have "offcpu_samples stacks s [OffcpuCollect] = []"
      by (simp add: offcpu_samples_def accepted_event_def List.map_filter_simps)
    with c' Cons.IH [OF r] offcpu_samples_cong [of s1 s stacks ops] show ?thesis
      unfolding OffcpuCollect eq offcpu_samples_Cons [of stacks s _ ops] by simp
  qed
qed

text \<open>The probe's events that a run hands to the handler.\<close>

definition handed_events :: "offcpu_op list \<Rightarrow> il_offcpu_event list" where
  "handed_events ops = List.map_filter (\<lambda>x. case x of OffcpuEvent now sz e \<Rightarrow> Some e | OffcpuCollect \<Rightarrow> None) ops"

text \<open>
  C22: the off-CPU profiler reports each interval once. However the events and the collections interleave,
  what was collected and what is still cached are together the samples of the events of allowed
  processes, in order: none is lost, and none is collected twice. When the events come from the probe,
  each of these samples is an interval that its task spent off the processor, at least the minimum long,
  with the stacks of the switch that began it.
\<close>

theorem offcpu_samples_are_intervals:
  fixes runs :: "switch_run list"
  assumes "offcpu_ops stacks ops (offcpu_source_new\<lparr>of_target_pid_allow := allow, of_stacks_fd := fd\<rparr>) = (ps, cs, s)"
    and "update_law upd" "0 < d" "oc_start m0 = Map.empty" "oc_events m0 = []"
    and "handed_events ops = oc_events (fold (trace_offcpu upd d) runs m0)"
  shows "map ss_pid (concat (map db_samples cs) @ cached_samples s) =
      map (oe_pid \<circ> snd) (List.map_filter (accepted_event allow) ops) \<and>
    (\<forall>smp \<in> set (concat (map db_samples cs) @ cached_samples s). allow_pid allow (ss_pid smp) \<and>
      (\<exists>e us x ws y vs. runs = us @ x # ws @ y # vs \<and> measures e x ws y \<and> d \<le> oe_duration_ns e \<and>
        ss_pid smp = oe_pid e \<and> ss_duration_ns smp = oe_duration_ns e \<and> ss_sample_type smp = OffCpu \<and>
        ss_kernel_stack smp = lookup_bpf_stack_trace stacks fd (oe_kernel_stack_id e) max_stack_depth \<and>
        ss_user_stack smp = lookup_bpf_stack_trace stacks fd (oe_user_stack_id e) max_stack_depth))"
proof -
  let ?s0 = "offcpu_source_new\<lparr>of_target_pid_allow := allow, of_stacks_fd := fd\<rparr>"
  have all: "concat (map db_samples cs) @ cached_samples s = offcpu_samples stacks ?s0 ops"
    using offcpu_ops_samples [OF assms(1)] by (simp add: cached_samples_def offcpu_source_new_def)
  have "map ss_pid (offcpu_samples stacks ?s0 ops) = map (oe_pid \<circ> snd) (List.map_filter (accepted_event allow) ops)"
    by (simp add: offcpu_samples_def offcpu_sample_def split_beta)
  moreover have "allow_pid allow (ss_pid smp) \<and>
      (\<exists>e us x ws y vs. runs = us @ x # ws @ y # vs \<and> measures e x ws y \<and> d \<le> oe_duration_ns e \<and>
        ss_pid smp = oe_pid e \<and> ss_duration_ns smp = oe_duration_ns e \<and> ss_sample_type smp = OffCpu \<and>
        ss_kernel_stack smp = lookup_bpf_stack_trace stacks fd (oe_kernel_stack_id e) max_stack_depth \<and>
        ss_user_stack smp = lookup_bpf_stack_trace stacks fd (oe_user_stack_id e) max_stack_depth)"
    if smp_in: "smp \<in> set (offcpu_samples stacks ?s0 ops)" for smp
  proof -
    from smp_in obtain now e x where x: "x \<in> set ops" "accepted_event allow x = Some (now, e)"
      and smp: "smp = offcpu_sample stacks fd e (default_sample now)"
      by (auto simp: offcpu_samples_def in_set_map_filter)
    then have "allow_pid allow (oe_pid e)" "e \<in> set (handed_events ops)"
      by (force simp: accepted_event_def handed_events_def in_set_map_filter split: offcpu_op.splits if_splits)+
    moreover from this(2) offcpu_event_interval [OF assms(2-5), of e runs]
    obtain us x ws y vs where "d \<le> oe_duration_ns e" "runs = us @ x # ws @ y # vs" "measures e x ws y"
      unfolding assms(6) by blast
    moreover have "ss_pid smp = oe_pid e" "ss_duration_ns smp = oe_duration_ns e" "ss_sample_type smp = OffCpu"
      "ss_kernel_stack smp = lookup_bpf_stack_trace stacks fd (oe_kernel_stack_id e) max_stack_depth"
      "ss_user_stack smp = lookup_bpf_stack_trace stacks fd (oe_user_stack_id e) max_stack_depth"
      by (simp_all add: smp offcpu_sample_def)
    ultimately show ?thesis by metis
  qed
  ultimately show ?thesis unfolding all by blast
qed

lemma offcpu_samples_are_intervals_witness:
  defines "env \<equiv> \<lambda>t. \<lparr>env_pid_tgid = 0, env_comm = ''a'', env_cpu = 1, env_time = t,
      env_kernel_stack = 2, env_user_stack = 3\<rparr>"
    and "away \<equiv> \<lparr>sw_prev_comm = ''a'', sw_prev_pid = 7, sw_next_comm = ''b'', sw_next_pid = 8\<rparr>"
    and "back \<equiv> \<lparr>sw_prev_comm = ''b'', sw_prev_pid = 8, sw_next_comm = ''a'', sw_next_pid = 7\<rparr>"
    and "raw \<equiv> \<lparr>oe_timestamp_ns = 0, oe_pid = 0, oe_tid = 0, oe_cpu = 0, oe_duration_ns = 0,
      oe_kernel_stack_id = 0, oe_user_stack_id = 0, oe_comm = []\<rparr>"
    and "m0 \<equiv> \<lparr>oc_start = Map.empty, oc_events = []\<rparr>"
  shows "\<exists>e ps c s. oc_events (fold (trace_offcpu plain_update 100000)
      [(env 1000, away, None), (env 501000, back, Some raw)] m0) = [e] \<and>
    offcpu_ops Map.empty [OffcpuEvent 9 56 e, OffcpuCollect]
      (offcpu_source_new\<lparr>of_target_pid_allow := {7}, of_stacks_fd := 3\<rparr>) = (ps, [c], s) \<and>
    map ss_pid (db_samples c) = [7]"
proof -
  let ?runs = "[(env 1000, away, None), (env 501000, back, Some raw)]"
  let ?e = "raw\<lparr>oe_timestamp_ns := 1000, oe_pid := 7, oe_tid := 7, oe_cpu := 1, oe_duration_ns := 500000,
      oe_kernel_stack_id := 2, oe_user_stack_id := 3, oe_comm := ''a''\<rparr>"
  let ?ops = "[OffcpuEvent 9 56 ?e, OffcpuCollect]"
  let ?s0 = "offcpu_source_new\<lparr>of_target_pid_allow := {7}, of_stacks_fd := 3\<rparr>"
  have run: "oc_events (fold (trace_offcpu plain_update 100000) ?runs m0) = [?e]"
    by (simp add: env_def away_def back_def raw_def m0_def trace_offcpu_def plain_update_def
        offcpu_snapshot_def offcpu_event_def read_comm_def task_comm_len_def)
  obtain ps s1 where h: "offcpu_handle_event Map.empty 9 56 ?e ?s0 = (ps, s1)" by fastforce
  obtain c s where c: "offcpu_collect s1 = (c, s)" by fastforce
  have ops: "offcpu_ops Map.empty ?ops ?s0 = (ps, [c], s)" by (simp add: h c)
  have empty: "cached_samples s = []" using c by (auto simp: offcpu_collect_def cached_samples_def new_batch_def)
  have handed: "handed_events ?ops = [?e]" by (simp add: handed_events_def List.map_filter_simps)
  from offcpu_samples_are_intervals [OF ops plain_update_law, of 100000 m0 ?runs] run handed empty
  have "map ss_pid (db_samples c) = [7]"
    by (simp add: m0_def accepted_event_def List.map_filter_simps sizeof_offcpu_event_def allow_pid_def)
  with run ops show ?thesis by auto
qed

end
