(* ===== verification/SchedProbes.thy ===== *)
theory SchedProbes
  imports OffcpuProbe
begin

text \<open>
  The scheduler probes of \<open>src/ebpf/probes/sched/\<close>: \<open>sched_analyzer.bpf.c\<close>, which aggregates per task,
  and \<open>sched_tracer.bpf.c\<close>, which streams. Both measure the time from a task's wakeup to the switch that
  runs it.
\<close>

record sched_wakeup_ctx =
  wk_comm :: string
  wk_pid :: u32

record sched_migrate_ctx =
  mg_comm :: string
  mg_pid :: u32
  mg_dest_cpu :: u32

text \<open>One run of a program: its environment, its tracepoint's context and the memory it reserves.\<close>

datatype sched_run =
    Wakeup bpf_env sched_wakeup_ctx "il_sched_event option"
  | Switch bpf_env sched_switch_ctx "il_sched_event option"
  | Migrate bpf_env sched_migrate_ctx "il_sched_event option"

definition wakeup_event :: "bpf_env \<Rightarrow> sched_wakeup_ctx \<Rightarrow> il_sched_event \<Rightarrow> il_sched_event" where
  "wakeup_event env ctx e =
     e\<lparr>se_timestamp_ns := env_time env, se_next_pid := wk_pid ctx, se_next_tid := wk_pid ctx,
       se_cpu := env_cpu env, se_event_type := 1, se_latency_ns := 0,
       se_next_comm := read_comm (wk_comm ctx), se_prev_pid := env_pid env, se_prev_tid := env_tid env,
       se_prev_comm := env_comm env\<rparr>"

definition switch_event :: "bpf_env \<Rightarrow> sched_switch_ctx \<Rightarrow> u64 \<Rightarrow> il_sched_event \<Rightarrow> il_sched_event" where
  "switch_event env ctx latency_ns e =
     e\<lparr>se_timestamp_ns := env_time env, se_prev_pid := sw_prev_pid ctx, se_next_pid := sw_next_pid ctx,
       se_prev_tid := sw_prev_pid ctx, se_next_tid := sw_next_pid ctx, se_cpu := env_cpu env,
       se_event_type := 0, se_latency_ns := latency_ns,
       se_prev_comm := read_comm (sw_prev_comm ctx), se_next_comm := read_comm (sw_next_comm ctx)\<rparr>"

section \<open>sched_analyzer.bpf.c\<close>

record analyzer_maps =
  an_cfg :: "u32 list"
  an_agg :: "u32 \<rightharpoonup> il_sched_stats"
  an_wakeup_ts :: "u32 \<rightharpoonup> u64"
  an_events :: "il_sched_event list"

definition sched_analyzer_flags :: "analyzer_maps \<Rightarrow> u32" where
  "sched_analyzer_flags maps = (case array_lookup (an_cfg maps) 0 of Some v \<Rightarrow> v | None \<Rightarrow> 3)"

definition empty_stats :: il_sched_stats where
  "empty_stats = \<lparr>st_switch_count = 0, st_total_runqueue_latency_ns = 0,
     st_max_runqueue_latency_ns = 0, st_migrate_count = 0, st_comm = []\<rparr>"

definition sched_agg_add_latency ::
  "(u32, il_sched_stats) bpf_update \<Rightarrow> u32 \<Rightarrow> u64 \<Rightarrow> string option \<Rightarrow>
   (u32 \<rightharpoonup> il_sched_stats) \<Rightarrow> (u32 \<rightharpoonup> il_sched_stats)" where
  "sched_agg_add_latency upd pid latency_ns comm agg =
     (let set_comm = (\<lambda>st. case comm of Some c \<Rightarrow> st\<lparr>st_comm := read_comm c\<rparr> | None \<Rightarrow> st)
      in case agg pid of
           None \<Rightarrow>
             upd pid (set_comm (empty_stats\<lparr>st_switch_count := 1, st_total_runqueue_latency_ns := latency_ns,
               st_max_runqueue_latency_ns := latency_ns, st_migrate_count := 0\<rparr>)) agg
         | Some st \<Rightarrow>
             agg(pid \<mapsto> set_comm (st\<lparr>st_switch_count := st_switch_count st + 1,
               st_total_runqueue_latency_ns := st_total_runqueue_latency_ns st + latency_ns,
               st_max_runqueue_latency_ns :=
                 if st_max_runqueue_latency_ns st < latency_ns then latency_ns
                 else st_max_runqueue_latency_ns st\<rparr>)))"

definition analyzer_emit ::
  "il_sched_event option \<Rightarrow> (il_sched_event \<Rightarrow> il_sched_event) \<Rightarrow> analyzer_maps \<Rightarrow> analyzer_maps" where
  "analyzer_emit reserved fill maps =
     (if sched_analyzer_flags maps AND 1 = 0 then maps
      else case reserved of None \<Rightarrow> maps | Some e \<Rightarrow> maps\<lparr>an_events := an_events maps @ [fill e]\<rparr>)"

definition sched_analyzer_wakeup ::
  "(u32, u64) bpf_update \<Rightarrow> bpf_env \<Rightarrow> sched_wakeup_ctx \<Rightarrow> il_sched_event option \<Rightarrow> analyzer_maps \<Rightarrow> analyzer_maps" where
  "sched_analyzer_wakeup upd env ctx reserved maps =
     analyzer_emit reserved (wakeup_event env ctx)
       (maps\<lparr>an_wakeup_ts := upd (wk_pid ctx) (env_time env) (an_wakeup_ts maps)\<rparr>)"

definition sched_analyzer_switch ::
  "(u32, il_sched_stats) bpf_update \<Rightarrow> bpf_env \<Rightarrow> sched_switch_ctx \<Rightarrow> il_sched_event option \<Rightarrow>
   analyzer_maps \<Rightarrow> analyzer_maps" where
  "sched_analyzer_switch upd env ctx reserved maps =
     (let ts = env_time env; next_pid = sw_next_pid ctx;
          (latency_ns, maps) =
            (case an_wakeup_ts maps next_pid of
               Some enqueue_ts \<Rightarrow> (ts - enqueue_ts, maps\<lparr>an_wakeup_ts := (an_wakeup_ts maps)(next_pid := None)\<rparr>)
             | None \<Rightarrow> (0, maps));
          maps = (if next_pid \<noteq> 0
                  then maps\<lparr>an_agg := sched_agg_add_latency upd next_pid latency_ns
                              (Some (sw_next_comm ctx)) (an_agg maps)\<rparr>
                  else maps)
      in analyzer_emit reserved (switch_event env ctx latency_ns) maps)"

definition migrate_event :: "bpf_env \<Rightarrow> sched_migrate_ctx \<Rightarrow> il_sched_event \<Rightarrow> il_sched_event" where
  "migrate_event env ctx e =
     e\<lparr>se_timestamp_ns := env_time env, se_prev_pid := mg_pid ctx, se_next_pid := mg_pid ctx,
       se_prev_tid := mg_pid ctx, se_next_tid := mg_pid ctx, se_cpu := mg_dest_cpu ctx,
       se_event_type := 2, se_latency_ns := 0,
       se_prev_comm := read_comm (mg_comm ctx), se_next_comm := read_comm (mg_comm ctx)\<rparr>"

definition sched_analyzer_migrate ::
  "(u32, il_sched_stats) bpf_update \<Rightarrow> bpf_env \<Rightarrow> sched_migrate_ctx \<Rightarrow> il_sched_event option \<Rightarrow>
   analyzer_maps \<Rightarrow> analyzer_maps" where
  "sched_analyzer_migrate upd env ctx reserved maps =
     (if sched_analyzer_flags maps AND 2 = 0 then maps
      else let pid = mg_pid ctx;
               agg = (case an_agg maps pid of
                        Some st \<Rightarrow> (an_agg maps)(pid \<mapsto> st\<lparr>st_migrate_count := st_migrate_count st + 1\<rparr>)
                      | None \<Rightarrow> upd pid (empty_stats\<lparr>st_migrate_count := 1\<rparr>) (an_agg maps))
           in analyzer_emit reserved (migrate_event env ctx) (maps\<lparr>an_agg := agg\<rparr>))"

fun analyzer_run ::
  "(u32, u64) bpf_update \<Rightarrow> (u32, il_sched_stats) bpf_update \<Rightarrow> sched_run \<Rightarrow> analyzer_maps \<Rightarrow> analyzer_maps" where
  "analyzer_run updw upda (Wakeup env ctx r) = sched_analyzer_wakeup updw env ctx r"
| "analyzer_run updw upda (Switch env ctx r) = sched_analyzer_switch upda env ctx r"
| "analyzer_run updw upda (Migrate env ctx r) = sched_analyzer_migrate upda env ctx r"

section \<open>sched_tracer.bpf.c\<close>

record tracer_maps =
  tr_wakeup_ts :: "u32 \<rightharpoonup> u64"
  tr_events :: "il_sched_event list"

definition trace_sched_wakeup ::
  "(u32, u64) bpf_update \<Rightarrow> bpf_env \<Rightarrow> sched_wakeup_ctx \<Rightarrow> il_sched_event option \<Rightarrow> tracer_maps \<Rightarrow> tracer_maps" where
  "trace_sched_wakeup upd env ctx reserved maps =
     (let maps = maps\<lparr>tr_wakeup_ts := upd (wk_pid ctx) (env_time env) (tr_wakeup_ts maps)\<rparr>
      in case reserved of
           None \<Rightarrow> maps
         | Some e \<Rightarrow> maps\<lparr>tr_events := tr_events maps @ [wakeup_event env ctx e]\<rparr>)"

definition trace_sched_switch ::
  "bpf_env \<Rightarrow> sched_switch_ctx \<Rightarrow> il_sched_event option \<Rightarrow> tracer_maps \<Rightarrow> tracer_maps" where
  "trace_sched_switch env ctx reserved maps =
     (case reserved of
        None \<Rightarrow> maps
      | Some e \<Rightarrow>
          (case tr_wakeup_ts maps (sw_next_pid ctx) of
             Some enqueue_ts \<Rightarrow>
               maps\<lparr>tr_wakeup_ts := (tr_wakeup_ts maps)(sw_next_pid ctx := None),
                    tr_events := tr_events maps @ [switch_event env ctx (env_time env - enqueue_ts) e]\<rparr>
           | None \<Rightarrow> maps\<lparr>tr_events := tr_events maps @ [switch_event env ctx 0 e]\<rparr>))"

text \<open>The tracer has no program on migrations.\<close>

fun tracer_run :: "(u32, u64) bpf_update \<Rightarrow> sched_run \<Rightarrow> tracer_maps \<Rightarrow> tracer_maps" where
  "tracer_run upd (Wakeup env ctx r) = trace_sched_wakeup upd env ctx r"
| "tracer_run upd (Switch env ctx r) = trace_sched_switch env ctx r"
| "tracer_run upd (Migrate env ctx r) = (\<lambda>maps. maps)"

section \<open>One task's view\<close>

text \<open>
  What one task should see of all the runs: its pending wakeup, its run queue latencies and its
  migrations. This is the specification both probes are held against.
\<close>

record task_view =
  tv_pending :: "u64 option"
  tv_latencies :: "u64 list"
  tv_migrations :: nat

definition fresh_view :: task_view where
  "fresh_view = \<lparr>tv_pending = None, tv_latencies = [], tv_migrations = 0\<rparr>"

fun view_step :: "u32 \<Rightarrow> sched_run \<Rightarrow> task_view \<Rightarrow> task_view" where
  "view_step pid (Wakeup env ctx r) tv =
     (if wk_pid ctx = pid then tv\<lparr>tv_pending := Some (env_time env)\<rparr> else tv)"
| "view_step pid (Switch env ctx r) tv =
     (if sw_next_pid ctx = pid
      then tv\<lparr>tv_pending := None,
              tv_latencies := tv_latencies tv @
                [case tv_pending tv of Some t \<Rightarrow> env_time env - t | None \<Rightarrow> 0]\<rparr>
      else tv)"
| "view_step pid (Migrate env ctx r) tv =
     (if mg_pid ctx = pid then tv\<lparr>tv_migrations := tv_migrations tv + 1\<rparr> else tv)"

fun has_room :: "sched_run \<Rightarrow> bool" where
  "has_room (Wakeup env ctx r) \<longleftrightarrow> r \<noteq> None"
| "has_room (Switch env ctx r) \<longleftrightarrow> r \<noteq> None"
| "has_room (Migrate env ctx r) \<longleftrightarrow> r \<noteq> None"

definition switch_latencies :: "u32 \<Rightarrow> il_sched_event list \<Rightarrow> u64 list" where
  "switch_latencies pid es =
     map se_latency_ns (filter (\<lambda>e. se_event_type e = 0 \<and> se_next_pid e = pid) es)"

definition stats_match :: "bool \<Rightarrow> il_sched_stats option \<Rightarrow> task_view \<Rightarrow> bool" where
  "stats_match migrations row tv \<longleftrightarrow>
     (case row of
        None \<Rightarrow> tv_latencies tv = [] \<and> (migrations \<longrightarrow> tv_migrations tv = 0)
      | Some st \<Rightarrow>
          st_switch_count st = of_nat (length (tv_latencies tv)) \<and>
          st_total_runqueue_latency_ns st = sum_list (tv_latencies tv) \<and>
          st_max_runqueue_latency_ns st = foldl max 0 (tv_latencies tv) \<and>
          st_migrate_count st = (if migrations then of_nat (tv_migrations tv) else 0))"

lemma analyzer_emit_simps [simp]:
  "an_cfg (analyzer_emit r f m) = an_cfg m"
  "an_agg (analyzer_emit r f m) = an_agg m"
  "an_wakeup_ts (analyzer_emit r f m) = an_wakeup_ts m"
  by (simp_all add: analyzer_emit_def split: option.split)

lemma analyzer_emit_events:
  "an_events (analyzer_emit r f m) =
     an_events m @ (if sched_analyzer_flags m AND 1 = 0 then [] else case r of None \<Rightarrow> [] | Some e \<Rightarrow> [f e])"
  by (simp add: analyzer_emit_def split: option.split)

lemma flags_simps [simp]:
  "sched_analyzer_flags (m\<lparr>an_wakeup_ts := w\<rparr>) = sched_analyzer_flags m"
  "sched_analyzer_flags (m\<lparr>an_agg := g\<rparr>) = sched_analyzer_flags m"
  by (simp_all add: sched_analyzer_flags_def)

lemma analyzer_cfg_kept: "an_cfg (analyzer_run uw ua x m) = an_cfg m"
  by (cases x) (auto simp: sched_analyzer_wakeup_def sched_analyzer_switch_def sched_analyzer_migrate_def
      Let_def split: option.split)

lemma analyzer_flags_kept [simp]: "sched_analyzer_flags (analyzer_run uw ua x m) = sched_analyzer_flags m"
  by (simp add: sched_analyzer_flags_def analyzer_cfg_kept)

lemma analyzer_flags_fold [simp]:
  "sched_analyzer_flags (fold (analyzer_run uw ua) xs m) = sched_analyzer_flags m"
  by (induction xs arbitrary: m) simp_all

lemma switch_latencies_append [simp]:
  "switch_latencies pid (es @ fs) = switch_latencies pid es @ switch_latencies pid fs"
  by (simp add: switch_latencies_def)

lemma switch_latencies_simps [simp]:
  "switch_latencies pid [] = []"
  "switch_latencies pid (wakeup_event env wc e # es) = switch_latencies pid es"
  "switch_latencies pid (migrate_event env mc e # es) = switch_latencies pid es"
  "switch_latencies pid (switch_event env sc l e # es) =
     (if sw_next_pid sc = pid then [l] else []) @ switch_latencies pid es"
  by (simp_all add: switch_latencies_def wakeup_event_def migrate_event_def switch_event_def)

lemma analyzer_wakeup_view:
  assumes "an_wakeup_ts m pid = tv_pending tv"
  shows "an_wakeup_ts (analyzer_run plain_update ua x m) pid = tv_pending (view_step pid x tv)"
proof (cases x)
  case (Switch env ctx r)
  with assms show ?thesis
    by (cases "an_wakeup_ts m (sw_next_pid ctx)") (auto simp: sched_analyzer_switch_def Let_def)
qed (use assms in \<open>simp_all add: sched_analyzer_wakeup_def sched_analyzer_migrate_def plain_update_def Let_def\<close>)

lemma analyzer_stats_view:
  assumes "an_wakeup_ts m pid = tv_pending tv" "pid \<noteq> 0"
    and "stats_match (sched_analyzer_flags m AND 2 \<noteq> 0) (an_agg m pid) tv"
  shows "stats_match (sched_analyzer_flags m AND 2 \<noteq> 0)
    (an_agg (analyzer_run uw plain_update x m) pid) (view_step pid x tv)"
proof (cases x)
  case (Wakeup env ctx r)
  with assms show ?thesis by (auto simp: sched_analyzer_wakeup_def stats_match_def split: option.split)
next
  case (Switch env ctx r)
  with assms show ?thesis
    by (cases "an_wakeup_ts m (sw_next_pid ctx)"; cases "an_agg m (sw_next_pid ctx)")
      (auto simp: sched_analyzer_switch_def stats_match_def Let_def sched_agg_add_latency_def
        plain_update_def empty_stats_def max_def split: option.splits)
next
  case (Migrate env ctx r)
  with assms show ?thesis
    by (cases "an_agg m (mg_pid ctx)")
      (auto simp: sched_analyzer_migrate_def stats_match_def Let_def plain_update_def empty_stats_def
        split: option.splits)
qed

lemma analyzer_events_view:
  assumes "an_wakeup_ts m pid = tv_pending tv" "has_room x" "sched_analyzer_flags m AND 1 \<noteq> 0"
    and "switch_latencies pid (an_events m) = tv_latencies tv"
  shows "switch_latencies pid (an_events (analyzer_run plain_update ua x m)) = tv_latencies (view_step pid x tv)"
proof (cases x)
  case (Switch env ctx r)
  with assms show ?thesis
    by (cases "an_wakeup_ts m (sw_next_pid ctx)"; cases "tv_pending tv")
      (auto simp: sched_analyzer_switch_def analyzer_emit_events Let_def sched_analyzer_flags_def)
qed (use assms in \<open>auto simp: sched_analyzer_wakeup_def sched_analyzer_migrate_def analyzer_emit_events Let_def\<close>)

text \<open>
  C27: the analyzer's aggregates are the task's own history. After any interleaving of wakeups, switches
  and migrations, with tables that have room, the row of a task is what that task alone would count: its
  switches in, the sum and the maximum of its run queue latencies (each from the last wakeup since it last
  ran, zero without one), and its migrations when they are tracked. The streamed switch events, when they
  are on and none was dropped, carry those same latencies in order.
\<close>

theorem analyzer_stats_exact:
  assumes "pid \<noteq> 0" "an_agg m0 = Map.empty" "an_wakeup_ts m0 = Map.empty" "an_events m0 = []"
  shows "stats_match (sched_analyzer_flags m0 AND 2 \<noteq> 0)
      (an_agg (fold (analyzer_run plain_update plain_update) runs m0) pid) (fold (view_step pid) runs fresh_view) \<and>
    (sched_analyzer_flags m0 AND 1 \<noteq> 0 \<and> list_all has_room runs \<longrightarrow>
       switch_latencies pid (an_events (fold (analyzer_run plain_update plain_update) runs m0)) =
       tv_latencies (fold (view_step pid) runs fresh_view))"
proof -
  let ?m = "\<lambda>xs. fold (analyzer_run plain_update plain_update) xs m0"
  let ?tv = "\<lambda>xs. fold (view_step pid) xs fresh_view"
  have pending: "an_wakeup_ts (?m xs) pid = tv_pending (?tv xs)" for xs
    by (induction xs rule: rev_induct) (simp_all add: assms(3) fresh_view_def analyzer_wakeup_view)
  have "stats_match (sched_analyzer_flags m0 AND 2 \<noteq> 0) (an_agg (?m runs) pid) (?tv runs)"
  proof (induction runs rule: rev_induct)
    case Nil
    show ?case by (simp add: stats_match_def fresh_view_def assms(2))
  next
    case (snoc x xs)
    then show ?case using analyzer_stats_view [OF pending assms(1), of xs] by simp
  qed
  moreover have "switch_latencies pid (an_events (?m runs)) = tv_latencies (?tv runs)"
    if "sched_analyzer_flags m0 AND 1 \<noteq> 0" "list_all has_room runs"
    using that(2)
  proof (induction runs rule: rev_induct)
    case Nil
    show ?case by (simp add: fresh_view_def assms(4))
  next
    case (snoc x xs)
    then show ?case using analyzer_events_view [OF pending, of x xs] that(1) by simp
  qed
  ultimately show ?thesis by blast
qed

lemma analyzer_stats_exact_witness:
  defines "env \<equiv> \<lambda>t. \<lparr>env_pid_tgid = 0, env_comm = ''a'', env_cpu = 1, env_time = t,
      env_kernel_stack = 2, env_user_stack = 3\<rparr>"
  defines "runs \<equiv> [Wakeup (env 1000) \<lparr>wk_comm = ''a'', wk_pid = 7\<rparr> None,
      Switch (env 4000) \<lparr>sw_prev_comm = ''b'', sw_prev_pid = 8, sw_next_comm = ''a'', sw_next_pid = 7\<rparr> None]"
    and "m0 \<equiv> \<lparr>an_cfg = [0], an_agg = Map.empty, an_wakeup_ts = Map.empty, an_events = []\<rparr>"
  shows "stats_match False (an_agg (fold (analyzer_run plain_update plain_update) runs m0) 7)
    \<lparr>tv_pending = None, tv_latencies = [3000], tv_migrations = 0\<rparr>"
  using analyzer_stats_exact [of 7 m0 runs]
  by (simp add: m0_def runs_def env_def fresh_view_def sched_analyzer_flags_def array_lookup_def)

lemma tracer_run_view:
  assumes "tr_wakeup_ts m pid = tv_pending tv" "has_room x"
    and "switch_latencies pid (tr_events m) = tv_latencies tv"
  shows "tr_wakeup_ts (tracer_run plain_update x m) pid = tv_pending (view_step pid x tv) \<and>
    switch_latencies pid (tr_events (tracer_run plain_update x m)) = tv_latencies (view_step pid x tv)"
proof (cases x)
  case (Switch env ctx r)
  with assms show ?thesis
    by (cases "tr_wakeup_ts m (sw_next_pid ctx)"; cases "tv_pending tv")
      (auto simp: trace_sched_switch_def)
qed (use assms in \<open>auto simp: trace_sched_wakeup_def plain_update_def\<close>)

text \<open>
  The tracer's latencies are right as long as the ring buffer has room: then each task's switch events
  carry the latencies of its own history. A switch that finds no room returns before it takes the wakeup
  time out of the table, and the next switch reports a latency from that old wakeup: a task that was
  woken at 1000, ran from 2000 on, was preempted and came back at 10000 is reported to have waited 9000,
  where the analyzer's count is zero.
\<close>

theorem tracer_latencies:
  fixes env :: "u64 \<Rightarrow> bpf_env" and raw :: il_sched_event
  defines "env \<equiv> \<lambda>t. \<lparr>env_pid_tgid = 0, env_comm = ''a'', env_cpu = 1, env_time = t,
      env_kernel_stack = 2, env_user_stack = 3\<rparr>"
    and "away \<equiv> \<lparr>sw_prev_comm = ''a'', sw_prev_pid = 7, sw_next_comm = ''b'', sw_next_pid = 8\<rparr>"
    and "back \<equiv> \<lparr>sw_prev_comm = ''b'', sw_prev_pid = 8, sw_next_comm = ''a'', sw_next_pid = 7\<rparr>"
  defines "lossy \<equiv> [Wakeup (env 1000) \<lparr>wk_comm = ''a'', wk_pid = 7\<rparr> (Some raw), Switch (env 2000) back None,
      Switch (env 3000) away (Some raw), Switch (env 10000) back (Some raw)]"
    and "m0 \<equiv> \<lparr>tr_wakeup_ts = Map.empty, tr_events = []\<rparr>"
  shows "(list_all has_room runs \<longrightarrow>
      switch_latencies pid (tr_events (fold (tracer_run plain_update) runs m0)) =
      tv_latencies (fold (view_step pid) runs fresh_view)) \<and>
    switch_latencies 7 (tr_events (fold (tracer_run plain_update) lossy m0)) = [9000] \<and>
    tv_latencies (fold (view_step 7) lossy fresh_view) = [1000, 0]"
proof -
  let ?m = "\<lambda>xs. fold (tracer_run plain_update) xs m0"
  let ?tv = "\<lambda>xs. fold (view_step pid) xs fresh_view"
  have "list_all has_room runs \<longrightarrow> tr_wakeup_ts (?m runs) pid = tv_pending (?tv runs) \<and>
      switch_latencies pid (tr_events (?m runs)) = tv_latencies (?tv runs)"
    by (induction runs rule: rev_induct) (simp add: m0_def fresh_view_def, simp add: tracer_run_view)
  moreover have "switch_latencies 7 (tr_events (fold (tracer_run plain_update) lossy m0)) = [9000]"
    by (simp add: lossy_def m0_def trace_sched_wakeup_def trace_sched_switch_def plain_update_def
        env_def away_def back_def)
  moreover have "tv_latencies (fold (view_step 7) lossy fresh_view) = [1000, 0]"
    by (simp add: lossy_def fresh_view_def env_def away_def back_def)
  ultimately show ?thesis by blast
qed

lemma tracer_latencies_witness:
  defines "env \<equiv> \<lambda>t. \<lparr>env_pid_tgid = 0, env_comm = ''a'', env_cpu = 1, env_time = t,
      env_kernel_stack = 2, env_user_stack = 3\<rparr>"
    and "raw \<equiv> \<lparr>se_timestamp_ns = 0, se_prev_pid = 0, se_next_pid = 0, se_prev_tid = 0, se_next_tid = 0,
      se_cpu = 0, se_latency_ns = 0, se_prev_comm = [], se_next_comm = [], se_event_type = 0\<rparr>"
  defines "runs \<equiv> [Wakeup (env 1000) \<lparr>wk_comm = ''a'', wk_pid = 7\<rparr> (Some raw), Switch (env 4000)
      \<lparr>sw_prev_comm = ''b'', sw_prev_pid = 8, sw_next_comm = ''a'', sw_next_pid = 7\<rparr> (Some raw)]"
  shows "switch_latencies 7 (tr_events (fold (tracer_run plain_update) runs
    \<lparr>tr_wakeup_ts = Map.empty, tr_events = []\<rparr>)) = [3000]"
  using tracer_latencies [of runs 7 raw]
  by (simp add: runs_def env_def fresh_view_def)

end
