(* ===== verification/SchedSource.thy ===== *)
theory SchedSource
  imports OffcpuSource SchedProbes
begin

text \<open>
  The scheduling analyzer in user space (\<open>src/sources/sched/sched_analyzer/sched_analyzer.h\<close>): it drains
  the table of its probe on each collection, keeps a history of totals, and in detailed mode keeps the
  latest events and wakeups for queries and pushes each event. The JSON text of a query result is the
  parameter \<open>dump\<close>; doubles are reals.
\<close>

section \<open>State and configuration\<close>

record sched_history_point =
  hp_timestamp_ms :: u64
  hp_total_switches :: u64
  hp_avg_latency_us :: real
  hp_max_latency_ns :: u64
  hp_total_migrations :: u64
  hp_process_count :: u32

record sched_event_record =
  er_timestamp_ms :: u64
  er_event_type :: u32
  er_prev_pid :: u32
  er_next_pid :: u32
  er_cpu :: u32
  er_latency_ns :: u64
  er_prev_comm :: string
  er_next_comm :: string

record wakeup_record =
  wr_timestamp_ms :: u64
  wr_waker_pid :: u32
  wr_wakee_pid :: u32
  wr_waker_comm :: string
  wr_wakee_comm :: string

record sched_source =
  sn_stub_mode :: bool
  sn_detailed_mode :: bool
  sn_aggregate_interval_ms :: u32
  sn_track_migrations :: bool
  sn_bpf_obj_path :: string
  sn_target_pids :: "u32 list"
  sn_target_pid_allow :: "u32 set"
  sn_running :: bool
  sn_bpf_mgr :: bpf_manager
  sn_ring_buf :: "handle option"
  sn_poll_thread :: bool
  sn_agg_fd :: int
  sn_history :: "sched_history_point list"
  sn_recent_events :: "sched_event_record list"
  sn_wakeups :: "wakeup_record list"
  sn_callback :: bool

definition sched_source_new :: sched_source where
  "sched_source_new = \<lparr>sn_stub_mode = False, sn_detailed_mode = False, sn_aggregate_interval_ms = 5000,
     sn_track_migrations = True, sn_bpf_obj_path = [], sn_target_pids = [], sn_target_pid_allow = {},
     sn_running = False, sn_bpf_mgr = bpf_manager_new, sn_ring_buf = None, sn_poll_thread = False,
     sn_agg_fd = -1, sn_history = [], sn_recent_events = [], sn_wakeups = [], sn_callback = False\<rparr>"

definition max_history :: nat where "max_history = 360"
definition max_events :: nat where "max_events = 5000"
definition max_wakeups :: nat where "max_wakeups = 2000"

definition sched_init :: "config_value \<Rightarrow> sched_source \<Rightarrow> status \<times> sched_source" where
  "sched_init config s =
     (let pids = parse_comma_u32 (as_string (cv_child ''target_pids'' config) [])
      in (status_ok,
          s\<lparr>sn_detailed_mode := as_bool (cv_child ''detailed_mode'' config) False,
            sn_aggregate_interval_ms := word_of_int (as_int (cv_child ''aggregate_interval_ms'' config) 5000),
            sn_track_migrations := as_bool (cv_child ''track_migrations'' config) True,
            sn_bpf_obj_path := as_string (cv_child ''bpf_object'' config) [],
            sn_target_pids := pids, sn_target_pid_allow := set pids\<rparr>))"

section \<open>Start and stop\<close>

definition sched_cfg_flags :: "sched_source \<Rightarrow> u32" where
  "sched_cfg_flags s = (if sn_detailed_mode s then 1 else 0) OR (if sn_track_migrations s then 2 else 0)"

text \<open>What a start writes into the maps of the probe, when the object has the map.\<close>

definition write_sched_cfg :: "libbpf \<Rightarrow> sched_source \<Rightarrow> analyzer_maps \<Rightarrow> analyzer_maps" where
  "write_sched_cfg lb s maps =
     (if 0 \<le> get_map_fd lb ''sched_analyzer'' ''sched_analyzer_cfg'' (sn_bpf_mgr s)
      then maps\<lparr>an_cfg := (an_cfg maps)[0 := sched_cfg_flags s]\<rparr> else maps)"

definition sched_programs :: "sched_source \<Rightarrow> string list" where
  "sched_programs s = [''sched_analyzer_wakeup'', ''sched_analyzer_switch''] @
     (if sn_track_migrations s then [''sched_analyzer_migrate''] else [])"

definition sched_start :: "libbpf \<Rightarrow> sched_source \<Rightarrow> (status \<times> sched_source) option" where
  "sched_start lb s =
     (if sn_bpf_obj_path s = [] then Some (status_ok, s\<lparr>sn_stub_mode := True, sn_running := False\<rparr>)
      else
        let (st, m) = load_object lb ''sched_analyzer'' (sn_bpf_obj_path s) (sn_bpf_mgr s);
            s = s\<lparr>sn_bpf_mgr := m\<rparr>
        in if \<not> is_ok st then Some (st, s)
        else let (st, m) = attach_programs lb ''sched_analyzer'' (sched_programs s) m;
                 s = s\<lparr>sn_bpf_mgr := m\<rparr>
        in if \<not> is_ok st then Some (st, s)
        else let s = s\<lparr>sn_agg_fd := get_map_fd lb ''sched_analyzer'' ''sched_agg'' m\<rparr>
        in if sn_detailed_mode s
           then let rb_fd = get_map_fd lb ''sched_analyzer'' ''sched_analyzer_events'' m
                in if rb_fd < 0 then Some (status_error Internal ''sched_analyzer_events ringbuf missing'', s)
                else let (ring, m) = create_ring_buffer lb rb_fd m;
                         s = s\<lparr>sn_bpf_mgr := m, sn_ring_buf := ring\<rparr>
                in if ring = None then Some (status_error Internal ''sched_analyzer ring buffer failed'', s)
                else let s = s\<lparr>sn_running := True\<rparr>
                in if sn_poll_thread s then None
                else Some (status_ok, s\<lparr>sn_poll_thread := True\<rparr>)
           else Some (status_ok, s\<lparr>sn_running := True\<rparr>))"

definition sched_stop :: "sched_source \<Rightarrow> sched_source" where
  "sched_stop s =
     s\<lparr>sn_running := False, sn_poll_thread := False, sn_ring_buf := None,
       sn_bpf_mgr := detach_all (free_ring (sn_ring_buf s) (sn_bpf_mgr s)), sn_agg_fd := -1\<rparr>"

section \<open>Collect\<close>

definition stats_record :: "u32 \<Rightarrow> il_sched_stats \<Rightarrow> data_record \<Rightarrow> data_record" where
  "stats_record pid st =
     set_fields
       [(''pid'', u64_of pid), (''switch_count'', FUint (st_switch_count st)),
        (''total_runqueue_latency_ns'', FUint (st_total_runqueue_latency_ns st)),
        (''max_runqueue_latency_ns'', FUint (st_max_runqueue_latency_ns st)),
        (''migrate_count'', FUint (st_migrate_count st))] \<circ>
     (if comm_text (st_comm st) \<noteq> [] then push_label ''comm'' (comm_text (st_comm st)) else id) \<circ>
     push_label ''mode'' ''aggregated'' \<circ> push_label ''type'' ''sched''"

record sched_totals =
  to_sw :: u64
  to_lat :: u64
  to_max :: u64
  to_mig :: u64
  to_procs :: u32

definition add_totals :: "il_sched_stats \<Rightarrow> sched_totals \<Rightarrow> sched_totals" where
  "add_totals st t =
     \<lparr>to_sw = to_sw t + st_switch_count st, to_lat = to_lat t + st_total_runqueue_latency_ns st,
      to_max = (if to_max t < st_max_runqueue_latency_ns st then st_max_runqueue_latency_ns st else to_max t),
      to_mig = to_mig t + st_migrate_count st, to_procs = to_procs t + 1\<rparr>"

text \<open>One row: \<open>between\<close> is what the probe does to the table after the row is looked up and before it is deleted.\<close>

definition drain_row ::
  "(nat \<Rightarrow> u64) \<Rightarrow> (u32 \<Rightarrow> (u32 \<rightharpoonup> il_sched_stats) \<Rightarrow> (u32 \<rightharpoonup> il_sched_stats)) \<Rightarrow> u32 set \<Rightarrow> u32 \<Rightarrow>
   (u32 \<rightharpoonup> il_sched_stats) \<times> data_batch \<times> sched_totals \<Rightarrow> (u32 \<rightharpoonup> il_sched_stats) \<times> data_batch \<times> sched_totals" where
  "drain_row clock between allow pid = (\<lambda>(table, b, t).
     case table pid of
       None \<Rightarrow> (table, b, t)
     | Some st \<Rightarrow>
         let table = (between pid table)(pid := None)
         in if \<not> allow_pid allow pid then (table, b, t)
            else (table, emit clock (stats_record pid st) b, add_totals st t))"

definition no_totals :: sched_totals where
  "no_totals = \<lparr>to_sw = 0, to_lat = 0, to_max = 0, to_mig = 0, to_procs = 0\<rparr>"

definition history_point :: "u64 \<Rightarrow> sched_totals \<Rightarrow> sched_history_point" where
  "history_point now_ms t =
     \<lparr>hp_timestamp_ms = now_ms, hp_total_switches = to_sw t,
      hp_avg_latency_us = (if to_sw t > 0 then real (unat (to_lat t)) / real (unat (to_sw t)) / 1000 else 0),
      hp_max_latency_ns = to_max t, hp_total_migrations = to_mig t, hp_process_count = to_procs t\<rparr>"

text \<open>\<open>push_back\<close>, then \<open>pop_front\<close> while the deque is too long.\<close>

definition push_bounded :: "nat \<Rightarrow> 'a \<Rightarrow> 'a list \<Rightarrow> 'a list" where
  "push_bounded n x xs = (let xs = xs @ [x] in drop (length xs - n) xs)"

definition sched_collect ::
  "(u32, il_sched_stats) next_key \<Rightarrow> (nat \<Rightarrow> u64) \<Rightarrow> u64 \<Rightarrow>
   (u32 \<Rightarrow> (u32 \<rightharpoonup> il_sched_stats) \<Rightarrow> (u32 \<rightharpoonup> il_sched_stats)) \<Rightarrow> analyzer_maps \<times> sched_source \<Rightarrow>
   (data_batch \<times> analyzer_maps \<times> sched_source) option" where
  "sched_collect nxt clock now_ms between = (\<lambda>(maps, s).
     if sn_agg_fd s < 0 then Some (new_batch Trace, maps, s)
     else case map_keys nxt (an_agg maps) of
            None \<Rightarrow> None
          | Some pids \<Rightarrow>
              (let (table, b, t) = fold (drain_row clock between (sn_target_pid_allow s)) pids
                     (an_agg maps, new_batch Trace, no_totals)
               in Some (b, maps\<lparr>an_agg := table\<rparr>,
                        s\<lparr>sn_history := push_bounded max_history (history_point now_ms t) (sn_history s)\<rparr>)))"

section \<open>Queries\<close>

definition get_history :: "nat \<Rightarrow> sched_source \<Rightarrow> sched_history_point list" where
  "get_history max_n s =
     (if max_n = 0 \<or> length (sn_history s) \<le> max_n then sn_history s
      else drop (length (sn_history s) - max_n) (sn_history s))"

text \<open>The scan from the latest event back, and the final reversal.\<close>

fun scan_events :: "u32 \<Rightarrow> nat \<Rightarrow> sched_event_record list \<Rightarrow> sched_event_record list \<Rightarrow> sched_event_record list" where
  "scan_events pid max_n out [] = out"
| "scan_events pid max_n out (e # es) =
     (if length out < max_n
      then scan_events pid max_n
             (if pid = 0 \<or> er_prev_pid e = pid \<or> er_next_pid e = pid then out @ [e] else out) es
      else out)"

definition get_recent_events :: "u32 \<Rightarrow> nat \<Rightarrow> sched_source \<Rightarrow> sched_event_record list" where
  "get_recent_events pid max_n s = rev (scan_events pid max_n [] (rev (sn_recent_events s)))"

definition get_recent_wakeups :: "nat \<Rightarrow> sched_source \<Rightarrow> wakeup_record list" where
  "get_recent_wakeups max_n s =
     (let start = (if max_n < length (sn_wakeups s) then length (sn_wakeups s) - max_n else 0)
      in drop start (sn_wakeups s))"

text \<open>\<open>std::atoi\<close>: no digits are zero, and glibc saturates at \<open>long\<close> before it narrows.\<close>

definition atoi :: "string \<Rightarrow> int" where
  "atoi s = (case scan_number s of None \<Rightarrow> 0 | Some (neg, n) \<Rightarrow> stored_long (if neg then - int n else int n))"

datatype sched_query_result =
    HistoryResult "sched_history_point list"
  | EventsResult "(string \<times> sched_event_record) list"
  | WakeupsResult "wakeup_record list"

definition sched_type_name :: "u32 \<Rightarrow> string" where
  "sched_type_name ty = [''switch'', ''wakeup'', ''migrate''] ! (if ty < 3 then unat ty else 0)"

definition query_limit :: "(string \<times> string) list \<Rightarrow> nat \<Rightarrow> nat" where
  "query_limit params dflt =
     (case map_of params ''limit'' of None \<Rightarrow> dflt | Some x \<Rightarrow> unat (word_of_int (atoi x) :: u64))"

definition sched_query_extra ::
  "(sched_query_result \<Rightarrow> string) \<Rightarrow> string \<Rightarrow> (string \<times> string) list \<Rightarrow> sched_source \<Rightarrow> string status_or" where
  "sched_query_extra dump query params s =
     (if query = ''history'' then Value (dump (HistoryResult (get_history 0 s)))
      else if query = ''events'' then
        let pid = (case map_of params ''pid'' of None \<Rightarrow> 0 | Some x \<Rightarrow> word_of_int (atoi x));
            events = get_recent_events pid (query_limit params 200) s
        in Value (dump (EventsResult (map (\<lambda>e. (sched_type_name (er_event_type e), e)) events)))
      else if query = ''wakeups'' then
        Value (dump (WakeupsResult (get_recent_wakeups (query_limit params 500) s)))
      else Failure (status_error NotFound (''unknown query: '' @ query)))"

section \<open>Detailed events\<close>

definition event_record :: "u64 \<Rightarrow> il_sched_event \<Rightarrow> sched_event_record" where
  "event_record now_ms e =
     \<lparr>er_timestamp_ms = now_ms, er_event_type = ucast (se_event_type e), er_prev_pid = se_prev_pid e,
      er_next_pid = se_next_pid e, er_cpu = se_cpu e, er_latency_ns = se_latency_ns e,
      er_prev_comm = comm_text (se_prev_comm e), er_next_comm = comm_text (se_next_comm e)\<rparr>"

definition wakeup_of :: "u64 \<Rightarrow> il_sched_event \<Rightarrow> wakeup_record" where
  "wakeup_of now_ms e =
     \<lparr>wr_timestamp_ms = now_ms, wr_waker_pid = se_prev_pid e, wr_wakee_pid = se_next_pid e,
      wr_waker_comm = comm_text (se_prev_comm e), wr_wakee_comm = comm_text (se_next_comm e)\<rparr>"

definition detailed_batch :: "u64 \<Rightarrow> il_sched_event \<Rightarrow> data_batch" where
  "detailed_batch now e =
     add_record now
       (set_fields
          [(''prev_pid'', u64_of (se_prev_pid e)), (''next_pid'', u64_of (se_next_pid e)),
           (''cpu'', u64_of (se_cpu e)), (''latency_ns'', FUint (se_latency_ns e)),
           (''prev_comm'', FString (comm_text (se_prev_comm e))),
           (''next_comm'', FString (comm_text (se_next_comm e)))] \<circ>
        push_label ''event'' (sched_type_name (ucast (se_event_type e))) \<circ> push_label ''type'' ''sched'')
       (new_batch Trace)"

definition handle_detailed_event ::
  "u64 \<Rightarrow> u64 \<Rightarrow> nat \<Rightarrow> il_sched_event \<Rightarrow> sched_source \<Rightarrow> data_batch list \<times> sched_source" where
  "handle_detailed_event now now_ms sz e s =
     (if sz < sizeof_sched_event then ([], s)
      else if \<not> allow_pid (sn_target_pid_allow s) (se_prev_pid e) \<and> \<not> allow_pid (sn_target_pid_allow s) (se_next_pid e)
      then ([], s)
      else
        let s = s\<lparr>sn_recent_events := push_bounded max_events (event_record now_ms e) (sn_recent_events s)\<rparr>;
            s = (if se_event_type e = 1
                 then s\<lparr>sn_wakeups := push_bounded max_wakeups (wakeup_of now_ms e) (sn_wakeups s)\<rparr> else s)
        in (if sn_callback s then [detailed_batch now e] else [], s))"

section \<open>Life cycle\<close>

definition sched_source_inv :: "sched_source \<Rightarrow> bool" where
  "sched_source_inv s \<longleftrightarrow> (\<exists>lost. accounts lost (ring_handles (sn_ring_buf s)) {#} (sn_bpf_mgr s)) \<and>
     (sn_ring_buf s \<noteq> None \<longrightarrow> sn_poll_thread s)"

lemma sched_start_inv:
  assumes "sched_source_inv s" "\<not> sn_poll_thread s"
  shows "\<exists>st s'. sched_start lb s = Some (st, s') \<and> sched_source_inv s'"
proof (cases "sn_bpf_obj_path s = []")
  case True
  with assms show ?thesis by (auto simp: sched_start_def sched_source_inv_def)
next
  case False
  have ring: "sn_ring_buf s = None" using assms by (auto simp: sched_source_inv_def)
  with assms(1) obtain lost where a0: "accounts lost {#} {#} (sn_bpf_mgr s)"
    by (auto simp: sched_source_inv_def)
  obtain st1 m1 where l: "load_object lb ''sched_analyzer'' (sn_bpf_obj_path s) (sn_bpf_mgr s) = (st1, m1)"
    by (cases "load_object lb ''sched_analyzer'' (sn_bpf_obj_path s) (sn_bpf_mgr s)")
  from accounts_load [OF a0 l] obtain lost1 where a1: "accounts lost1 {#} {#} m1" by blast
  obtain st2 m2 where b: "attach_programs lb ''sched_analyzer'' (sched_programs s) m1 = (st2, m2)"
    by (cases "attach_programs lb ''sched_analyzer'' (sched_programs s) m1")
  note a2 = accounts_attach_programs [OF a1 b]
  let ?fd = "get_map_fd lb ''sched_analyzer'' ''sched_analyzer_events'' m2"
  obtain r m3 where c: "create_ring_buffer lb ?fd m2 = (r, m3)" by (cases "create_ring_buffer lb ?fd m2")
  have a3: "accounts lost1 (ring_handles r) {#} m3" using a2 accounts_new_ring [OF _ c] by simp
  have progs: "sched_programs (s\<lparr>sn_bpf_mgr := m1\<rparr>) = sched_programs s" by (simp add: sched_programs_def)
  show ?thesis
    using a1 a2 a3 assms(2) by (auto simp: sched_start_def False l b c Let_def sched_source_inv_def ring progs)
qed

interpretation sched_life: bpf_source "sched_start lb" sched_stop sn_poll_thread sched_source_inv sn_bpf_mgr for lb
proof
  fix s :: sched_source
  assume inv: "sched_source_inv s"
  then show "sched_source_inv (sched_stop s)"
    "\<not> sn_poll_thread (sched_stop s)" "detached (sn_bpf_mgr (sched_stop s))"
    using detached_free_ring [of _ "sn_ring_buf s" "sn_bpf_mgr s"]
    by (auto simp: sched_source_inv_def sched_stop_def detached_def)
  assume idle: "\<not> sn_poll_thread s"
  from sched_start_inv [OF inv idle, of lb] show "sched_start lb s \<noteq> None"
    and "\<And>st s'. sched_start lb s = Some (st, s') \<Longrightarrow> sched_source_inv s'" by auto
qed

section \<open>Latest events\<close>

lemma scan_events_take:
  "length out \<le> n \<Longrightarrow> scan_events pid n out es =
     out @ take (n - length out) (filter (\<lambda>e. pid = 0 \<or> er_prev_pid e = pid \<or> er_next_pid e = pid) es)"
proof (induction es arbitrary: out)
  case (Cons e es)
  show ?case
  proof (cases "length out < n")
    case True
    then obtain k where "n - length out = Suc k" "n - Suc (length out) = k" by (metis Suc_diff_Suc diff_Suc_Suc Suc_inject)
    with True Cons.IH [of "out @ [e]"] Cons.IH [of out] show ?thesis by auto
  qed (use Cons.prems in simp)
qed simp

definition last_n :: "nat \<Rightarrow> 'a list \<Rightarrow> 'a list" where
  "last_n n xs = drop (length xs - n) xs"

lemma rev_take_last: "rev (take n (rev xs)) = last_n n xs"
  by (simp add: last_n_def take_rev)

lemma get_recent_events_last:
  "get_recent_events pid n s =
     last_n n (filter (\<lambda>e. pid = 0 \<or> er_prev_pid e = pid \<or> er_next_pid e = pid) (sn_recent_events s))"
  by (simp add: get_recent_events_def scan_events_take rev_filter [symmetric] rev_take_last)

lemma push_bounded_last: "push_bounded n x (last_n n xs) = last_n n (xs @ [x])"
proof (cases "length xs < n")
  case True
  then show ?thesis by (simp add: push_bounded_def last_n_def Let_def)
next
  case False
  then have "n = 0 \<or> length xs - n + n = length xs" "Suc (length xs) - n = Suc (length xs - n)" by auto
  with False show ?thesis by (auto simp: push_bounded_def last_n_def Let_def)
qed

type_synonym detailed_event = "u64 \<times> u64 \<times> nat \<times> il_sched_event"

definition handle_events :: "detailed_event list \<Rightarrow> sched_source \<Rightarrow> sched_source" where
  "handle_events = fold (\<lambda>(now, now_ms, sz, e) s. snd (handle_detailed_event now now_ms sz e s))"

definition kept_event :: "u32 set \<Rightarrow> detailed_event \<Rightarrow> bool" where
  "kept_event allow = (\<lambda>(now, now_ms, sz, e). sizeof_sched_event \<le> sz \<and>
     (allow_pid allow (se_prev_pid e) \<or> allow_pid allow (se_next_pid e)))"

definition kept_records :: "u32 set \<Rightarrow> detailed_event list \<Rightarrow> sched_event_record list" where
  "kept_records allow evs = map (\<lambda>(now, now_ms, sz, e). event_record now_ms e) (filter (kept_event allow) evs)"

definition kept_wakeups :: "u32 set \<Rightarrow> detailed_event list \<Rightarrow> wakeup_record list" where
  "kept_wakeups allow evs = map (\<lambda>(now, now_ms, sz, e). wakeup_of now_ms e)
     (filter (\<lambda>(now, now_ms, sz, e). se_event_type e = 1) (filter (kept_event allow) evs))"

text \<open>A source in detailed mode that lets \<open>allow\<close> through, after the events \<open>evs\<close>.\<close>

definition after_events :: "u32 set \<Rightarrow> detailed_event list \<Rightarrow> sched_source" where
  "after_events allow evs = handle_events evs (sched_source_new\<lparr>sn_target_pid_allow := allow\<rparr>)"

lemma after_events_state:
  "sn_recent_events (after_events allow evs) = last_n max_events (kept_records allow evs) \<and>
   sn_wakeups (after_events allow evs) = last_n max_wakeups (kept_wakeups allow evs) \<and>
   sn_target_pid_allow (after_events allow evs) = allow"
proof (induction evs rule: rev_induct)
  case Nil
  show ?case
    by (simp add: after_events_def handle_events_def sched_source_new_def kept_records_def kept_wakeups_def last_n_def)
next
  case (snoc x evs)
  obtain now now_ms sz e where x: "x = (now, now_ms, sz, e)" by (cases x) auto
  have run: "after_events allow (evs @ [x]) = snd (handle_detailed_event now now_ms sz e (after_events allow evs))"
    by (simp add: after_events_def handle_events_def x)
  show ?case
    using snoc unfolding run
    by (auto simp: handle_detailed_event_def kept_records_def kept_wakeups_def kept_event_def x Let_def
        push_bounded_last)
qed

text \<open>
  The queries on events give the latest ones. Whatever events arrived, the buffers are bounded and
  hold the last of those that concern an allowed process; the query for a process returns, in order, the
  last ones that name it on either side, as a plain filter of what is kept would, and the query for
  wakeups the last wakeups.
\<close>

theorem sched_queries_latest:
  "get_recent_events pid n (after_events allow evs) =
     last_n n (filter (\<lambda>e. pid = 0 \<or> er_prev_pid e = pid \<or> er_next_pid e = pid)
       (last_n max_events (kept_records allow evs))) \<and>
   get_recent_wakeups n (after_events allow evs) = last_n n (last_n max_wakeups (kept_wakeups allow evs)) \<and>
   length (sn_recent_events (after_events allow evs)) \<le> 5000 \<and> length (sn_wakeups (after_events allow evs)) \<le> 2000"
  using after_events_state [of allow evs]
  by (simp add: get_recent_events_last get_recent_wakeups_def last_n_def max_events_def max_wakeups_def) linarith

section \<open>Draining the table\<close>

definition record_uint :: "string \<Rightarrow> data_record \<Rightarrow> u64" where
  "record_uint name r = (case get_field name r of Some (FUint v) \<Rightarrow> v | _ \<Rightarrow> 0)"

text \<open>What the records of a task in a batch add up to.\<close>

definition batch_stat :: "u32 \<Rightarrow> string \<Rightarrow> data_batch \<Rightarrow> u64" where
  "batch_stat pid name b =
     sum_list (map (record_uint name) (filter (\<lambda>r. get_field ''pid'' r = Some (u64_of pid)) (db_records b)))"

definition row_stat :: "(il_sched_stats \<Rightarrow> u64) \<Rightarrow> (u32 \<rightharpoonup> il_sched_stats) \<Rightarrow> u32 \<Rightarrow> u64" where
  "row_stat f table pid = (case table pid of None \<Rightarrow> 0 | Some st \<Rightarrow> f st)"

definition quiet :: "u32 \<Rightarrow> (u32 \<rightharpoonup> il_sched_stats) \<Rightarrow> (u32 \<rightharpoonup> il_sched_stats)" where
  "quiet pid table = table"

text \<open>The fields that carry sums.\<close>

definition sum_fields :: "(string \<times> (il_sched_stats \<Rightarrow> u64)) list" where
  "sum_fields = [(''switch_count'', st_switch_count), (''total_runqueue_latency_ns'', st_total_runqueue_latency_ns),
     (''migrate_count'', st_migrate_count)]"

lemma u64_of_inject [simp]: "u64_of (p :: u32) = u64_of q \<longleftrightarrow> p = q"
proof
  assume "u64_of p = u64_of q"
  then have "unat (ucast p :: u64) = unat (ucast q :: u64)" by (simp add: u64_of_def)
  then show "p = q" using unat_u32_less [of p] unat_u32_less [of q]
    by (simp add: unsigned_ucast_eq take_bit_nat_eq_self word_unat_eq_iff)
qed simp

lemma stats_record_fields:
  assumes "(name, f) \<in> set sum_fields"
  shows "record_uint name (stats_record pid st r) = f st" "get_field ''pid'' (stats_record pid st r) = Some (u64_of pid)"
  using assms by (auto simp: sum_fields_def stats_record_def record_uint_def set_fields_def)

lemma drain_rows:
  assumes "fold (drain_row clock quiet allow) pids (table, b, t) = (table', b', t')"
    and "(name, f) \<in> set sum_fields" "distinct pids"
  shows "table' = (\<lambda>p. if p \<in> set pids then None else table p) \<and>
    batch_stat pid name b' = batch_stat pid name b + (if pid \<in> set pids \<and> allow_pid allow pid then row_stat f table pid else 0)"
  using assms(1,3)
proof (induction pids arbitrary: table b t)
  case Nil
  then show ?case by simp
next
  case (Cons p pids)
  obtain table1 b1 t1 where d: "drain_row clock quiet allow p (table, b, t) = (table1, b1, t1)"
    by (cases "drain_row clock quiet allow p (table, b, t)") auto
  have t1: "table1 = table(p := None)"
    and b1: "batch_stat pid name b1 = batch_stat pid name b + (if pid = p \<and> allow_pid allow p then row_stat f table p else 0)"
    using d stats_record_fields [OF assms(2)]
    by (auto simp: drain_row_def quiet_def Let_def batch_stat_def row_stat_def split: option.splits if_splits)
  from Cons.prems d have "fold (drain_row clock quiet allow) pids (table1, b1, t1) = (table', b', t')" by simp
  from Cons.IH [OF this] Cons.prems(2) t1 b1 show ?case
    by (auto simp: fun_eq_iff row_stat_def)
qed

datatype sched_step = ProbeStep sched_run | CollectStep u64

text \<open>A run of the probe and of the source: the batches collected, and the final state.\<close>

fun sched_steps ::
  "(u32, il_sched_stats) next_key \<Rightarrow> (nat \<Rightarrow> u64) \<Rightarrow> sched_step list \<Rightarrow> analyzer_maps \<times> sched_source \<Rightarrow>
   (data_batch list \<times> analyzer_maps \<times> sched_source) option" where
  "sched_steps nxt clock [] (maps, s) = Some ([], maps, s)"
| "sched_steps nxt clock (ProbeStep x # xs) (maps, s) =
     sched_steps nxt clock xs (analyzer_run plain_update plain_update x maps, s)"
| "sched_steps nxt clock (CollectStep now_ms # xs) (maps, s) =
     (case sched_collect nxt clock now_ms quiet (maps, s) of
        None \<Rightarrow> None
      | Some (b, maps, s) \<Rightarrow>
          (case sched_steps nxt clock xs (maps, s) of
             None \<Rightarrow> None
           | Some (bs, maps, s) \<Rightarrow> Some (b # bs, maps, s)))"

definition probe_steps :: "sched_step list \<Rightarrow> sched_run list" where
  "probe_steps xs = List.map_filter (\<lambda>x. case x of ProbeStep r \<Rightarrow> Some r | CollectStep _ \<Rightarrow> None) xs"

fun run_pids :: "sched_run \<Rightarrow> u32 list" where
  "run_pids (Wakeup env ctx r) = []"
| "run_pids (Switch env ctx r) = [sw_next_pid ctx]"
| "run_pids (Migrate env ctx r) = [mg_pid ctx]"

definition total_stat :: "u32 \<Rightarrow> string \<Rightarrow> data_batch list \<Rightarrow> u64" where
  "total_stat pid name bs = sum_list (map (batch_stat pid name) bs)"

text \<open>A run of the probe adds to a row what the task saw, whatever the row held before.\<close>

definition view_stat :: "string \<Rightarrow> task_view \<Rightarrow> u64" where
  "view_stat name tv =
     (if name = ''switch_count'' then of_nat (length (tv_latencies tv))
      else if name = ''total_runqueue_latency_ns'' then sum_list (tv_latencies tv)
      else of_nat (tv_migrations tv))"

lemma sum_field_cases:
  assumes "(name, f) \<in> set sum_fields"
  obtains (switches) "name = ''switch_count''" "f = st_switch_count"
    | (latency) "name = ''total_runqueue_latency_ns''" "f = st_total_runqueue_latency_ns"
    | (migrations) "name = ''migrate_count''" "f = st_migrate_count"
  using assms unfolding sum_fields_def by auto

lemma add_latency_stat:
  assumes "(name, f) \<in> set sum_fields"
  shows "row_stat f (sched_agg_add_latency plain_update pid lat (Some c) agg) pid = row_stat f agg pid +
    (if name = ''switch_count'' then 1 else if name = ''total_runqueue_latency_ns'' then lat else 0)"
  using assms
  by (cases rule: sum_field_cases; cases "agg pid")
    (simp_all add: row_stat_def sched_agg_add_latency_def plain_update_def empty_stats_def)

lemma migrate_stat:
  assumes "(name, f) \<in> set sum_fields" "sched_analyzer_flags m AND 2 \<noteq> 0"
  shows "row_stat f (an_agg (sched_analyzer_migrate plain_update env ctx r m)) pid = row_stat f (an_agg m) pid +
    (if pid = mg_pid ctx \<and> name = ''migrate_count'' then 1 else 0)"
  using assms(1)
  by (cases rule: sum_field_cases; cases "an_agg m (mg_pid ctx)")
    (simp_all add: assms(2) sched_analyzer_migrate_def row_stat_def plain_update_def empty_stats_def)

lemma analyzer_run_adds:
  assumes "(name, f) \<in> set sum_fields" "pid \<noteq> 0" "sched_analyzer_flags m AND 2 \<noteq> 0"
    and "an_wakeup_ts m pid = tv_pending tv"
  shows "row_stat f (an_agg (analyzer_run plain_update plain_update x m)) pid + view_stat name tv =
    row_stat f (an_agg m) pid + view_stat name (view_step pid x tv)"
proof (cases x)
  case (Wakeup env ctx r)
  then show ?thesis by (simp add: sched_analyzer_wakeup_def view_stat_def row_stat_def)
next
  case (Switch env ctx r)
  show ?thesis
  proof (cases "sw_next_pid ctx = pid")
    case True
    define lat where "lat = (case tv_pending tv of Some t \<Rightarrow> env_time env - t | None \<Rightarrow> 0)"
    have agg: "an_agg (sched_analyzer_switch plain_update env ctx r m) =
        sched_agg_add_latency plain_update pid lat (Some (sw_next_comm ctx)) (an_agg m)"
      using True assms(2,4) by (simp add: sched_analyzer_switch_def lat_def Let_def split: option.split)
    have tv: "view_step pid x tv = tv\<lparr>tv_pending := None, tv_latencies := tv_latencies tv @ [lat]\<rparr>"
      by (simp add: Switch True lat_def)
    from assms(1) add_latency_stat [OF assms(1)] show ?thesis
      unfolding tv by (cases rule: sum_field_cases) (simp_all add: Switch agg view_stat_def)
  next
    case False
    then have "an_agg (sched_analyzer_switch plain_update env ctx r m) pid = an_agg m pid"
      by (simp add: sched_analyzer_switch_def Let_def sched_agg_add_latency_def plain_update_def split: option.split)
    with False show ?thesis by (simp add: Switch row_stat_def)
  qed
next
  case (Migrate env ctx r)
  from assms(1) migrate_stat [OF assms(1,3), of env ctx r pid] show ?thesis
    by (cases rule: sum_field_cases) (simp_all add: Migrate view_stat_def)
qed

lemma analyzer_run_dom:
  "dom (an_agg (analyzer_run plain_update plain_update x m)) \<subseteq> dom (an_agg m) \<union> set (run_pids x)"
  by (cases x) (auto simp: sched_analyzer_wakeup_def sched_analyzer_switch_def sched_analyzer_migrate_def
      sched_agg_add_latency_def plain_update_def Let_def split: option.splits if_splits)

lemma collect_drains:
  assumes "key_order nxt order" "dom (an_agg maps) \<subseteq> set order" "0 \<le> sn_agg_fd s"
  obtains b s' where "sched_collect nxt clock now_ms quiet (maps, s) = Some (b, maps\<lparr>an_agg := Map.empty\<rparr>, s')"
    "\<And>name f. (name, f) \<in> set sum_fields \<Longrightarrow> batch_stat pid name b =
       (if allow_pid (sn_target_pid_allow s) pid then row_stat f (an_agg maps) pid else 0)"
    "sn_agg_fd s' = sn_agg_fd s" "sn_target_pid_allow s' = sn_target_pid_allow s" "length (sn_history s') \<le> max_history"
proof -
  let ?ks = "present_keys order (an_agg maps)"
  have walk: "map_keys nxt (an_agg maps) = Some ?ks" by (rule map_keys_walk [OF key_order_walk [OF assms(1,2)]])
  obtain table b t where f: "fold (drain_row clock quiet (sn_target_pid_allow s)) ?ks
      (an_agg maps, new_batch Trace, no_totals) = (table, b, t)"
    by (cases "fold (drain_row clock quiet (sn_target_pid_allow s)) ?ks (an_agg maps, new_batch Trace, no_totals)") auto
  note rows = drain_rows [OF f _ distinct_present_keys [OF assms(1)]]
  have "table = (\<lambda>p. if p \<in> set ?ks then None else an_agg maps p)"
    using rows [of "''switch_count''" st_switch_count] by (simp add: sum_fields_def)
  then have table: "table = Map.empty" by (auto simp: in_present_keys [OF assms(2)])
  let ?s = "s\<lparr>sn_history := push_bounded max_history (history_point now_ms t) (sn_history s)\<rparr>"
  show ?thesis
  proof (rule that [of b ?s])
    show "sched_collect nxt clock now_ms quiet (maps, s) = Some (b, maps\<lparr>an_agg := Map.empty\<rparr>, ?s)"
      using assms(3) f by (simp add: sched_collect_def walk table)
    fix name f
    assume "(name, f) \<in> set sum_fields"
    with rows [of name f pid] in_present_keys [OF assms(2), of pid]
    show "batch_stat pid name b = (if allow_pid (sn_target_pid_allow s) pid then row_stat f (an_agg maps) pid else 0)"
      by (auto simp: batch_stat_def new_batch_def row_stat_def)
  qed (simp_all add: push_bounded_def)
qed

lemma cancel_views:
  fixes a :: u64
  assumes "a + v1 = rm + F" "rm + vt = r0 + v1"
  shows "a + vt = r0 + F"
proof -
  have "a + vt + (v1 + rm) = (a + v1) + (rm + vt)" by (simp add: algebra_simps)
  also have "\<dots> = r0 + F + (v1 + rm)" unfolding assms by (simp add: algebra_simps)
  finally show ?thesis by simp
qed

text \<open>With what was pending and gathered at the start, whatever is collected in between.\<close>

lemma sched_steps_conserve:
  assumes order: "key_order nxt order" and pid: "pid \<noteq> 0" and name: "(name, f) \<in> set sum_fields"
    and "dom (an_agg m) \<subseteq> set order" "0 \<le> sn_agg_fd s" "an_wakeup_ts m pid = tv_pending tv"
    "sched_analyzer_flags m AND 2 \<noteq> 0" "set (concat (map run_pids (probe_steps xs))) \<subseteq> set order"
    "length (sn_history s) \<le> max_history"
  shows "\<exists>bs m' s'. sched_steps nxt clock xs (m, s) = Some (bs, m', s') \<and> length (sn_history s') \<le> max_history \<and>
    (if allow_pid (sn_target_pid_allow s) pid
     then total_stat pid name bs + row_stat f (an_agg m') pid + view_stat name tv =
       row_stat f (an_agg m) pid + view_stat name (fold (view_step pid) (probe_steps xs) tv)
     else total_stat pid name bs = 0)"
  using assms(4-9)
proof (induction xs arbitrary: m s tv)
  case Nil
  then show ?case by (simp add: total_stat_def probe_steps_def)
next
  case (Cons x xs)
  show ?case
  proof (cases x)
    case (ProbeStep r)
    let ?m = "analyzer_run plain_update plain_update r m"
    have "dom (an_agg ?m) \<subseteq> set order"
      using analyzer_run_dom [of r m] Cons.prems(1,5) by (auto simp: ProbeStep probe_steps_def)
    from Cons.IH [OF this Cons.prems(2) analyzer_wakeup_view [OF Cons.prems(3)] _ _ Cons.prems(6)] Cons.prems(4,5)
    obtain bs m' s' where run: "sched_steps nxt clock xs (?m, s) = Some (bs, m', s')"
      "length (sn_history s') \<le> max_history"
      and eq: "if allow_pid (sn_target_pid_allow s) pid
        then total_stat pid name bs + row_stat f (an_agg m') pid + view_stat name (view_step pid r tv) =
          row_stat f (an_agg ?m) pid +
          view_stat name (fold (view_step pid) (probe_steps xs) (view_step pid r tv))
        else total_stat pid name bs = 0"
      by (auto simp: ProbeStep probe_steps_def)
    have "probe_steps (x # xs) = r # probe_steps xs" by (simp add: probe_steps_def ProbeStep)
    with run eq cancel_views [OF _ analyzer_run_adds [OF name pid Cons.prems(4,3), of r]] show ?thesis
      by (auto simp: ProbeStep)
  next
    case (CollectStep now_ms)
    obtain b s1 where c: "sched_collect nxt clock now_ms quiet (m, s) = Some (b, m\<lparr>an_agg := Map.empty\<rparr>, s1)"
      and stat: "batch_stat pid name b =
        (if allow_pid (sn_target_pid_allow s) pid then row_stat f (an_agg m) pid else 0)"
      and keep: "sn_agg_fd s1 = sn_agg_fd s" "sn_target_pid_allow s1 = sn_target_pid_allow s"
        "length (sn_history s1) \<le> max_history"
      using collect_drains [OF order Cons.prems(1,2), of clock now_ms pid] name by metis
    have "probe_steps (x # xs) = probe_steps xs" by (simp add: probe_steps_def CollectStep)
    moreover have "row_stat f Map.empty pid = 0" by (simp add: row_stat_def)
    moreover from Cons.IH [of "m\<lparr>an_agg := Map.empty\<rparr>" s1 tv] Cons.prems keep calculation(1)
    obtain bs m' s' where run: "sched_steps nxt clock xs (m\<lparr>an_agg := Map.empty\<rparr>, s1) = Some (bs, m', s')"
      "length (sn_history s') \<le> max_history"
      and "if allow_pid (sn_target_pid_allow s) pid
        then total_stat pid name bs + row_stat f (an_agg m') pid + view_stat name tv =
          row_stat f Map.empty pid + view_stat name (fold (view_step pid) (probe_steps xs) tv)
        else total_stat pid name bs = 0"
      by auto
    ultimately show ?thesis using stat by (auto simp: CollectStep c run total_stat_def algebra_simps)
  qed
qed



end
