(* ===== verification/CpuSources.thy ===== *)
theory CpuSources
  imports ProcReader DataBatch Config Status
begin

text \<open>
  Two pull sources over \<open>/proc\<close>: \<open>cpu_utilization\<close> and \<open>proc_stat_reader\<close> of \<open>src/sources/cpu/\<close>.
  A collection sees one state of the files. Doubles are reals; the time stamps of the records are the
  parameter \<open>clock\<close>, by the record's position.
\<close>

section \<open>cpu_utilization\<close>

record ema_state =
  em_user :: real
  em_system :: real
  em_idle :: real
  em_iowait :: real
  em_busy :: real
  em_initialized :: bool

definition ema_new :: ema_state where
  "ema_new = \<lparr>em_user = 0, em_system = 0, em_idle = 0, em_iowait = 0, em_busy = 0, em_initialized = False\<rparr>"

record cpu_utilization =
  cu_interval_ms :: u32
  cu_collect_per_core :: bool
  cu_collect_freq :: bool
  cu_ema_alpha :: real
  cu_has_prev :: bool
  cu_prev :: cpu_snapshot
  cu_ema_states :: "ema_state list"

definition cpu_utilization_new :: cpu_utilization where
  "cpu_utilization_new = \<lparr>cu_interval_ms = 1000, cu_collect_per_core = True, cu_collect_freq = False,
     cu_ema_alpha = 0, cu_has_prev = False, cu_prev = empty_snapshot, cu_ema_states = []\<rparr>"

definition cpu_utilization_init ::
  "(string \<Rightarrow> real option) \<Rightarrow> files \<Rightarrow> config_value \<Rightarrow> cpu_utilization \<Rightarrow> cpu_utilization" where
  "cpu_utilization_init stod fs config cu =
     cu\<lparr>cu_interval_ms := word_of_int (as_int (cv_child ''interval_ms'' config) 1000),
        cu_collect_per_core := as_bool (cv_child ''collect_per_core'' config) True,
        cu_collect_freq := as_bool (cv_child ''collect_frequency'' config) False,
        cu_ema_alpha := as_double stod (cv_child ''ema_alpha'' config) 0,
        cu_prev := read_cpu_snapshot fs\<rparr>"

record core_pct =
  cp_user :: real
  cp_nice :: real
  cp_system :: real
  cp_idle :: real
  cp_iowait :: real
  cp_irq :: real
  cp_softirq :: real
  cp_steal :: real
  cp_busy :: real

definition core_percentages :: "core_jiffies \<Rightarrow> core_jiffies \<Rightarrow> core_pct" where
  "core_percentages c p =
     (let dt0 = jiffies_total c - jiffies_total p;
          dt = (if dt0 = 0 then 1 else dt0);
          pct = (\<lambda>cv pv. 100 * real (unat (cv - pv :: u64)) / real (unat dt))
      in \<lparr>cp_user = pct (cj_user c) (cj_user p), cp_nice = pct (cj_nice c) (cj_nice p),
          cp_system = pct (cj_system c) (cj_system p), cp_idle = pct (cj_idle c) (cj_idle p),
          cp_iowait = pct (cj_iowait c) (cj_iowait p), cp_irq = pct (cj_irq c) (cj_irq p),
          cp_softirq = pct (cj_softirq c) (cj_softirq p), cp_steal = pct (cj_steal c) (cj_steal p),
          cp_busy = 100 * real (unat (jiffies_busy c - jiffies_busy p)) / real (unat dt)\<rparr>)"

definition ema_update :: "real \<Rightarrow> core_pct \<Rightarrow> ema_state \<Rightarrow> ema_state" where
  "ema_update alpha pc ema =
     (if \<not> em_initialized ema then
        \<lparr>em_user = cp_user pc, em_system = cp_system pc, em_idle = cp_idle pc, em_iowait = cp_iowait pc,
         em_busy = cp_busy pc, em_initialized = True\<rparr>
      else
        let a = alpha; b = 1 - a
        in ema\<lparr>em_user := a * cp_user pc + b * em_user ema, em_system := a * cp_system pc + b * em_system ema,
               em_idle := a * cp_idle pc + b * em_idle ema, em_iowait := a * cp_iowait pc + b * em_iowait ema,
               em_busy := a * cp_busy pc + b * em_busy ema\<rparr>)"

definition pct_fields :: "core_pct \<Rightarrow> (string \<times> field_value) list" where
  "pct_fields pc =
     [(''user_pct'', FDouble (cp_user pc)), (''nice_pct'', FDouble (cp_nice pc)),
      (''system_pct'', FDouble (cp_system pc)), (''idle_pct'', FDouble (cp_idle pc)),
      (''iowait_pct'', FDouble (cp_iowait pc)), (''irq_pct'', FDouble (cp_irq pc)),
      (''softirq_pct'', FDouble (cp_softirq pc)), (''steal_pct'', FDouble (cp_steal pc)),
      (''busy_pct'', FDouble (cp_busy pc))]"

definition core_record :: "real \<Rightarrow> core_jiffies \<Rightarrow> core_pct \<Rightarrow> ema_state option \<Rightarrow> data_record \<Rightarrow> data_record" where
  "core_record alpha c pc ema r =
     (let r = push_label ''source'' ''cpu_utilization'' r;
          r = push_label ''type'' (if cj_name c = ''cpu'' then ''cpu_total'' else ''cpu_core'') r;
          r = push_label ''cpu'' (cj_name c) r;
          r = set_fields (pct_fields pc) r
      in case ema of
           None \<Rightarrow> r
         | Some e \<Rightarrow>
             if 0 < alpha \<and> em_initialized e
             then set_fields [(''user_pct_ema'', FDouble (em_user e)), (''system_pct_ema'', FDouble (em_system e)),
                    (''busy_pct_ema'', FDouble (em_busy e))] r
             else r)"

text \<open>The loop of \<open>EmitCpuUtilization\<close> from index \<open>i\<close> on.\<close>

fun emit_cores ::
  "(nat \<Rightarrow> u64) \<Rightarrow> cpu_utilization \<Rightarrow> nat \<Rightarrow> core_jiffies list \<Rightarrow> ema_state list \<times> data_batch \<Rightarrow>
   ema_state list \<times> data_batch" where
  "emit_cores clock cu i [] st = st"
| "emit_cores clock cu i (c # cs) st =
     (if cj_name c \<noteq> ''cpu'' \<and> \<not> cu_collect_per_core cu then emit_cores clock cu (i + 1) cs st
      else if length (cs_cores (cu_prev cu)) \<le> i then st
      else let p = cs_cores (cu_prev cu) ! i
           in if cj_name c \<noteq> cj_name p then emit_cores clock cu (i + 1) cs st
              else
                let pc = core_percentages c p; alpha = cu_ema_alpha cu; (emas, b) = st;
                    emas = (if 0 < alpha \<and> i < length emas then emas[i := ema_update alpha pc (emas ! i)] else emas);
                    ema = (if i < length emas then Some (emas ! i) else None)
                in emit_cores clock cu (i + 1) cs (emas, emit clock (core_record alpha c pc ema) b))"

definition emit_cpu_utilization ::
  "(nat \<Rightarrow> u64) \<Rightarrow> cpu_snapshot \<Rightarrow> cpu_utilization \<Rightarrow> data_batch \<Rightarrow> cpu_utilization \<times> data_batch" where
  "emit_cpu_utilization clock cur cu b =
     (let emas = cu_ema_states cu;
          emas = emas @ replicate (length (cs_cores cur) - length emas) ema_new;
          (emas, b) = emit_cores clock cu 0 (cs_cores cur) (emas, b)
      in (cu\<lparr>cu_ema_states := emas\<rparr>, b))"

definition emit_system_counters ::
  "(nat \<Rightarrow> u64) \<Rightarrow> cpu_snapshot \<Rightarrow> cpu_utilization \<Rightarrow> data_batch \<Rightarrow> data_batch" where
  "emit_system_counters clock cur cu b =
     (let secs = real (unat (cu_interval_ms cu)) / 1000;
          elapsed_sec = (if secs \<le> 0 then 1 else secs)
      in emit clock (\<lambda>r. set_fields
           [(''context_switches_per_sec'', FDouble (real (unat (cs_ctxt cur - cs_ctxt (cu_prev cu))) / elapsed_sec)),
            (''interrupts_per_sec'', FDouble (real (unat (cs_intr cur - cs_intr (cu_prev cu))) / elapsed_sec))]
           (push_label ''type'' ''system_counters'' (push_label ''source'' ''cpu_utilization'' r))) b)"

definition load_fields :: "load_avg \<Rightarrow> (string \<times> field_value) list" where
  "load_fields la = [(''load_1m'', FDouble (la_load1 la)), (''load_5m'', FDouble (la_load5 la)),
     (''load_15m'', FDouble (la_load15 la))]"

definition emit_load_avg :: "(nat \<Rightarrow> u64) \<Rightarrow> load_avg \<Rightarrow> data_batch \<Rightarrow> data_batch" where
  "emit_load_avg clock la b =
     emit clock (\<lambda>r. set_fields (load_fields la)
       (push_label ''type'' ''loadavg'' (push_label ''source'' ''cpu_utilization'' r))) b"

definition emit_run_queue :: "(nat \<Rightarrow> u64) \<Rightarrow> cpu_snapshot \<Rightarrow> data_batch \<Rightarrow> data_batch" where
  "emit_run_queue clock cur b =
     emit clock (\<lambda>r. set_fields
       [(''procs_running'', FUint (ucast (cs_procs_running cur))), (''procs_blocked'', FUint (ucast (cs_procs_blocked cur)))]
       (push_label ''type'' ''runqueue'' (push_label ''source'' ''cpu_utilization'' r))) b"

definition emit_cpu_frequency :: "(nat \<Rightarrow> u64) \<Rightarrow> real list \<Rightarrow> data_batch \<Rightarrow> data_batch" where
  "emit_cpu_frequency clock freqs b =
     fold (\<lambda>(i, f). emit clock (\<lambda>r. set_fields [(''freq_mhz'', FDouble f)]
         (push_label ''cpu'' (''cpu'' @ show_nat i) (push_label ''type'' ''cpu_freq''
           (push_label ''source'' ''cpu_utilization'' r)))))
       (enumerate 0 freqs) b"

text \<open>\<open>Collect\<close>: \<open>n\<close> and \<open>junk\<close> as in \<open>read_cpu_frequencies_mhz\<close>. The mutex makes it atomic.\<close>

definition cpu_utilization_collect ::
  "real_reader \<Rightarrow> u64 \<Rightarrow> nat \<Rightarrow> (nat \<Rightarrow> u64) \<Rightarrow> files \<Rightarrow> cpu_utilization \<Rightarrow> cpu_utilization \<times> data_batch status_or" where
  "cpu_utilization_collect xreal junk n clock fs cu =
     (let b = new_batch Metrics; cur = read_cpu_snapshot fs;
          (cu, b) = (if cu_has_prev cu
                     then let (cu, b) = emit_cpu_utilization clock cur cu b
                          in (cu, emit_system_counters clock cur cu b)
                     else (cu, b));
          b = emit_load_avg clock (read_load_avg xreal fs) b;
          b = emit_run_queue clock cur b;
          b = (if cu_collect_freq cu then emit_cpu_frequency clock (read_cpu_frequencies_mhz fs junk n) b else b)
      in (cu\<lparr>cu_prev := cur, cu_has_prev := True\<rparr>, Value b))"

section \<open>proc_stat_reader\<close>

definition core_counters :: "core_jiffies \<Rightarrow> (string \<times> field_value) list" where
  "core_counters c =
     [(''user'', FUint (cj_user c)), (''nice'', FUint (cj_nice c)), (''system'', FUint (cj_system c)),
      (''idle'', FUint (cj_idle c)), (''iowait'', FUint (cj_iowait c)), (''irq'', FUint (cj_irq c)),
      (''softirq'', FUint (cj_softirq c)), (''steal'', FUint (cj_steal c))]"

definition meminfo_names :: "(string \<times> string) list" where
  "meminfo_names =
     [(''MemTotal:'', ''mem_total_kb''), (''MemFree:'', ''mem_free_kb''), (''MemAvailable:'', ''mem_available_kb''),
      (''Buffers:'', ''buffers_kb''), (''Cached:'', ''cached_kb''), (''SwapTotal:'', ''swap_total_kb''),
      (''SwapFree:'', ''swap_free_kb'')]"

text \<open>\<open>junk\<close> is what the uninitialised \<open>value\<close> holds when a line has no number.\<close>

definition meminfo_line :: "u64 \<Rightarrow> string \<Rightarrow> data_record \<Rightarrow> data_record" where
  "meminfo_line junk line r =
     (let (key, s) = extract_word (istream_of line); (value, _) = extract_int (Unsigned 64) s
      in case (case key of None \<Rightarrow> None | Some k \<Rightarrow> map_of meminfo_names k) of
           None \<Rightarrow> r
         | Some name \<Rightarrow> set_field name (FUint (stored value junk)) r)"

definition proc_stat_collect :: "real_reader \<Rightarrow> u64 \<Rightarrow> (nat \<Rightarrow> u64) \<Rightarrow> files \<Rightarrow> data_batch status_or" where
  "proc_stat_collect xreal junk clock fs =
     (let b = fold (\<lambda>c. emit clock (\<lambda>r. set_fields (core_counters c) (push_label ''cpu'' (cj_name c) r)))
            (cs_cores (read_cpu_snapshot fs)) (new_batch Metrics);
          b = (case fs ''/proc/meminfo'' of
                 None \<Rightarrow> b
               | Some text \<Rightarrow>
                   emit clock (\<lambda>r. fold (meminfo_line junk) (text_lines text) (push_label ''type'' ''memory'' r)) b)
      in Value (emit clock (\<lambda>r. set_fields (load_fields (read_load_avg xreal fs)) (push_label ''type'' ''loadavg'' r)) b))"

section \<open>Percentages\<close>

definition jiffies_sum :: "core_jiffies \<Rightarrow> nat" where
  "jiffies_sum j = unat (cj_user j) + unat (cj_nice j) + unat (cj_system j) + unat (cj_idle j) +
     unat (cj_iowait j) + unat (cj_irq j) + unat (cj_softirq j) + unat (cj_steal j)"

text \<open>No counter goes back, something was counted, and the sum is below the range of the type.\<close>

definition advances :: "core_jiffies \<Rightarrow> core_jiffies \<Rightarrow> bool" where
  "advances p c \<longleftrightarrow> cj_user p \<le> cj_user c \<and> cj_nice p \<le> cj_nice c \<and> cj_system p \<le> cj_system c \<and>
     cj_idle p \<le> cj_idle c \<and> cj_iowait p \<le> cj_iowait c \<and> cj_irq p \<le> cj_irq c \<and>
     cj_softirq p \<le> cj_softirq c \<and> cj_steal p \<le> cj_steal c \<and>
     jiffies_sum p < jiffies_sum c \<and> jiffies_sum c < 2 ^ 64"

lemma unat_of_nat_small: "n < 2 ^ 64 \<Longrightarrow> unat (of_nat n :: u64) = n"
  by (simp add: unsigned_of_nat take_bit_nat_eq_self)

lemma jiffies_total_sum: "jiffies_total j = of_nat (jiffies_sum j)"
  by (simp add: jiffies_total_def jiffies_sum_def)

lemma unat_diff_of_nat:
  fixes a b :: nat
  assumes "b \<le> a" "a < 2 ^ 64"
  shows "unat (of_nat a - of_nat b :: u64) = a - b"
proof -
  have "(of_nat a - of_nat b :: u64) = of_nat (a - b)" using assms(1) by (simp add: of_nat_diff)
  then show ?thesis using unat_of_nat_small [of "a - b"] assms by simp
qed

lemma unat_diff_word: "(b :: u64) \<le> a \<Longrightarrow> unat (a - b) = unat a - unat b"
  by (simp add: unat_sub)

lemma jiffies_busy_sum:
  "jiffies_busy j = of_nat (unat (cj_user j) + unat (cj_nice j) + unat (cj_system j) + unat (cj_irq j) +
     unat (cj_softirq j) + unat (cj_steal j))"
  by (simp add: jiffies_busy_def jiffies_total_def)

lemma unat_busy_diff:
  assumes "advances p c"
  shows "unat (jiffies_busy c - jiffies_busy p) = (unat (cj_user c) - unat (cj_user p)) +
    (unat (cj_nice c) - unat (cj_nice p)) + (unat (cj_system c) - unat (cj_system p)) +
    (unat (cj_irq c) - unat (cj_irq p)) + (unat (cj_softirq c) - unat (cj_softirq p)) +
    (unat (cj_steal c) - unat (cj_steal p))"
proof -
  let ?b = "\<lambda>j. unat (cj_user j) + unat (cj_nice j) + unat (cj_system j) + unat (cj_irq j) +
     unat (cj_softirq j) + unat (cj_steal j)"
  have le: "unat (cj_user p) \<le> unat (cj_user c)" "unat (cj_nice p) \<le> unat (cj_nice c)"
    "unat (cj_system p) \<le> unat (cj_system c)" "unat (cj_irq p) \<le> unat (cj_irq c)"
    "unat (cj_softirq p) \<le> unat (cj_softirq c)" "unat (cj_steal p) \<le> unat (cj_steal c)"
    using assms by (simp_all add: advances_def word_le_nat_alt)
  have "?b c < 2 ^ 64" using assms unfolding advances_def jiffies_sum_def by linarith
  with le have "unat (of_nat (?b c) - of_nat (?b p) :: u64) = ?b c - ?b p"
    by (intro unat_diff_of_nat) linarith+
  then show ?thesis using le unfolding jiffies_busy_sum by linarith
qed

text \<open>The numerators add up to the denominator.\<close>

lemma core_percentages_parts:
  assumes "advances p c"
  obtains dt where "0 < dt" and
    "cp_user (core_percentages c p) = 100 * real (unat (cj_user c) - unat (cj_user p)) / dt"
    "cp_nice (core_percentages c p) = 100 * real (unat (cj_nice c) - unat (cj_nice p)) / dt"
    "cp_system (core_percentages c p) = 100 * real (unat (cj_system c) - unat (cj_system p)) / dt"
    "cp_idle (core_percentages c p) = 100 * real (unat (cj_idle c) - unat (cj_idle p)) / dt"
    "cp_iowait (core_percentages c p) = 100 * real (unat (cj_iowait c) - unat (cj_iowait p)) / dt"
    "cp_irq (core_percentages c p) = 100 * real (unat (cj_irq c) - unat (cj_irq p)) / dt"
    "cp_softirq (core_percentages c p) = 100 * real (unat (cj_softirq c) - unat (cj_softirq p)) / dt"
    "cp_steal (core_percentages c p) = 100 * real (unat (cj_steal c) - unat (cj_steal p)) / dt"
    "cp_busy (core_percentages c p) = 100 * real ((unat (cj_user c) - unat (cj_user p)) +
       (unat (cj_nice c) - unat (cj_nice p)) + (unat (cj_system c) - unat (cj_system p)) +
       (unat (cj_irq c) - unat (cj_irq p)) + (unat (cj_softirq c) - unat (cj_softirq p)) +
       (unat (cj_steal c) - unat (cj_steal p))) / dt"
    "dt = real ((unat (cj_user c) - unat (cj_user p)) + (unat (cj_nice c) - unat (cj_nice p)) +
       (unat (cj_system c) - unat (cj_system p)) + (unat (cj_idle c) - unat (cj_idle p)) +
       (unat (cj_iowait c) - unat (cj_iowait p)) + (unat (cj_irq c) - unat (cj_irq p)) +
       (unat (cj_softirq c) - unat (cj_softirq p)) + (unat (cj_steal c) - unat (cj_steal p)))"
proof -
  from assms have le: "cj_user p \<le> cj_user c" "cj_nice p \<le> cj_nice c" "cj_system p \<le> cj_system c"
    "cj_idle p \<le> cj_idle c" "cj_iowait p \<le> cj_iowait c" "cj_irq p \<le> cj_irq c"
    "cj_softirq p \<le> cj_softirq c" "cj_steal p \<le> cj_steal c"
    and lt: "jiffies_sum p < jiffies_sum c" "jiffies_sum c < 2 ^ 64"
    by (simp_all add: advances_def)
  let ?dt = "jiffies_sum c - jiffies_sum p"
  have d: "unat (jiffies_total c - jiffies_total p) = ?dt"
    unfolding jiffies_total_sum using lt by (intro unat_diff_of_nat) simp_all
  with lt have nz: "jiffies_total c - jiffies_total p \<noteq> 0" by (metis unsigned_0 zero_less_diff less_irrefl)
  have dt: "real ?dt = real ((unat (cj_user c) - unat (cj_user p)) + (unat (cj_nice c) - unat (cj_nice p)) +
       (unat (cj_system c) - unat (cj_system p)) + (unat (cj_idle c) - unat (cj_idle p)) +
       (unat (cj_iowait c) - unat (cj_iowait p)) + (unat (cj_irq c) - unat (cj_irq p)) +
       (unat (cj_softirq c) - unat (cj_softirq p)) + (unat (cj_steal c) - unat (cj_steal p)))"
    unfolding of_nat_eq_iff jiffies_sum_def using le [unfolded word_le_nat_alt] by linarith
  show ?thesis
  proof (rule that [of "real ?dt"])
    show "0 < real ?dt" using lt(1) by simp
  qed (use nz d dt in \<open>simp_all only: core_percentages_def Let_def if_False core_pct.select_convs
      unat_diff_word [OF le(1)] unat_diff_word [OF le(2)] unat_diff_word [OF le(3)] unat_diff_word [OF le(4)]
      unat_diff_word [OF le(5)] unat_diff_word [OF le(6)] unat_diff_word [OF le(7)] unat_diff_word [OF le(8)]
      unat_busy_diff [OF assms]\<close>)
qed

definition percent :: "real \<Rightarrow> bool" where
  "percent x \<longleftrightarrow> 0 \<le> x \<and> x \<le> 100"

lemma percent_ratio: "0 \<le> x \<Longrightarrow> x \<le> dt \<Longrightarrow> 0 < dt \<Longrightarrow> percent (100 * x / dt)"
  by (simp add: percent_def field_simps)

lemma unat_minus_one: "unat (- 1 :: u64) = 18446744073709551615"
  by (simp add: unsigned_minus_1_eq_mask mask_eq_exp_minus_1)

lemma real_minus_one: "real (unat (- 1 :: u64)) = 18446744073709551615"
  by (simp only: unat_minus_one of_nat_numeral)

text \<open>
  C39: the percentages of a core are percentages. When no counter goes back between two readings, the
  eight shares lie between 0 and 100 and add up to 100, and the busy share is what idle and iowait
  leave. The subtraction is unsigned, though: if only iowait goes back by one while user time grows by
  ten (the kernel says iowait may decrease), the iowait share is about \<open>2 * 10^20\<close> percent.
\<close>

theorem cpu_percentages_sum:
  assumes "advances p c"
  defines "pc \<equiv> core_percentages c p"
  shows "cp_user pc + cp_nice pc + cp_system pc + cp_idle pc + cp_iowait pc + cp_irq pc + cp_softirq pc +
      cp_steal pc = 100 \<and>
    cp_busy pc = 100 - cp_idle pc - cp_iowait pc \<and>
    list_all percent [cp_user pc, cp_nice pc, cp_system pc, cp_idle pc, cp_iowait pc, cp_irq pc,
      cp_softirq pc, cp_steal pc, cp_busy pc] \<and>
    cp_iowait (core_percentages (j\<lparr>cj_user := cj_user j + 10, cj_iowait := cj_iowait j - 1\<rparr>) j) =
      100 * (2 ^ 64 - 1) / 9"
proof -
  obtain dt where dt: "0 < dt" and pc: "cp_user pc = 100 * real (unat (cj_user c) - unat (cj_user p)) / dt"
    "cp_nice pc = 100 * real (unat (cj_nice c) - unat (cj_nice p)) / dt"
    "cp_system pc = 100 * real (unat (cj_system c) - unat (cj_system p)) / dt"
    "cp_idle pc = 100 * real (unat (cj_idle c) - unat (cj_idle p)) / dt"
    "cp_iowait pc = 100 * real (unat (cj_iowait c) - unat (cj_iowait p)) / dt"
    "cp_irq pc = 100 * real (unat (cj_irq c) - unat (cj_irq p)) / dt"
    "cp_softirq pc = 100 * real (unat (cj_softirq c) - unat (cj_softirq p)) / dt"
    "cp_steal pc = 100 * real (unat (cj_steal c) - unat (cj_steal p)) / dt"
    "cp_busy pc = 100 * real ((unat (cj_user c) - unat (cj_user p)) +
       (unat (cj_nice c) - unat (cj_nice p)) + (unat (cj_system c) - unat (cj_system p)) +
       (unat (cj_irq c) - unat (cj_irq p)) + (unat (cj_softirq c) - unat (cj_softirq p)) +
       (unat (cj_steal c) - unat (cj_steal p))) / dt"
    and sum: "dt = real ((unat (cj_user c) - unat (cj_user p)) + (unat (cj_nice c) - unat (cj_nice p)) +
       (unat (cj_system c) - unat (cj_system p)) + (unat (cj_idle c) - unat (cj_idle p)) +
       (unat (cj_iowait c) - unat (cj_iowait p)) + (unat (cj_irq c) - unat (cj_irq p)) +
       (unat (cj_softirq c) - unat (cj_softirq p)) + (unat (cj_steal c) - unat (cj_steal p)))"
    unfolding pc_def by (rule core_percentages_parts [OF assms(1)])
  note add = of_nat_add
  have "list_all percent [cp_user pc, cp_nice pc, cp_system pc, cp_idle pc, cp_iowait pc, cp_irq pc,
      cp_softirq pc, cp_steal pc, cp_busy pc]"
    unfolding list.pred_inject pc by (intro conjI TrueI percent_ratio dt) (simp_all add: sum)
  moreover have "cp_user pc + cp_nice pc + cp_system pc + cp_idle pc + cp_iowait pc + cp_irq pc + cp_softirq pc +
      cp_steal pc = 100 * dt / dt"
    unfolding pc by (simp only: sum add add_divide_distrib ring_distribs)
  moreover have "cp_busy pc + cp_idle pc + cp_iowait pc = 100 * dt / dt"
    unfolding pc by (simp only: sum add add_divide_distrib ring_distribs ac_simps)
  moreover have "cp_iowait (core_percentages (j\<lparr>cj_user := cj_user j + 10, cj_iowait := cj_iowait j - 1\<rparr>) j) =
      100 * (2 ^ 64 - 1) / 9"
    by (simp add: core_percentages_def jiffies_total_def Let_def real_minus_one [simplified])
  ultimately show ?thesis using dt by simp
qed

lemma cpu_percentages_sum_witness:
  defines "p \<equiv> \<lparr>cj_name = ''cpu'', cj_user = 10, cj_nice = 0, cj_system = 0, cj_idle = 50, cj_iowait = 0,
      cj_irq = 0, cj_softirq = 0, cj_steal = 0\<rparr>"
  shows "cp_busy (core_percentages (p\<lparr>cj_user := 40, cj_idle := 120\<rparr>) p) =
    100 - cp_idle (core_percentages (p\<lparr>cj_user := 40, cj_idle := 120\<rparr>) p)"
proof -
  have "advances p (p\<lparr>cj_user := 40, cj_idle := 120\<rparr>)" by (simp add: p_def advances_def jiffies_sum_def)
  moreover have "cp_iowait (core_percentages (p\<lparr>cj_user := 40, cj_idle := 120\<rparr>) p) = 0"
    by (simp add: p_def core_percentages_def Let_def)
  ultimately show ?thesis using cpu_percentages_sum [of p "p\<lparr>cj_user := 40, cj_idle := 120\<rparr>" p] by simp
qed

lemma ema_update_percent:
  assumes "0 < alpha" "alpha \<le> 1" "percent (cp_user pc)" "percent (cp_system pc)" "percent (cp_busy pc)"
    and "em_initialized e \<longrightarrow> percent (em_user e) \<and> percent (em_system e) \<and> percent (em_busy e)"
  shows "em_initialized (ema_update alpha pc e) \<and> percent (em_user (ema_update alpha pc e)) \<and>
    percent (em_system (ema_update alpha pc e)) \<and> percent (em_busy (ema_update alpha pc e))"
proof -
  have mix: "percent (alpha * x + (1 - alpha) * y)" if "percent x" "percent y" for x y
  proof -
    have "alpha * x + (1 - alpha) * y \<le> alpha * 100 + (1 - alpha) * 100"
      using that assms(1,2) by (intro add_mono mult_left_mono) (simp_all add: percent_def)
    moreover have "0 \<le> alpha * x + (1 - alpha) * y" using that assms(1,2) by (simp add: percent_def)
    ultimately show ?thesis by (simp add: percent_def algebra_simps)
  qed
  show ?thesis using assms(3-6) mix by (simp add: ema_update_def Let_def)
qed

section \<open>What a collection reports\<close>

definition reports_core :: "core_jiffies \<Rightarrow> core_jiffies \<Rightarrow> data_record \<Rightarrow> bool" where
  "reports_core p c r \<longleftrightarrow>
     rc_labels r = [(''source'', ''cpu_utilization''), (''type'', if cj_name c = ''cpu'' then ''cpu_total'' else ''cpu_core''),
       (''cpu'', cj_name c)] \<and>
     (\<forall>(k, v) \<in> set (pct_fields (core_percentages c p)). get_field k r = Some v)"

lemma core_record_reports:
  assumes "rc_labels r = []"
  shows "reports_core p c (core_record alpha c (core_percentages c p) ema r)"
proof -
  have d: "distinct (map fst (pct_fields pc))" for pc by (simp add: pct_fields_def)
  have "get_field k (core_record alpha c pc ema r) = Some v" if "(k, v) \<in> set (pct_fields pc)" for k v pc
  proof -
    let ?r = "push_label ''cpu'' (cj_name c) (push_label ''type''
        (if cj_name c = ''cpu'' then ''cpu_total'' else ''cpu_core'') (push_label ''source'' ''cpu_utilization'' r))"
    have "get_field k (set_fields (pct_fields pc) ?r) = Some v" by (rule get_field_set_fields [OF d that])
    moreover have "k \<notin> {''user_pct_ema'', ''system_pct_ema'', ''busy_pct_ema''}"
      using that by (auto simp: pct_fields_def)
    ultimately show ?thesis
      by (auto simp: core_record_def Let_def get_field_set_fields_other split: option.split)
  qed
  then show ?thesis
    using assms by (auto simp: reports_core_def core_record_def Let_def split: option.split)
qed

lemma emit_cores_reports:
  assumes "cu_collect_per_core cu" "map cj_name cs = map cj_name (drop i (cs_cores (cu_prev cu)))"
  shows "\<exists>rs. db_records (snd (emit_cores clock cu i cs (emas, b))) = db_records b @ rs \<and>
    list_all2 (\<lambda>(p, c) r. reports_core p c r) (zip (drop i (cs_cores (cu_prev cu))) cs) rs"
  using assms(2)
proof (induction cs arbitrary: i emas b)
  case Nil
  then show ?case by simp
next
  case (Cons c cs)
  let ?prev = "cs_cores (cu_prev cu)"
  from Cons.prems have i: "i < length ?prev" by (metis drop_all list.distinct(1) list.simps(8,9) not_le)
  then have dr: "drop i ?prev = ?prev ! i # drop (i + 1) ?prev" by (simp add: Cons_nth_drop_Suc)
  with Cons.prems have nm: "cj_name c = cj_name (?prev ! i)" "map cj_name cs = map cj_name (drop (i + 1) ?prev)"
    by simp_all
  obtain emas' ema where step: "emit_cores clock cu i (c # cs) (emas, b) =
      emit_cores clock cu (i + 1) cs (emas', emit clock
        (core_record (cu_ema_alpha cu) c (core_percentages c (?prev ! i)) ema) b)"
    using assms(1) i nm(1) by (simp add: Let_def del: push_label_simps)
  from Cons.IH [OF nm(2), of emas' "emit clock (core_record (cu_ema_alpha cu) c (core_percentages c (?prev ! i)) ema) b"]
  obtain rs where rs: "db_records (snd (emit_cores clock cu i (c # cs) (emas, b))) = db_records b @
      core_record (cu_ema_alpha cu) c (core_percentages c (?prev ! i)) ema
        \<lparr>rc_timestamp = clock (length (db_records b)), rc_labels = [], rc_fields = []\<rparr> # rs"
    "list_all2 (\<lambda>(p, c) r. reports_core p c r) (zip (drop (i + 1) ?prev) cs) rs"
    unfolding step by auto
  then show ?case unfolding dr by (auto intro!: core_record_reports)
qed

lemma emit_cpu_frequency_records: "\<exists>rs. db_records (emit_cpu_frequency clock freqs b) = db_records b @ rs"
proof -
  have "\<exists>rs. db_records (fold (\<lambda>(i :: nat, f :: real). emit clock (g i f)) xs b) = db_records b @ rs" for g xs
  proof (induction xs arbitrary: b)
    case (Cons x xs)
    from Cons.IH [of "emit clock (g (fst x) (snd x)) b"] show ?case by (auto simp: split_beta)
  qed simp
  then show ?thesis unfolding emit_cpu_frequency_def .
qed

text \<open>
  A collection with a previous reading of the same cores reports the percentages of each core between the
  two readings, in the order of the file, and keeps the new reading; the first collection reports none.
\<close>

lemma cpu_collect_reports_cores:
  assumes "cu_collect_per_core cu" "map cj_name (cs_cores (read_cpu_snapshot fs)) = map cj_name (cs_cores (cu_prev cu))"
  shows "\<exists>cu' b rs rest. cpu_utilization_collect xreal junk n clock fs cu = (cu', Value b) \<and>
    db_records b = rs @ rest \<and> cu_prev cu' = read_cpu_snapshot fs \<and> cu_has_prev cu' \<and>
    (if cu_has_prev cu
     then list_all2 (\<lambda>(p, c) r. reports_core p c r) (zip (cs_cores (cu_prev cu)) (cs_cores (read_cpu_snapshot fs))) rs
     else rs = [])"
proof -
  let ?cur = "read_cpu_snapshot fs"
  let ?tail = "\<lambda>b. let b = emit_load_avg clock (read_load_avg xreal fs) b; b = emit_run_queue clock ?cur b
      in if cu_collect_freq cu then emit_cpu_frequency clock (read_cpu_frequencies_mhz fs junk n) b else b"
  have tail: "\<exists>rest. db_records (?tail b) = db_records b @ rest" for b
    using emit_cpu_frequency_records [of clock "read_cpu_frequencies_mhz fs junk n"
        "emit_run_queue clock ?cur (emit_load_avg clock (read_load_avg xreal fs) b)"]
    by (auto simp: emit_load_avg_def emit_run_queue_def Let_def)
  show ?thesis
  proof (cases "cu_has_prev cu")
    case False
    from tail [of "new_batch Metrics"] show ?thesis
      by (auto simp: cpu_utilization_collect_def False Let_def new_batch_def)
  next
    case True
    let ?emas = "cu_ema_states cu @ replicate (length (cs_cores ?cur) - length (cu_ema_states cu)) ema_new"
    obtain emas b where e: "emit_cores clock cu 0 (cs_cores ?cur) (?emas, new_batch Metrics) = (emas, b)"
      by (cases "emit_cores clock cu 0 (cs_cores ?cur) (?emas, new_batch Metrics)")
    from emit_cores_reports [of cu "cs_cores ?cur" 0 clock ?emas "new_batch Metrics"] assms e
    have rs: "list_all2 (\<lambda>(p, c) r. reports_core p c r) (zip (cs_cores (cu_prev cu)) (cs_cores ?cur)) (db_records b)"
      by (auto simp: new_batch_def)
    let ?cu = "cu\<lparr>cu_ema_states := emas\<rparr>"
    from tail [of "emit_system_counters clock ?cur ?cu b"] obtain rest where
      "db_records (?tail (emit_system_counters clock ?cur ?cu b)) = db_records b @ rest"
      by (auto simp: emit_system_counters_def Let_def)
    with rs show ?thesis
      by (auto simp: cpu_utilization_collect_def emit_cpu_utilization_def True e Let_def)
  qed
qed

end
