(* ===== verification/ProcessCpu.thy ===== *)
theory ProcessCpu
  imports CpuSources "HOL-Library.Multiset"
begin

text \<open>
  The pull source \<open>process_cpu\<close> (\<open>src/sources/cpu/process_cpu/process_cpu.h\<close>): it ranks the processes
  by their share of the processor since the previous collection, and looks into the threads of the busy
  ones. \<open>std::regex\<close> is the parameters \<open>rx_valid\<close> and \<open>rx_search\<close>; \<open>std::sort\<close>, which leaves the order
  of equal elements open, is the parameter \<open>srt\<close>.
\<close>

section \<open>State\<close>

record thread_snapshot =
  th_tid :: u32
  th_comm :: string
  th_utime :: u64
  th_stime :: u64
  th_state :: char

record process_cpu =
  pc_interval_ms :: u32
  pc_top_n :: u32
  pc_thread_detail_threshold_pct :: real
  pc_thread_detail_pids :: "u32 list"
  pc_num_cpus :: nat
  pc_include :: "string option"
  pc_exclude :: "string option"
  pc_prev_total_jiffies :: u64
  pc_prev_snapshots :: "u32 \<rightharpoonup> process_stat"
  pc_prev_thread_snapshots :: "u64 \<rightharpoonup> thread_snapshot"

definition process_cpu_new :: process_cpu where
  "process_cpu_new = \<lparr>pc_interval_ms = 2000, pc_top_n = 50, pc_thread_detail_threshold_pct = 3,
     pc_thread_detail_pids = [], pc_num_cpus = 1, pc_include = None, pc_exclude = None,
     pc_prev_total_jiffies = 0, pc_prev_snapshots = Map.empty, pc_prev_thread_snapshots = Map.empty\<rparr>"

definition process_cpu_init ::
  "(string \<Rightarrow> real option) \<Rightarrow> (string \<Rightarrow> bool) \<Rightarrow> files \<Rightarrow> config_value \<Rightarrow> process_cpu \<Rightarrow> process_cpu" where
  "process_cpu_init stod rx_valid fs config pc =
     (let include_re = as_string (cv_child ''include_comm_regex'' config) [];
          exclude_re = as_string (cv_child ''exclude_comm_regex'' config) [];
          pids_str = as_string (cv_child ''thread_detail_pids'' config) []
      in pc\<lparr>pc_interval_ms := word_of_int (as_int (cv_child ''interval_ms'' config) 2000),
            pc_top_n := word_of_int (as_int (cv_child ''top_n'' config) 50),
            pc_thread_detail_threshold_pct :=
              as_double stod (cv_child ''thread_detail_threshold_pct'' config) 3,
            pc_include := (if include_re \<noteq> [] \<and> include_re \<noteq> ''.*'' \<and> rx_valid include_re
                           then Some include_re else pc_include pc),
            pc_exclude := (if exclude_re \<noteq> [] \<and> rx_valid exclude_re then Some exclude_re else pc_exclude pc),
            pc_thread_detail_pids := pc_thread_detail_pids pc @
              List.map_filter (\<lambda>tok. map_option ucast (stoul tok)) (getlines (CHR '','') pids_str),
            pc_prev_total_jiffies := read_total_cpu_jiffies fs,
            pc_num_cpus := count_online_cpus fs\<rparr>)"

section \<open>Ranking\<close>

record ranked_process =
  rk_snap :: process_stat
  rk_cpu_user_pct :: real
  rk_cpu_sys_pct :: real
  rk_cpu_total_pct :: real
  rk_has_prev :: bool

definition delta_pct :: "nat \<Rightarrow> u64 \<Rightarrow> u64 \<Rightarrow> u64 \<Rightarrow> real" where
  "delta_pct num_cpus delta_total cur prev =
     100 * real (unat (if prev < cur then cur - prev else 0)) / real (unat delta_total) * real num_cpus"

definition passes_filters :: "(string \<Rightarrow> string \<Rightarrow> bool) \<Rightarrow> process_cpu \<Rightarrow> process_stat \<Rightarrow> bool" where
  "passes_filters rx_search pc ps \<longleftrightarrow>
     (case pc_include pc of None \<Rightarrow> True | Some re \<Rightarrow> rx_search (ps_comm ps) re) \<and>
     (case pc_exclude pc of None \<Rightarrow> True | Some re \<Rightarrow> \<not> rx_search (ps_comm ps) re)"

definition rank_process :: "process_cpu \<Rightarrow> u64 \<Rightarrow> process_stat \<Rightarrow> ranked_process" where
  "rank_process pc delta_total ps =
     (case pc_prev_snapshots pc (ps_pid ps) of
        None \<Rightarrow> \<lparr>rk_snap = ps, rk_cpu_user_pct = 0, rk_cpu_sys_pct = 0, rk_cpu_total_pct = 0, rk_has_prev = False\<rparr>
      | Some prev \<Rightarrow>
          let user = delta_pct (pc_num_cpus pc) delta_total (ps_utime ps) (ps_utime prev);
              sys = delta_pct (pc_num_cpus pc) delta_total (ps_stime ps) (ps_stime prev)
          in \<lparr>rk_snap = ps, rk_cpu_user_pct = user, rk_cpu_sys_pct = sys, rk_cpu_total_pct = user + sys,
              rk_has_prev = True\<rparr>)"

definition ranked_processes ::
  "(string \<Rightarrow> string \<Rightarrow> bool) \<Rightarrow> (ranked_process list \<Rightarrow> ranked_process list) \<Rightarrow> process_cpu \<Rightarrow> u64 \<Rightarrow>
   process_stat list \<Rightarrow> ranked_process list" where
  "ranked_processes rx_search srt pc delta_total raw =
     take (unat (pc_top_n pc)) (srt (map (rank_process pc delta_total) (filter (passes_filters rx_search pc) raw)))"

section \<open>Threads\<close>

definition make_thread_key :: "u32 \<Rightarrow> u32 \<Rightarrow> u64" where
  "make_thread_key pid tid = push_bit 32 (ucast pid) OR ucast tid"

type_synonym report_state = "data_batch \<times> (u64 \<rightharpoonup> thread_snapshot)"

definition thread_record ::
  "u32 \<Rightarrow> int \<Rightarrow> string \<Rightarrow> process_stat \<Rightarrow> real \<Rightarrow> real \<Rightarrow> data_record \<Rightarrow> data_record" where
  "thread_record pid tid parent_comm ts user sys r =
     set_fields [(''cpu_user_pct'', FDouble user), (''cpu_sys_pct'', FDouble sys),
         (''cpu_total_pct'', FDouble (user + sys)), (''state'', FString [ps_state ts])]
       (push_label ''parent_comm'' parent_comm (push_label ''comm'' (ps_comm ts)
         (push_label ''tid'' (show_int tid) (push_label ''pid'' (show_nat (unat pid))
           (push_label ''type'' ''thread'' (push_label ''source'' ''process_cpu'' r))))))"

definition report_thread ::
  "(nat \<Rightarrow> u64) \<Rightarrow> process_cpu \<Rightarrow> u64 \<Rightarrow> u32 \<Rightarrow> string \<Rightarrow> int \<Rightarrow> process_stat \<Rightarrow> report_state \<Rightarrow> report_state" where
  "report_thread clock pc delta_total pid parent_comm tid ts st =
     (let (b, threads) = st; key = make_thread_key pid (word_of_int tid);
          snap = \<lparr>th_tid = word_of_int tid, th_comm = ps_comm ts, th_utime = ps_utime ts,
                  th_stime = ps_stime ts, th_state = ps_state ts\<rparr>;
          threads' = threads(key \<mapsto> snap)
      in case threads key of
           None \<Rightarrow> (b, threads')
         | Some prev \<Rightarrow>
             let user = delta_pct (pc_num_cpus pc) delta_total (ps_utime ts) (th_utime prev);
                 sys = delta_pct (pc_num_cpus pc) delta_total (ps_stime ts) (th_stime prev)
             in (emit clock (thread_record pid tid parent_comm ts user sys) b, threads'))"

text \<open>
  The loop over the entries of the task directory. \<open>None\<close> is the exception of \<open>parse_proc_stat\<close>, which
  nothing catches.
\<close>

fun thread_entries ::
  "(nat \<Rightarrow> u64) \<Rightarrow> files \<Rightarrow> process_cpu \<Rightarrow> u64 \<Rightarrow> u32 \<Rightarrow> string \<Rightarrow> (string \<times> bool) list \<Rightarrow> report_state \<Rightarrow>
   report_state option" where
  "thread_entries clock fs pc delta_total pid parent_comm [] st = Some st"
| "thread_entries clock fs pc delta_total pid parent_comm ((name, is_dir) # entries) st =
     (case (if is_dir then pid_of_name name else None) of
        None \<Rightarrow> thread_entries clock fs pc delta_total pid parent_comm entries st
      | Some tid \<Rightarrow>
          (case parse_proc_stat fs (''/proc/'' @ show_nat (unat pid) @ ''/task/'' @ name @ ''/stat'')
                  (default_process_stat\<lparr>ps_pid := word_of_int tid\<rparr>) of
             None \<Rightarrow> None
           | Some (False, _) \<Rightarrow> thread_entries clock fs pc delta_total pid parent_comm entries st
           | Some (True, ts) \<Rightarrow>
               thread_entries clock fs pc delta_total pid parent_comm entries
                 (report_thread clock pc delta_total pid parent_comm tid ts st)))"

definition collect_threads ::
  "(nat \<Rightarrow> u64) \<Rightarrow> files \<Rightarrow> (string \<Rightarrow> (string \<times> bool) list option) \<Rightarrow> process_cpu \<Rightarrow> u64 \<Rightarrow> u32 \<Rightarrow> string \<Rightarrow>
   report_state \<Rightarrow> report_state option" where
  "collect_threads clock fs dirs pc delta_total pid parent_comm st =
     (case dirs (''/proc/'' @ show_nat (unat pid) @ ''/task'') of
        None \<Rightarrow> Some st
      | Some entries \<Rightarrow> thread_entries clock fs pc delta_total pid parent_comm entries st)"

section \<open>Collect\<close>

definition process_record :: "ranked_process \<Rightarrow> data_record \<Rightarrow> data_record" where
  "process_record rp r =
     (let ps = rk_snap rp
      in set_fields [(''cpu_user_pct'', FDouble (rk_cpu_user_pct rp)), (''cpu_sys_pct'', FDouble (rk_cpu_sys_pct rp)),
             (''cpu_total_pct'', FDouble (rk_cpu_total_pct rp)), (''state'', FString [ps_state ps]),
             (''num_threads'', FUint (ucast (ps_num_threads ps))), (''rss_kb'', FUint (ps_rss_pages ps * 4)),
             (''vsize_kb'', FUint (ps_vsize ps div 1024)),
             (''voluntary_ctxt_switches'', FUint (ps_voluntary_ctxt_switches ps)),
             (''nonvoluntary_ctxt_switches'', FUint (ps_nonvoluntary_ctxt_switches ps))]
           (push_label ''comm'' (ps_comm ps) (push_label ''pid'' (show_nat (unat (ps_pid ps)))
             (push_label ''type'' ''process'' (push_label ''source'' ''process_cpu'' r)))))"

fun report_processes ::
  "(nat \<Rightarrow> u64) \<Rightarrow> files \<Rightarrow> (string \<Rightarrow> (string \<times> bool) list option) \<Rightarrow> process_cpu \<Rightarrow> u64 \<Rightarrow>
   ranked_process list \<Rightarrow> report_state \<Rightarrow> report_state option" where
  "report_processes clock fs dirs pc delta_total [] st = Some st"
| "report_processes clock fs dirs pc delta_total (rp # rps) st =
     (if \<not> rk_has_prev rp then report_processes clock fs dirs pc delta_total rps st
      else
        let ps = rk_snap rp; st = (emit clock (process_record rp) (fst st), snd st);
            expand_threads = (ps_pid ps \<in> set (pc_thread_detail_pids pc) \<or>
                              pc_thread_detail_threshold_pct pc \<le> rk_cpu_total_pct rp)
        in case (if expand_threads
                 then collect_threads clock fs dirs pc delta_total (ps_pid ps) (ps_comm ps) st
                 else Some st) of
             None \<Rightarrow> None
           | Some st \<Rightarrow> report_processes clock fs dirs pc delta_total rps st)"

definition elapsed_jiffies :: "files \<Rightarrow> process_cpu \<Rightarrow> u64" where
  "elapsed_jiffies fs pc =
     (let delta = read_total_cpu_jiffies fs - pc_prev_total_jiffies pc in if delta = 0 then 1 else delta)"

text \<open>The directories are a parameter; one that cannot be opened is \<open>None\<close>.\<close>

definition process_cpu_collect ::
  "(string \<Rightarrow> string \<Rightarrow> bool) \<Rightarrow> (ranked_process list \<Rightarrow> ranked_process list) \<Rightarrow> (nat \<Rightarrow> u64) \<Rightarrow> files \<Rightarrow>
   (string \<Rightarrow> (string \<times> bool) list option) \<Rightarrow> process_cpu \<Rightarrow> (process_cpu \<times> data_batch status_or) option" where
  "process_cpu_collect rx_search srt clock fs dirs pc =
     (let cur_total = read_total_cpu_jiffies fs; delta_total = elapsed_jiffies fs pc
      in case (case dirs ''/proc'' of None \<Rightarrow> Some [] | Some entries \<Rightarrow> scan_processes fs entries) of
           None \<Rightarrow> None
         | Some raw \<Rightarrow>
             (case report_processes clock fs dirs pc delta_total
                     (ranked_processes rx_search srt pc delta_total raw)
                     (new_batch Metrics, pc_prev_thread_snapshots pc) of
                None \<Rightarrow> None
              | Some (b, threads) \<Rightarrow>
                  Some (pc\<lparr>pc_prev_thread_snapshots := threads,
                           pc_prev_snapshots := fold (\<lambda>ps m. m(ps_pid ps \<mapsto> ps)) raw Map.empty,
                           pc_prev_total_jiffies := cur_total\<rparr>, Value b)))"

section \<open>The busiest processes\<close>

definition is_process_record :: "data_record \<Rightarrow> bool" where
  "is_process_record r \<longleftrightarrow> (''type'', ''process'') \<in> set (rc_labels r)"

definition reports_process :: "ranked_process \<Rightarrow> data_record \<Rightarrow> bool" where
  "reports_process rp r \<longleftrightarrow>
     {(''pid'', show_nat (unat (ps_pid (rk_snap rp)))), (''comm'', ps_comm (rk_snap rp))} \<subseteq> set (rc_labels r) \<and>
     get_field ''cpu_user_pct'' r = Some (FDouble (rk_cpu_user_pct rp)) \<and>
     get_field ''cpu_sys_pct'' r = Some (FDouble (rk_cpu_sys_pct rp)) \<and>
     get_field ''cpu_total_pct'' r = Some (FDouble (rk_cpu_total_pct rp))"

definition busier :: "ranked_process \<Rightarrow> ranked_process \<Rightarrow> bool" where
  "busier a b \<longleftrightarrow> rk_cpu_total_pct b \<le> rk_cpu_total_pct a"

text \<open>The documented behaviour of \<open>std::sort\<close> with the comparison of \<open>Collect\<close>.\<close>

definition sorts_busiest_first :: "(ranked_process list \<Rightarrow> ranked_process list) \<Rightarrow> bool" where
  "sorts_busiest_first srt \<longleftrightarrow> (\<forall>xs. mset (srt xs) = mset xs \<and> sorted_wrt busier (srt xs))"

lemma sort_key_busiest_first: "sorts_busiest_first (sort_key (\<lambda>rp. - rk_cpu_total_pct rp))"
proof -
  have "sorted_wrt busier (sort_key (\<lambda>rp. - rk_cpu_total_pct rp) xs)" for xs
    using sorted_sort_key [of "\<lambda>rp. - rk_cpu_total_pct rp" xs]
    by (auto simp: sorted_wrt_map busier_def elim: sorted_wrt_mono_rel [rotated])
  then show ?thesis by (simp add: sorts_busiest_first_def)
qed

lemma thread_record_kind: "rc_labels r = [] \<Longrightarrow> \<not> is_process_record (thread_record pid tid parent ts u v r)"
  by (simp add: is_process_record_def thread_record_def)

lemma report_thread_processes:
  "filter is_process_record (db_records (fst (report_thread clock pc dt pid parent tid ts st))) =
   filter is_process_record (db_records (fst st))"
  by (simp add: report_thread_def split_beta Let_def thread_record_kind split: option.split)

lemma thread_entries_processes:
  "thread_entries clock fs pc dt pid parent entries st = Some st' \<Longrightarrow>
   filter is_process_record (db_records (fst st')) = filter is_process_record (db_records (fst st))"
proof (induction clock fs pc dt pid parent entries st rule: thread_entries.induct)
  case (2 clock fs pc dt pid parent name is_dir entries st)
  from 2 show ?case
    by (auto split: option.splits if_splits prod.splits bool.splits simp: report_thread_processes)
qed simp

lemma collect_threads_processes:
  "collect_threads clock fs dirs pc dt pid parent st = Some st' \<Longrightarrow>
   filter is_process_record (db_records (fst st')) = filter is_process_record (db_records (fst st))"
  using thread_entries_processes by (auto simp: collect_threads_def split: option.splits)

lemma process_record_reports:
  assumes "rc_labels r = []"
  shows "is_process_record (process_record rp r) \<and> reports_process rp (process_record rp r)"
  unfolding is_process_record_def reports_process_def process_record_def Let_def
  by (intro conjI get_field_set_fields) (simp_all add: assms)

lemma report_processes_records:
  "report_processes clock fs dirs pc dt rps st = Some st' \<Longrightarrow>
   \<exists>rs. filter is_process_record (db_records (fst st')) = filter is_process_record (db_records (fst st)) @ rs \<and>
     list_all2 reports_process (filter rk_has_prev rps) rs"
proof (induction rps arbitrary: st)
  case (Cons rp rps)
  show ?case
  proof (cases "rk_has_prev rp")
    case False
    with Cons show ?thesis by simp
  next
    case True
    let ?st = "(emit clock (process_record rp) (fst st), snd st)"
    let ?r = "process_record rp \<lparr>rc_timestamp = clock (length (db_records (fst st))), rc_labels = [], rc_fields = []\<rparr>"
    from True Cons.prems obtain st1 where rest: "report_processes clock fs dirs pc dt rps st1 = Some st'"
      and st1: "st1 = ?st \<or>
        collect_threads clock fs dirs pc dt (ps_pid (rk_snap rp)) (ps_comm (rk_snap rp)) ?st = Some st1"
      by (auto simp: Let_def split: option.splits if_splits)
    have r: "is_process_record ?r" "reports_process rp ?r" by (simp_all add: process_record_reports)
    have "filter is_process_record (db_records (fst st1)) = filter is_process_record (db_records (fst ?st))"
      using st1 collect_threads_processes by blast
    with r(1) have recs: "filter is_process_record (db_records (fst st1)) =
        filter is_process_record (db_records (fst st)) @ [?r]" by simp
    from Cons.IH [OF rest] obtain rs where
      "filter is_process_record (db_records (fst st')) = filter is_process_record (db_records (fst st1)) @ rs"
      "list_all2 reports_process (filter rk_has_prev rps) rs" by blast
    with recs r(2) True show ?thesis by (intro exI [of _ "?r # rs"]) simp
  qed
qed simp

text \<open>
  The process source reports the busiest processes. Whatever order sorting gives to equals, the
  process records of a collection are, busiest first, at most \<open>top_n\<close> of the scanned processes that pass
  the name filters and were there at the previous collection; each has its own shares, and no such process
  that is left out was busier than one that is reported.
\<close>

theorem process_cpu_top_n:
  assumes "sorts_busiest_first srt" and "dirs ''/proc'' = Some entries" "scan_processes fs entries = Some raw"
    and "process_cpu_collect rx_search srt clock fs dirs pc = Some (pc', Value b)"
  defines "candidates \<equiv> filter rk_has_prev
      (map (rank_process pc (elapsed_jiffies fs pc)) (filter (passes_filters rx_search pc) raw))"
  shows "\<exists>rps. list_all2 reports_process rps (filter is_process_record (db_records b)) \<and>
    length rps \<le> unat (pc_top_n pc) \<and> sorted_wrt busier rps \<and> set rps \<subseteq> set candidates \<and>
    (\<forall>rp \<in> set candidates - set rps. \<forall>q \<in> set rps. busier q rp)"
proof -
  let ?dt = "elapsed_jiffies fs pc"
  let ?all = "map (rank_process pc ?dt) (filter (passes_filters rx_search pc) raw)"
  let ?n = "unat (pc_top_n pc)" and ?rps = "filter rk_has_prev (ranked_processes rx_search srt pc ?dt raw)"
  from assms(2-4) obtain threads where rep: "report_processes clock fs dirs pc ?dt
      (ranked_processes rx_search srt pc ?dt raw) (new_batch Metrics, pc_prev_thread_snapshots pc) = Some (b, threads)"
    by (auto simp: process_cpu_collect_def Let_def split: option.splits)
  from report_processes_records [OF rep] have recs: "list_all2 reports_process ?rps (filter is_process_record (db_records b))"
    by (auto simp: new_batch_def)
  have ranked: "ranked_processes rx_search srt pc ?dt raw = take ?n (srt ?all)" by (simp add: ranked_processes_def)
  have srt: "mset (srt ?all) = mset ?all" "sorted_wrt busier (srt ?all)"
    using assms(1) by (simp_all add: sorts_busiest_first_def)
  have sorted: "sorted_wrt busier ?rps"
    unfolding ranked using srt(2) by (simp add: sorted_wrt_filter sorted_wrt_take)
  have len: "length ?rps \<le> ?n"
    unfolding ranked by (rule order_trans [OF length_filter_le]) simp
  have same: "set (srt ?all) = set ?all" by (rule mset_eq_setD [OF srt(1)])
  have "busier q rp" if "rp \<in> set candidates - set ?rps" "q \<in> set ?rps" for rp q
  proof -
    from that(1) same have "rp \<in> set (srt ?all)" "rp \<notin> set (take ?n (srt ?all))"
      by (auto simp: candidates_def ranked)
    then have "rp \<in> set (drop ?n (srt ?all))"
      by (metis append_take_drop_id UnE set_append)
    moreover have "q \<in> set (take ?n (srt ?all))" using that(2) by (simp add: ranked)
    ultimately show ?thesis
      using srt(2) by (metis append_take_drop_id sorted_wrt_append)
  qed
  moreover have "set ?rps \<subseteq> set candidates"
    using same set_take_subset [of ?n "srt ?all"] by (auto simp: candidates_def ranked)
  ultimately show ?thesis using recs len sorted by blast
qed

lemma process_cpu_top_n_witness:
  defines "is \<equiv> [1, 7, 7, 0, -1, 0, 0, 0, 0, 0, 70, 30, 0, 0, 20, 0, 4, 0, 99, 4096, 12]"
  defines "fs \<equiv> \<lambda>path. if path = ''/proc/7/stat''
      then Some (show_nat 7 @ '' ('' @ ''a'' @ '') '' @ [CHR ''S''] @ print_ints is @ []) else None"
    and "dirs \<equiv> \<lambda>path. if path = ''/proc'' then Some [(''7'', True), (''net'', True)] else None"
    and "pc \<equiv> process_cpu_new\<lparr>pc_top_n := 1, pc_prev_snapshots := [7 \<mapsto> default_process_stat]\<rparr>"
    and "srt \<equiv> sort_key (\<lambda>rp. - rk_cpu_total_pct rp)"
  shows "\<exists>pc' b. process_cpu_collect (\<lambda>_ _. True) srt (\<lambda>_. 0) fs dirs pc = Some (pc', Value b) \<and>
    length (filter is_process_record (db_records b)) \<le> 1"
proof -
  let ?ps = "default_process_stat\<lparr>ps_pid := 7, ps_comm := ''a'', ps_utime := 70, ps_stime := 30,
      ps_num_threads := 4, ps_starttime := 99, ps_vsize := 4096, ps_rss_pages := 12, ps_state := CHR ''S''\<rparr>"
  have scan: "scan_processes fs [(''7'', True), (''net'', True)] = Some [?ps]"
  proof -
    have "\<not> is_space (CHR ''7'')" "is_digit (CHR ''7'')" "digit_value (CHR ''7'') = 7" "\<not> is_space (CHR ''n'')"
      "\<not> is_digit (CHR ''n'')" "\<not> is_space (CHR ''S'')"
      by (simp_all add: is_space_def is_digit_def digit_value_def)
    note chars [simp] = this
    have "pid_of_name ''7'' = Some 7" "pid_of_name ''net'' = None"
      by (simp_all add: pid_of_name_def split_sign_def Let_def)
    moreover have "parse_proc_stat fs ''/proc/7/stat'' (default_process_stat\<lparr>ps_pid := 7\<rparr>) = Some (True, ?ps)"
      using parse_printed_stat [of fs "''/proc/7/stat''" 7 "''a''" "CHR ''S''" "is" "[]" "default_process_stat\<lparr>ps_pid := 7\<rparr>"]
      by (simp add: fs_def is_def stat_kinds_def)
    ultimately show ?thesis by simp
  qed
  have total: "read_total_cpu_jiffies fs = 0" by (simp add: read_total_cpu_jiffies_def fs_def)
  have d: "dirs ''/proc'' = Some [(''7'', True), (''net'', True)]" by (simp add: dirs_def)
  have "\<exists>r. report_processes (\<lambda>_. 0) fs dirs pc dt rps st = Some r" if "length rps \<le> 1" for dt rps st
    using that by (cases rps) (auto simp: Let_def collect_threads_def dirs_def)
  moreover have "length (ranked_processes (\<lambda>_ _. True) srt pc dt raw) \<le> 1" for dt raw
    by (simp add: ranked_processes_def pc_def)
  ultimately obtain r where "report_processes (\<lambda>_. 0) fs dirs pc (elapsed_jiffies fs pc)
      (ranked_processes (\<lambda>_ _. True) srt pc (elapsed_jiffies fs pc) [?ps]) (new_batch Metrics, pc_prev_thread_snapshots pc) = Some r"
    by blast
  then obtain pc' b where c: "process_cpu_collect (\<lambda>_ _. True) srt (\<lambda>_. 0) fs dirs pc = Some (pc', Value b)"
    by (cases r) (simp add: process_cpu_collect_def d scan Let_def del: scan_processes.simps)
  from process_cpu_top_n [OF _ d scan c] sort_key_busiest_first
  obtain rps where "list_all2 reports_process rps (filter is_process_record (db_records b))" "length rps \<le> 1"
    by (auto simp: srt_def pc_def)
  with c show ?thesis by (auto dest: list_all2_lengthD)
qed

end
