(* ===== verification/SymbolTables.thy ===== *)
theory SymbolTables
  imports Scanf Status "HOL-Library.Multiset"
begin

text \<open>
  The symbol tables of \<open>src/processors/stack_symbolizer/stack_symbolizer.h\<close>: the memory map of a
  process, the symbols of an ELF file and those of the kernel. The contents of a file are its bytes.
  \<open>ElfSymbolCache::Load\<close> reads the structures of the file without comparing their offsets with its
  size: a read outside is the outer result \<open>None\<close>. \<open>std::sort\<close> leaves the order of equal addresses
  open; it is the parameter \<open>srt\<close>.
\<close>

section \<open>Memory maps\<close>

record proc_map_entry =
  me_start :: u64
  me_end :: u64
  me_offset :: u64
  me_path :: string

definition parse_proc_maps_line :: "string \<Rightarrow> proc_map_entry option" where
  "parse_proc_maps_line line = do {
     (start, s) \<leftarrow> scan_lx (c_str line);
     s \<leftarrow> scan_literal ''-'' s;
     (end, s) \<leftarrow> scan_lx s;
     (perms, s) \<leftarrow> scan_s 7 s;
     (offset, s) \<leftarrow> scan_lx s;
     (dev, s) \<leftarrow> scan_s 15 s;
     (inode, s) \<leftarrow> scan_lu s;
     let path = (case scan_some (\<lambda>c. c \<noteq> newline) 1023 (dropWhile is_space s) of None \<Rightarrow> [] | Some (p, _) \<Rightarrow> p);
     Some \<lparr>me_start = start, me_end = end, me_offset = offset,
           me_path = dropWhile (\<lambda>c. c = CHR '' '' \<or> c = CHR 0x09) path\<rparr>
   }"

text \<open>The lines that are kept: absolute paths.\<close>

definition maps_of :: "string \<Rightarrow> proc_map_entry list" where
  "maps_of content =
     filter (\<lambda>m. me_path m \<noteq> [] \<and> hd (me_path m) = CHR ''/'')
       (List.map_filter parse_proc_maps_line (text_lines content))"

text \<open>A line of the kernel: addresses padded with zeros, then the path at some column.\<close>

definition maps_line :: "nat \<Rightarrow> nat \<Rightarrow> nat \<Rightarrow> nat \<Rightarrow> string \<Rightarrow> nat \<Rightarrow> string \<Rightarrow> nat \<Rightarrow> nat \<Rightarrow> string \<Rightarrow> string" where
  "maps_line pad1 start pad2 end perms offset dev inode column path =
     replicate pad1 (CHR ''0'') @ show_hex start @ ''-'' @ replicate pad2 (CHR ''0'') @ show_hex end @
     '' '' @ perms @ '' '' @ show_hex offset @ '' '' @ dev @ '' '' @ show_nat inode @
     replicate column (CHR '' '') @ path"

lemma dropWhile_spaces: "list_all is_space xs \<Longrightarrow> dropWhile is_space (xs @ ys) = dropWhile is_space ys"
  by (induction xs) auto

lemma c_str_id: "CHR 0x00 \<notin> set s \<Longrightarrow> c_str s = s"
  by (simp add: c_str_def takeWhile_eq_all_conv) metis

lemma parse_maps_line:
  assumes "start < 2 ^ 64" "end < 2 ^ 64" "offset < 2 ^ 64" "inode < 2 ^ 64"
    and "list_all (\<lambda>c. \<not> is_space c) perms" "perms \<noteq> []" "length perms \<le> 7"
    and "list_all (\<lambda>c. \<not> is_space c) dev" "dev \<noteq> []" "length dev \<le> 15"
    and "path = CHR ''/'' # p" "0 < column" "length path \<le> 1023" "newline \<notin> set path"
    and "CHR 0x00 \<notin> set (maps_line pad1 start pad2 end perms offset dev inode column path)"
  shows "parse_proc_maps_line (maps_line pad1 start pad2 end perms offset dev inode column path) =
    Some \<lparr>me_start = of_nat start, me_end = of_nat end, me_offset = of_nat offset, me_path = path\<rparr>"
proof -
  let ?r6 = "replicate column (CHR '' '') @ path"
  let ?r5 = "CHR '' '' # show_nat inode @ ?r6"
  let ?r4 = "CHR '' '' # dev @ ?r5"
  let ?r3 = "CHR '' '' # show_hex offset @ ?r4"
  let ?r2 = "CHR '' '' # perms @ ?r3"
  let ?r1 = "replicate pad2 (CHR ''0'') @ show_hex end @ ?r2"
  have l: "c_str (maps_line pad1 start pad2 end perms offset dev inode column path) =
      replicate pad1 (CHR ''0'') @ show_hex start @ CHR ''-'' # ?r1"
    using c_str_id [OF assms(15)] by (simp add: maps_line_def)
  have 1: "scan_lx (replicate pad1 (CHR ''0'') @ show_hex start @ CHR ''-'' # ?r1) = Some (of_nat start, CHR ''-'' # ?r1)"
    by (rule scan_lx_show [OF assms(1)]) (simp add: not_hex_literals)
  have 2: "scan_lx ?r1 = Some (of_nat end, ?r2)"
    by (rule scan_lx_show [OF assms(2)]) (simp add: not_hex_literals)
  have 3: "scan_s 7 ?r2 = Some (perms, ?r3)"
    by (rule scan_s_word [OF assms(5-7)]) (simp add: is_space_def)
  have 4: "scan_lx ?r3 = Some (of_nat offset, ?r4)"
    using scan_lx_show [OF assms(3), of ?r4 0] by (simp add: skip_space not_hex_literals)
  have 5: "scan_s 15 ?r4 = Some (dev, ?r5)"
    by (rule scan_s_word [OF assms(8-10)]) (simp add: is_space_def)
  have 6: "scan_lu ?r5 = Some (of_nat inode, ?r6)"
    unfolding skip_space by (rule scan_lu_show [OF assms(4)]) (use assms(12) in \<open>cases column; simp\<close>)
  have "dropWhile is_space ?r6 = path"
    using assms(11) by (subst dropWhile_spaces) (simp_all add: list_all_iff is_space_def)
  moreover have "scan_some (\<lambda>c. c \<noteq> newline) 1023 path = Some (path, [])"
    using scan_some_all [of "\<lambda>c. c \<noteq> newline" path 1023 "[]"] assms(11,13,14) by (auto simp: list_all_iff)
  ultimately show ?thesis
    unfolding parse_proc_maps_line_def l 1 using 2 3 4 5 6 assms(11)
    by (simp add: scan_literal_def Let_def)
qed

section \<open>Sorted symbols\<close>

text \<open>\<open>std::upper_bound\<close> on a sequence sorted by address: the position after those up to the address.\<close>

definition upper_bound :: "('s \<Rightarrow> u64) \<Rightarrow> 's list \<Rightarrow> u64 \<Rightarrow> nat" where
  "upper_bound value syms addr = length (takeWhile (\<lambda>s. value s \<le> addr) syms)"

definition last_at_most :: "('s \<Rightarrow> u64) \<Rightarrow> 's list \<Rightarrow> u64 \<Rightarrow> 's option" where
  "last_at_most value syms addr =
     (let n = upper_bound value syms addr in if n = 0 then None else Some (syms ! (n - 1)))"

definition sorts_by :: "('s \<Rightarrow> u64) \<Rightarrow> ('s list \<Rightarrow> 's list) \<Rightarrow> bool" where
  "sorts_by value srt \<longleftrightarrow> (\<forall>xs. mset (srt xs) = mset xs \<and> sorted (map value (srt xs)))"

lemma sorts_by_sort_key: "sorts_by value (sort_key value)"
  by (simp add: sorts_by_def)

lemma sorts_by_set: "sorts_by value srt \<Longrightarrow> set (srt xs) = set xs"
  unfolding sorts_by_def by (metis mset_eq_setD)

lemma last_at_most_Some:
  assumes "sorted (map value syms)" "last_at_most value syms addr = Some s"
  shows "s \<in> set syms \<and> value s \<le> addr \<and> (\<forall>t \<in> set syms. value t \<le> addr \<longrightarrow> value t \<le> value s)"
proof -
  define n where "n = upper_bound value syms addr"
  from assms(2) have n: "n \<noteq> 0" "s = syms ! (n - 1)"
    by (auto simp: last_at_most_def n_def Let_def split: if_splits)
  have le: "n \<le> length syms" by (simp add: n_def upper_bound_def length_takeWhile_le)
  have at: "value (syms ! (n - 1)) \<le> addr"
    using n(1) takeWhile_nth [of "n - 1" "\<lambda>s. value s \<le> addr" syms] nth_mem
      set_takeWhileD [of "syms ! (n - 1)" "\<lambda>s. value s \<le> addr" syms]
    by (metis diff_less n_def neq0_conv upper_bound_def zero_less_one)
  have "value t \<le> value s" if "t \<in> set syms" "value t \<le> addr" for t
  proof -
    from that(1) obtain i where i: "i < length syms" "t = syms ! i" by (metis in_set_conv_nth)
    have "i < n"
    proof (rule ccontr)
      assume "\<not> i < n"
      then have j: "n \<le> i" "n < length syms" using i(1) by simp_all
      then have "\<not> value (syms ! n) \<le> addr"
        using nth_length_takeWhile [of "\<lambda>s. value s \<le> addr" syms] by (simp add: n_def upper_bound_def)
      moreover have "value (syms ! n) \<le> value (syms ! i)"
        using assms(1) j i(1) by (simp add: sorted_iff_nth_mono)
      ultimately show False using that(2) i(2) by simp
    qed
    then show ?thesis
      using assms(1) i n le by (simp add: sorted_iff_nth_mono)
  qed
  with n at le show ?thesis by (metis diff_less less_le_trans neq0_conv nth_mem zero_less_one)
qed

lemma last_at_most_None:
  assumes "sorted (map value syms)"
  shows "last_at_most value syms addr = None \<longleftrightarrow> (\<forall>t \<in> set syms. addr < value t)"
proof (cases syms)
  case (Cons s ss)
  show ?thesis
  proof (cases "value s \<le> addr")
    case False
    then have "\<forall>t \<in> set syms. addr < value t"
      using assms Cons by auto
    with False Cons show ?thesis by (simp add: last_at_most_def upper_bound_def)
  qed (simp add: Cons last_at_most_def upper_bound_def not_less)
qed (simp add: last_at_most_def upper_bound_def)

section \<open>ELF files\<close>

record elf_sym =
  es_value :: u64
  es_name :: string
  es_size :: u64

text \<open>A little-endian field of \<open>n\<close> bytes at an offset of the buffer.\<close>

definition read_le :: "string \<Rightarrow> nat \<Rightarrow> nat \<Rightarrow> nat option" where
  "read_le buf off n =
     (if off + n \<le> length buf
      then Some (foldr (\<lambda>c acc. of_char c + 256 * acc) (take n (drop off buf)) 0) else None)"

definition read_cstr :: "string \<Rightarrow> nat \<Rightarrow> string option" where
  "read_cstr buf off =
     (if CHR 0x00 \<in> set (drop off buf) then Some (takeWhile (\<lambda>c. c \<noteq> CHR 0x00) (drop off buf)) else None)"

definition ehdr_size :: nat where "ehdr_size = 64"
definition shdr_size :: nat where "shdr_size = 64"
definition sym_size :: nat where "sym_size = 24"

definition sht_symtab :: nat where "sht_symtab = 2"
definition sht_dynsym :: nat where "sht_dynsym = 11"

text \<open>\<open>STT_OBJECT\<close>, \<open>STT_FUNC\<close> and \<open>STT_GNU_IFUNC\<close>.\<close>

definition wanted_types :: "nat set" where
  "wanted_types = {1, 2, 10}"

record symbol_table =
  tb_symbols :: nat
  tb_count :: nat
  tb_strings :: nat

definition section_table :: "string \<Rightarrow> nat \<Rightarrow> nat \<Rightarrow> symbol_table option" where
  "section_table buf shoff i = do {
     offset \<leftarrow> read_le buf (shoff + shdr_size * i + 24) 8;
     size \<leftarrow> read_le buf (shoff + shdr_size * i + 32) 8;
     link \<leftarrow> read_le buf (shoff + shdr_size * i + 40) 4;
     strings \<leftarrow> read_le buf (shoff + shdr_size * link + 24) 8;
     Some \<lparr>tb_symbols = offset, tb_count = size div sym_size, tb_strings = strings\<rparr>
   }"

text \<open>The first \<open>.symtab\<close>, every section being looked at; else the first \<open>.dynsym\<close>.\<close>

fun find_symtab :: "string \<Rightarrow> nat \<Rightarrow> nat list \<Rightarrow> symbol_table option \<Rightarrow> symbol_table option option" where
  "find_symtab buf shoff [] found = Some found"
| "find_symtab buf shoff (i # is) found = do {
     ty \<leftarrow> read_le buf (shoff + shdr_size * i + 4) 4;
     found \<leftarrow> (if ty = sht_symtab \<and> found = None then map_option Some (section_table buf shoff i) else Some found);
     find_symtab buf shoff is found
   }"

fun find_dynsym :: "string \<Rightarrow> nat \<Rightarrow> nat list \<Rightarrow> symbol_table option option" where
  "find_dynsym buf shoff [] = Some None"
| "find_dynsym buf shoff (i # is) = do {
     ty \<leftarrow> read_le buf (shoff + shdr_size * i + 4) 4;
     if ty = sht_dynsym then map_option Some (section_table buf shoff i) else find_dynsym buf shoff is
   }"

definition read_symbol :: "string \<Rightarrow> symbol_table \<Rightarrow> nat \<Rightarrow> elf_sym option option" where
  "read_symbol buf tab i = do {
     let sym = tb_symbols tab + sym_size * i;
     info \<leftarrow> read_le buf (sym + 4) 1;
     name \<leftarrow> read_le buf sym 4;
     if name = 0 \<or> info mod 16 \<notin> wanted_types then Some None
     else do {
       value \<leftarrow> read_le buf (sym + 8) 8;
       size \<leftarrow> read_le buf (sym + 16) 8;
       if value = 0 \<and> size = 0 then Some None
       else do {
         text \<leftarrow> read_cstr buf (tb_strings tab + name);
         Some (if text = [] then None
               else Some \<lparr>es_value = of_nat value, es_name = text, es_size = of_nat size\<rparr>)
       }
     }
   }"

fun read_symbols :: "string \<Rightarrow> symbol_table \<Rightarrow> nat list \<Rightarrow> elf_sym list option" where
  "read_symbols buf tab [] = Some []"
| "read_symbols buf tab (i # is) = do {
     sym \<leftarrow> read_symbol buf tab i;
     syms \<leftarrow> read_symbols buf tab is;
     Some ((case sym of None \<Rightarrow> [] | Some s \<Rightarrow> [s]) @ syms)
   }"

definition elf_magic :: "string \<Rightarrow> bool" where
  "elf_magic buf \<longleftrightarrow> take 5 buf = [CHR 0x7F, CHR ''E'', CHR ''L'', CHR ''F'', CHR 0x02]"

definition elf_symbols :: "string \<Rightarrow> elf_sym list option" where
  "elf_symbols buf =
     (if length buf < ehdr_size \<or> \<not> elf_magic buf then Some []
      else do {
        shoff \<leftarrow> read_le buf 40 8;
        shentsize \<leftarrow> read_le buf 58 2;
        if shoff = 0 \<or> shentsize \<noteq> shdr_size then Some []
        else do {
          shnum \<leftarrow> read_le buf 60 2;
          found \<leftarrow> find_symtab buf shoff [0..<shnum] None;
          found \<leftarrow> (if found = None then find_dynsym buf shoff [0..<shnum] else Some found);
          case found of None \<Rightarrow> Some [] | Some tab \<Rightarrow> read_symbols buf tab [0..<tb_count tab]
        }
      })"

text \<open>\<open>Load\<close>: the symbols, and whether there is one.\<close>

definition elf_load :: "(elf_sym list \<Rightarrow> elf_sym list) \<Rightarrow> files \<Rightarrow> string \<Rightarrow> elf_sym list option option" where
  "elf_load srt fs path =
     (case fs path of
        None \<Rightarrow> Some None
      | Some buf \<Rightarrow> map_option (\<lambda>syms. if syms = [] then None else Some (srt syms)) (elf_symbols buf))"

definition elf_resolve :: "elf_sym list \<Rightarrow> u64 \<Rightarrow> string" where
  "elf_resolve syms addr =
     (case last_at_most es_value syms addr of
        None \<Rightarrow> []
      | Some s \<Rightarrow> if es_size s \<noteq> 0 \<and> es_value s + es_size s \<le> addr then [] else es_name s)"

section \<open>Kernel symbols\<close>

definition parse_kallsyms_line :: "string \<Rightarrow> (u64 \<times> string) option" where
  "parse_kallsyms_line line = do {
     (addr, s) \<leftarrow> scan_lx (c_str line);
     (t, s) \<leftarrow> scan_c (dropWhile is_space s);
     (name, s) \<leftarrow> scan_s 511 s;
     if t \<in> set ''tTwW'' then Some (addr, name) else None
   }"

definition kernel_load ::
  "((u64 \<times> string) list \<Rightarrow> (u64 \<times> string) list) \<Rightarrow> files \<Rightarrow> (u64 \<times> string) list \<times> status" where
  "kernel_load srt fs =
     (case fs ''/proc/kallsyms'' of
        None \<Rightarrow> ([], status_error Internal ''cannot open /proc/kallsyms'')
      | Some content \<Rightarrow> (srt (List.map_filter parse_kallsyms_line (text_lines content)), status_ok))"

definition kernel_resolve :: "(u64 \<times> string) list \<Rightarrow> u64 \<Rightarrow> string" where
  "kernel_resolve addrs addr = (case last_at_most fst addrs addr of None \<Rightarrow> [] | Some s \<Rightarrow> snd s)"

end
