(* ===== verification/Symbolizer.thy ===== *)
theory Symbolizer
  imports SymbolTables DataBatch Config
begin

text \<open>
  The processor of \<open>src/processors/stack_symbolizer/stack_symbolizer.h\<close>: it gives every frame of the
  samples a name, from the kernel's symbols or from the files a process has mapped, and caches both the
  memory maps (for a time) and the symbols of a file (for ever). The files and the clock are
  parameters: \<open>now\<close> is the time a call starts and \<open>clock pid\<close> the time it loads the maps of a process.
  \<open>__cxa_demangle\<close> is the parameter \<open>dm\<close>, \<open>None\<close> for a name that it refuses. An outer \<open>None\<close> is a read
  outside an ELF file.
\<close>

section \<open>State\<close>

record maps_entry =
  mc_maps :: "proc_map_entry list"
  mc_loaded_at :: int

record symbolizer =
  sy_demangle :: bool
  sy_kernel_symbols :: bool
  sy_cache_ttl_sec :: u32
  sy_jit_map :: bool
  sy_kernel_resolver :: "(u64 \<times> string) list"
  sy_elf_cache :: "string \<rightharpoonup> elf_sym list"
  sy_maps_cache :: "u32 \<rightharpoonup> maps_entry"

definition symbolizer_init ::
  "((u64 \<times> string) list \<Rightarrow> (u64 \<times> string) list) \<Rightarrow> files \<Rightarrow> config_value \<Rightarrow> symbolizer" where
  "symbolizer_init srt fs config =
     (let kernel = as_bool (cv_child ''kernel_symbols'' config) True
      in \<lparr>sy_demangle = as_bool (cv_child ''demangle'' config) True,
          sy_kernel_symbols = kernel,
          sy_cache_ttl_sec = word_of_int (as_int (cv_child ''cache_ttl_sec'' config) 30),
          sy_jit_map = as_bool (cv_child ''jit_map'' config) False,
          sy_kernel_resolver = (if kernel then fst (kernel_load srt fs) else []),
          sy_elf_cache = Map.empty,
          sy_maps_cache = Map.empty\<rparr>)"

section \<open>The caches\<close>

text \<open>Times are in nanoseconds; \<open>duration_cast\<close> truncates.\<close>

definition age_seconds :: "int \<Rightarrow> int \<Rightarrow> int" where
  "age_seconds now loaded_at =
     (let d = now - loaded_at in if d < 0 then - (- d div 10 ^ 9) else d div 10 ^ 9)"

definition expired :: "symbolizer \<Rightarrow> int \<Rightarrow> maps_entry \<Rightarrow> bool" where
  "expired s now e \<longleftrightarrow> uint (sy_cache_ttl_sec s) < age_seconds now (mc_loaded_at e)"

definition purge_expired_maps_caches :: "int \<Rightarrow> symbolizer \<Rightarrow> symbolizer" where
  "purge_expired_maps_caches now s =
     (if sy_cache_ttl_sec s = 0 then s
      else s\<lparr>sy_maps_cache := (\<lambda>pid. case sy_maps_cache s pid of None \<Rightarrow> None
               | Some e \<Rightarrow> if expired s now e then None else Some e)\<rparr>)"

definition maps_path :: "u32 \<Rightarrow> string" where
  "maps_path pid = ''/proc/'' @ show_nat (unat pid) @ ''/maps''"

definition load_maps :: "files \<Rightarrow> (u32 \<Rightarrow> int) \<Rightarrow> u32 \<Rightarrow> maps_entry \<Rightarrow> bool \<times> maps_entry" where
  "load_maps fs clock pid e =
     (case fs (maps_path pid) of
        None \<Rightarrow> (False, e\<lparr>mc_maps := []\<rparr>)
      | Some content \<Rightarrow> (True, e\<lparr>mc_maps := maps_of content, mc_loaded_at := clock pid\<rparr>))"

definition get_elf_cache ::
  "(elf_sym list \<Rightarrow> elf_sym list) \<Rightarrow> files \<Rightarrow> string \<Rightarrow> symbolizer \<Rightarrow> (elf_sym list option \<times> symbolizer) option" where
  "get_elf_cache srt fs path s =
     (case sy_elf_cache s path of
        Some syms \<Rightarrow> Some (Some syms, s)
      | None \<Rightarrow>
          (case elf_load srt fs path of
             None \<Rightarrow> None
           | Some None \<Rightarrow> Some (None, s)
           | Some (Some syms) \<Rightarrow> Some (Some syms, s\<lparr>sy_elf_cache := (sy_elf_cache s)(path \<mapsto> syms)\<rparr>)))"

definition fetch_maps ::
  "files \<Rightarrow> int \<Rightarrow> (u32 \<Rightarrow> int) \<Rightarrow> u32 \<Rightarrow> symbolizer \<Rightarrow> proc_map_entry list option \<times> symbolizer" where
  "fetch_maps fs now clock pid s =
     (case sy_maps_cache s pid of
        None \<Rightarrow>
          let (good, e) = load_maps fs clock pid \<lparr>mc_maps = [], mc_loaded_at = 0\<rparr>
          in if good then (Some (mc_maps e), s\<lparr>sy_maps_cache := (sy_maps_cache s)(pid \<mapsto> e)\<rparr>) else (None, s)
      | Some e \<Rightarrow>
          if 0 < sy_cache_ttl_sec s \<and> expired s now e
          then let e = snd (load_maps fs clock pid e)
               in (Some (mc_maps e), s\<lparr>sy_maps_cache := (sy_maps_cache s)(pid \<mapsto> e)\<rparr>)
          else (Some (mc_maps e), s))"

section \<open>Names\<close>

definition covers :: "u64 \<Rightarrow> proc_map_entry \<Rightarrow> bool" where
  "covers addr m \<longleftrightarrow> \<not> (addr < me_start m \<or> me_end m \<le> addr)"

definition region_name :: "elf_sym list \<Rightarrow> proc_map_entry \<Rightarrow> u64 \<Rightarrow> string" where
  "region_name syms m addr =
     (let name = elf_resolve syms (addr - me_start m + me_offset m)
      in if name \<noteq> [] then name
         else take 95 (''['' @ me_path m @ ''+0x'' @ show_hex (unat (addr - me_start m)) @ '']''))"

definition resolve_user ::
  "(elf_sym list \<Rightarrow> elf_sym list) \<Rightarrow> files \<Rightarrow> int \<Rightarrow> (u32 \<Rightarrow> int) \<Rightarrow> u32 \<Rightarrow> u64 \<Rightarrow> symbolizer \<Rightarrow>
   (string \<times> symbolizer) option" where
  "resolve_user srt fs now clock pid addr s =
     (let (maps, s) = fetch_maps fs now clock pid s
      in case Option.bind maps (List.find (covers addr)) of
           None \<Rightarrow> Some ([], s)
         | Some m \<Rightarrow> do {
             (elf, s) \<leftarrow> get_elf_cache srt fs (me_path m) s;
             Some (case elf of None \<Rightarrow> [] | Some syms \<Rightarrow> region_name syms m addr, s)
           })"

definition demangle_maybe :: "(string \<Rightarrow> string option) \<Rightarrow> symbolizer \<Rightarrow> string \<Rightarrow> string" where
  "demangle_maybe dm s name =
     (if \<not> sy_demangle s \<or> name = [] then name else case dm name of None \<Rightarrow> name | Some out \<Rightarrow> out)"

definition kernel_symbol :: "symbolizer \<Rightarrow> u64 \<Rightarrow> string" where
  "kernel_symbol s addr =
     (let name = (if sy_kernel_symbols s then kernel_resolve (sy_kernel_resolver s) addr else [])
      in if name = [] then ''[kernel 0x'' @ show_hex (unat addr) @ '']'' else name)"

definition symbolize_kernel_frame :: "(string \<Rightarrow> string option) \<Rightarrow> symbolizer \<Rightarrow> stack_frame \<Rightarrow> stack_frame" where
  "symbolize_kernel_frame dm s f =
     (if sf_address f = 0 then f
      else f\<lparr>sf_function_name := demangle_maybe dm s (kernel_symbol s (sf_address f))\<rparr>)"

definition user_fallback :: "u64 \<Rightarrow> string \<Rightarrow> string" where
  "user_fallback addr name = (if name = [] then ''[0x'' @ show_hex (unat addr) @ '']'' else name)"

definition symbolize_user_frame ::
  "(elf_sym list \<Rightarrow> elf_sym list) \<Rightarrow> (string \<Rightarrow> string option) \<Rightarrow> files \<Rightarrow> int \<times> (u32 \<Rightarrow> int) \<times> u32 \<times> stack_frame \<Rightarrow>
   symbolizer \<Rightarrow> (stack_frame \<times> symbolizer) option" where
  "symbolize_user_frame srt dm fs = (\<lambda>(now, clock, pid, f) s.
     if sf_address f = 0 then Some (f, s)
     else do {
       (name, s) \<leftarrow> resolve_user srt fs now clock pid (sf_address f) s;
       Some (f\<lparr>sf_function_name := demangle_maybe dm s (user_fallback (sf_address f) name)\<rparr>, s)
     })"

text \<open>The loops: each step may change the state that the next one starts from.\<close>

fun thread_all :: "('k \<Rightarrow> 't \<Rightarrow> ('v \<times> 't) option) \<Rightarrow> 'k list \<Rightarrow> 't \<Rightarrow> ('v list \<times> 't) option" where
  "thread_all f [] t = Some ([], t)"
| "thread_all f (k # ks) t = do {
     (v, t) \<leftarrow> f k t;
     (vs, t) \<leftarrow> thread_all f ks t;
     Some (v # vs, t)
   }"

definition symbolize_sample ::
  "(elf_sym list \<Rightarrow> elf_sym list) \<Rightarrow> (string \<Rightarrow> string option) \<Rightarrow> files \<Rightarrow> int \<times> (u32 \<Rightarrow> int) \<times> stack_sample \<Rightarrow>
   symbolizer \<Rightarrow> (stack_sample \<times> symbolizer) option" where
  "symbolize_sample srt dm fs = (\<lambda>(now, clock, sample) s.
     let sample = sample\<lparr>ss_kernel_stack := map (symbolize_kernel_frame dm s) (ss_kernel_stack sample)\<rparr>
     in do {
       (frames, s) \<leftarrow> thread_all (symbolize_user_frame srt dm fs)
         (map (\<lambda>f. (now, clock, ss_pid sample, f)) (ss_user_stack sample)) s;
       Some (sample\<lparr>ss_user_stack := frames\<rparr>, s)
     })"

definition symbolizer_process ::
  "(elf_sym list \<Rightarrow> elf_sym list) \<Rightarrow> (string \<Rightarrow> string option) \<Rightarrow> files \<Rightarrow> int \<times> (u32 \<Rightarrow> int) \<times> data_batch option \<Rightarrow>
   symbolizer \<Rightarrow> (data_batch option status_or \<times> symbolizer) option" where
  "symbolizer_process srt dm fs = (\<lambda>(now, clock, input) s.
     case input of
       None \<Rightarrow> Some (Value None, s)
     | Some b \<Rightarrow> do {
         (samples, s) \<leftarrow> thread_all (symbolize_sample srt dm fs)
           (map (\<lambda>x. (now, clock, x)) (db_samples b)) (purge_expired_maps_caches now s);
         Some (Value (Some (b\<lparr>db_samples := samples\<rparr>)), s)
       })"

section \<open>Caches that agree with what they cache\<close>

text \<open>
  A fetch through a cache: over a cache that agrees with the files it returns what the files say, and
  the cache goes on agreeing. \<open>uncached\<close> is the result without any cache. A loop of such fetches is one.
\<close>

locale agreeing =
  fixes agrees :: "'t \<Rightarrow> bool"
    and fetch :: "'k \<Rightarrow> 't \<Rightarrow> ('v \<times> 't) option"
    and uncached :: "'k \<Rightarrow> 'v option"
  assumes fetch_value: "agrees t \<Longrightarrow> map_option fst (fetch k t) = uncached k"
    and fetch_agrees: "agrees t \<Longrightarrow> fetch k t = Some (v, t') \<Longrightarrow> agrees t'"
begin

lemma fetch_None: "agrees t \<Longrightarrow> fetch k t = None \<longleftrightarrow> uncached k = None"
  using fetch_value [of t k] by (cases "fetch k t") (auto dest: sym)

lemma fetch_Some: "agrees t \<Longrightarrow> fetch k t = Some (v, t') \<Longrightarrow> uncached k = Some v \<and> agrees t'"
  using fetch_value [of t k] fetch_agrees by force

lemma thread_value: "agrees t \<Longrightarrow> map_option fst (thread_all fetch ks t) = those (map uncached ks)"
proof (induction ks arbitrary: t)
  case (Cons k ks)
  show ?case
  proof (cases "fetch k t")
    case None
    then have "uncached k = None" using fetch_None [OF Cons.prems, of k] by simp
    with None show ?thesis by simp
  next
    case (Some r)
    obtain v t' where r: "r = (v, t')" by (cases r)
    from fetch_Some [OF Cons.prems, of k v t'] Some r have v: "uncached k = Some v" "agrees t'" by simp_all
    from Cons.IH [OF v(2), symmetric] v(1) Some r show ?thesis
      by (cases "thread_all fetch ks t'") auto
  qed
qed simp

lemma thread_agrees: "agrees t \<Longrightarrow> thread_all fetch ks t = Some (vs, t') \<Longrightarrow> agrees t'"
proof (induction ks arbitrary: t vs)
  case (Cons k ks)
  from Cons.prems(2) obtain v t1 vs1 where "fetch k t = Some (v, t1)" "thread_all fetch ks t1 = Some (vs1, t')"
    by (auto simp: bind_eq_Some_conv)
  then show ?case using Cons.IH fetch_agrees [OF Cons.prems(1)] by blast
qed simp

lemma thread_agreeing: "agreeing agrees (thread_all fetch) (\<lambda>ks. those (map uncached ks))"
  using thread_value thread_agrees by (intro agreeing.intro)

end

text \<open>The symbolizer's caches agree with the files; everything else is as it was configured.\<close>

definition same_config :: "symbolizer \<Rightarrow> symbolizer \<Rightarrow> bool" where
  "same_config s0 s \<longleftrightarrow> sy_demangle s = sy_demangle s0 \<and> sy_kernel_symbols s = sy_kernel_symbols s0 \<and>
     sy_kernel_resolver s = sy_kernel_resolver s0"

definition elf_agrees :: "(elf_sym list \<Rightarrow> elf_sym list) \<Rightarrow> files \<Rightarrow> (string \<rightharpoonup> elf_sym list) \<Rightarrow> bool" where
  "elf_agrees srt fs m \<longleftrightarrow> (\<forall>path syms. m path = Some syms \<longrightarrow> elf_load srt fs path = Some (Some syms))"

definition maps_agrees :: "files \<Rightarrow> (u32 \<rightharpoonup> maps_entry) \<Rightarrow> bool" where
  "maps_agrees fs m \<longleftrightarrow>
     (\<forall>pid e. m pid = Some e \<longrightarrow> (\<exists>content. fs (maps_path pid) = Some content \<and> mc_maps e = maps_of content))"

definition caches_agree :: "(elf_sym list \<Rightarrow> elf_sym list) \<Rightarrow> files \<Rightarrow> symbolizer \<Rightarrow> symbolizer \<Rightarrow> bool" where
  "caches_agree srt fs s0 s \<longleftrightarrow> same_config s0 s \<and> elf_agrees srt fs (sy_elf_cache s) \<and> maps_agrees fs (sy_maps_cache s)"

lemma caches_agree_updates [simp]:
  "same_config s0 (s\<lparr>sy_elf_cache := m\<rparr>) = same_config s0 s"
  "same_config s0 (s\<lparr>sy_maps_cache := n\<rparr>) = same_config s0 s"
  by (simp_all add: same_config_def)

lemma elf_agrees_update:
  "elf_agrees srt fs m \<Longrightarrow> elf_load srt fs path = Some (Some syms) \<Longrightarrow> elf_agrees srt fs (m(path \<mapsto> syms))"
  by (simp add: elf_agrees_def)

lemma maps_agrees_update:
  "maps_agrees fs m \<Longrightarrow> \<exists>content. fs (maps_path pid) = Some content \<and> mc_maps e = maps_of content \<Longrightarrow>
     maps_agrees fs (m(pid \<mapsto> e))"
  by (simp add: maps_agrees_def)

lemma maps_agrees_purge: "maps_agrees fs (sy_maps_cache s) \<Longrightarrow>
    maps_agrees fs (sy_maps_cache (purge_expired_maps_caches now s))"
  by (auto simp: maps_agrees_def purge_expired_maps_caches_def split: option.splits if_splits)

lemma purge_agrees: "caches_agree srt fs s0 s \<Longrightarrow> caches_agree srt fs s0 (purge_expired_maps_caches now s)"
  using maps_agrees_purge [of fs s now] by (simp add: caches_agree_def purge_expired_maps_caches_def)

definition maps_value :: "files \<Rightarrow> u32 \<Rightarrow> proc_map_entry list option" where
  "maps_value fs pid = map_option maps_of (fs (maps_path pid))"

lemma fetch_maps_agrees:
  assumes a: "caches_agree srt fs s0 s" and f: "fetch_maps fs now clock pid s = (maps, s')"
  shows "maps = maps_value fs pid \<and> caches_agree srt fs s0 s'"
proof (cases "sy_maps_cache s pid")
  case None
  then show ?thesis
    using f a by (auto simp: fetch_maps_def load_maps_def maps_value_def caches_agree_def
        intro!: maps_agrees_update split: option.splits)
next
  case (Some e)
  with a obtain content where c: "fs (maps_path pid) = Some content" "mc_maps e = maps_of content"
    unfolding caches_agree_def maps_agrees_def by blast
  show ?thesis
    using f a Some c by (auto simp: fetch_maps_def load_maps_def maps_value_def caches_agree_def Let_def
        intro!: maps_agrees_update split: if_splits)
qed

interpretation elf: agreeing "caches_agree srt fs s0" "get_elf_cache srt fs" "elf_load srt fs"
  for srt fs s0
proof
  fix s path v s' assume a: "caches_agree srt fs s0 s"
  then show "map_option fst (get_elf_cache srt fs path s) = elf_load srt fs path"
    by (auto simp: get_elf_cache_def caches_agree_def elf_agrees_def split: option.splits)
  assume "get_elf_cache srt fs path s = Some (v, s')"
  with a show "caches_agree srt fs s0 s'"
    by (auto simp: get_elf_cache_def caches_agree_def intro: elf_agrees_update split: option.splits)
qed

section \<open>Names without caches\<close>

definition user_symbol ::
  "(elf_sym list \<Rightarrow> elf_sym list) \<Rightarrow> files \<Rightarrow> u32 \<Rightarrow> u64 \<Rightarrow> string option" where
  "user_symbol srt fs pid addr =
     (case Option.bind (maps_value fs pid) (List.find (covers addr)) of
        None \<Rightarrow> Some []
      | Some m \<Rightarrow> map_option (\<lambda>elf. case elf of None \<Rightarrow> [] | Some syms \<Rightarrow> region_name syms m addr)
          (elf_load srt fs (me_path m)))"

definition named_user_frame ::
  "(elf_sym list \<Rightarrow> elf_sym list) \<Rightarrow> (string \<Rightarrow> string option) \<Rightarrow> files \<Rightarrow> symbolizer \<Rightarrow> u32 \<Rightarrow> stack_frame \<Rightarrow>
   stack_frame option" where
  "named_user_frame srt dm fs s0 pid f =
     (if sf_address f = 0 then Some f
      else map_option (\<lambda>name. f\<lparr>sf_function_name := demangle_maybe dm s0 (user_fallback (sf_address f) name)\<rparr>)
             (user_symbol srt fs pid (sf_address f)))"

definition named_sample ::
  "(elf_sym list \<Rightarrow> elf_sym list) \<Rightarrow> (string \<Rightarrow> string option) \<Rightarrow> files \<Rightarrow> symbolizer \<Rightarrow> stack_sample \<Rightarrow>
   stack_sample option" where
  "named_sample srt dm fs s0 x =
     map_option (\<lambda>frames. x\<lparr>ss_kernel_stack := map (symbolize_kernel_frame dm s0) (ss_kernel_stack x),
                            ss_user_stack := frames\<rparr>)
       (those (map (named_user_frame srt dm fs s0 (ss_pid x)) (ss_user_stack x)))"

definition named_batch ::
  "(elf_sym list \<Rightarrow> elf_sym list) \<Rightarrow> (string \<Rightarrow> string option) \<Rightarrow> files \<Rightarrow> symbolizer \<Rightarrow> data_batch \<Rightarrow> data_batch option" where
  "named_batch srt dm fs s0 b =
     map_option (\<lambda>samples. b\<lparr>db_samples := samples\<rparr>) (those (map (named_sample srt dm fs s0) (db_samples b)))"

lemma bind_fst:
  "map_option fst (x \<bind> (\<lambda>(v, s). Some (g v, h s))) = map_option g (map_option fst x)"
  by (cases x) auto

lemma resolve_user_agrees:
  assumes a: "caches_agree srt fs s0 s"
  shows "map_option fst (resolve_user srt fs now clock pid addr s) = user_symbol srt fs pid addr"
    and "resolve_user srt fs now clock pid addr s = Some (name, s') \<Longrightarrow> caches_agree srt fs s0 s'"
proof -
  obtain maps s1 where f: "fetch_maps fs now clock pid s = (maps, s1)" by fastforce
  from fetch_maps_agrees [OF a f] have m: "maps = maps_value fs pid" "caches_agree srt fs s0 s1" by simp_all
  show "map_option fst (resolve_user srt fs now clock pid addr s) = user_symbol srt fs pid addr"
    unfolding resolve_user_def user_symbol_def f m(1) Let_def
    by (auto split: option.split simp: bind_fst elf.fetch_value [OF m(2), symmetric])
  show "caches_agree srt fs s0 s'" if "resolve_user srt fs now clock pid addr s = Some (name, s')"
    using that m(2) unfolding resolve_user_def f
    by (auto simp: bind_eq_Some_conv split: option.splits dest: elf.fetch_agrees [OF m(2)])
qed

lemma same_config_demangle: "same_config s0 s \<Longrightarrow> demangle_maybe dm s = demangle_maybe dm s0"
  by (rule ext) (simp add: same_config_def demangle_maybe_def)

lemma same_config_kernel: "same_config s0 s \<Longrightarrow> symbolize_kernel_frame dm s = symbolize_kernel_frame dm s0"
proof (rule ext)
  fix f assume a: "same_config s0 s"
  then have "kernel_symbol s = kernel_symbol s0"
    by (simp add: same_config_def kernel_symbol_def fun_eq_iff)
  then show "symbolize_kernel_frame dm s f = symbolize_kernel_frame dm s0 f"
    unfolding symbolize_kernel_frame_def same_config_demangle [OF a] by simp
qed

lemma caches_agree_config: "caches_agree srt fs s0 s \<Longrightarrow> same_config s0 s"
  by (simp add: caches_agree_def)

interpretation frames: agreeing "caches_agree srt fs s0" "symbolize_user_frame srt dm fs"
    "\<lambda>(now, clock, pid, f). named_user_frame srt dm fs s0 pid f" for srt fs s0 dm
proof (rule agreeing.intro, goal_cases)
  case (1 s k)
  obtain now clock pid f where k: "k = (now, clock, pid, f)" by (cases k)
  show ?case
  proof (cases "resolve_user srt fs now clock pid (sf_address f) s")
    case None
    with resolve_user_agrees(1) [OF 1, of now clock pid "sf_address f"] show ?thesis
      by (auto simp: k symbolize_user_frame_def named_user_frame_def)
  next
    case (Some r)
    obtain name s' where r: "r = (name, s')" by (cases r)
    from resolve_user_agrees [OF 1, of now clock pid "sf_address f"] Some r
    have u: "user_symbol srt fs pid (sf_address f) = Some name" and "same_config s0 s'"
      by (auto intro: caches_agree_config)
    note c = same_config_demangle [OF this(2), of dm]
    from u c Some r show ?thesis
      by (simp add: k symbolize_user_frame_def named_user_frame_def)
  qed
next
  case (2 s k v s')
  obtain now clock pid f where k: "k = (now, clock, pid, f)" by (cases k)
  show ?case
  proof (cases "sf_address f = 0")
    case False
    with 2(2) k obtain name where "resolve_user srt fs now clock pid (sf_address f) s = Some (name, s')"
      by (auto simp: symbolize_user_frame_def bind_eq_Some_conv)
    from resolve_user_agrees(2) [OF 2(1) this] show ?thesis .
  qed (use 2 k in \<open>simp add: symbolize_user_frame_def\<close>)
qed

interpretation samples: agreeing "caches_agree srt fs s0" "symbolize_sample srt dm fs"
    "\<lambda>(now, clock, x). named_sample srt dm fs s0 x" for srt fs s0 dm
proof (rule agreeing.intro, goal_cases)
  case (1 s k)
  obtain now clock x where k: "k = (now, clock, x)" by (cases k)
  show ?case
    using frames.thread_value [OF 1, where dm = dm and ks = "map (\<lambda>f. (now, clock, ss_pid x, f)) (ss_user_stack x)"]
    by (simp add: k symbolize_sample_def named_sample_def bind_fst comp_def
        same_config_kernel [OF caches_agree_config [OF 1]])
next
  case (2 s k v s')
  then show ?case
    by (cases k) (auto simp: symbolize_sample_def bind_eq_Some_conv dest: frames.thread_agrees)
qed

interpretation batches: agreeing "caches_agree srt fs s0" "symbolizer_process srt dm fs"
    "\<lambda>(now, clock, input). case input of None \<Rightarrow> Some (Value None)
       | Some b \<Rightarrow> map_option (\<lambda>b. Value (Some b)) (named_batch srt dm fs s0 b)" for srt fs s0 dm
proof (rule agreeing.intro, goal_cases)
  case (1 s k)
  obtain now clock input where k: "k = (now, clock, input)" by (cases k)
  show ?case
  proof (cases input)
    case (Some b)
    show ?thesis
      using samples.thread_value [OF purge_agrees [OF 1, of now], where dm = dm and
          ks = "map (\<lambda>x. (now, clock, x)) (db_samples b)"]
      by (simp add: k Some symbolizer_process_def named_batch_def bind_fst comp_def option.map_comp)
  qed (simp add: k symbolizer_process_def)
next
  case (2 s k v s')
  obtain now clock input where k: "k = (now, clock, input)" by (cases k)
  show ?case
  proof (cases input)
    case (Some b)
    with 2 k show ?thesis
      by (auto simp: symbolizer_process_def bind_eq_Some_conv dest: samples.thread_agrees [OF purge_agrees])
  qed (use 2 k in \<open>simp add: symbolizer_process_def\<close>)
qed

text \<open>
  C20: the caches are transparent. Over files that do not change, any sequence of batches at any times and
  with any time to live gets the names that reading every file anew for every frame would give; the
  records, the order, the addresses and everything else of the samples stay.
\<close>

theorem symbolizer_cache_transparent:
  "map_option fst (thread_all (symbolizer_process srt dm fs) inputs (symbolizer_init ksrt fs config)) =
   those (map (\<lambda>(now, clock, input). case input of
       None \<Rightarrow> Some (Value None)
     | Some b \<Rightarrow> map_option (\<lambda>b. Value (Some b)) (named_batch srt dm fs (symbolizer_init ksrt fs config) b))
     inputs)"
proof -
  let ?s = "symbolizer_init ksrt fs config"
  have "caches_agree srt fs ?s ?s"
    by (simp add: caches_agree_def same_config_def elf_agrees_def maps_agrees_def symbolizer_init_def Let_def)
  then show ?thesis by (rule batches.thread_value)
qed

section \<open>What stays\<close>

lemma thread_all_rel:
  assumes "\<And>k t v t'. k \<in> set ks \<Longrightarrow> f k t = Some (v, t') \<Longrightarrow> P k v"
  shows "thread_all f ks t = Some (vs, t') \<Longrightarrow> list_all2 P ks vs"
  using assms
proof (induction ks arbitrary: t vs)
  case (Cons k ks)
  from Cons.prems(1) obtain v t1 vs1 where "f k t = Some (v, t1)" "thread_all f ks t1 = Some (vs1, t')" "vs = v # vs1"
    by (auto simp: bind_eq_Some_conv)
  with Cons show ?case by auto
qed simp

text \<open>A sample keeps everything but the names of its frames.\<close>

definition same_but_names :: "stack_sample \<Rightarrow> stack_sample \<Rightarrow> bool" where
  "same_but_names x y \<longleftrightarrow> (\<exists>ks us. y = x\<lparr>ss_kernel_stack := ks, ss_user_stack := us\<rparr> \<and>
     map sf_address ks = map sf_address (ss_kernel_stack x) \<and>
     map sf_address us = map sf_address (ss_user_stack x))"

lemma user_frame_address:
  "symbolize_user_frame srt dm fs (now, clock, pid, f) s = Some (g, s') \<Longrightarrow> sf_address g = sf_address f"
  by (auto simp: symbolize_user_frame_def bind_eq_Some_conv split: if_splits)

lemma symbolize_sample_same:
  assumes "symbolize_sample srt dm fs (now, clock, x) s = Some (y, s')"
  shows "same_but_names x y"
proof -
  from assms obtain frames s1 where t: "thread_all (symbolize_user_frame srt dm fs)
      (map (\<lambda>f. (now, clock, ss_pid x, f)) (ss_user_stack x)) s = Some (frames, s1)"
    and y: "y = x\<lparr>ss_kernel_stack := map (symbolize_kernel_frame dm s) (ss_kernel_stack x), ss_user_stack := frames\<rparr>"
    by (auto simp: symbolize_sample_def bind_eq_Some_conv)
  have "list_all2 (\<lambda>(now, clock, pid, f) g. sf_address g = sf_address f)
      (map (\<lambda>f. (now, clock, ss_pid x, f)) (ss_user_stack x)) frames"
    by (rule thread_all_rel [OF _ t]) (auto dest: user_frame_address)
  then have "map sf_address frames = map sf_address (ss_user_stack x)"
    by (auto simp: list_all2_conv_all_nth intro!: nth_equalityI)
  with y show ?thesis
    unfolding same_but_names_def by (auto simp: symbolize_kernel_frame_def intro!: exI)
qed

lemma symbolizer_process_same:
  assumes "symbolizer_process srt dm fs (now, clock, Some b) s = Some (Value (Some b'), s')"
  shows "\<exists>ys. b' = b\<lparr>db_samples := ys\<rparr> \<and> list_all2 same_but_names (db_samples b) ys"
proof -
  from assms obtain ys where t: "thread_all (symbolize_sample srt dm fs)
      (map (\<lambda>x. (now, clock, x)) (db_samples b)) (purge_expired_maps_caches now s) = Some (ys, s')"
    and b: "b' = b\<lparr>db_samples := ys\<rparr>"
    by (auto simp: symbolizer_process_def bind_eq_Some_conv)
  have "list_all2 (\<lambda>(now, clock, x) y. same_but_names x y) (map (\<lambda>x. (now, clock, x)) (db_samples b)) ys"
    by (rule thread_all_rel [OF _ t]) (auto dest: symbolize_sample_same)
  then show ?thesis using b by (auto simp: list_all2_conv_all_nth)
qed

section \<open>The symbol of an address\<close>

lemma elf_resolve_covering:
  assumes "sorted (map es_value syms)" "x \<in> set syms"
    and "es_value x \<le> addr" "unat addr < unat (es_value x) + unat (es_size x)" "unat (es_value x) + unat (es_size x) < 2 ^ 64"
    and "\<And>y. y \<in> set syms \<Longrightarrow> es_value y \<le> addr \<Longrightarrow> es_value y < es_value x \<or> y = x"
  shows "elf_resolve syms addr = es_name x"
proof (cases "last_at_most es_value syms addr")
  case None
  with last_at_most_None [OF assms(1), of addr] assms(2,3) show ?thesis by fastforce
next
  case (Some y)
  from last_at_most_Some [OF assms(1) Some] have y: "y \<in> set syms" "es_value y \<le> addr"
    "\<forall>t \<in> set syms. es_value t \<le> addr \<longrightarrow> es_value t \<le> es_value y" by simp_all
  from y(3) assms(2,3) have "es_value x \<le> es_value y" by simp
  with assms(6) [OF y(1,2)] have "y = x" by auto
  moreover have "unat (es_value x + es_size x) = unat (es_value x) + unat (es_size x)"
    using assms(5) by (simp add: unat_add_lem [THEN iffD1])
  then have "\<not> es_value x + es_size x \<le> addr"
    using assms(4) by (simp add: word_le_nat_alt)
  ultimately show ?thesis using Some by (simp add: elf_resolve_def)
qed


text \<open>
  When the kernel hides its addresses (every line of \<open>/proc/kallsyms\<close> shows zero), every address of the
  kernel gets one and the same name.
\<close>

lemma takeWhile_all_true: "(\<And>x. x \<in> set xs \<Longrightarrow> P x) \<Longrightarrow> takeWhile P xs = xs"
  by (simp add: takeWhile_eq_all_conv)

lemma hidden_kernel_addresses:
  assumes "\<And>e. e \<in> set addrs \<Longrightarrow> fst e = 0" "addrs \<noteq> []"
  shows "kernel_resolve addrs addr = snd (last addrs)"
proof -
  have "takeWhile (\<lambda>s. fst s \<le> addr) addrs = addrs"
    by (rule takeWhile_all_true) (simp add: assms(1))
  then have "upper_bound fst addrs addr = length addrs" by (simp only: upper_bound_def)
  with assms(2) show ?thesis
    by (simp add: kernel_resolve_def last_at_most_def last_conv_nth)
qed

text \<open>The kernel's nearest symbol.\<close>

lemma kernel_resolve_nearest:
  assumes "sorted (map fst addrs)"
  shows "(kernel_resolve addrs addr = [] \<and> (\<forall>t \<in> set addrs. addr < fst t)) \<or>
    (\<exists>s \<in> set addrs. kernel_resolve addrs addr = snd s \<and> fst s \<le> addr \<and>
       (\<forall>t \<in> set addrs. fst t \<le> addr \<longrightarrow> fst t \<le> fst s))"
proof (cases "last_at_most fst addrs addr")
  case None
  with last_at_most_None [OF assms, of addr] show ?thesis by (simp add: kernel_resolve_def)
next
  case (Some s)
  with last_at_most_Some [OF assms Some] show ?thesis by (auto simp: kernel_resolve_def)
qed

section \<open>A small ELF file\<close>

text \<open>A file is a list of fields, each with its width; a read at the start of a field reads the field.\<close>

fun le_bytes :: "nat \<Rightarrow> nat \<Rightarrow> string" where
  "le_bytes 0 v = []"
| "le_bytes (Suc n) v = char_of (v mod 256) # le_bytes n (v div 256)"

definition fields_bytes :: "(nat \<times> nat) list \<Rightarrow> string" where
  "fields_bytes fs = concat (map (\<lambda>(n, v). le_bytes n v) fs)"

fun fields_from :: "(nat \<times> nat) list \<Rightarrow> nat \<Rightarrow> (nat \<times> nat) list option" where
  "fields_from fs 0 = Some fs"
| "fields_from [] (Suc off) = None"
| "fields_from ((n, v) # fs) (Suc off) = (if n \<le> Suc off then fields_from fs (Suc off - n) else None)"

lemma length_le_bytes [simp]: "length (le_bytes n v) = n"
  by (induction n v rule: le_bytes.induct) simp_all

lemma fields_from_drop:
  "fields_from fs off = Some gs \<Longrightarrow> drop off (fields_bytes fs) = fields_bytes gs \<and> off \<le> length (fields_bytes fs)"
  by (induction fs off rule: fields_from.induct) (auto simp: fields_bytes_def split: if_splits)

lemma le_bytes_value:
  "foldr (\<lambda>c acc. of_char c + 256 * acc) (le_bytes n v) (0 :: nat) = v mod 256 ^ n"
  by (induction n v rule: le_bytes.induct) (simp_all add: mod_mult2_eq)

lemma read_le_field:
  assumes "fields_from fs off = Some ((n, v) # gs)"
  shows "read_le (fields_bytes fs) off n = Some (v mod 256 ^ n)"
proof -
  from fields_from_drop [OF assms] have d: "drop off (fields_bytes fs) = le_bytes n v @ fields_bytes gs"
    by (simp add: fields_bytes_def)
  from fields_from_drop [OF assms] have "off \<le> length (fields_bytes fs)" by simp
  with arg_cong [OF d, where f = length] have "off + n \<le> length (fields_bytes fs)" by simp
  with d show ?thesis by (simp add: read_le_def le_bytes_value)
qed

definition demo_header :: "nat \<Rightarrow> (nat \<times> nat) list" where
  "demo_header shoff = [(1, 0x7F), (1, 69), (1, 76), (1, 70), (1, 2), (35, 0), (8, shoff), (10, 0), (2, 64), (2, 2), (2, 0)]"

definition demo_section :: "nat \<Rightarrow> nat \<Rightarrow> nat \<Rightarrow> nat \<Rightarrow> (nat \<times> nat) list" where
  "demo_section ty offset len link = [(4, 0), (4, ty), (16, 0), (8, offset), (8, len), (4, link), (20, 0)]"

definition demo_fields :: "(nat \<times> nat) list" where
  "demo_fields = demo_header 64 @ demo_section 2 192 24 1 @ demo_section 3 216 6 0 @
     [(4, 1), (1, 2), (3, 0), (8, 4096), (8, 16), (1, 0), (1, 109), (1, 97), (1, 105), (1, 110), (1, 0)]"

abbreviation demo_elf :: string where
  "demo_elf \<equiv> fields_bytes demo_fields"

lemma fields_from_numeral:
  "fields_from ((n, v) # fs) (numeral k) = (if n \<le> numeral k then fields_from fs (numeral k - n) else None)"
  by (simp add: numeral_eq_Suc)

lemma demo_chars:
  "char_of (127 :: nat) = CHR 0x7F" "char_of (69 :: nat) = CHR ''E''" "char_of (76 :: nat) = CHR ''L''"
  "char_of (70 :: nat) = CHR ''F''" "char_of (2 :: nat) = CHR 0x02" "char_of (109 :: nat) = CHR ''m''"
  "char_of (97 :: nat) = CHR ''a''" "char_of (105 :: nat) = CHR ''i''" "char_of (110 :: nat) = CHR ''n''"
  "char_of (0 :: nat) = CHR 0x00"
  by code_simp+

lemmas demo_fields_eval = demo_fields_def demo_header_def demo_section_def fields_from_numeral

lemma demo_elf_reads:
  "read_le demo_elf 40 8 = Some 64" "read_le demo_elf 58 2 = Some 64" "read_le demo_elf 60 2 = Some 2"
  "read_le demo_elf 68 4 = Some 2" "read_le demo_elf 88 8 = Some 192" "read_le demo_elf 96 8 = Some 24"
  "read_le demo_elf 104 4 = Some 1" "read_le demo_elf 132 4 = Some 3" "read_le demo_elf 152 8 = Some 216"
  "read_le demo_elf 196 1 = Some 2" "read_le demo_elf 192 4 = Some 1" "read_le demo_elf 200 8 = Some 4096"
  "read_le demo_elf 208 8 = Some 16"
  by (subst read_le_field, simp add: demo_fields_eval, simp)+

lemma demo_elf_name: "read_cstr demo_elf 217 = Some ''main''"
proof -
  have "fields_from demo_fields 217 = Some [(1, 109), (1, 97), (1, 105), (1, 110), (1, 0)]"
    by (simp add: demo_fields_eval)
  from fields_from_drop [OF this] show ?thesis
    by (simp add: read_cstr_def fields_bytes_def demo_chars)
qed

lemma demo_magic: "elf_magic (fields_bytes (demo_header shoff @ fs))"
  by (simp add: elf_magic_def fields_bytes_def demo_header_def demo_chars)

lemma demo_length: "64 \<le> length (fields_bytes (demo_header shoff @ fs))"
  by (simp add: fields_bytes_def demo_header_def)

lemmas elf_eval = elf_symbols_def section_table_def read_symbol_def ehdr_size_def shdr_size_def sym_size_def
  sht_symtab_def sht_dynsym_def wanted_types_def upt_conv_Cons

lemma demo_elf_symbols: "elf_symbols demo_elf = Some [\<lparr>es_value = 4096, es_name = ''main'', es_size = 16\<rparr>]"
proof -
  have "\<not> length demo_elf < 64" "elf_magic demo_elf"
    using demo_magic demo_length by (simp_all add: demo_fields_def not_less)
  then show ?thesis
    by (simp add: elf_eval demo_elf_reads demo_elf_reads(10) [simplified] demo_elf_name upt_rec_numeral)
qed

text \<open>A file whose header points outside it makes the reader run over the end of its buffer.\<close>

lemma elf_reads_outside: "elf_symbols (fields_bytes (demo_header 4096)) = None"
proof -
  let ?b = "fields_bytes (demo_header 4096)"
  have r: "read_le ?b 40 8 = Some 4096" "read_le ?b 58 2 = Some 64" "read_le ?b 60 2 = Some 2"
    by (subst read_le_field, simp add: demo_header_def fields_from_numeral, simp)+
  have l: "length ?b = 64" by (simp add: fields_bytes_def demo_header_def)
  then have "read_le ?b 4100 4 = None" by (simp add: read_le_def)
  moreover have "elf_magic ?b" using demo_magic [of 4096 "[]"] by simp
  ultimately show ?thesis
    using l by (simp add: elf_eval r upt_rec_numeral)
qed

definition demo_maps :: string where
  "demo_maps = ''400000-500000 r-xp 00000000 08:01 7 /bin/a'' @ [newline]"

lemma demo_maps_of:
  "maps_of demo_maps = [\<lparr>me_start = 0x400000, me_end = 0x500000, me_offset = 0, me_path = ''/bin/a''\<rparr>]"
  by (simp add: demo_maps_def maps_of_def getlines.simps List.map_filter_simps parse_proc_maps_line_def
      scan_lx_def scan_lu_def scan_s_def scan_some_def scan_literal_def c_str_def split_sign_def is_space_def
      is_hex_def hex_value_def hex_number_def is_digit_def digit_value_def unsigned_long_def)

definition demo_files :: files where
  "demo_files = [''/proc/7/maps'' \<mapsto> demo_maps, ''/bin/a'' \<mapsto> demo_elf]"


end
