(* ===== verification/BatchTypes.thy ===== *)
theory BatchTypes
  imports Processors Symbolizer Aggregator CpuProfilerSource SchedSource ProcessCpu
begin

text \<open>
  The type of what flows through a pipeline. \<open>produced\<close> holds of a batch that a source makes, and of
  what the processors and the aggregator make of such batches; all are well-formed: the fields of a
  record are a map, and names and stacks keep the bounds of the kernel's structures.
\<close>

section \<open>Well-formed batches\<close>

definition record_wf :: "data_record \<Rightarrow> bool" where
  "record_wf r \<longleftrightarrow> distinct (map fst (rc_fields r))"

definition sample_wf :: "stack_sample \<Rightarrow> bool" where
  "sample_wf s \<longleftrightarrow> length (ss_kernel_stack s) \<le> max_stack_depth \<and> length (ss_user_stack s) \<le> max_stack_depth \<and>
     length (ss_comm s) \<le> task_comm_len"

definition batch_wf :: "data_batch \<Rightarrow> bool" where
  "batch_wf b \<longleftrightarrow> list_all record_wf (db_records b) \<and> list_all sample_wf (db_samples b)"

text \<open>A way to fill a record in that keeps it well-formed.\<close>

definition fill_wf :: "(data_record \<Rightarrow> data_record) \<Rightarrow> bool" where
  "fill_wf f \<longleftrightarrow> (\<forall>r. record_wf r \<longrightarrow> record_wf (f r))"

lemma record_wf_set_field [illum_inv]: "record_wf r \<Longrightarrow> record_wf (set_field k v r)"
  by (simp add: record_wf_def set_field_def distinct_update)

lemma record_wf_set_fields [illum_inv]: "record_wf r \<Longrightarrow> record_wf (set_fields fs r)"
  by (induction fs arbitrary: r) (auto simp: set_fields_def intro: illum_inv)

lemma record_wf_push_label [illum_inv]: "record_wf r \<Longrightarrow> record_wf (push_label k v r)"
  by (simp add: record_wf_def push_label_def)

lemma record_wf_new [illum_inv]: "record_wf \<lparr>rc_timestamp = t, rc_labels = ls, rc_fields = []\<rparr>"
  by (simp add: record_wf_def)

lemma batch_wf_new [illum_inv]: "batch_wf (new_batch ty)"
  by (simp add: batch_wf_def new_batch_def)

lemma batch_wf_add_record [illum_inv]: "fill_wf f \<Longrightarrow> batch_wf b \<Longrightarrow> batch_wf (add_record now f b)"
  by (simp add: batch_wf_def add_record_def fill_wf_def record_wf_new)

lemma batch_wf_emit [illum_inv]: "fill_wf f \<Longrightarrow> batch_wf b \<Longrightarrow> batch_wf (emit clock f b)"
  unfolding emit_def by (rule batch_wf_add_record)

lemma batch_wf_add_sample [illum_inv]:
  "sample_wf (f (default_sample now)) \<Longrightarrow> batch_wf b \<Longrightarrow> batch_wf (add_stack_sample now f b)"
  by (simp add: batch_wf_def add_stack_sample_def)

lemma fill_wfI: "(\<And>r. record_wf r \<Longrightarrow> record_wf (f r)) \<Longrightarrow> fill_wf f"
  by (simp add: fill_wf_def)

lemma comm_text_length [simp]: "length (comm_text c) \<le> task_comm_len"
  unfolding comm_text_def by (rule order_trans [OF length_takeWhile_le]) simp

lemma batch_wf_fold [illum_inv]: "(\<And>x b. batch_wf b \<Longrightarrow> batch_wf (f x b)) \<Longrightarrow> batch_wf b \<Longrightarrow> batch_wf (fold f xs b)"
  by (induction xs arbitrary: b) simp_all

section \<open>The sources\<close>

lemma event_batches_wf [illum_inv]:
  "batch_wf (io_batch now eio)" "batch_wf (net_batch now enet)" "batch_wf (sched_batch now es)"
  "batch_wf (detailed_batch now es)"
  unfolding io_batch_def net_batch_def sched_batch_def detailed_batch_def
  by (auto intro!: illum_inv fill_wfI)

lemma samples_wf [illum_inv]:
  "sample_wf (offcpu_sample stacks fd eoff r)" "sample_wf (count_fill stacks s key n r)"
  "sample_wf (stream_fill stacks s ecpu r)"
  by (simp_all add: sample_wf_def offcpu_sample_def count_fill_def stream_fill_def lookup_stack_length)

lemma offcpu_handle_wf:
  assumes "offcpu_handle_event stacks now sz e s = (ps, s')" "pred_option batch_wf (of_cached_batch s)"
  shows "list_all batch_wf ps \<and> pred_option batch_wf (of_cached_batch s')"
  using assms by (auto simp: offcpu_handle_event_def Let_def split: if_splits option.splits intro!: illum_inv)

lemma offcpu_ops_wf:
  "offcpu_ops stacks ops s = (ps, cs, s') \<Longrightarrow> pred_option batch_wf (of_cached_batch s) \<Longrightarrow>
   list_all batch_wf ps \<and> list_all batch_wf cs"
proof (induction ops arbitrary: s ps cs s')
  case (Cons x ops)
  show ?case
  proof (cases x)
    case (OffcpuEvent now sz e)
    with Cons show ?thesis by (auto split: prod.splits dest: offcpu_handle_wf)
  next
    case OffcpuCollect
    with Cons show ?thesis
      by (auto simp: offcpu_collect_def batch_wf_new split: prod.splits option.splits)
  qed
qed simp

lemma snapshot_wf:
  "snapshot_aggregated_counts nxt clock stacks s maps b = Some b' \<Longrightarrow> batch_wf b \<Longrightarrow> batch_wf b'"
  by (auto simp: snapshot_aggregated_counts_def snapshot_key_def split: if_splits option.split intro!: illum_inv)

lemma flush_wf:
  assumes "flush_aggregated_counts nxt clock stacks between (maps, s) = Some (bs, maps', s')"
  shows "list_all batch_wf bs"
proof (cases "cp_counts_fd s < 0 \<or> \<not> cp_callback s")
  case False
  with assms obtain b where "snapshot_aggregated_counts nxt clock stacks s maps (new_batch Profile) = Some b"
    "bs = [] \<or> bs = [b]"
    by (auto simp: flush_aggregated_counts_def Let_def split: option.splits if_splits)
  with snapshot_wf [OF this(1) batch_wf_new] show ?thesis by auto
qed (use assms in \<open>simp add: flush_aggregated_counts_def\<close>)

lemma flush_rounds_wf:
  "flush_rounds nxt clock stacks rounds (maps, s) = Some (bs, maps', s') \<Longrightarrow> list_all batch_wf bs"
proof (induction rounds arbitrary: maps s bs)
  case (Cons r rounds)
  obtain xs ys where r: "r = (xs, ys)" by (cases r) auto
  from Cons.prems obtain cs ds maps1 s1 where
    f: "flush_aggregated_counts nxt clock stacks (probe_runs ys) (probe_runs xs maps, s) = Some (cs, maps1, s1)"
    and g: "flush_rounds nxt clock stacks rounds (maps1, s1) = Some (ds, maps', s')" and bs: "bs = cs @ ds"
    by (auto simp: r split: option.splits)
  from flush_wf [OF f] Cons.IH [OF g] show ?case by (simp add: bs)
qed simp

lemma drain_row_wf:
  assumes "batch_wf b" "drain_row clock between allow pid (t, b, tot) = (t', b', tot')"
  shows "batch_wf b'"
  using assms by (auto simp: drain_row_def stats_record_def Let_def split: option.splits if_splits intro!: illum_inv fill_wfI)

lemma drain_rows_wf:
  "fold (drain_row clock between allow) pids (t, b, tot) = (t', b', tot') \<Longrightarrow> batch_wf b \<Longrightarrow> batch_wf b'"
proof (induction pids arbitrary: t b tot)
  case (Cons p pids)
  obtain t1 b1 tot1 where "drain_row clock between allow p (t, b, tot) = (t1, b1, tot1)"
    by (cases "drain_row clock between allow p (t, b, tot)") auto
  with Cons drain_row_wf show ?case by fastforce
qed simp

lemma sched_collect_wf:
  "sched_collect nxt clock now_ms between (maps, s) = Some (b, maps', s') \<Longrightarrow> batch_wf b"
  by (auto simp: sched_collect_def Let_def split: if_splits option.splits prod.splits intro: illum_inv
      dest: drain_rows_wf [OF _ batch_wf_new])

lemma fill_wf_core_record [illum_inv]: "fill_wf (core_record alpha c pc ema)"
  by (auto simp: core_record_def Let_def intro!: illum_inv fill_wfI split: option.split)

lemma emit_cores_wf [illum_inv]: "batch_wf b \<Longrightarrow> batch_wf (snd (emit_cores clock cu i cs (emas, b)))"
proof (induction cs arbitrary: i emas b)
  case (Cons c cs)
  from Cons.IH [OF Cons.prems] Cons.IH [OF batch_wf_emit [OF fill_wf_core_record Cons.prems]] Cons.prems
  show ?case by (simp add: Let_def)
qed simp

lemma emit_parts_wf [illum_inv]:
  "batch_wf b \<Longrightarrow> batch_wf (emit_load_avg clock la b)"
  "batch_wf b \<Longrightarrow> batch_wf (emit_run_queue clock cur b)"
  "batch_wf b \<Longrightarrow> batch_wf (emit_system_counters clock cur cu b)"
  "batch_wf b \<Longrightarrow> batch_wf (emit_cpu_frequency clock freqs b)"
  "batch_wf b \<Longrightarrow> batch_wf (snd (emit_cpu_utilization clock cur cu b))"
  unfolding emit_load_avg_def emit_run_queue_def emit_system_counters_def emit_cpu_frequency_def
    emit_cpu_utilization_def Let_def
  by (auto intro!: illum_inv fill_wfI simp: split_beta)

lemma cpu_utilization_wf: "cpu_utilization_collect xreal junk n clock fs cu = (cu', Value b) \<Longrightarrow> batch_wf b"
  by (auto simp: cpu_utilization_collect_def Let_def split_beta intro!: illum_inv split: if_splits)

lemma meminfo_wf: "record_wf r \<Longrightarrow> record_wf (fold (meminfo_line junk) ls r)"
  by (induction ls arbitrary: r)
    (auto simp: meminfo_line_def split_beta Let_def intro: illum_inv split: option.split)

lemma proc_stat_wf: "proc_stat_collect xreal junk clock fs = Value b \<Longrightarrow> batch_wf b"
  by (auto simp: proc_stat_collect_def Let_def intro!: illum_inv fill_wfI meminfo_wf split: option.split)

lemma report_thread_wf: "batch_wf (fst st) \<Longrightarrow> batch_wf (fst (report_thread clock pc dt pid parent tid ts st))"
  by (auto simp: report_thread_def thread_record_def split_beta Let_def intro!: illum_inv fill_wfI split: option.split)

lemma thread_entries_wf:
  "thread_entries clock fs pc dt pid parent entries st = Some st' \<Longrightarrow> batch_wf (fst st) \<Longrightarrow> batch_wf (fst st')"
proof (induction clock fs pc dt pid parent entries st rule: thread_entries.induct)
  case (2 clock fs pc dt pid parent name is_dir entries st)
  from 2 show ?case
    by (auto split: option.splits if_splits prod.splits bool.splits simp: report_thread_wf)
qed simp

lemma report_processes_wf:
  "report_processes clock fs dirs pc dt rps st = Some st' \<Longrightarrow> batch_wf (fst st) \<Longrightarrow> batch_wf (fst st')"
proof (induction rps arbitrary: st)
  case (Cons rp rps)
  let ?st = "(emit clock (process_record rp) (fst st), snd st)"
  have wf: "batch_wf (fst ?st)"
    using Cons.prems(2) by (auto simp: process_record_def Let_def intro!: illum_inv fill_wfI)
  show ?case
  proof (cases "rk_has_prev rp")
    case True
    with Cons.prems(1) obtain st1 where st1: "report_processes clock fs dirs pc dt rps st1 = Some st'"
      and "st1 = ?st \<or> collect_threads clock fs dirs pc dt (ps_pid (rk_snap rp)) (ps_comm (rk_snap rp)) ?st = Some st1"
      by (auto simp: Let_def split: option.splits if_splits)
    from this(2) have "batch_wf (fst st1)"
    proof
      assume "collect_threads clock fs dirs pc dt (ps_pid (rk_snap rp)) (ps_comm (rk_snap rp)) ?st = Some st1"
      then show ?thesis unfolding collect_threads_def
        using wf thread_entries_wf [of _ _ _ _ _ _ _ ?st st1] by (cases "dirs (''/proc/'' @ show_nat (unat (ps_pid (rk_snap rp))) @ ''/task'')") auto
    qed (use wf in simp)
    with Cons.IH [OF st1] show ?thesis by simp
  qed (use Cons in simp)
qed simp

lemma process_cpu_wf:
  "process_cpu_collect rx srt clock fs dirs pc = Some (pc', Value b) \<Longrightarrow> batch_wf b"
  using report_processes_wf [where st = "(new_batch Metrics, pc_prev_thread_snapshots pc)"]
  by (fastforce simp: process_cpu_collect_def Let_def split: option.splits prod.splits intro: illum_inv)

section \<open>Processors and aggregator\<close>

lemma merge_samples_wf:
  "list_all sample_wf ss \<Longrightarrow> list_all (\<lambda>e. sample_wf (snd e)) merged \<Longrightarrow>
   list_all (\<lambda>e. sample_wf (snd e)) (fold (merge_sample sm) ss merged)"
proof (induction ss arbitrary: merged)
  case (Cons x ss)
  have "list_all (\<lambda>e. sample_wf (snd e)) (merge_sample sm x merged)"
  proof (cases "map_of merged (stack_key sm x)")
    case None
    with Cons.prems show ?thesis by (simp add: merge_sample_def)
  next
    case (Some t)
    then have "(stack_key sm x, t) \<in> set merged" by (rule map_of_SomeD)
    with Cons.prems(2) have "sample_wf (t\<lparr>ss_count := n\<rparr>)" for n by (auto simp: list_all_iff sample_wf_def)
    moreover have "set (AList.update k v al) \<subseteq> insert (k, v) (set al)" for k v and al :: "(string \<times> stack_sample) list"
      by (induction al) auto
    ultimately show ?thesis
      using Some Cons.prems(2) by (fastforce simp: merge_sample_def list_all_iff)
  qed
  with Cons show ?case by simp
qed simp

lemma builtin_wf:
  assumes "builtin_process p (Some b) = (p', Value (Some b'))" "batch_wf b"
  shows "batch_wf b'"
proof (cases p)
  case Passthrough
  with assms show ?thesis by (simp add: builtin_process_def passthrough_process_def)
next
  case (Filter fp)
  with assms show ?thesis
    by (auto simp: builtin_process_def filter_process_def batch_wf_def list_all_iff split: if_splits)
next
  case (Merger sm)
  have "list_all sample_wf (map snd (fold (merge_sample sm) (db_samples b) []))"
    using merge_samples_wf [of "db_samples b" "[]" sm] assms(2) by (simp add: batch_wf_def list.pred_map comp_def)
  with Merger assms show ?thesis
    by (auto simp: builtin_process_def merger_process_def batch_wf_def split: if_splits)
qed

definition agg_wf :: "aggregator \<Rightarrow> bool" where
  "agg_wf ag \<longleftrightarrow> list_all (\<lambda>(_, a). length (as_kernel_stack a) \<le> max_stack_depth \<and>
     length (as_user_stack a) \<le> max_stack_depth \<and> length (as_comm a) \<le> task_comm_len) (ag_stack_buffer ag)"

lemma add_to_stacks_wf:
  "list_all sample_wf ss \<Longrightarrow> agg_wf (ag\<lparr>ag_stack_buffer := buf\<rparr>) \<Longrightarrow>
   agg_wf (ag\<lparr>ag_stack_buffer := fold add_to_stack ss buf\<rparr>)"
proof (induction ss arbitrary: buf)
  case (Cons x ss)
  let ?ok = "\<lambda>a. length (as_kernel_stack a) \<le> max_stack_depth \<and>
     length (as_user_stack a) \<le> max_stack_depth \<and> length (as_comm a) \<le> task_comm_len"
  have upd: "set (AList.update k v al) \<subseteq> insert (k, v) (set al)" for k v and al :: "(string \<times> agg_stack) list"
    by (induction al) auto
  have "?ok (case map_of buf (make_stack_key x) of None \<Rightarrow> default_agg_stack | Some a \<Rightarrow> a)"
    using Cons.prems(2)
    by (auto simp: agg_wf_def list_all_iff default_agg_stack_def split: option.split dest!: map_of_SomeD)
  with Cons.prems upd have "agg_wf (ag\<lparr>ag_stack_buffer := add_to_stack x buf\<rparr>)"
    by (fastforce simp: agg_wf_def add_to_stack_def Let_def list_all_iff sample_wf_def)
  with Cons show ?case by simp
qed simp

lemma aggregator_adds_wf:
  "list_all batch_wf bs \<Longrightarrow> agg_wf ag \<Longrightarrow> agg_wf (fold (\<lambda>b. aggregator_add (Some b)) bs ag)"
proof (induction bs arbitrary: ag)
  case (Cons b bs)
  have "agg_wf (aggregator_add (Some b) ag)"
    using Cons.prems add_to_stacks_wf [of "db_samples b" "ag_stack_buffer ag" ag]
    by (simp add: aggregator_add_def batch_wf_def agg_wf_def)
  with Cons show ?case by simp
qed simp

lemma flush_field_wf: "record_wf r \<Longrightarrow> record_wf (flush_field fv r)"
  by (auto simp: flush_field_def Let_def split_beta intro!: illum_inv)

lemma flush_fields_wf: "record_wf r \<Longrightarrow> record_wf (fold flush_field fvs r)"
  by (induction fvs arbitrary: r) (simp_all add: flush_field_wf)

lemma aggregator_flush_wf:
  assumes "agg_wf ag" "b \<in> set (snd (aggregator_flush clock ag))"
  shows "batch_wf b"
proof -
  have "record_wf (flush_series t s)" for t s
    unfolding flush_series_def by (rule flush_fields_wf [OF record_wf_new])
  moreover have "sample_wf (flush_stack t a)" if "(i, k, a) \<in> set (enumerate n (ag_stack_buffer ag))" for i k a n t
  proof -
    from that have "(k, a) \<in> set (ag_stack_buffer ag)" by (auto simp: enumerate_eq_zip dest: set_zip_rightD)
    with assms(1) show ?thesis by (auto simp: agg_wf_def list_all_iff sample_wf_def flush_stack_def)
  qed
  ultimately show ?thesis
    using assms(2) by (auto simp: aggregator_flush_def Let_def batch_wf_def new_batch_def list_all_iff split: if_splits)
qed

lemma symbolizer_wf:
  assumes "symbolizer_process srt dm fs (t, ct, Some b) sy = Some (Value (Some b'), sy')" "batch_wf b"
  shows "batch_wf b'"
proof -
  from symbolizer_process_same [OF assms(1)] obtain ys where
    y: "b' = b\<lparr>db_samples := ys\<rparr>" "list_all2 same_but_names (db_samples b) ys" by blast
  have "sample_wf z" if "same_but_names x z" "sample_wf x" for x z
    using that by (auto simp: same_but_names_def sample_wf_def dest!: map_eq_imp_length_eq)
  with y assms(2) show ?thesis
    by (auto simp: batch_wf_def list_all_length list_all2_conv_all_nth)
qed

section \<open>Produced batches\<close>

inductive produced :: "data_batch \<Rightarrow> bool" where
  io_monitor: "b \<in> set (io_monitor_handle_event now sz eio rg) \<Longrightarrow> produced b"
| net_tracer: "b \<in> set (net_tracer_handle_event now sz enet rg) \<Longrightarrow> produced b"
| sched_tracer: "b \<in> set (sched_tracer_handle_event now sz es rg) \<Longrightarrow> produced b"
| offcpu: "offcpu_ops stacks ops s = (ps, cs, s') \<Longrightarrow> of_cached_batch s = None \<Longrightarrow> b \<in> set (ps @ cs) \<Longrightarrow>
     produced b"
| cpu_stream: "b \<in> set (handle_stream_event stacks now sz ecpu cs) \<Longrightarrow> produced b"
| cpu_aggregated: "cpu_collect nxt clock stacks maps cs = Some (Value b) \<Longrightarrow> cp_last_batch cs = None \<Longrightarrow> produced b"
| cpu_flushed: "flush_rounds nxt clock stacks rounds (maps, cs) = Some (bs, maps', cs') \<Longrightarrow> b \<in> set bs \<Longrightarrow> produced b"
| sched_collected: "sched_collect nxtp clock now between (amaps, sn) = Some (b, amaps', sn') \<Longrightarrow> produced b"
| sched_detailed: "handle_detailed_event now now_ms sz es sn = (bs, sn') \<Longrightarrow> b \<in> set bs \<Longrightarrow> produced b"
| cpu_utilization: "cpu_utilization_collect xreal junk n clock fs cu = (cu', Value b) \<Longrightarrow> produced b"
| proc_stat: "proc_stat_collect xreal junk clock fs = Value b \<Longrightarrow> produced b"
| process_cpu: "process_cpu_collect rx srt clock fs dirs pc = Some (pc', Value b) \<Longrightarrow> produced b"
| processed: "produced b \<Longrightarrow> builtin_process p (Some b) = (p', Value (Some b')) \<Longrightarrow> produced b'"
| symbolized: "produced b \<Longrightarrow> symbolizer_process srt dm fs (t, ct, Some b) sy = Some (Value (Some b'), sy') \<Longrightarrow> produced b'"
| aggregated: "(\<And>a. a \<in> set bs \<Longrightarrow> produced a) \<Longrightarrow>
     b \<in> set (snd (aggregator_flush clock (fold (\<lambda>b. aggregator_add (Some b)) bs aggregator_new))) \<Longrightarrow> produced b"



end
