(* ===== verification/Handshake.thy ===== *)
theory Handshake
  imports Prelude "HOL-Library.Sublist"
begin

text \<open>
  What the WebSocket handshake computes (\<open>src/server/websocket_server.h\<close>): the SHA-1 digest, fed in
  pieces, its base64 text and the fields of the request. \<open>sha1\<close> is the digest as RFC 3174 defines it
  on a whole message; the streaming implementation is shown to compute it.
\<close>

section \<open>SHA-1\<close>

type_synonym sha1_hash = "u32 \<times> u32 \<times> u32 \<times> u32 \<times> u32"

record sha1_ctx =
  sh_h :: sha1_hash
  sh_buf :: "u8 list" \<comment> \<open>the first \<open>buf_len_\<close> bytes of \<open>buf_\<close>\<close>
  sh_total :: u64

definition sha1_init :: sha1_hash where
  "sha1_init = (0x67452301, 0xEFCDAB89, 0x98BADCFE, 0x10325476, 0xC3D2E1F0)"

definition sha1_new :: sha1_ctx where
  "sha1_new = \<lparr>sh_h = sha1_init, sh_buf = [], sh_total = 0\<rparr>"

definition rot_l :: "u32 \<Rightarrow> nat \<Rightarrow> u32" where
  "rot_l x n = push_bit n x OR drop_bit (32 - n) x"

definition be_word :: "u8 list \<Rightarrow> u32" where
  "be_word bs = push_bit 24 (ucast (bs ! 0)) OR push_bit 16 (ucast (bs ! 1)) OR
     push_bit 8 (ucast (bs ! 2)) OR ucast (bs ! 3)"

definition block_words :: "u8 list \<Rightarrow> u32 list" where
  "block_words block = map (\<lambda>i. be_word (take 4 (drop (4 * i) block))) [0..<16]"

text \<open>The schedule is extended one word at a time from the words so far.\<close>

definition next_word :: "u32 list \<Rightarrow> u32" where
  "next_word w =
     (let i = length w
      in rot_l (w ! (i - 3) XOR w ! (i - 8) XOR w ! (i - 14) XOR w ! (i - 16)) 1)"

definition schedule :: "u8 list \<Rightarrow> u32 list" where
  "schedule block = ((\<lambda>w. w @ [next_word w]) ^^ 64) (block_words block)"

definition round_fk :: "nat \<Rightarrow> u32 \<Rightarrow> u32 \<Rightarrow> u32 \<Rightarrow> u32 \<times> u32" where
  "round_fk i b c d =
     (if i < 20 then ((b AND c) OR (NOT b AND d), 0x5A827999)
      else if i < 40 then (b XOR c XOR d, 0x6ED9EBA1)
      else if i < 60 then ((b AND c) OR (b AND d) OR (c AND d), 0x8F1BBCDC)
      else (b XOR c XOR d, 0xCA62C1D6))"

definition sha1_round :: "u32 list \<Rightarrow> nat \<Rightarrow> sha1_hash \<Rightarrow> sha1_hash" where
  "sha1_round w i = (\<lambda>(a, b, c, d, e).
     let (f, k) = round_fk i b c d
     in (rot_l a 5 + f + e + k + w ! i, a, rot_l b 30, c, d))"

definition process_block :: "u8 list \<Rightarrow> sha1_hash \<Rightarrow> sha1_hash" where
  "process_block block h =
     (let (a, b, c, d, e) = fold (sha1_round (schedule block)) [0..<80] h;
          (h0, h1, h2, h3, h4) = h
      in (h0 + a, h1 + b, h2 + c, h3 + d, h4 + e))"

function sha1_update :: "u8 list \<Rightarrow> sha1_ctx \<Rightarrow> sha1_ctx" where
  "sha1_update data ctx =
     (if data = [] \<or> 64 \<le> length (sh_buf ctx) then ctx
      else let room = 64 - length (sh_buf ctx);
               n = (if length data < room then length data else room);
               buf = sh_buf ctx @ take n data;
               ctx = ctx\<lparr>sh_buf := buf, sh_total := sh_total ctx + of_nat n\<rparr>;
               ctx = (if length buf = 64 then ctx\<lparr>sh_h := process_block buf (sh_h ctx), sh_buf := []\<rparr> else ctx)
           in sha1_update (drop n data) ctx)"
  by pat_completeness auto
termination
  by (relation "measure (\<lambda>(data, ctx). length data)") (auto split: if_splits)

declare sha1_update.simps [simp del]

text \<open>The padding loop ends with 56 bytes in the buffer: at most 63 rounds.\<close>

fun pad_zeros :: "nat \<Rightarrow> sha1_ctx \<Rightarrow> sha1_ctx option" where
  "pad_zeros fuel ctx =
     (if length (sh_buf ctx) = 56 then Some ctx
      else case fuel of 0 \<Rightarrow> None | Suc fuel \<Rightarrow> pad_zeros fuel (sha1_update [0] ctx))"

declare pad_zeros.simps [simp del]

definition be_bytes :: "nat \<Rightarrow> 'w::len word \<Rightarrow> u8 list" where
  "be_bytes n v = map (\<lambda>i. ucast (drop_bit (8 * i) v)) (rev [0..<n])"

definition digest_bytes :: "sha1_hash \<Rightarrow> u8 list" where
  "digest_bytes = (\<lambda>(h0, h1, h2, h3, h4). concat (map (be_bytes 4) [h0, h1, h2, h3, h4]))"

definition sha1_final :: "sha1_ctx \<Rightarrow> u8 list option" where
  "sha1_final ctx =
     (let bits = sh_total ctx * 8
      in map_option (\<lambda>ctx. digest_bytes (sh_h (sha1_update (be_bytes 8 bits) ctx)))
           (pad_zeros 64 (sha1_update [0x80] ctx)))"

section \<open>The digest of a message\<close>

definition pad_length :: "nat \<Rightarrow> nat" where
  "pad_length n = (119 - n mod 64) mod 64"

definition sha1_padded :: "u8 list \<Rightarrow> u8 list" where
  "sha1_padded msg = msg @ [0x80] @ replicate (pad_length (length msg)) 0 @
     be_bytes 8 (of_nat (length msg) * 8 :: u64)"

fun hash_blocks :: "nat \<Rightarrow> u8 list \<Rightarrow> sha1_hash \<Rightarrow> sha1_hash" where
  "hash_blocks 0 bs h = h"
| "hash_blocks (Suc n) bs h = hash_blocks n (drop 64 bs) (process_block (take 64 bs) h)"

definition sha1 :: "u8 list \<Rightarrow> u8 list" where
  "sha1 msg = (let p = sha1_padded msg in digest_bytes (hash_blocks (length p div 64) p sha1_init))"

text \<open>A context has hashed the whole blocks of the bytes given so far and holds the rest.\<close>

definition sha1_holds :: "u8 list \<Rightarrow> sha1_ctx \<Rightarrow> bool" where
  "sha1_holds bs ctx \<longleftrightarrow> sh_h ctx = hash_blocks (length bs div 64) bs sha1_init \<and>
     sh_buf ctx = drop (64 * (length bs div 64)) bs \<and> sh_total ctx = of_nat (length bs)"

lemma hash_blocks_append:
  "64 * n \<le> length xs \<Longrightarrow> hash_blocks n (xs @ ys) h = hash_blocks n xs h"
  by (induction n xs h rule: hash_blocks.induct) simp_all

lemma hash_blocks_snoc:
  "64 * n + 64 \<le> length bs \<Longrightarrow>
     hash_blocks (Suc n) bs h = process_block (take 64 (drop (64 * n) bs)) (hash_blocks n bs h)"
  by (induction n bs h rule: hash_blocks.induct) (simp_all add: add.commute)

lemma sha1_new_holds: "sha1_holds [] sha1_new"
  by (simp add: sha1_holds_def sha1_new_def)

lemma sha1_update_holds:
  "sha1_holds bs ctx \<Longrightarrow> sha1_holds (bs @ data) (sha1_update data ctx)"
proof (induction data ctx arbitrary: bs rule: sha1_update.induct)
  case (1 data ctx)
  define q where "q = length bs div 64"
  have len: "length bs = 64 * q + length (sh_buf ctx)" "length (sh_buf ctx) < 64"
    using 1(2) by (simp_all add: sha1_holds_def q_def minus_mod_eq_mult_div [symmetric])
  show ?case
  proof (cases "data = []")
    case True
    with 1(2) show ?thesis by (subst sha1_update.simps) simp
  next
    case False
    define room where "room = 64 - length (sh_buf ctx)"
    define n where "n = (if length data < room then length data else room)"
    define buf where "buf = sh_buf ctx @ take n data"
    define ctx1 where "ctx1 = ctx\<lparr>sh_buf := buf, sh_total := sh_total ctx + of_nat n\<rparr>"
    define ctx2 where "ctx2 = (if length buf = 64 then ctx1\<lparr>sh_h := process_block buf (sh_h ctx1), sh_buf := []\<rparr> else ctx1)"
    have n: "n \<le> length data" "length buf = length (sh_buf ctx) + n" "length buf \<le> 64"
      using len(2) by (auto simp: n_def room_def buf_def)
    have eq: "sha1_update data ctx = sha1_update (drop n data) ctx2"
      using False len(2) by (subst sha1_update.simps)
        (simp add: Let_def room_def n_def buf_def ctx1_def ctx2_def)
    have tot: "length (bs @ take n data) = 64 * q + length buf" using len n by simp
    have h: "sh_h ctx = hash_blocks q bs sha1_init" "sh_buf ctx = drop (64 * q) bs"
      using 1(2) by (simp_all add: sha1_holds_def q_def)
    have dr: "drop (64 * q) (bs @ take n data) = buf"
      using h(2) len by (simp add: buf_def)
    have hb: "hash_blocks q (bs @ take n data) sha1_init = sh_h ctx"
      using h(1) len by (simp add: hash_blocks_append)
    have tt: "sh_total ctx + of_nat n = of_nat (length (bs @ take n data))"
      using 1(2) n(1) by (simp add: sha1_holds_def)
    have "sha1_holds (bs @ take n data) ctx2"
    proof (cases "length buf = 64")
      case True
      then have d: "length (bs @ take n data) div 64 = Suc q" using tot by simp
      have "hash_blocks (Suc q) (bs @ take n data) sha1_init = process_block buf (sh_h ctx)"
        using hash_blocks_snoc [of q "bs @ take n data" sha1_init] tot True dr hb by simp
      moreover have "drop (64 * Suc q) (bs @ take n data) = []" using tot True by simp
      ultimately show ?thesis
        unfolding sha1_holds_def d using True tt by (simp add: ctx2_def ctx1_def del: length_append)
    next
      case False
      then have d: "length (bs @ take n data) div 64 = q" using tot n(3) by simp
      show ?thesis
        unfolding sha1_holds_def d using False dr hb tt by (simp add: ctx2_def ctx1_def del: length_append)
    qed
    moreover have "\<not> (data = [] \<or> 64 \<le> length (sh_buf ctx))" using False len(2) by simp
    ultimately have "sha1_holds ((bs @ take n data) @ drop n data) (sha1_update (drop n data) ctx2)"
      by (intro "1.IH" [OF _ room_def n_def buf_def ctx1_def ctx2_def])
    then show ?thesis unfolding eq by simp
  qed
qed

lemma sha1_holds_buf: "sha1_holds bs ctx \<Longrightarrow> length (sh_buf ctx) = length bs mod 64"
  by (simp add: sha1_holds_def minus_mult_div_eq_mod)

lemma pad_zeros_holds:
  "sha1_holds bs ctx \<Longrightarrow> (length bs + k) mod 64 = 56 \<Longrightarrow> (\<forall>j < k. (length bs + j) mod 64 \<noteq> 56) \<Longrightarrow> k \<le> fuel \<Longrightarrow>
     \<exists>ctx'. pad_zeros fuel ctx = Some ctx' \<and> sha1_holds (bs @ replicate k 0) ctx'"
proof (induction k arbitrary: bs ctx fuel)
  case 0
  then show ?case by (subst pad_zeros.simps) (auto simp: sha1_holds_buf)
next
  case (Suc k)
  obtain fuel' where f: "fuel = Suc fuel'" "k \<le> fuel'" using Suc.prems(4) by (cases fuel) auto
  have "length bs mod 64 \<noteq> 56" using Suc.prems(3) by force
  then have "pad_zeros fuel ctx = pad_zeros fuel' (sha1_update [0] ctx)"
    unfolding f(1) using sha1_holds_buf [OF Suc.prems(1)] by (subst pad_zeros.simps) simp
  moreover have "\<exists>ctx'. pad_zeros fuel' (sha1_update [0] ctx) = Some ctx' \<and>
      sha1_holds ((bs @ [0]) @ replicate k 0) ctx'"
  proof (rule Suc.IH [OF sha1_update_holds [OF Suc.prems(1)] _ _ f(2)])
    show "(length (bs @ [0]) + k) mod 64 = 56" using Suc.prems(2) by simp
    show "\<forall>j<k. (length (bs @ [0]) + j) mod 64 \<noteq> 56"
      using Suc.prems(3) by (metis Suc_mono add_Suc_right add_Suc_shift append_Nil2 length_append_singleton)
  qed
  ultimately show ?case by simp
qed

lemma pad_length_first:
  "(n + 1 + pad_length n) mod 64 = 56" "j < pad_length n \<Longrightarrow> (n + 1 + j) mod 64 \<noteq> 56" "pad_length n \<le> 63"
proof -
  obtain q r where n: "n = 64 * q + r" "r < 64" by (metis mod_less_divisor mult_div_mod_eq zero_less_numeral)
  have p: "pad_length n = (if r \<le> 55 then 55 - r else 119 - r)"
  proof (cases "r \<le> 55")
    case True
    then have "119 - r = 64 + (55 - r)" by simp
    from arg_cong [OF this, of "\<lambda>x. x mod 64"] have "(119 - r) mod 64 = 55 - r" by simp
    with True show ?thesis using n by (simp add: pad_length_def)
  qed (use n in \<open>simp add: pad_length_def\<close>)
  have "n + 1 + pad_length n = 56 + 64 * (if r \<le> 55 then q else Suc q)"
    unfolding p using n by simp
  then show "(n + 1 + pad_length n) mod 64 = 56" by (simp only: mod_mult_self2) simp
  show "pad_length n \<le> 63" unfolding p by (cases "r \<le> 55") simp_all
  show "(n + 1 + j) mod 64 \<noteq> 56" if "j < pad_length n"
  proof -
    have "(n + 1 + j) mod 64 = (r + 1 + j) mod 64" using n(1) by (simp add: add.assoc)
    moreover have "(r + 1 + j) mod 64 \<noteq> 56"
    proof (cases "r + 1 + j < 64")
      case False
      then have "(r + 1 + j) mod 64 = (r + 1 + j - 64) mod 64" by (simp add: le_mod_geq)
      also have "\<dots> = r + 1 + j - 64" using that n(2) unfolding p by (intro mod_less) (auto split: if_splits)
      finally show ?thesis using that n(2) unfolding p by (auto split: if_splits)
    qed (use that n(2) in \<open>auto simp: p split: if_splits\<close>)
    ultimately show ?thesis by simp
  qed
qed

lemma be_bytes_length [simp]: "length (be_bytes n v) = n"
  by (simp add: be_bytes_def)

lemma sha1_final_holds:
  assumes "sha1_holds msg ctx"
  shows "sha1_final ctx = Some (sha1 msg)"
proof -
  let ?k = "pad_length (length msg)"
  have h: "sha1_holds (msg @ [0x80]) (sha1_update [0x80] ctx)" by (rule sha1_update_holds [OF assms])
  have "\<exists>ctx'. pad_zeros 64 (sha1_update [0x80] ctx) = Some ctx' \<and> sha1_holds ((msg @ [0x80]) @ replicate ?k 0) ctx'"
    by (rule pad_zeros_holds [OF h]) (use pad_length_first [where n = "length msg"] in \<open>simp_all\<close>)
  then obtain ctx' where c: "pad_zeros 64 (sha1_update [0x80] ctx) = Some ctx'"
    "sha1_holds ((msg @ [0x80]) @ replicate ?k 0) ctx'" by blast
  have t: "sh_total ctx = of_nat (length msg)" using assms by (simp add: sha1_holds_def)
  have "sha1_holds (sha1_padded msg) (sha1_update (be_bytes 8 (sh_total ctx * 8)) ctx')"
    using sha1_update_holds [OF c(2), of "be_bytes 8 (sh_total ctx * 8)"] by (simp add: sha1_padded_def t)
  then show ?thesis
    by (simp add: sha1_final_def sha1_def c(1) sha1_holds_def Let_def)
qed

text \<open>
  The streaming SHA-1 of the handshake computes the digest of the concatenated input, however it is
  cut into pieces: padding always ends, and the 64-byte buffer, the counter and the blocks fit together
  as RFC 3174 pads and hashes the whole message.
\<close>

theorem sha1_streaming:
  "sha1_final (fold sha1_update pieces sha1_new) = Some (sha1 (concat pieces))"
proof -
  have "sha1_holds (bs @ concat pieces) (fold sha1_update pieces ctx)" if "sha1_holds bs ctx" for bs ctx
    using that
  proof (induction pieces arbitrary: bs ctx)
    case (Cons p ps)
    from Cons.IH [OF sha1_update_holds [OF Cons.prems, of p]] show ?case by simp
  qed simp
  from this [OF sha1_new_holds] show ?thesis by (intro sha1_final_holds) simp
qed

section \<open>Base64\<close>

definition base64_table :: string where
  "base64_table = ''ABCDEFGHIJKLMNOPQRSTUVWXYZabcdefghijklmnopqrstuvwxyz0123456789+/''"

definition base64_char :: "u32 \<Rightarrow> char" where
  "base64_char n = base64_table ! unat (n AND 0x3F)"

fun base64_encode :: "u8 list \<Rightarrow> string" where
  "base64_encode [] = []"
| "base64_encode [x] =
     (let n = push_bit 16 (ucast x)
      in [base64_char (drop_bit 18 n), base64_char (drop_bit 12 n), CHR ''='', CHR ''=''])"
| "base64_encode [x, y] =
     (let n = push_bit 16 (ucast x) OR push_bit 8 (ucast y)
      in [base64_char (drop_bit 18 n), base64_char (drop_bit 12 n), base64_char (drop_bit 6 n), CHR ''=''])"
| "base64_encode (x # y # z # rest) =
     (let n = push_bit 16 (ucast x) OR push_bit 8 (ucast y) OR ucast z
      in [base64_char (drop_bit 18 n), base64_char (drop_bit 12 n), base64_char (drop_bit 6 n), base64_char n] @
         base64_encode rest)"

lemma base64_length: "length (base64_encode bs) = 4 * ((length bs + 2) div 3)"
proof (induction bs rule: base64_encode.induct)
  case (4 x y z rest)
  have "(length (x # y # z # rest) + 2) div 3 = Suc ((length rest + 2) div 3)" by simp
  with 4 show ?case by (simp add: Let_def del: length_Cons)
qed (simp_all add: Let_def)

section \<open>Requests\<close>

definition web_socket_guid :: string where
  "web_socket_guid = ''258EAFA5-E914-47DA-95CA-5AB5DC11D65B''"

definition bytes_of :: "string \<Rightarrow> u8 list" where
  "bytes_of = map of_char"

definition compute_accept_key :: "string \<Rightarrow> string option" where
  "compute_accept_key client_key =
     map_option base64_encode (sha1_final (sha1_update (bytes_of (client_key @ web_socket_guid)) sha1_new))"

lemma compute_accept_key_spec: "compute_accept_key key = Some (base64_encode (sha1 (bytes_of (key @ web_socket_guid))))"
  using sha1_final_holds [OF sha1_update_holds [OF sha1_new_holds]] by (simp add: compute_accept_key_def)

definition to_lower :: "char \<Rightarrow> char" where
  "to_lower c = (let k = (of_char c :: nat) in if 65 \<le> k \<and> k \<le> 90 then char_of (k + 32) else c)"

text \<open>\<open>std::string::find\<close>: the first position from which the text starts with the pattern.\<close>

fun find_sub :: "string \<Rightarrow> string \<Rightarrow> nat option" where
  "find_sub pat [] = (if pat = [] then Some 0 else None)"
| "find_sub pat (c # cs) = (if take (length pat) (c # cs) = pat then Some 0 else map_option Suc (find_sub pat cs))"

definition crlf :: string where
  "crlf = [CHR 0x0D, CHR 0x0A]"

definition extract_header :: "string \<Rightarrow> string \<Rightarrow> string" where
  "extract_header request name =
     (case find_sub (map to_lower name @ '':'') (map to_lower request) of
        None \<Rightarrow> []
      | Some pos \<Rightarrow>
          let rest = dropWhile (\<lambda>c. c = CHR '' '') (drop (pos + length name + 1) request)
          in (case find_sub crlf rest of None \<Rightarrow> rest | Some e \<Rightarrow> take e rest))"

definition extract_path :: "string \<Rightarrow> string" where
  "extract_path request =
     (if CHR '' '' \<notin> set request then ''/''
      else let rest = tl (dropWhile (\<lambda>c. c \<noteq> CHR '' '') request)
           in if CHR '' '' \<notin> set rest then ''/''
              else takeWhile (\<lambda>c. c \<noteq> CHR ''?'') (takeWhile (\<lambda>c. c \<noteq> CHR '' '') rest))"

definition is_upgrade_request :: "string \<Rightarrow> bool" where
  "is_upgrade_request request \<longleftrightarrow> map to_lower (extract_header request ''Upgrade'') = ''websocket''"

text \<open>\<open>PerformHandshake\<close>: the bytes written, unless the key is missing; it succeeds if all of them went out.\<close>

definition handshake_response :: "string \<Rightarrow> string option" where
  "handshake_response request =
     (let key = extract_header request ''Sec-WebSocket-Key''
      in if key = [] then None
         else map_option (\<lambda>accept. ''HTTP/1.1 101 Switching Protocols'' @ crlf @ ''Upgrade: websocket'' @ crlf @
                ''Connection: Upgrade'' @ crlf @ ''Sec-WebSocket-Accept: '' @ accept @ crlf @ crlf)
              (compute_accept_key key))"

end
