(* ===== verification/WsFrames.thy ===== *)
theory WsFrames
  imports Handshake
begin

text \<open>
  The frames of the WebSocket protocol (\<open>WebSocketCodec\<close> in \<open>src/server/websocket_server.h\<close>) on lists of
  bytes. \<open>ws_bytes\<close> is a frame as the protocol lays it out, masked or not; the encoder writes unmasked
  final ones, the decoder reads both.
\<close>

section \<open>Frames\<close>

type_synonym ws_opcode = u8

definition op_continuation :: ws_opcode where "op_continuation = 0"
definition op_text :: ws_opcode where "op_text = 1"
definition op_binary :: ws_opcode where "op_binary = 2"
definition op_close :: ws_opcode where "op_close = 8"
definition op_ping :: ws_opcode where "op_ping = 9"
definition op_pong :: ws_opcode where "op_pong = 10"

record ws_frame =
  wf_opcode :: ws_opcode
  wf_fin :: bool
  wf_payload :: "u8 list"

definition length_field :: "u8 \<Rightarrow> nat \<Rightarrow> u8 list" where
  "length_field hi n =
     (if n \<le> 125 then [hi OR of_nat n]
      else if n \<le> 65535 then [hi OR 126] @ be_bytes 2 (of_nat n :: u64)
      else [hi OR 127] @ be_bytes 8 (of_nat n :: u64))"

definition encode_frame :: "u8 list \<Rightarrow> ws_opcode \<Rightarrow> u8 list" where
  "encode_frame payload op = [0x80 OR op] @ length_field 0 (length payload) @ payload"

definition encode_close_frame :: "u16 \<Rightarrow> u8 list" where
  "encode_close_frame c = encode_frame [ucast (drop_bit 8 c), ucast c] op_close"

definition encode_pong_frame :: "u8 list \<Rightarrow> u8 list" where
  "encode_pong_frame payload = encode_frame payload op_pong"

text \<open>
  \<open>DecodeFrame\<close>: more bytes are needed, or a frame and the bytes it took, or \<open>std::string::resize\<close> throws
  (the length is beyond the largest string). The sum of header and payload wraps at 64 bits.
\<close>

datatype decode_result = NeedMore | Decoded ws_frame nat | Throws

definition max_string :: nat where
  "max_string = 2 ^ 63 - 1"

definition from_be :: "u8 list \<Rightarrow> u64" where
  "from_be = foldl (\<lambda>n b. push_bit 8 n OR ucast b) 0"

definition unmask :: "u8 list option \<Rightarrow> u8 list \<Rightarrow> u8 list" where
  "unmask key payload =
     (case key of None \<Rightarrow> payload
      | Some k \<Rightarrow> map (\<lambda>i. payload ! i XOR k ! (i mod 4)) [0..<length payload])"

definition decode_body :: "u8 \<Rightarrow> bool \<Rightarrow> nat \<Rightarrow> u64 \<Rightarrow> u8 list \<Rightarrow> decode_result" where
  "decode_body b0 masked header payload_len data =
     (if of_nat (length data) < (of_nat header + payload_len :: u64) then NeedMore
      else if max_string < unat payload_len then Throws
      else Decoded \<lparr>wf_opcode = b0 AND 0x0F, wf_fin = b0 AND 0x80 \<noteq> 0,
                wf_payload = unmask (if masked then Some (take 4 (drop (header - 4) data)) else None)
                   (take (unat payload_len) (drop header data))\<rparr>
              (header + unat payload_len))"

definition decode_frame :: "u8 list \<Rightarrow> decode_result" where
  "decode_frame data =
     (if length data < 2 then NeedMore
      else let b0 = data ! 0; b1 = data ! 1; masked = b1 AND 0x80 \<noteq> 0; n = b1 AND 0x7F;
               with_key = (\<lambda>header. if masked then header + 4 else header :: nat)
           in if n = 126 then
                (if length data < 4 then NeedMore
                 else decode_body b0 masked (with_key 4) (push_bit 8 (ucast (data ! 2)) OR ucast (data ! 3)) data)
              else if n = 127 then
                (if length data < 10 then NeedMore
                 else decode_body b0 masked (with_key 10) (from_be (take 8 (drop 2 data))) data)
              else decode_body b0 masked (with_key 2) (ucast n) data)"

section \<open>The layout of the protocol\<close>

definition ws_bytes :: "u8 list option \<Rightarrow> ws_frame \<Rightarrow> u8 list" where
  "ws_bytes key f =
     [(if wf_fin f then 0x80 else 0) OR wf_opcode f] @
     length_field (if key = None then 0 else 0x80) (length (wf_payload f)) @
     (case key of None \<Rightarrow> [] | Some k \<Rightarrow> k) @ unmask key (wf_payload f)"

definition ws_valid :: "u8 list option \<times> ws_frame \<Rightarrow> bool" where
  "ws_valid = (\<lambda>(key, f). wf_opcode f AND 0x0F = wf_opcode f \<and> length (wf_payload f) \<le> max_string - 14 \<and>
     (\<forall>k. key = Some k \<longrightarrow> length k = 4))"

lemma encode_frame_ws: "encode_frame payload op = ws_bytes None \<lparr>wf_opcode = op, wf_fin = True, wf_payload = payload\<rparr>"
  by (simp add: encode_frame_def ws_bytes_def unmask_def)

lemma length_unmask [simp]: "length (unmask key xs) = length xs"
  by (simp add: unmask_def split: option.split)

lemma unmask_twice: "unmask key (unmask key xs) = xs"
  by (cases key) (auto simp: unmask_def xor.assoc intro!: nth_equalityI)

text \<open>Bytes and words.\<close>

lemma be_bytes_Suc: "be_bytes (Suc n) v = ucast (drop_bit (8 * n) v) # be_bytes n v"
  by (simp add: be_bytes_def)

lemma from_be_step: "foldl (\<lambda>n b. push_bit 8 n OR ucast b) (acc :: u64) (be_bytes n v) =
    push_bit (8 * n) acc OR take_bit (8 * n) v"
proof (induction n arbitrary: acc)
  case (Suc n)
  have u: "(ucast (ucast (drop_bit (8 * n) v) :: u8) :: u64) = take_bit 8 (drop_bit (8 * n) v)"
    by (rule bit_word_eqI) (auto simp: bit_simps)
  show ?case
    unfolding be_bytes_Suc foldl_Cons Suc.IH u
    by (rule bit_word_eqI) (auto simp: bit_simps add.commute [of _ 8])
qed (simp add: be_bytes_def)

lemma from_be_bytes: "from_be (be_bytes 8 (v :: u64)) = v"
  unfolding from_be_def from_be_step by (simp add: take_bit_word_eq_self)

section \<open>Decoding more bytes\<close>

lemma body_fits:
  assumes "\<not> of_nat (length data) < (of_nat h + p :: u64)" "unat p \<le> max_string" "h \<le> 14" "length data < 2 ^ 64"
  shows "h + unat p \<le> length data"
proof -
  have "unat (of_nat h + p :: u64) = h + unat p"
    using assms(2,3) by (simp add: max_string_def unat_word_ariths unat_of_nat take_bit_nat_eq_self)
  moreover have "unat (of_nat (length data) :: u64) = length data"
    using assms(4) by (simp add: unat_of_nat take_bit_nat_eq_self)
  ultimately show ?thesis using assms(1) by (simp add: word_less_nat_alt)
qed

lemma body_not_needed:
  assumes "\<not> of_nat (length xs) < (w :: u64)" "length (xs @ ys) < 2 ^ 64"
  shows "\<not> of_nat (length (xs @ ys)) < w"
proof -
  have "unat (of_nat (length xs) :: u64) = length xs" "unat (of_nat (length (xs @ ys)) :: u64) = length (xs @ ys)"
    using assms(2) by (simp_all add: unat_of_nat take_bit_nat_eq_self del: length_append, simp add: take_bit_nat_eq_self)
  with assms(1) show ?thesis by (simp add: word_less_nat_alt del: of_nat_add)
qed

lemma decode_body_app:
  assumes "decode_body b0 m h p xs \<noteq> NeedMore" "length (xs @ ys) < 2 ^ 64" "m \<longrightarrow> 4 \<le> h" "h \<le> 14"
  shows "decode_body b0 m h p (xs @ ys) = decode_body b0 m h p xs"
proof -
  from assms(1) have n: "\<not> of_nat (length xs) < (of_nat h + p :: u64)"
    by (auto simp: decode_body_def split: if_splits)
  note n' = body_not_needed [OF n assms(2)]
  show ?thesis
  proof (cases "max_string < unat p")
    case True
    with n n' show ?thesis by (simp add: decode_body_def)
  next
    case False
    then have f: "h + unat p \<le> length xs"
      by (intro body_fits [OF n]) (use assms(2,4) in simp_all)
    have k: "m \<Longrightarrow> take 4 (drop (h - 4) (xs @ ys)) = take 4 (drop (h - 4) xs)"
      using f assms(3) by simp
    have t: "take (unat p) (drop h (xs @ ys)) = take (unat p) (drop h xs)" using f by simp
    from n n' False k t show ?thesis
      by (auto simp: decode_body_def simp del: drop_append take_append length_append)
  qed
qed

lemma decode_frame_app:
  assumes "decode_frame xs \<noteq> NeedMore" "length (xs @ ys) < 2 ^ 64"
  shows "decode_frame (xs @ ys) = decode_frame xs"
proof -
  have l: "\<not> length xs < 2" "\<not> length (xs @ ys) < 2" using assms(1) by (auto simp: decode_frame_def split: if_splits)
  have b: "(xs @ ys) ! 0 = xs ! 0" "(xs @ ys) ! 1 = xs ! 1" using l by (auto simp: nth_append)
  define n where "n = xs ! 1 AND 0x7F"
  consider "n = 126" | "n = 127" | "n \<noteq> 126" "n \<noteq> 127" by blast
  then show ?thesis
  proof cases
    case 1
    with assms(1) l have "\<not> length xs < 4" by (auto simp: decode_frame_def n_def split: if_splits)
    moreover from this have "(xs @ ys) ! 2 = xs ! 2" "(xs @ ys) ! 3 = xs ! 3" by (auto simp: nth_append)
    ultimately show ?thesis
      using 1 l b assms by (auto simp: decode_frame_def n_def Let_def intro!: decode_body_app)
  next
    case 2
    with assms(1) l have "\<not> length xs < 10" by (auto simp: decode_frame_def n_def split: if_splits)
    moreover from this have "take 8 (drop 2 (xs @ ys)) = take 8 (drop 2 xs)" by simp
    ultimately show ?thesis
      using 2 l b assms by (auto simp: decode_frame_def n_def Let_def simp del: drop_append take_append intro!: decode_body_app split: if_splits)
  next
    case 3
    then show ?thesis
      using l b assms by (auto simp: decode_frame_def n_def Let_def intro!: decode_body_app)
  qed
qed

lemma decode_body_consumed:
  "decode_body b0 m h p xs = Decoded f n \<Longrightarrow> length xs < 2 ^ 64 \<Longrightarrow> h \<le> 14 \<Longrightarrow> h \<le> n \<and> n \<le> length xs"
  unfolding decode_body_def
  using body_fits [of xs h p] by (auto split: if_splits)

lemma decode_frame_consumed:
  assumes "decode_frame xs = Decoded f n" "length xs < 2 ^ 64"
  shows "2 \<le> n \<and> n \<le> length xs"
  using assms(1) decode_body_consumed [OF _ assms(2)]
  by (fastforce simp: decode_frame_def Let_def split: if_splits)

section \<open>Round trip\<close>

lemma byte_parts:
  assumes "n < 128" "hi = 0 \<or> hi = (0x80 :: u8)"
  shows "(hi OR of_nat n) AND 0x7F = of_nat n" "((hi OR of_nat n) AND 0x80 \<noteq> 0) = (hi \<noteq> 0)"
proof -
  have t: "take_bit 7 (of_nat n :: u8) = of_nat n"
    using assms(1) by (simp add: take_bit_of_nat take_bit_nat_eq_self)
  then have m: "(of_nat n :: u8) AND 0x7F = of_nat n"
    by (simp add: take_bit_eq_mask mask_eq_exp_minus_1)
  have z: "(of_nat n :: u8) AND 0x80 = 0"
    by (subst m [symmetric]) (simp add: and.assoc)
  show "(hi OR of_nat n) AND 0x7F = of_nat n" "((hi OR of_nat n) AND 0x80 \<noteq> 0) = (hi \<noteq> 0)"
    using assms(2) m z by (auto simp: bit.conj_disj_distrib2)
qed

lemma opcode_byte:
  fixes op :: u8
  assumes "op AND 0x0F = op"
  shows "((if fin then 0x80 else 0) OR op) AND 0x0F = op" "((if fin then 0x80 else 0) OR op) AND 0x80 \<noteq> 0 \<longleftrightarrow> fin"
proof -
  have "op AND 0x80 = 0" by (subst assms [symmetric]) (simp add: and.assoc)
  then show "((if fin then 0x80 else 0) OR op) AND 0x0F = op" "((if fin then 0x80 else 0) OR op) AND 0x80 \<noteq> 0 \<longleftrightarrow> fin"
    using assms by (simp_all add: bit.conj_disj_distrib2)
qed

text \<open>The body of a frame that is all there.\<close>

lemma decode_body_exact:
  assumes "length key \<le> 4" "data = pre @ key @ unmask mk payload" "mk = (if m then Some key else None)"
    "h = length pre + length key" "m \<longrightarrow> length key = 4" "h \<le> 14" "length payload \<le> max_string - 14"
  shows "decode_body b0 m h (of_nat (length payload)) data =
    Decoded \<lparr>wf_opcode = b0 AND 0x0F, wf_fin = b0 AND 0x80 \<noteq> 0, wf_payload = payload\<rparr> (length data)"
proof -
  have l: "unat (of_nat (length payload) :: u64) = length payload"
    using assms(7) by (simp add: max_string_def unat_of_nat take_bit_nat_eq_self)
  have "(of_nat h + of_nat (length payload) :: u64) = of_nat (length data)"
    using assms(2,4) by (simp add: add.assoc)
  then have "\<not> of_nat (length data) < (of_nat h + of_nat (length payload) :: u64)" by simp
  moreover have "\<not> max_string < unat (of_nat (length payload) :: u64)"
    unfolding l using assms(7) by simp
  moreover have "m \<Longrightarrow> take 4 (drop (h - 4) data) = key" using assms(2,4,5) by simp
  moreover have "take (length payload) (drop h data) = unmask mk payload" using assms(2,4) by simp
  ultimately show ?thesis
    using assms(3,4) unfolding decode_body_def l by (auto simp: unmask_twice assms(2))
qed

lemma decode_ws_bytes:
  assumes "ws_valid (mk, f)"
  shows "decode_frame (ws_bytes mk f) = Decoded f (length (ws_bytes mk f))"
proof -
  define payload where "payload = wf_payload f"
  define n where "n = length payload"
  define hi :: u8 where "hi = (if mk = None then 0 else 0x80)"
  define key where "key = (case mk of None \<Rightarrow> [] | Some k \<Rightarrow> k)"
  define m where "m = (hi \<noteq> 0)"
  define b0 where "b0 = (if wf_fin f then 0x80 else 0) OR wf_opcode f"
  have v: "wf_opcode f AND 0x0F = wf_opcode f" "n \<le> max_string - 14" "mk \<noteq> None \<longrightarrow> length key = 4" "length key \<le> 4"
    "mk = (if m then Some key else None)" "m \<longleftrightarrow> length key = 4" "hi = 0 \<or> hi = 0x80"
    using assms by (auto simp: ws_valid_def n_def payload_def key_def m_def hi_def split: option.splits)
  have k4: "length key = (if m then 4 else 0)" using v(3,6) by (cases mk) (auto simp: key_def m_def hi_def)
  have f: "f = \<lparr>wf_opcode = b0 AND 0x0F, wf_fin = b0 AND 0x80 \<noteq> 0, wf_payload = payload\<rparr>"
    using opcode_byte [OF v(1), of "wf_fin f"] by (simp add: b0_def payload_def)
  define data where "data = ws_bytes mk f"
  have data: "data = b0 # length_field hi n @ key @ unmask mk payload"
    by (simp add: data_def ws_bytes_def b0_def hi_def key_def n_def payload_def)
  note exact = decode_body_exact [OF v(4) _ v(5) _ _ _ v(2) [unfolded n_def], folded n_def, of data]
  consider "n \<le> 125" | "125 < n" "n \<le> 65535" | "65535 < n" by linarith
  then have "decode_frame data = Decoded f (length data)"
  proof cases
    case 1
    then have d: "data = [b0, hi OR of_nat n] @ key @ unmask mk payload" by (simp add: data length_field_def)
    have p: "(hi OR of_nat n) AND 0x7F = of_nat n" "((hi OR of_nat n) AND 0x80 \<noteq> 0) = m"
      using byte_parts [OF _ v(7), of n] 1 by (simp_all add: m_def)
    have n8: "unat (of_nat n :: u8) = n" using 1 by (simp add: unat_of_nat take_bit_nat_eq_self)
    have u: "(ucast (of_nat n :: u8) :: u64) = of_nat n"
      using 1 by (simp add: word_eq_iff_unsigned unsigned_of_nat unsigned_ucast_eq take_bit_nat_eq_self)
    have ne: "(of_nat n :: u8) \<noteq> 126" "(of_nat n :: u8) \<noteq> 127"
      using n8 1 by (auto dest: arg_cong [where f = unat])
    from exact [OF d, of "length key + 2" b0] k4 ne u p show ?thesis
      unfolding f by (cases m) (simp_all add: d decode_frame_def Let_def numeral_2_eq_2)
  next
    case 2
    then have d: "data = [b0, hi OR 126, ucast (drop_bit 8 (of_nat n :: u64)), ucast (of_nat n :: u64)] @ key @ unmask mk payload"
      by (simp add: data length_field_def be_bytes_def upt_rec)
    have p: "(hi OR 126) AND 0x7F = 126" "((hi OR 126) AND 0x80 \<noteq> 0) = m"
      using byte_parts [OF _ v(7), of 126] by (simp_all add: m_def)
    have u: "push_bit 8 (ucast (ucast (drop_bit 8 (of_nat n :: u64)) :: u8)) OR ucast (ucast (of_nat n :: u64) :: u8) = (of_nat n :: u64)"
    proof -
      have t: "take_bit 16 (of_nat n :: u64) = of_nat n"
        using 2 by (simp add: take_bit_of_nat take_bit_nat_eq_self)
      have b: "bit (of_nat n :: u64) i \<Longrightarrow> i < 16" for i
        using t by (metis bit_take_bit_iff)
      have "bit (of_nat n :: u64) i \<Longrightarrow> \<not> i < 8 \<Longrightarrow> i - 8 < 8" for i
        using b [of i] by simp
      then show ?thesis by (intro bit_word_eqI) (auto simp: bit_ucast_iff bit_or_iff bit_push_bit_iff bit_drop_bit_eq)
    qed
    from exact [OF d, of "length key + 4" b0] k4 u p show ?thesis
      unfolding f by (cases m) (simp_all add: d decode_frame_def Let_def)
  next
    case 3
    then have d: "data = (b0 # (hi OR 127) # be_bytes 8 (of_nat n :: u64)) @ key @ unmask mk payload"
      by (simp add: data length_field_def)
    have p: "(hi OR 127) AND 0x7F = 127" "((hi OR 127) AND 0x80 \<noteq> 0) = m"
      using byte_parts [OF _ v(7), of 127] by (simp_all add: m_def)
    from exact [OF d, of "length key + 10" b0] k4 p show ?thesis
      unfolding f by (cases m) (simp_all add: d decode_frame_def Let_def from_be_bytes)
  qed
  then show ?thesis by (simp add: data_def)
qed

section \<open>Streams\<close>

lemma decode_positive: "decode_frame xs = Decoded f n \<Longrightarrow> xs \<noteq> [] \<and> 0 < n"
  by (auto simp: decode_frame_def decode_body_def Let_def split: if_splits)

text \<open>The frames at the front of a receive buffer and what remains of it; no rest after an exception.\<close>

function split_frames :: "u8 list \<Rightarrow> ws_frame list \<times> u8 list option" where
  "split_frames rb =
     (case decode_frame rb of
        NeedMore \<Rightarrow> ([], Some rb)
      | Throws \<Rightarrow> ([], None)
      | Decoded f n \<Rightarrow> (let (fs, r) = split_frames (drop n rb) in (f # fs, r)))"
  by pat_completeness auto
termination
  by (relation "measure length") (auto dest: decode_positive)

declare split_frames.simps [simp del]

fun feed_chunks :: "u8 list list \<Rightarrow> u8 list \<Rightarrow> ws_frame list \<times> u8 list option" where
  "feed_chunks [] rb = ([], Some rb)"
| "feed_chunks (c # cs) rb =
     (let (fs, r) = split_frames (rb @ c)
      in case r of None \<Rightarrow> (fs, None)
         | Some r \<Rightarrow> (let (gs, r) = feed_chunks cs r in (fs @ gs, r)))"

lemma split_frames_app:
  assumes "length (xs @ ys) < 2 ^ 64"
  shows "split_frames (xs @ ys) =
    (case split_frames xs of (fs, None) \<Rightarrow> (fs, None)
     | (fs, Some r) \<Rightarrow> (let (gs, r') = split_frames (r @ ys) in (fs @ gs, r')))"
  using assms
proof (induction xs rule: split_frames.induct)
  case (1 xs)
  show ?case
  proof (cases "decode_frame xs")
    case NeedMore
    then have "split_frames xs = ([], Some xs)" by (subst split_frames.simps) simp
    then show ?thesis by simp
  next
    case Throws
    with decode_frame_app [OF _ 1(2)] have "decode_frame (xs @ ys) = Throws" by simp
    with Throws have "split_frames xs = ([], None)" "split_frames (xs @ ys) = ([], None)"
      by (subst split_frames.simps; simp)+
    then show ?thesis by simp
  next
    case (Decoded f n)
    with decode_frame_app [OF _ 1(2)] have d: "decode_frame (xs @ ys) = Decoded f n" by simp
    have n: "n \<le> length xs" using decode_frame_consumed [OF Decoded] 1(2) by simp
    have s: "split_frames xs = (let (fs, r) = split_frames (drop n xs) in (f # fs, r))"
      "split_frames (xs @ ys) = (let (fs, r) = split_frames (drop n xs @ ys) in (f # fs, r))"
      using Decoded d n by (subst split_frames.simps; simp)+
    have "length (drop n xs @ ys) < 2 ^ 64" using 1(2) by simp
    from 1(1) [OF Decoded this] show ?thesis
      unfolding s by (auto split: prod.splits option.splits)
  qed
qed

lemma split_frames_rest: "split_frames xs = (fs, Some r) \<Longrightarrow> split_frames r = ([], Some r)"
proof (induction xs arbitrary: fs rule: split_frames.induct)
  case (1 xs)
  show ?case
  proof (cases "decode_frame xs")
    case (Decoded f n)
    with 1(2) obtain gs where "split_frames (drop n xs) = (gs, Some r)"
      by (subst (asm) split_frames.simps) (auto split: prod.splits)
    from 1(1) [OF Decoded this] show ?thesis .
  qed (use 1(2) in \<open>subst (asm) split_frames.simps; simp\<close>)+
qed

lemma feed_chunks_split:
  assumes "split_frames rb = ([], Some rb)" "length (rb @ concat cs) < 2 ^ 64"
  shows "feed_chunks cs rb = split_frames (rb @ concat cs)"
  using assms
proof (induction cs arbitrary: rb)
  case (Cons c cs)
  have l: "length ((rb @ c) @ concat cs) < 2 ^ 64" using Cons.prems(2) by simp
  note app = split_frames_app [OF l]
  obtain fs r where s: "split_frames (rb @ c) = (fs, r)" by fastforce
  show ?case
  proof (cases r)
    case None
    with app s show ?thesis by simp
  next
    case (Some r')
    have "length (r' @ concat cs) < 2 ^ 64"
    proof -
      have "length r' \<le> length xs" if "split_frames xs = (gs, Some r')" for xs gs
        using that
      proof (induction xs arbitrary: gs rule: split_frames.induct)
        case (1 xs)
        show ?case
        proof (cases "decode_frame xs")
          case (Decoded f n)
          with 1(2) obtain hs where "split_frames (drop n xs) = (hs, Some r')"
            by (subst (asm) split_frames.simps) (auto split: prod.splits)
          from 1(1) [OF Decoded this] show ?thesis by simp
        qed (use 1(2) in \<open>subst (asm) split_frames.simps; simp\<close>)+
      qed
      with s Some l show ?thesis by fastforce
    qed
    from Cons.IH [OF split_frames_rest this] s Some app show ?thesis by simp
  qed
qed simp

lemma split_ws_bytes:
  assumes "list_all ws_valid fs" "length (concat (map (\<lambda>(k, f). ws_bytes k f) fs)) < 2 ^ 64"
  shows "split_frames (concat (map (\<lambda>(k, f). ws_bytes k f) fs)) = (map snd fs, Some [])"
  using assms
proof (induction fs)
  case Nil
  show ?case by (subst split_frames.simps) (simp add: decode_frame_def)
next
  case (Cons p fs)
  obtain k f where p: "p = (k, f)" by (cases p)
  let ?rest = "concat (map (\<lambda>(k, f). ws_bytes k f) fs)"
  have "decode_frame (ws_bytes k f @ ?rest) = Decoded f (length (ws_bytes k f))"
    using decode_frame_app [of "ws_bytes k f" ?rest] decode_ws_bytes [of k f] Cons.prems p by simp
  with Cons p show ?case by (subst split_frames.simps) simp
qed

text \<open>
  C29: frames survive the network. Whatever sequence of valid frames is sent, masked or not, of any of the
  three length formats, and however the bytes are cut into reads, the receive buffer yields exactly these
  frames, in order, and is empty at the end.
\<close>

theorem ws_stream_reassembled:
  assumes "list_all ws_valid fs" "concat chunks = concat (map (\<lambda>(k, f). ws_bytes k f) fs)"
    and "length (concat chunks) < 2 ^ 64"
  shows "feed_chunks chunks [] = (map snd fs, Some [])"
proof -
  have "split_frames [] = ([], Some [])" by (subst split_frames.simps) (simp add: decode_frame_def)
  from feed_chunks_split [OF this, of chunks] assms split_ws_bytes [of fs] show ?thesis by simp
qed

theorem ws_stream_reassembled_witness:
  "feed_chunks [[0x89], [0x82, 1, 2, 3], [4, 9, 9, 0x81], [0]] [] =
    ([\<lparr>wf_opcode = op_ping, wf_fin = True, wf_payload = [8, 11]\<rparr>,
      \<lparr>wf_opcode = op_text, wf_fin = True, wf_payload = []\<rparr>], Some [])"
proof -
  let ?fs = "[(Some [1, 2, 3, 4 :: u8], \<lparr>wf_opcode = op_ping, wf_fin = True, wf_payload = [8, 11]\<rparr>),
      (None, \<lparr>wf_opcode = op_text, wf_fin = True, wf_payload = []\<rparr>)]"
  have "list_all ws_valid ?fs" by (simp add: ws_valid_def op_ping_def op_text_def max_string_def)
  moreover have "concat [[0x89], [0x82, 1, 2, 3], [4, 9, 9, 0x81], [0 :: u8]] = concat (map (\<lambda>(k, f). ws_bytes k f) ?fs)"
    by (simp add: ws_bytes_def length_field_def unmask_def op_ping_def op_text_def upt_rec)
  moreover have "length (concat [[0x89], [0x82, 1, 2, 3], [4, 9, 9, 0x81], [0 :: u8]]) < 2 ^ 64" by simp
  ultimately have "feed_chunks [[0x89], [0x82, 1, 2, 3], [4, 9, 9, 0x81], [0]] [] = (map snd ?fs, Some [])"
    by (rule ws_stream_reassembled)
  then show ?thesis by (simp only: list.map snd_conv)
qed

text \<open>
  A length field above the largest string makes the sum of header and length wrap: instead of waiting for
  more bytes the decoder resizes its string to that length and throws.
\<close>

lemma huge_length_throws: "decode_frame ([0x81, 127] @ be_bytes 8 (- 1 :: u64)) = Throws"
proof -
  have "\<not> of_nat 10 < (of_nat 10 + - 1 :: u64)" by simp
  moreover have "max_string < unat (- 1 :: u64)" by (simp add: max_string_def unsigned_minus_1_eq_mask mask_eq_exp_minus_1)
  ultimately have "decode_body 0x81 False 10 (- 1) ([0x81, 127] @ be_bytes 8 (- 1 :: u64)) = Throws"
    by (simp add: decode_body_def)
  then show ?thesis
    by (simp add: decode_frame_def from_be_bytes Let_def)
qed

end
