(* ===== verification/Json.thy ===== *)
theory Json
  imports DataBatch
begin

text \<open>
  JSON values and what the program makes of records and samples
  (\<open>src/serialization/json_serializer.h\<close>). The values are those of nlohmann/json as its documentation
  describes them; an object is a map, here an association list with distinct keys whose order means
  nothing. Its text (\<open>dump\<close>) is a parameter where it is used.
\<close>

datatype json =
    JNull | JBool bool | JInt int | JUint u64 | JFloat real | JString string
  | JArray "json list" | JObject "(string \<times> json) list"

definition j_set :: "string \<Rightarrow> json \<Rightarrow> (string \<times> json) list \<Rightarrow> (string \<times> json) list" where
  "j_set key v obj = AList.update key v obj"

definition field_value_to_json :: "field_value \<Rightarrow> json" where
  "field_value_to_json fv =
     (case fv of FBool b \<Rightarrow> JBool b | FInt i \<Rightarrow> JInt i | FUint u \<Rightarrow> JUint u | FDouble d \<Rightarrow> JFloat d
      | FString s \<Rightarrow> JString s | FNone \<Rightarrow> JNull)"

definition stack_frame_to_json :: "stack_frame \<Rightarrow> json" where
  "stack_frame_to_json f =
     JObject ([(''address'', JUint (sf_address f))] @
       (if sf_function_name f \<noteq> [] then [(''function_name'', JString (sf_function_name f))] else []) @
       (if sf_module_name f \<noteq> [] then [(''module_name'', JString (sf_module_name f))] else []))"

definition stack_frames_to_json :: "stack_frame list \<Rightarrow> json" where
  "stack_frames_to_json frames = JArray (map stack_frame_to_json frames)"

definition sample_type_number :: "sample_type \<Rightarrow> int" where
  "sample_type_number t = (case t of OnCpu \<Rightarrow> 0 | OffCpu \<Rightarrow> 1)"

definition stack_sample_to_json :: "stack_sample \<Rightarrow> json" where
  "stack_sample_to_json s =
     JObject ([(''pid'', JUint (ucast (ss_pid s))), (''tid'', JUint (ucast (ss_tid s))), (''cpu'', JUint (ucast (ss_cpu s))),
       (''count'', JUint (ss_count s)), (''comm'', JString (ss_comm s)), (''type'', JInt (sample_type_number (ss_sample_type s)))] @
       (if 0 < ss_duration_ns s then [(''duration_ns'', JUint (ss_duration_ns s))] else []) @
       [(''kernel_stack'', stack_frames_to_json (ss_kernel_stack s)), (''user_stack'', stack_frames_to_json (ss_user_stack s))])"

definition labels_to_json :: "label list \<Rightarrow> json" where
  "labels_to_json ls = JObject (fold (\<lambda>(k, v). j_set k (JString v)) ls [])"

definition fields_to_json :: "(string \<times> field_value) list \<Rightarrow> json" where
  "fields_to_json fs = JObject (fold (\<lambda>(k, v). j_set k (field_value_to_json v)) fs [])"

definition record_to_json :: "data_record \<Rightarrow> json" where
  "record_to_json r = JObject [(''labels'', labels_to_json (rc_labels r)), (''fields'', fields_to_json (rc_fields r))]"

definition batch_json :: "data_batch \<Rightarrow> string \<Rightarrow> json" where
  "batch_json b pipeline =
     JObject ([(''pipeline'', JString pipeline), (''records'', JArray (map record_to_json (db_records b)))] @
       (if db_samples b \<noteq> [] then [(''stack_samples'', JArray (map stack_sample_to_json (db_samples b)))] else []))"

text \<open>\<open>dump\<close> throws, here \<open>None\<close>, when a string is not UTF-8.\<close>

definition batch_to_json :: "(json \<Rightarrow> string option) \<Rightarrow> data_batch \<Rightarrow> string \<Rightarrow> string option" where
  "batch_to_json dump b pipeline = dump (batch_json b pipeline)"

section \<open>Reading the values back\<close>

definition j_get :: "string \<Rightarrow> json \<Rightarrow> json option" where
  "j_get key j = (case j of JObject obj \<Rightarrow> map_of obj key | _ \<Rightarrow> None)"

lemma fold_j_set_get:
  "map_of (fold (\<lambda>(k, v). j_set k (g v)) xs obj) key =
     (case map_of (rev xs) key of Some v \<Rightarrow> Some (g v) | None \<Rightarrow> map_of obj key)"
  by (induction xs arbitrary: obj) (auto simp: j_set_def update_conv' map_add_def split: option.splits)

lemma map_of_rev_distinct: "distinct (map fst xs) \<Longrightarrow> map_of (rev xs) = map_of xs"
  by (rule map_of_eqI) (auto simp: rev_map [symmetric] intro!: ext)

text \<open>Every field of a record is in its JSON value, with its type.\<close>

lemma record_json_fields:
  assumes "distinct (map fst (rc_fields r))"
  shows "Option.bind (j_get ''fields'' (record_to_json r)) (j_get key) = map_option field_value_to_json (get_field key r)"
  using map_of_rev_distinct [OF assms]
  by (simp add: record_to_json_def j_get_def fields_to_json_def fold_j_set_get get_field_def split: option.split)

lemma field_value_json_inject: "field_value_to_json v = field_value_to_json w \<longleftrightarrow> v = w"
  by (cases v; cases w) (simp_all add: field_value_to_json_def)

end
