(* ===== verification/Sinks.thy ===== *)
theory Sinks
  imports Json Config Scanf "HOL-Library.Multiset"
begin

text \<open>
  The sinks of \<open>src/sinks/\<close> but for the local storage. What a sink prints or writes to its file is the text
  it returns or keeps. The formats of floating-point numbers are parameters: \<open>fmt3\<close> for \<open>%.3f\<close> and
  \<open>show_double\<close> for an output stream.
\<close>

section \<open>console_output\<close>

definition console_init :: "config_value \<Rightarrow> bool" where
  "console_init config \<longleftrightarrow> as_string (cv_child ''format'' config) ''text'' = ''json''"

definition print_field :: "(real \<Rightarrow> string) \<Rightarrow> string \<times> field_value \<Rightarrow> string" where
  "print_field fmt3 = (\<lambda>(key, v).
     case v of
       FNone \<Rightarrow> []
     | FBool b \<Rightarrow> '' '' @ c_str key @ ''='' @ (if b then ''true'' else ''false'')
     | FInt i \<Rightarrow> '' '' @ c_str key @ ''='' @ show_int i
     | FUint u \<Rightarrow> '' '' @ c_str key @ ''='' @ show_nat (unat u)
     | FDouble d \<Rightarrow> '' '' @ c_str key @ ''='' @ fmt3 d
     | FString s \<Rightarrow> '' '' @ c_str key @ ''='' @ c_str s)"

definition record_text :: "(real \<Rightarrow> string) \<Rightarrow> data_record \<Rightarrow> string" where
  "record_text fmt3 r =
     ''['' @ show_nat (unat (rc_timestamp r)) @ '']'' @
     concat (map (\<lambda>(k, v). '' {'' @ c_str k @ ''='' @ c_str v @ ''}'') (rc_labels r)) @
     concat (map (print_field fmt3) (rc_fields r)) @ [newline]"

definition record_line :: "(json \<Rightarrow> string option) \<Rightarrow> data_record \<Rightarrow> string option" where
  "record_line dump r = map_option (\<lambda>s. c_str s @ [newline]) (dump (record_to_json r))"

definition frame_line :: "stack_frame \<Rightarrow> string" where
  "frame_line f =
     ''  '' @ c_str (sf_function_name f) @ ''+0x'' @ show_hex (unat (sf_address f)) @
     (if sf_file_name f \<noteq> [] then '' ('' @ c_str (sf_file_name f) @ '':'' @ show_nat (unat (sf_line_number f)) @ '')'' else []) @
     [newline]"

definition sample_text :: "stack_sample \<Rightarrow> string" where
  "sample_text s =
     ''[stack] pid='' @ show_nat (unat (ss_pid s)) @ '' tid='' @ show_nat (unat (ss_tid s)) @ '' comm='' @ c_str (ss_comm s) @
     '' count='' @ show_nat (unat (ss_count s)) @ [newline] @ concat (map frame_line (ss_user_stack s))"

text \<open>The records, then the samples; \<open>None\<close> when a record cannot be dumped.\<close>

definition console_write ::
  "(real \<Rightarrow> string) \<Rightarrow> (json \<Rightarrow> string option) \<Rightarrow> bool \<Rightarrow> data_batch option \<Rightarrow> string option" where
  "console_write fmt3 dump json_mode batch =
     (case batch of
        None \<Rightarrow> Some []
      | Some b \<Rightarrow>
          map_option (\<lambda>lines. concat lines @ concat (map sample_text (db_samples b)))
            (those (map (if json_mode then record_line dump else Some \<circ> record_text fmt3) (db_records b))))"

section \<open>file_export\<close>

record file_sink =
  fx_path :: string
  fx_open :: bool
  fx_written :: string \<comment> \<open>what this sink has appended to its file\<close>

definition file_sink_init :: "config_value \<Rightarrow> file_sink" where
  "file_sink_init config =
     \<lparr>fx_path = as_string (cv_child ''path'' config) ''/tmp/illuminator_output.jsonl'', fx_open = False, fx_written = []\<rparr>"

definition file_sink_start :: "bool \<Rightarrow> file_sink \<Rightarrow> file_sink \<times> status" where
  "file_sink_start opened s =
     (if \<not> opened then (s\<lparr>fx_open := False\<rparr>, status_error Internal (''Cannot open file: '' @ fx_path s))
      else (s\<lparr>fx_open := True\<rparr>, status_ok))"

definition file_sink_stop :: "file_sink \<Rightarrow> file_sink \<times> status" where
  "file_sink_stop s = (s\<lparr>fx_open := False\<rparr>, status_ok)"

definition file_sink_write ::
  "(json \<Rightarrow> string option) \<Rightarrow> data_batch option \<Rightarrow> file_sink \<Rightarrow> (file_sink \<times> status) option" where
  "file_sink_write dump batch s =
     (case batch of
        None \<Rightarrow> Some (s, status_ok)
      | Some b \<Rightarrow>
          if \<not> fx_open s then Some (s, status_ok)
          else map_option (\<lambda>lines. (s\<lparr>fx_written := fx_written s @ concat lines\<rparr>, status_ok))
                 (those (map (record_line dump) (db_records b))))"

section \<open>otlp_export\<close>

definition extract_double :: "field_value \<Rightarrow> real" where
  "extract_double v =
     (case v of FNone \<Rightarrow> 0 | FBool b \<Rightarrow> (if b then 1 else 0) | FInt i \<Rightarrow> real_of_int i
      | FUint u \<Rightarrow> real (unat u) | FDouble d \<Rightarrow> d | FString _ \<Rightarrow> 0)"

abbreviation quote :: string where
  "quote \<equiv> [CHR 0x22]"

fun comma_list :: "string list \<Rightarrow> string" where
  "comma_list [] = []"
| "comma_list [x] = x"
| "comma_list (x # xs) = x @ '','' @ comma_list xs"

definition quoted :: "string \<Rightarrow> string" where
  "quoted s = quote @ s @ quote"

definition otlp_attribute :: "label \<Rightarrow> string" where
  "otlp_attribute = (\<lambda>(k, v).
     ''{'' @ quoted ''key'' @ '':'' @ quoted k @ '','' @ quoted ''value'' @ '':{'' @ quoted ''stringValue'' @ '':'' @ quoted v @ ''}}'')"

definition otlp_metric :: "(real \<Rightarrow> string) \<Rightarrow> data_record \<Rightarrow> string \<times> field_value \<Rightarrow> string" where
  "otlp_metric show_double r = (\<lambda>(key, v).
     ''{'' @ quoted ''name'' @ '':'' @ quoted key @ '','' @ quoted ''gauge'' @ '':{'' @ quoted ''dataPoints'' @ '':[{'' @
     quoted ''timeUnixNano'' @ '':'' @ show_nat (unat (rc_timestamp r)) @ '','' @ quoted ''asDouble'' @ '':'' @
     show_double (extract_double v) @
     (if rc_labels r \<noteq> [] then '','' @ quoted ''attributes'' @ '':['' @ comma_list (map otlp_attribute (rc_labels r)) @ '']'' else []) @
     ''}]}}'')"

definition otlp_payload :: "(real \<Rightarrow> string) \<Rightarrow> data_batch \<Rightarrow> string" where
  "otlp_payload show_double b =
     ''{'' @ quoted ''resourceMetrics'' @ '':[{'' @ quoted ''scopeMetrics'' @ '':[{'' @ quoted ''metrics'' @ '':['' @
     comma_list (concat (map (\<lambda>r. map (otlp_metric show_double r) (rc_fields r)) (db_records b))) @ '']}]}]}''"

record otlp_sink =
  ot_endpoint :: string
  ot_last_payload :: string
  ot_payloads_built :: u64

definition otlp_init :: "config_value \<Rightarrow> otlp_sink" where
  "otlp_init config =
     \<lparr>ot_endpoint = as_string (cv_child ''endpoint'' config) ''http://localhost:4318/v1/metrics'',
      ot_last_payload = [], ot_payloads_built = 0\<rparr>"

definition otlp_write :: "(real \<Rightarrow> string) \<Rightarrow> data_batch option \<Rightarrow> otlp_sink \<Rightarrow> otlp_sink" where
  "otlp_write show_double batch s =
     (case batch of
        None \<Rightarrow> s
      | Some b \<Rightarrow>
          if batch_empty b then s
          else s\<lparr>ot_last_payload := otlp_payload show_double b, ot_payloads_built := ot_payloads_built s + 1\<rparr>)"

section \<open>pprof_export\<close>

definition folded_frame :: "stack_frame \<Rightarrow> string" where
  "folded_frame f =
     '';'' @ (if sf_function_name f \<noteq> [] then sf_function_name f else ''0x'' @ show_hex (unat (sf_address f)))"

definition build_folded_stack :: "stack_sample \<Rightarrow> string" where
  "build_folded_stack s = ss_comm s @ concat (map folded_frame (rev (ss_user_stack s)))"

text \<open>The counts are a hash map, here an association list with distinct keys; \<open>pp_file\<close> is the output file.\<close>

record pprof_sink =
  pp_path :: string
  pp_counts :: "(string \<times> u64) list"
  pp_file :: "string option"

definition pprof_init :: "config_value \<Rightarrow> pprof_sink" where
  "pprof_init config =
     \<lparr>pp_path = as_string (cv_child ''path'' config) ''/tmp/illuminator.folded'', pp_counts = [], pp_file = None\<rparr>"

definition count_stack :: "stack_sample \<Rightarrow> (string \<times> u64) list \<Rightarrow> (string \<times> u64) list" where
  "count_stack s counts =
     (let key = build_folded_stack s
      in if key = [] then counts
         else AList.update key ((case map_of counts key of None \<Rightarrow> 0 | Some n \<Rightarrow> n) + ss_count s) counts)"

definition pprof_write :: "data_batch option \<Rightarrow> pprof_sink \<Rightarrow> pprof_sink" where
  "pprof_write batch s =
     (case batch of None \<Rightarrow> s | Some b \<Rightarrow> s\<lparr>pp_counts := fold count_stack (db_samples b) (pp_counts s)\<rparr>)"

definition folded_line :: "string \<times> u64 \<Rightarrow> string" where
  "folded_line = (\<lambda>(stack, n). stack @ '' '' @ show_nat (unat n) @ [newline])"

definition pprof_flush :: "bool \<Rightarrow> pprof_sink \<Rightarrow> pprof_sink \<times> status" where
  "pprof_flush opened s =
     (if pp_counts s = [] then (s, status_ok)
      else if \<not> opened then (s, status_error Internal (''Cannot open pprof output: '' @ pp_path s))
      else (s\<lparr>pp_counts := [], pp_file := Some (concat (map folded_line (pp_counts s)))\<rparr>, status_ok))"

definition pprof_stop :: "bool \<Rightarrow> pprof_sink \<Rightarrow> pprof_sink \<times> status" where
  "pprof_stop opened s = pprof_flush opened s"

section \<open>prometheus_exposition\<close>

definition is_alnum :: "char \<Rightarrow> bool" where
  "is_alnum c \<longleftrightarrow> (let k = (of_char c :: nat) in 48 \<le> k \<and> k \<le> 57 \<or> 65 \<le> k \<and> k \<le> 90 \<or> 97 \<le> k \<and> k \<le> 122)"

definition sanitize_name :: "string \<Rightarrow> string" where
  "sanitize_name = map (\<lambda>c. if is_alnum c \<or> c = CHR ''_'' then c else CHR ''_'')"

definition escape_char :: "char \<Rightarrow> string" where
  "escape_char c =
     (if c = CHR 0x5C then [CHR 0x5C, CHR 0x5C] else if c = CHR 0x22 then [CHR 0x5C, CHR 0x22]
      else if c = newline then [CHR 0x5C, CHR ''n''] else [c])"

definition escape_label_value :: "string \<Rightarrow> string" where
  "escape_label_value s = concat (map escape_char s)"

definition build_label_string :: "label list \<Rightarrow> string" where
  "build_label_string ls =
     (if ls = [] then []
      else ''{'' @ comma_list (map (\<lambda>(k, v). k @ ''='' @ quote @ escape_label_value v @ quote) ls) @ ''}'')"

record prometheus_sink =
  pm_prefix :: string
  pm_gauges :: "(string \<times> real) list"
  pm_metric_help :: "(string \<times> string) list"

definition prometheus_init :: "config_value \<Rightarrow> prometheus_sink" where
  "prometheus_init config =
     \<lparr>pm_prefix = as_string (cv_child ''prefix'' config) ''illuminator'', pm_gauges = [], pm_metric_help = []\<rparr>"

definition set_gauge :: "string \<Rightarrow> string \<times> field_value \<Rightarrow> prometheus_sink \<Rightarrow> prometheus_sink" where
  "set_gauge label_str = (\<lambda>(key, v) s.
     let metric_name = sanitize_name (pm_prefix s @ ''_'' @ key)
     in s\<lparr>pm_gauges := AList.update (metric_name @ label_str) (extract_double v) (pm_gauges s),
          pm_metric_help := AList.update metric_name metric_name (pm_metric_help s)\<rparr>)"

definition prometheus_write :: "data_batch option \<Rightarrow> prometheus_sink \<Rightarrow> prometheus_sink" where
  "prometheus_write batch s =
     (case batch of
        None \<Rightarrow> s
      | Some b \<Rightarrow> fold (\<lambda>r. fold (set_gauge (build_label_string (rc_labels r))) (rc_fields r)) (db_records b) s)"

definition prometheus_expose :: "(real \<Rightarrow> string) \<Rightarrow> prometheus_sink \<Rightarrow> string" where
  "prometheus_expose show_double s =
     concat (map (\<lambda>(name, _). ''# HELP '' @ name @ '' Illuminator metric'' @ [newline] @
         ''# TYPE '' @ name @ '' gauge'' @ [newline]) (pm_metric_help s)) @
     concat (map (\<lambda>(key, v). key @ '' '' @ show_double v @ [newline]) (pm_gauges s))"

section \<open>websocket_sink\<close>

type_synonym ws_store = "string \<rightharpoonup> data_batch list"

text \<open>The loop that pops the front leaves the last \<open>max_keep\<close> batches.\<close>

fun pop_to :: "nat \<Rightarrow> 'b list \<Rightarrow> 'b list" where
  "pop_to n [] = []"
| "pop_to n (x # xs) = (if n < length (x # xs) then pop_to n xs else x # xs)"

definition push_batch :: "string \<Rightarrow> data_batch \<Rightarrow> u64 \<Rightarrow> ws_store \<Rightarrow> ws_store" where
  "push_batch key b max_keep store =
     store(key \<mapsto> pop_to (unat max_keep) ((case store key of None \<Rightarrow> [] | Some dq \<Rightarrow> dq) @ [b]))"

definition ws_latest :: "string \<Rightarrow> ws_store \<Rightarrow> data_batch option" where
  "ws_latest key store =
     (case store key of None \<Rightarrow> None | Some dq \<Rightarrow> if dq = [] then None else Some (last dq))"

definition snapshot_recent :: "string \<Rightarrow> u64 \<Rightarrow> ws_store \<Rightarrow> data_batch list" where
  "snapshot_recent key max_n store =
     (case store key of
        None \<Rightarrow> []
      | Some dq \<Rightarrow>
          let start = (if unat max_n < length dq then length dq - unat max_n else 0)
          in map ((!) dq) [start..<length dq])"

definition total_batch_count :: "string list \<Rightarrow> ws_store \<Rightarrow> nat" where
  "total_batch_count keys store = sum_list (map (\<lambda>k. case store k of None \<Rightarrow> 0 | Some dq \<Rightarrow> length dq) keys)"

record websocket_sink =
  wk_max_buffer_size :: u64
  wk_pipeline_key :: string

definition websocket_sink_init :: "config_value \<Rightarrow> websocket_sink" where
  "websocket_sink_init config =
     \<lparr>wk_max_buffer_size = word_of_int (as_int (cv_child ''max_buffer_size'' config) 30),
      wk_pipeline_key = as_string (cv_child ''pipeline_key'' config) ''default''\<rparr>"

definition websocket_sink_write :: "websocket_sink \<Rightarrow> data_batch option \<Rightarrow> ws_store \<Rightarrow> ws_store" where
  "websocket_sink_write s batch store =
     (case batch of None \<Rightarrow> store | Some b \<Rightarrow> push_batch (wk_pipeline_key s) b (wk_max_buffer_size s) store)"

section \<open>Folded stacks\<close>

definition folded_samples :: "data_batch list \<Rightarrow> stack_sample list" where
  "folded_samples bs = filter (\<lambda>x. build_folded_stack x \<noteq> []) (concat (map db_samples bs))"

definition counts_ok :: "stack_sample list \<Rightarrow> (string \<times> u64) list \<Rightarrow> bool" where
  "counts_ok xs counts \<longleftrightarrow> distinct (map fst counts) \<and> fst ` set counts = build_folded_stack ` set xs \<and>
     (\<forall>k. map_of counts k =
        (if k \<in> build_folded_stack ` set xs
         then Some (sum_list (map ss_count (filter (\<lambda>x. build_folded_stack x = k) xs))) else None))"

lemma count_stack_ok:
  assumes "counts_ok xs counts"
  shows "counts_ok (xs @ filter (\<lambda>x. build_folded_stack x \<noteq> []) [x]) (count_stack x counts)"
proof (cases "build_folded_stack x = []")
  case False
  let ?k = "build_folded_stack x"
  have n: "(case map_of counts ?k of None \<Rightarrow> 0 | Some n \<Rightarrow> n) =
      sum_list (map ss_count (filter (\<lambda>y. build_folded_stack y = ?k) xs))"
  proof (cases "?k \<in> build_folded_stack ` set xs")
    case True
    with assms show ?thesis by (simp add: counts_ok_def)
  next
    case nin: False
    with assms have "map_of counts ?k = None" by (simp add: counts_ok_def)
    moreover have "filter (\<lambda>y. build_folded_stack y = ?k) xs = []" using nin by (simp add: filter_empty_conv) (metis image_eqI)
    ultimately show ?thesis by simp
  qed
  have "distinct (map fst counts)" "fst ` set counts = build_folded_stack ` set xs"
    "\<And>k. map_of counts k = (if k \<in> build_folded_stack ` set xs
         then Some (sum_list (map ss_count (filter (\<lambda>x. build_folded_stack x = k) xs))) else None)"
    using assms unfolding counts_ok_def by blast+
  then show ?thesis
    using False unfolding counts_ok_def count_stack_def Let_def n
    by (auto simp: distinct_update dom_update update_conv')
qed (use assms in \<open>simp add: count_stack_def\<close>)

lemma fold_count_stack_ok:
  "counts_ok xs counts \<Longrightarrow>
     counts_ok (xs @ filter (\<lambda>x. build_folded_stack x \<noteq> []) ys) (fold count_stack ys counts)"
proof (induction ys arbitrary: xs counts)
  case (Cons y ys)
  from Cons.IH [OF count_stack_ok [OF Cons.prems, of y]] show ?case by (simp split: if_splits)
qed simp

lemma pprof_writes:
  "fold (pprof_write \<circ> Some) bs s = s\<lparr>pp_counts := fold count_stack (concat (map db_samples bs)) (pp_counts s)\<rparr>"
  by (induction bs arbitrary: s) (simp_all add: pprof_write_def)

text \<open>
  C37: a flush writes the stacks since the last one. After any batches into a new sink it replaces the file
  by one line for each distinct folded stack of the samples (those with a name or a user stack), with the
  sum of their counts modulo \<open>2 ^ 64\<close>, and starts afresh; nothing of an earlier flush stays in the file.
\<close>

theorem pprof_flush_folds:
  fixes bs :: "data_batch list" and config :: config_value
  defines "xs \<equiv> folded_samples bs" and "s \<equiv> fold (pprof_write \<circ> Some) bs (pprof_init config)"
  assumes "xs \<noteq> []"
  shows "\<exists>counts. distinct (map fst counts) \<and> fst ` set counts = build_folded_stack ` set xs \<and>
    (\<forall>(k, n) \<in> set counts. n = sum_list (map ss_count (filter (\<lambda>x. build_folded_stack x = k) xs))) \<and>
    pprof_flush True s = (s\<lparr>pp_counts := [], pp_file := Some (concat (map folded_line counts))\<rparr>, status_ok)"
proof -
  have "counts_ok [] []" by (simp add: counts_ok_def)
  from fold_count_stack_ok [OF this, of "concat (map db_samples bs)"]
  have c: "counts_ok xs (pp_counts s)"
    by (simp add: xs_def s_def folded_samples_def pprof_writes pprof_init_def)
  then have d: "distinct (map fst (pp_counts s))" "fst ` set (pp_counts s) = build_folded_stack ` set xs"
    by (simp_all add: counts_ok_def)
  with assms(3) have "pp_counts s \<noteq> []" by auto
  then have "pprof_flush True s = (s\<lparr>pp_counts := [], pp_file := Some (concat (map folded_line (pp_counts s)))\<rparr>, status_ok)"
    by (simp add: pprof_flush_def)
  moreover have "n = sum_list (map ss_count (filter (\<lambda>x. build_folded_stack x = k) xs))"
    if "(k, n) \<in> set (pp_counts s)" for k n
  proof -
    from that d(1) have "map_of (pp_counts s) k = Some n" by simp
    with c show ?thesis unfolding counts_ok_def by (auto split: if_splits)
  qed
  ultimately show ?thesis using d by (intro exI [of _ "pp_counts s"]) auto
qed

theorem pprof_flush_folds_witness:
  defines "b \<equiv> (new_batch Profile)\<lparr>db_samples := [(default_sample 0)\<lparr>ss_comm := ''a'', ss_count := 2\<rparr>,
      (default_sample 0)\<lparr>ss_comm := ''a''\<rparr>]\<rparr>"
  shows "folded_samples [b] = db_samples b \<and>
    pp_file (fst (pprof_flush True (pprof_write (Some b) (pprof_init [])))) = Some (''a 3'' @ [newline])"
proof -
  have x: "folded_samples [b] = db_samples b"
    by (simp add: folded_samples_def b_def build_folded_stack_def default_sample_def)
  then have ne: "folded_samples [b] \<noteq> []" by (simp add: b_def)
  have keys: "build_folded_stack ` set (folded_samples [b]) = {''a''}"
    unfolding x by (simp add: b_def build_folded_stack_def default_sample_def)
  have sums: "sum_list (map ss_count (filter (\<lambda>x. build_folded_stack x = ''a'') (folded_samples [b]))) = 3"
    unfolding x by (simp add: b_def build_folded_stack_def default_sample_def)
  let ?s = "fold (pprof_write \<circ> Some) [b] (pprof_init [])"
  obtain counts where "distinct (map fst counts) \<and> fst ` set counts = build_folded_stack ` set (folded_samples [b]) \<and>
    (\<forall>(k, n) \<in> set counts. n = sum_list (map ss_count (filter (\<lambda>x. build_folded_stack x = k) (folded_samples [b])))) \<and>
    pprof_flush True ?s = (?s\<lparr>pp_counts := [], pp_file := Some (concat (map folded_line counts))\<rparr>, status_ok)"
    using pprof_flush_folds [OF ne, of "[]"] by (elim exE)
  then have c: "distinct (map fst counts)" "fst ` set counts = {''a''}" and
    n: "\<forall>(k, n) \<in> set counts. n = sum_list (map ss_count (filter (\<lambda>x. build_folded_stack x = k) (folded_samples [b])))" and
    f: "pprof_flush True ?s = (?s\<lparr>pp_counts := [], pp_file := Some (concat (map folded_line counts))\<rparr>, status_ok)"
    unfolding keys by blast+
  from c have "length counts = card {''a''}" by (metis distinct_card length_map list.set_map)
  then obtain k m where one: "counts = [(k, m)]" by (cases counts) auto
  with c(2) have k: "k = ''a''" by simp
  from n one sums have "m = 3" unfolding k by simp
  with k one have "counts = [(''a'', 3)]" by simp
  with f have "pp_file (fst (pprof_flush True ?s)) = Some (''a 3'' @ [newline])"
    by (simp only: fst_conv) (simp add: folded_line_def show_nat_eval)
  with x show ?thesis by simp
qed

section \<open>Escaped label values\<close>

text \<open>How a reader of the exposition format takes a label value up to its closing quote.\<close>

fun read_label_value :: "string \<Rightarrow> (string \<times> string) option" where
  "read_label_value [] = None"
| "read_label_value (c # cs) =
     (if c = CHR 0x22 then Some ([], cs)
      else if c = newline then None
      else if c = CHR 0x5C then
        (case cs of
           [] \<Rightarrow> None
         | d # ds \<Rightarrow>
             (case (if d = CHR ''n'' then Some newline else if d = CHR 0x5C \<or> d = CHR 0x22 then Some d else None) of
                None \<Rightarrow> None
              | Some e \<Rightarrow> map_option (\<lambda>(v, rest). (e # v, rest)) (read_label_value ds)))
      else map_option (\<lambda>(v, rest). (c # v, rest)) (read_label_value cs))"

text \<open>
  A label value of any bytes survives the text format: a reader that takes the escaped value up to the
  first quote that is not escaped gets the value back, and the text after it.
\<close>

theorem label_value_roundtrip:
  "read_label_value (escape_label_value v @ quote @ rest) = Some (v, rest)"
  by (induction v) (simp_all add: escape_label_value_def escape_char_def)

section \<open>The store of the WebSocket sinks\<close>

lemma pop_to_drop: "pop_to n xs = drop (length xs - n) xs"
  by (induction xs) (auto simp: Suc_diff_le)

definition last_n :: "nat \<Rightarrow> 'b list \<Rightarrow> 'b list" where
  "last_n n xs = drop (length xs - n) xs"

lemma last_n_snoc: "pop_to m (last_n m xs @ [x]) = last_n m (xs @ [x])"
proof (cases "m \<le> length xs")
  case True
  let ?ys = "drop (length xs - m) (xs @ [x])"
  have "last_n m xs @ [x] = ?ys" by (simp add: last_n_def)
  then have "pop_to m (last_n m xs @ [x]) = drop (length ?ys - m) ?ys" by (simp only: pop_to_drop)
  also have "\<dots> = drop (length (xs @ [x]) - m) (xs @ [x])"
    using True by (simp only: drop_drop length_drop length_append_singleton) (simp add: Suc_diff_le)
  finally show ?thesis by (simp only: last_n_def)
qed (simp add: pop_to_drop last_n_def)

lemma last_n_nonempty: "xs \<noteq> [] \<Longrightarrow> k \<noteq> 0 \<Longrightarrow> last_n k xs \<noteq> [] \<and> last (last_n k xs) = last xs"
  by (cases xs) (auto simp: last_n_def last_drop)

lemma last_n_last_n: "last_n n (last_n m xs) = last_n (min n m) xs"
  by (simp add: last_n_def min_def) (use diff_diff_cancel in \<open>auto simp: add.commute intro: arg_cong\<close>)

lemma snapshot_last_n: "store key = Some dq \<Longrightarrow> snapshot_recent key n store = last_n (unat n) dq"
  by (auto simp: snapshot_recent_def last_n_def Let_def intro!: nth_equalityI)

text \<open>The batches pushed under a key, in order.\<close>

definition pushed :: "string \<Rightarrow> (string \<times> data_batch) list \<Rightarrow> data_batch list" where
  "pushed key kbs = map snd (filter (\<lambda>kb. fst kb = key) kbs)"

lemma pushes_store:
  "fold (\<lambda>(k, b). push_batch k b max_keep) kbs Map.empty key =
     (if pushed key kbs = [] then None else Some (last_n (unat max_keep) (pushed key kbs)))"
proof (induction kbs rule: rev_induct)
  case (snoc kb kbs)
  obtain k b where kb: "kb = (k, b)" by (cases kb)
  show ?case
  proof (cases "k = key")
    case True
    moreover have "last_n m [x] = pop_to m [x]" for m :: nat and x :: data_batch
      using last_n_snoc [of m "[]" x] by (simp add: last_n_def)
    ultimately show ?thesis
      using snoc by (simp add: kb push_batch_def pushed_def last_n_snoc)
  next
    case False
    with snoc show ?thesis by (simp add: kb push_batch_def pushed_def)
  qed
qed (simp add: pushed_def)

lemma ws_writes_store:
  "fold (\<lambda>(k, b). websocket_sink_write \<lparr>wk_max_buffer_size = m, wk_pipeline_key = k\<rparr> (Some b)) kbs Map.empty key =
     (if pushed key kbs = [] then None else Some (last_n (unat m) (pushed key kbs)))"
proof -
  have "(\<lambda>(k, b). websocket_sink_write \<lparr>wk_max_buffer_size = m, wk_pipeline_key = k\<rparr> (Some b)) =
      (\<lambda>(k, b). push_batch k b m)"
    by (auto simp: websocket_sink_write_def fun_eq_iff)
  then show ?thesis by (simp add: pushes_store)
qed

lemma ws_store_latest:
  "ws_latest key (fold (\<lambda>(k, b). websocket_sink_write \<lparr>wk_max_buffer_size = m, wk_pipeline_key = k\<rparr> (Some b)) kbs Map.empty) =
     (if pushed key kbs = [] \<or> m = 0 then None else Some (last (pushed key kbs)))"
proof (cases "pushed key kbs = []")
  case True
  then show ?thesis by (simp add: ws_latest_def ws_writes_store)
next
  case False
  have "unat m = 0 \<longleftrightarrow> m = 0" by (simp add: unat_eq_0)
  moreover have "last_n 0 (pushed key kbs) = []" by (simp add: last_n_def)
  ultimately show ?thesis
    using False last_n_nonempty [OF False, of "unat m"]
    by (cases "m = 0") (simp_all add: ws_latest_def ws_writes_store)
qed

text \<open>
  What the store keeps of a pipeline. After any interleaving of the writes of any sinks the store holds,
  for each key, the last \<open>max_buffer_size\<close> batches written under it in order, whatever was written under
  the other keys; a snapshot of \<open>n\<close> is the last \<open>n\<close> of these.
\<close>

theorem ws_store_keeps_latest:
  fixes kbs :: "(string \<times> data_batch) list" and m n :: u64
  defines "store \<equiv> fold (\<lambda>(k, b). websocket_sink_write \<lparr>wk_max_buffer_size = m, wk_pipeline_key = k\<rparr> (Some b)) kbs Map.empty"
  shows "snapshot_recent key n store = last_n (min (unat n) (unat m)) (pushed key kbs)"
proof -
  have st: "store key = (if pushed key kbs = [] then None else Some (last_n (unat m) (pushed key kbs)))"
    by (simp add: store_def ws_writes_store)
  show ?thesis
  proof (cases "pushed key kbs = []")
    case True
    with st show ?thesis by (simp add: snapshot_recent_def last_n_def)
  next
    case False
    with st snapshot_last_n [of store key _ n] show ?thesis by (simp add: last_n_last_n)
  qed
qed

end
