(* ===== verification/WsManager.thy ===== *)
theory WsManager
  imports WsFrames Sinks
begin

text \<open>
  The connections of the WebSocket server (\<open>src/server/websocket_manager.h\<close>): accepting clients, reading
  what they send and sending each the latest batch of its pipeline. Hash maps are association lists with
  distinct keys whose order means nothing. What a call writes to a socket and which descriptors it closes
  is a list of actions; what the kernel answers is a parameter.
\<close>

section \<open>State\<close>

record conn_info =
  ci_pipeline_key :: string
  ci_recv_buf :: "u8 list"

datatype ws_action = WsWrite int "u8 list" | WsClose int

text \<open>\<open>wm_held\<close>: the broadcast thread holds \<open>mu_\<close>.\<close>

record ws_manager =
  wm_connections :: "(int \<times> conn_info) list"
  wm_subscriptions :: "(string \<times> int list) list"
  wm_held :: bool
  wm_actions :: "ws_action list"

definition ws_manager_new :: ws_manager where
  "ws_manager_new = \<lparr>wm_connections = [], wm_subscriptions = [], wm_held = False, wm_actions = []\<rparr>"

text \<open>A call returns, waits for ever for a mutex its own thread holds, or throws (which ends the daemon).\<close>

datatype 'a run = Returns 'a | Hangs | Ends

fun run_bind :: "'a run \<Rightarrow> ('a \<Rightarrow> 'b run) \<Rightarrow> 'b run" where
  "run_bind (Returns x) f = f x"
| "run_bind Hangs f = Hangs"
| "run_bind Ends f = Ends"

definition sub_fds :: "string \<Rightarrow> (string \<times> int list) list \<Rightarrow> int list" where
  "sub_fds key subs = (case map_of subs key of None \<Rightarrow> [] | Some fds \<Rightarrow> fds)"

definition sub_insert :: "string \<Rightarrow> int \<Rightarrow> (string \<times> int list) list \<Rightarrow> (string \<times> int list) list" where
  "sub_insert key fd subs = AList.update key (List.insert fd (sub_fds key subs)) subs"

definition sub_erase :: "string \<Rightarrow> int \<Rightarrow> (string \<times> int list) list \<Rightarrow> (string \<times> int list) list" where
  "sub_erase key fd subs = AList.update key (removeAll fd (sub_fds key subs)) subs"

definition ws_act :: "ws_action list \<Rightarrow> ws_manager \<Rightarrow> ws_manager" where
  "ws_act xs st = st\<lparr>wm_actions := wm_actions st @ xs\<rparr>"

section \<open>Accepting\<close>

definition path_to_pipeline_key :: "string \<Rightarrow> string" where
  "path_to_pipeline_key path =
     (if 4 < length path \<and> take 4 path = ''/ws/'' then drop 4 path else ''default'')"

definition add_connection :: "int \<Rightarrow> string \<Rightarrow> ws_manager \<Rightarrow> ws_manager" where
  "add_connection fd subscribe_path st =
     (let key = path_to_pipeline_key subscribe_path
      in st\<lparr>wm_connections := AList.update fd \<lparr>ci_pipeline_key = key, ci_recv_buf = []\<rparr> (wm_connections st),
           wm_subscriptions := sub_insert key fd (wm_subscriptions st)\<rparr>)"

text \<open>
  One round of the accept loop. \<open>received\<close> is what the first read gave (\<open>None\<close> for nothing or an error),
  \<open>sent\<close> whether the answer to the handshake was written in full.
\<close>

definition accept_client :: "int \<Rightarrow> string option \<Rightarrow> bool \<Rightarrow> ws_manager \<Rightarrow> ws_manager" where
  "accept_client fd received sent st =
     (case received of
        None \<Rightarrow> ws_act [WsClose fd] st
      | Some request \<Rightarrow>
          if \<not> is_upgrade_request request
          then ws_act [WsWrite fd (bytes_of (''HTTP/1.1 400 Bad Request'' @ crlf @ crlf)), WsClose fd] st
          else case handshake_response request of
             None \<Rightarrow> ws_act [WsClose fd] st
           | Some resp \<Rightarrow>
               let st = ws_act [WsWrite fd (bytes_of resp)] st
               in if \<not> sent then ws_act [WsClose fd] st
                  else add_connection fd (extract_path request) st)"

section \<open>Reading\<close>

text \<open>\<open>HandleTextMessage\<close> takes the mutex.\<close>

definition text_of :: "u8 list \<Rightarrow> string" where
  "text_of = map (\<lambda>b. char_of (unat b))"

definition subscribe_word :: string where
  "subscribe_word = ''subscribe:''"

definition handle_text_message :: "int \<Rightarrow> u8 list \<Rightarrow> ws_manager \<Rightarrow> ws_manager run" where
  "handle_text_message fd msg st =
     (if take 10 msg \<noteq> bytes_of subscribe_word then Returns st
      else if wm_held st then Hangs
      else let new_key = text_of (drop 10 msg)
           in Returns (case map_of (wm_connections st) fd of
                None \<Rightarrow> st
              | Some c \<Rightarrow>
                  st\<lparr>wm_connections := AList.update fd (c\<lparr>ci_pipeline_key := new_key\<rparr>) (wm_connections st),
                     wm_subscriptions := sub_insert new_key fd (sub_erase (ci_pipeline_key c) fd (wm_subscriptions st))\<rparr>))"

text \<open>The state comes with the list \<open>to_remove\<close>.\<close>

definition handle_frame :: "int \<Rightarrow> ws_frame \<Rightarrow> ws_manager \<times> int list \<Rightarrow> (ws_manager \<times> int list) run" where
  "handle_frame fd f = (\<lambda>(st, gone).
     if wf_opcode f = op_ping then Returns (ws_act [WsWrite fd (encode_pong_frame (wf_payload f))] st, gone)
     else if wf_opcode f = op_close then Returns (st, gone @ [fd])
     else if wf_opcode f = op_text then run_bind (handle_text_message fd (wf_payload f) st) (\<lambda>st. Returns (st, gone))
     else Returns (st, gone))"

function drain_recv_buf ::
  "int \<Rightarrow> u8 list \<Rightarrow> ws_manager \<times> int list \<Rightarrow> (u8 list \<times> ws_manager \<times> int list) run" where
  "drain_recv_buf fd rb s =
     (if rb = [] then Returns (rb, s)
      else case decode_frame rb of
         NeedMore \<Rightarrow> Returns (rb, s)
       | Throws \<Rightarrow> Ends
       | Decoded f n \<Rightarrow>
           (case handle_frame fd f s of
              Returns s \<Rightarrow> drain_recv_buf fd (drop n rb) s
            | Hangs \<Rightarrow> Hangs
            | Ends \<Rightarrow> Ends))"
  by pat_completeness auto
termination
  by (relation "measure (\<lambda>(fd, rb, s). length rb)") (auto dest: decode_positive)

declare drain_recv_buf.simps [simp del]

definition set_recv_buf :: "int \<Rightarrow> u8 list \<Rightarrow> ws_manager \<Rightarrow> ws_manager" where
  "set_recv_buf fd rb st =
     (case map_of (wm_connections st) fd of
        None \<Rightarrow> st
      | Some c \<Rightarrow> st\<lparr>wm_connections := AList.update fd (c\<lparr>ci_recv_buf := rb\<rparr>) (wm_connections st)\<rparr>)"

text \<open>
  One descriptor of \<open>ProcessIncoming\<close>: not readable, a read of no bytes or an error (\<open>Some None\<close>), or bytes.
  The mutex is held while the frames are handled.
\<close>

definition read_connection ::
  "(int \<Rightarrow> u8 list option option) \<Rightarrow> int \<Rightarrow> ws_manager \<times> int list \<Rightarrow> (ws_manager \<times> int list) run" where
  "read_connection input fd = (\<lambda>(st, gone).
     case input fd of
       None \<Rightarrow> Returns (st, gone)
     | Some None \<Rightarrow> Returns (st, gone @ [fd])
     | Some (Some bytes) \<Rightarrow>
         (case map_of (wm_connections st) fd of
            None \<Rightarrow> Returns (st, gone)
          | Some c \<Rightarrow>
              run_bind (drain_recv_buf fd (ci_recv_buf c @ bytes) (st\<lparr>wm_held := True\<rparr>, gone))
                (\<lambda>(rb, st, gone). Returns ((set_recv_buf fd rb st)\<lparr>wm_held := False\<rparr>, gone))))"

definition remove_connection_locked :: "int \<Rightarrow> ws_manager \<Rightarrow> ws_manager" where
  "remove_connection_locked fd st =
     ws_act [WsWrite fd (encode_close_frame 1000), WsClose fd]
       (case map_of (wm_connections st) fd of
          None \<Rightarrow> st
        | Some c \<Rightarrow>
            st\<lparr>wm_subscriptions := sub_erase (ci_pipeline_key c) fd (wm_subscriptions st),
               wm_connections := AList.delete fd (wm_connections st)\<rparr>)"

fun run_fold :: "('b \<Rightarrow> 'a \<Rightarrow> 'a run) \<Rightarrow> 'b list \<Rightarrow> 'a \<Rightarrow> 'a run" where
  "run_fold f [] s = Returns s"
| "run_fold f (x # xs) s = run_bind (f x s) (run_fold f xs)"

definition process_incoming :: "(int \<Rightarrow> u8 list option option) \<Rightarrow> ws_manager \<Rightarrow> ws_manager run" where
  "process_incoming input st =
     run_bind (run_fold (read_connection input) (map fst (wm_connections st)) (st, []))
       (\<lambda>(st, gone). Returns (fold remove_connection_locked gone st))"

section \<open>Broadcasting\<close>

type_synonym ws_serializer = "string \<Rightarrow> data_batch \<Rightarrow> string option"

definition default_message :: "int \<Rightarrow> string \<Rightarrow> string" where
  "default_message now_ms key =
     ''{'' @ quoted ''pipeline'' @ '':'' @ quoted key @ '','' @ quoted ''ts'' @ '':'' @ show_int now_ms @ ''}''"

definition ws_message :: "ws_serializer option \<Rightarrow> int \<Rightarrow> string \<Rightarrow> data_batch \<Rightarrow> string option" where
  "ws_message serializer now_ms key batch =
     (case serializer of None \<Rightarrow> Some (default_message now_ms key) | Some f \<Rightarrow> f key batch)"

text \<open>One key of the snapshot: \<open>msg\<close> makes the text (\<open>None\<close> when it throws), \<open>wrote\<close> says which writes succeed.\<close>

definition send_key ::
  "ws_store \<Rightarrow> ws_serializer \<Rightarrow> (int \<Rightarrow> bool) \<Rightarrow> string \<times> int list \<Rightarrow> ws_manager \<Rightarrow> ws_manager run" where
  "send_key store msg wrote = (\<lambda>(key, fds) st.
     case ws_latest key store of
       None \<Rightarrow> Returns st
     | Some batch \<Rightarrow>
         (case msg key batch of
            None \<Rightarrow> Ends
          | Some js \<Rightarrow>
              let frame = encode_frame (bytes_of js) op_text
              in Returns (fold remove_connection_locked (filter (\<lambda>fd. \<not> wrote fd) fds)
                   (ws_act (map (\<lambda>fd. WsWrite fd frame) fds) st))))"

definition broadcast_data :: "ws_store \<Rightarrow> ws_serializer \<Rightarrow> (int \<Rightarrow> bool) \<Rightarrow> ws_manager \<Rightarrow> ws_manager run" where
  "broadcast_data store msg wrote st =
     run_fold (send_key store msg wrote) (filter (\<lambda>(key, fds). fds \<noteq> []) (wm_subscriptions st)) st"

section \<open>Listen and Stop\<close>

record listen_calls =
  lc_socket :: "int option"
  lc_inet_aton :: bool
  lc_bind :: bool
  lc_listen :: bool

text \<open>The descriptor to listen on, with those closed on the way, and the result.\<close>

definition ws_listen :: "listen_calls \<Rightarrow> string \<Rightarrow> int option \<times> int list \<times> bool" where
  "ws_listen calls addr =
     (case lc_socket calls of
        None \<Rightarrow> (None, [], False)
      | Some fd \<Rightarrow>
          if addr \<noteq> ''0.0.0.0'' \<and> \<not> lc_inet_aton calls then (None, [fd], False)
          else if \<not> lc_bind calls then (None, [fd], False)
          else if \<not> lc_listen calls then (None, [fd], False)
          else (Some fd, [], True))"

definition ws_stop :: "ws_manager \<Rightarrow> ws_manager" where
  "ws_stop st =
     (ws_act (concat (map (\<lambda>(fd, c). [WsWrite fd (encode_close_frame 1001), WsClose fd]) (wm_connections st))) st)
       \<lparr>wm_connections := [], wm_subscriptions := []\<rparr>"

text \<open>
  The histories of the server: clients accepted on descriptors the kernel does not give twice, and rounds of
  the broadcast thread that return. A client accepted during a round only adds a descriptor the round does
  not look at, so it is placed before or after it.
\<close>

inductive ws_reachable :: "ws_manager \<Rightarrow> bool" where
  start: "ws_reachable ws_manager_new"
| accepted: "ws_reachable st \<Longrightarrow> map_of (wm_connections st) fd = None \<Longrightarrow>
    ws_reachable (accept_client fd received sent st)"
| incoming: "ws_reachable st \<Longrightarrow> process_incoming input st = Returns st' \<Longrightarrow> ws_reachable st'"
| broadcast: "ws_reachable st \<Longrightarrow> broadcast_data store msg wrote st = Returns st' \<Longrightarrow> ws_reachable st'"

section \<open>Each client is subscribed to its pipeline\<close>

definition sub_of :: "ws_manager \<Rightarrow> int \<Rightarrow> string option" where
  "sub_of st fd = map_option ci_pipeline_key (map_of (wm_connections st) fd)"

definition fds_distinct :: "(string \<times> int list) list \<Rightarrow> bool" where
  "fds_distinct subs \<longleftrightarrow> (\<forall>kf \<in> set subs. distinct (snd kf))"

definition ws_consistent :: "ws_manager \<Rightarrow> bool" where
  "ws_consistent st \<longleftrightarrow> \<not> wm_held st \<and> distinct (map fst (wm_connections st)) \<and>
     distinct (map fst (wm_subscriptions st)) \<and> fds_distinct (wm_subscriptions st) \<and>
     (\<forall>fd key. fd \<in> set (sub_fds key (wm_subscriptions st)) \<longleftrightarrow> sub_of st fd = Some key)"

lemma ws_act_simps [simp]:
  "wm_connections (ws_act xs st) = wm_connections st" "wm_subscriptions (ws_act xs st) = wm_subscriptions st"
  "wm_held (ws_act xs st) = wm_held st" "wm_actions (ws_act xs st) = wm_actions st @ xs"
  "sub_of (ws_act xs st) = sub_of st" "ws_consistent (ws_act xs st) = ws_consistent st"
  by (simp_all add: ws_act_def sub_of_def ws_consistent_def fun_eq_iff)

lemma sub_fds_update: "sub_fds key (AList.update k fds subs) = (if key = k then fds else sub_fds key subs)"
  by (simp add: sub_fds_def update_conv')

lemma sub_fds_distinct: "fds_distinct subs \<Longrightarrow> distinct (sub_fds key subs)"
  by (force simp: sub_fds_def fds_distinct_def split: option.split dest: map_of_SomeD)

lemma fds_distinct_update: "fds_distinct subs \<Longrightarrow> distinct fds \<Longrightarrow> fds_distinct (AList.update k fds subs)"
  by (induction subs) (auto simp: fds_distinct_def)

lemma consistent_add:
  assumes "ws_consistent st" "map_of (wm_connections st) fd = None"
  shows "ws_consistent (add_connection fd path st) \<and>
    sub_of (add_connection fd path st) = (sub_of st)(fd \<mapsto> path_to_pipeline_key path)"
proof -
  have so: "sub_of (add_connection fd path st) = (sub_of st)(fd \<mapsto> path_to_pipeline_key path)"
    by (auto simp: add_connection_def sub_of_def update_conv' Let_def)
  have "sub_of st fd = None" using assms(2) by (simp add: sub_of_def)
  with assms show ?thesis
    unfolding so ws_consistent_def
    by (auto simp: add_connection_def Let_def sub_insert_def sub_fds_update distinct_update so sub_fds_distinct
        intro!: fds_distinct_update)
qed

lemma consistent_remove:
  assumes "ws_consistent st"
  shows "ws_consistent (remove_connection_locked fd st) \<and> sub_of (remove_connection_locked fd st) = (sub_of st)(fd := None)"
proof (cases "map_of (wm_connections st) fd")
  case None
  then have "(sub_of st)(fd := None) = sub_of st" by (auto simp: sub_of_def)
  with None assms show ?thesis by (simp add: remove_connection_locked_def)
next
  case (Some c)
  let ?st = "st\<lparr>wm_subscriptions := sub_erase (ci_pipeline_key c) fd (wm_subscriptions st),
      wm_connections := AList.delete fd (wm_connections st)\<rparr>"
  have so: "sub_of ?st = (sub_of st)(fd := None)"
    by (auto simp: sub_of_def delete_conv')
  have fd: "sub_of st fd = Some (ci_pipeline_key c)" using Some by (simp add: sub_of_def)
  have "ws_consistent ?st"
    using assms fd unfolding ws_consistent_def so
    by (auto simp: sub_erase_def sub_fds_update distinct_update distinct_delete sub_fds_distinct distinct_removeAll intro!: fds_distinct_update)
  with Some so show ?thesis by (simp add: remove_connection_locked_def)
qed

lemma consistent_removes:
  "ws_consistent st \<Longrightarrow> ws_consistent (fold remove_connection_locked fds st) \<and>
     sub_of (fold remove_connection_locked fds st) = (\<lambda>fd. if fd \<in> set fds then None else sub_of st fd)"
proof (induction fds arbitrary: st)
  case (Cons fd fds)
  from Cons.IH [OF conjunct1 [OF consistent_remove [OF Cons.prems, of fd]]] consistent_remove [OF Cons.prems, of fd]
  show ?case by auto
qed simp

lemma set_recv_buf_same: "sub_of (set_recv_buf fd rb st) = sub_of st"
  by (auto simp: set_recv_buf_def sub_of_def update_conv' fun_eq_iff split: option.split)

lemma consistent_set_recv_buf:
  assumes "ws_consistent (st\<lparr>wm_held := False\<rparr>)"
  shows "ws_consistent ((set_recv_buf fd rb st)\<lparr>wm_held := False\<rparr>)"
proof -
  have "sub_of (st\<lparr>wm_held := False\<rparr>) = sub_of st" "sub_of ((set_recv_buf fd rb st)\<lparr>wm_held := False\<rparr>) = sub_of st"
    using set_recv_buf_same [of fd rb st] by (simp_all add: sub_of_def fun_eq_iff)
  with assms show ?thesis
    by (auto simp: ws_consistent_def set_recv_buf_def distinct_update split: option.split)
qed

text \<open>While the mutex is held no frame changes the connections: it is answered, or it asks to subscribe.\<close>

definition asks_subscribe :: "ws_frame \<Rightarrow> bool" where
  "asks_subscribe f \<longleftrightarrow> wf_opcode f = op_text \<and> take 10 (wf_payload f) = bytes_of subscribe_word"

lemma handle_frame_held:
  assumes "wm_held st"
  shows "handle_frame fd f (st, gone) =
    (if asks_subscribe f then Hangs
     else Returns (ws_act (if wf_opcode f = op_ping then [WsWrite fd (encode_pong_frame (wf_payload f))] else []) st,
       gone @ (if wf_opcode f = op_close then [fd] else [])))"
  using assms
  by (auto simp: handle_frame_def handle_text_message_def asks_subscribe_def ws_act_def op_ping_def op_close_def op_text_def)

definition buffer_fine :: "u8 list \<Rightarrow> bool" where
  "buffer_fine rb \<longleftrightarrow> (case split_frames rb of (fs, r) \<Rightarrow> r \<noteq> None \<and> \<not> list_ex asks_subscribe fs)"

lemma ws_act_ws_act: "ws_act ys (ws_act xs st) = ws_act (xs @ ys) st"
  by (simp add: ws_act_def)

lemma drain_held:
  assumes "wm_held st"
  shows "if buffer_fine rb
    then \<exists>acts gone'. drain_recv_buf fd rb (st, gone) = Returns (the (snd (split_frames rb)), ws_act acts st, gone @ gone')
    else drain_recv_buf fd rb (st, gone) \<in> {Hangs, Ends}"
  using assms
proof (induction rb arbitrary: st gone rule: split_frames.induct)
  case (1 rb)
  have nm: "decode_frame [] = NeedMore" by (simp add: decode_frame_def)
  show ?case
  proof (cases "decode_frame rb")
    case NeedMore
    then have "split_frames rb = ([], Some rb)" "drain_recv_buf fd rb (st, gone) = Returns (rb, st, gone)"
      by (subst split_frames.simps drain_recv_buf.simps; simp)+
    moreover have "ws_act [] st = st" by (simp add: ws_act_def)
    ultimately show ?thesis by (auto simp: buffer_fine_def intro!: exI [of _ "[]"])
  next
    case Throws
    then have "rb \<noteq> []" using nm by auto
    with Throws have "split_frames rb = ([], None)" "drain_recv_buf fd rb (st, gone) = Ends"
      by (subst split_frames.simps drain_recv_buf.simps; simp)+
    then show ?thesis by (simp add: buffer_fine_def)
  next
    case (Decoded f n)
    then have ne: "rb \<noteq> []" using nm by auto
    have sp: "split_frames rb = (let (fs, r) = split_frames (drop n rb) in (f # fs, r))"
      using Decoded by (subst split_frames.simps) simp
    then have bf: "buffer_fine rb \<longleftrightarrow> \<not> asks_subscribe f \<and> buffer_fine (drop n rb)"
      and rest: "snd (split_frames rb) = snd (split_frames (drop n rb))"
      by (auto simp: buffer_fine_def split: prod.splits)
    have dr: "drain_recv_buf fd rb (st, gone) =
        (case handle_frame fd f (st, gone) of Returns s \<Rightarrow> drain_recv_buf fd (drop n rb) s | Hangs \<Rightarrow> Hangs | Ends \<Rightarrow> Ends)"
      using Decoded ne by (subst drain_recv_buf.simps) simp
    show ?thesis
    proof (cases "asks_subscribe f")
      case True
      then show ?thesis unfolding dr bf handle_frame_held [OF "1.prems"] by simp
    next
      case False
      let ?acts = "if wf_opcode f = op_ping then [WsWrite fd (encode_pong_frame (wf_payload f))] else []"
      let ?gone = "if wf_opcode f = op_close then [fd] else []"
      have "wm_held (ws_act ?acts st)" using "1.prems" by simp
      from "1.IH" [OF Decoded this, of "gone @ ?gone"] False show ?thesis
        unfolding dr bf rest handle_frame_held [OF "1.prems"] if_not_P [OF False] run.case ws_act_ws_act append_assoc
        by (auto split: if_splits)
    qed
  qed
qed

text \<open>A read leaves the subscriptions and the other buffers alone.\<close>

definition bytes_of_client :: "(int \<Rightarrow> u8 list option option) \<Rightarrow> int \<times> conn_info \<Rightarrow> bool" where
  "bytes_of_client input = (\<lambda>(fd, c).
     case input fd of Some (Some bytes) \<Rightarrow> buffer_fine (ci_recv_buf c @ bytes) | _ \<Rightarrow> True)"

lemma read_connection_spec:
  assumes ok: "ws_consistent st" and c: "map_of (wm_connections st) fd = Some c"
  shows "if bytes_of_client input (fd, c)
    then \<exists>st' gone'. read_connection input fd (st, gone) = Returns (st', gone') \<and> ws_consistent st' \<and> sub_of st' = sub_of st \<and>
      (\<forall>fd'. fd' \<noteq> fd \<longrightarrow> map_of (wm_connections st') fd' = map_of (wm_connections st) fd')
    else read_connection input fd (st, gone) \<in> {Hangs, Ends}"
proof (cases "input fd")
  case None
  with ok show ?thesis by (simp add: read_connection_def bytes_of_client_def)
next
  case (Some b)
  show ?thesis
  proof (cases b)
    case None
    with ok Some show ?thesis by (simp add: read_connection_def bytes_of_client_def)
  next
    case (Some bytes)
    let ?st = "st\<lparr>wm_held := True\<rparr>" and ?rb = "ci_recv_buf c @ bytes"
    have "wm_held ?st" by simp
    note dr = drain_held [OF this, of ?rb fd gone]
    have r: "read_connection input fd (st, gone) =
        run_bind (drain_recv_buf fd ?rb (?st, gone)) (\<lambda>(rb, st, gone). Returns ((set_recv_buf fd rb st)\<lparr>wm_held := False\<rparr>, gone))"
      using Some \<open>input fd = Some b\<close> c by (simp add: read_connection_def)
    show ?thesis
    proof (cases "buffer_fine ?rb")
      case True
      with dr obtain acts gone' where
        d: "drain_recv_buf fd ?rb (?st, gone) = Returns (the (snd (split_frames ?rb)), ws_act acts ?st, gone @ gone')" by auto
      let ?st' = "(set_recv_buf fd (the (snd (split_frames ?rb))) (ws_act acts ?st))\<lparr>wm_held := False\<rparr>"
      have "(ws_act acts ?st)\<lparr>wm_held := False\<rparr> = ws_act acts st" using ok by (simp add: ws_act_def ws_consistent_def)
      then have "ws_consistent ?st'" using ok consistent_set_recv_buf [of "ws_act acts ?st"] by simp
      moreover have "sub_of ?st' = sub_of st"
        using set_recv_buf_same [of fd "the (snd (split_frames ?rb))" "ws_act acts ?st"] by (simp add: sub_of_def fun_eq_iff)
      moreover have "map_of (wm_connections ?st') fd' = map_of (wm_connections st) fd'" if "fd' \<noteq> fd" for fd'
        using that by (simp add: set_recv_buf_def update_conv' split: option.split)
      ultimately show ?thesis
        using True Some \<open>input fd = Some b\<close> unfolding r d by (simp add: bytes_of_client_def)
    next
      case False
      with dr Some \<open>input fd = Some b\<close> show ?thesis unfolding r by (auto simp: bytes_of_client_def)
    qed
  qed
qed

lemma reads_spec:
  assumes "ws_consistent st" "distinct fds" "\<forall>fd \<in> set fds. \<exists>c. map_of (wm_connections st) fd = Some c"
  shows "if \<forall>fd \<in> set fds. bytes_of_client input (fd, the (map_of (wm_connections st) fd))
    then \<exists>st' gone'. run_fold (read_connection input) fds (st, gone) = Returns (st', gone') \<and>
      ws_consistent st' \<and> sub_of st' = sub_of st
    else run_fold (read_connection input) fds (st, gone) \<in> {Hangs, Ends}"
  using assms
proof (induction fds arbitrary: st gone)
  case (Cons fd fds)
  from Cons.prems(3) obtain c where c: "map_of (wm_connections st) fd = Some c" by auto
  note r = read_connection_spec [OF Cons.prems(1) c, of input gone]
  show ?case
  proof (cases "bytes_of_client input (fd, c)")
    case True
    with r obtain st' gone' where r: "read_connection input fd (st, gone) = Returns (st', gone')" "ws_consistent st'"
      "sub_of st' = sub_of st" and oth: "\<And>fd'. fd' \<noteq> fd \<Longrightarrow> map_of (wm_connections st') fd' = map_of (wm_connections st) fd'"
      by auto
    have same: "map_of (wm_connections st') fd' = map_of (wm_connections st) fd'" if "fd' \<in> set fds" for fd'
      using oth [of fd'] that Cons.prems(2) by auto
    then have "\<forall>fd \<in> set fds. \<exists>c. map_of (wm_connections st') fd = Some c" using Cons.prems(3) by simp
    from Cons.IH [OF r(2) _ this, of gone'] Cons.prems(2) show ?thesis
      using True c r by (auto simp: same split: if_splits)
  next
    case False
    with r c show ?thesis by auto
  qed
qed simp

lemma process_incoming_spec:
  assumes "ws_consistent st"
  shows "if list_all (bytes_of_client input) (wm_connections st)
    then \<exists>st'. process_incoming input st = Returns st' \<and> ws_consistent st' \<and> (\<forall>fd key. sub_of st' fd = Some key \<longrightarrow> sub_of st fd = Some key)
    else process_incoming input st \<in> {Hangs, Ends}"
proof -
  have d: "distinct (map fst (wm_connections st))" using assms by (simp add: ws_consistent_def)
  have "\<forall>fd \<in> set (map fst (wm_connections st)). \<exists>c. map_of (wm_connections st) fd = Some c"
    by (auto simp: d)
  note r = reads_spec [OF assms d this, of input "[]"]
  have "(\<forall>fd \<in> set (map fst (wm_connections st)). bytes_of_client input (fd, the (map_of (wm_connections st) fd))) \<longleftrightarrow>
      list_all (bytes_of_client input) (wm_connections st)"
    by (auto simp: list_all_iff d)
  with r have r: "if list_all (bytes_of_client input) (wm_connections st)
    then \<exists>st' gone'. run_fold (read_connection input) (map fst (wm_connections st)) (st, []) = Returns (st', gone') \<and>
      ws_consistent st' \<and> sub_of st' = sub_of st
    else run_fold (read_connection input) (map fst (wm_connections st)) (st, []) \<in> {Hangs, Ends}" by simp
  show ?thesis
  proof (cases "list_all (bytes_of_client input) (wm_connections st)")
    case True
    with r obtain st' gone' where "run_fold (read_connection input) (map fst (wm_connections st)) (st, []) = Returns (st', gone')"
      "ws_consistent st'" "sub_of st' = sub_of st" by auto
    with consistent_removes [of st' gone'] True show ?thesis by (simp add: process_incoming_def)
  next
    case False
    with r show ?thesis by (auto simp: process_incoming_def)
  qed
qed

section \<open>What a broadcast writes\<close>

definition key_frame :: "ws_store \<Rightarrow> ws_serializer \<Rightarrow> string \<Rightarrow> u8 list option" where
  "key_frame store msg key =
     Option.bind (ws_latest key store) (\<lambda>batch. map_option (\<lambda>js. encode_frame (bytes_of js) op_text) (msg key batch))"

definition closing :: "int \<Rightarrow> ws_action list" where
  "closing fd = [WsWrite fd (encode_close_frame 1000), WsClose fd]"

definition key_actions :: "ws_store \<Rightarrow> ws_serializer \<Rightarrow> (int \<Rightarrow> bool) \<Rightarrow> string \<times> int list \<Rightarrow> ws_action list" where
  "key_actions store msg wrote = (\<lambda>(key, fds).
     case key_frame store msg key of
       None \<Rightarrow> []
     | Some frame \<Rightarrow> map (\<lambda>fd. WsWrite fd frame) fds @ concat (map closing (filter (\<lambda>fd. \<not> wrote fd) fds)))"

definition total_msg :: "ws_store \<Rightarrow> ws_serializer \<Rightarrow> bool" where
  "total_msg store msg \<longleftrightarrow> (\<forall>key batch. ws_latest key store = Some batch \<longrightarrow> msg key batch \<noteq> None)"

lemma removes_actions:
  "wm_actions (fold remove_connection_locked fds st) = wm_actions st @ concat (map closing fds)"
  by (induction fds arbitrary: st) (auto simp: remove_connection_locked_def closing_def ws_act_def split: option.split)

lemma send_key_spec:
  assumes "ws_consistent st" "total_msg store msg"
  shows "\<exists>st'. send_key store msg wrote (key, fds) st = Returns st' \<and> ws_consistent st' \<and>
    wm_actions st' = wm_actions st @ key_actions store msg wrote (key, fds) \<and>
    sub_of st' = (\<lambda>fd. if key_frame store msg key \<noteq> None \<and> fd \<in> set fds \<and> \<not> wrote fd then None else sub_of st fd)"
proof (cases "ws_latest key store")
  case None
  with assms(1) show ?thesis by (simp add: send_key_def key_actions_def key_frame_def)
next
  case (Some batch)
  with assms(2) obtain js where js: "msg key batch = Some js" unfolding total_msg_def by blast
  let ?st = "ws_act (map (\<lambda>fd. WsWrite fd (encode_frame (bytes_of js) op_text)) fds) st"
  have "ws_consistent ?st" using assms(1) by simp
  from consistent_removes [OF this, of "filter (\<lambda>fd. \<not> wrote fd) fds"] Some js show ?thesis
    by (simp add: send_key_def key_actions_def key_frame_def removes_actions) fastforce
qed

lemma send_keys_spec:
  assumes "ws_consistent st" "total_msg store msg"
  shows "\<exists>st'. run_fold (send_key store msg wrote) ks st = Returns st' \<and> ws_consistent st' \<and>
    wm_actions st' = wm_actions st @ concat (map (key_actions store msg wrote) ks) \<and>
    sub_of st' = (\<lambda>fd. if (\<exists>(key, fds) \<in> set ks. key_frame store msg key \<noteq> None \<and> fd \<in> set fds \<and> \<not> wrote fd)
      then None else sub_of st fd)"
  using assms(1)
proof (induction ks arbitrary: st)
  case (Cons k ks)
  obtain key fds where k: "k = (key, fds)" by fastforce
  from send_key_spec [OF Cons.prems assms(2), of wrote key fds] obtain st1 where
    s: "send_key store msg wrote (key, fds) st = Returns st1" "ws_consistent st1"
    "wm_actions st1 = wm_actions st @ key_actions store msg wrote (key, fds)"
    "sub_of st1 = (\<lambda>fd. if key_frame store msg key \<noteq> None \<and> fd \<in> set fds \<and> \<not> wrote fd then None else sub_of st fd)" by auto
  from Cons.IH [OF s(2)] s k show ?case by (auto simp: fun_eq_iff)
qed simp

lemma run_fold_Ends: "run_fold (send_key store msg wrote) ks st = Returns st' \<Longrightarrow> ws_consistent st \<Longrightarrow> ws_consistent st'"
proof (induction ks arbitrary: st)
  case (Cons k ks)
  obtain key fds where k: "k = (key, fds)" by fastforce
  have "ws_consistent st1" if "send_key store msg wrote (key, fds) st = Returns st1" for st1
    using that Cons.prems(2) consistent_removes
    by (auto simp: send_key_def Let_def split: option.splits)
  with Cons k show ?case by (cases "send_key store msg wrote (key, fds) st") auto
qed simp

lemma reachable_consistent: "ws_reachable st \<Longrightarrow> ws_consistent st"
proof (induction rule: ws_reachable.induct)
  case start
  then show ?case by (simp add: ws_manager_new_def ws_consistent_def fds_distinct_def sub_fds_def sub_of_def)
next
  case (accepted st fd received sent)
  then show ?case
    using consistent_add [of "ws_act _ st" fd]
    by (auto simp: accept_client_def Let_def split: option.splits)
next
  case (incoming st input st')
  from process_incoming_spec [OF incoming.IH, of input] incoming.hyps(2) show ?case by (auto split: if_splits)
next
  case (broadcast st store msg wrote st')
  then show ?case using run_fold_Ends by (auto simp: broadcast_data_def)
qed

lemma key_actions_set:
  "a \<in> set (key_actions store msg wrote (key, fds)) \<longleftrightarrow> (\<exists>fd \<in> set fds. \<exists>frame. key_frame store msg key = Some frame \<and>
     (a = WsWrite fd frame \<or> (\<not> wrote fd \<and> a \<in> set (closing fd))))"
  by (cases "key_frame store msg key") (auto simp: key_actions_def)

fun act_fd :: "ws_action \<Rightarrow> int" where
  "act_fd (WsWrite fd _) = fd"
| "act_fd (WsClose fd) = fd"

lemma key_actions_fd: "a \<in> set (key_actions store msg wrote k) \<Longrightarrow> act_fd a \<in> set (snd k)"
  by (cases k) (auto simp: key_actions_set closing_def)

lemma key_actions_distinct:
  assumes "distinct fds"
  shows "distinct (key_actions store msg wrote (key, fds))"
proof (cases "key_frame store msg key")
  case None
  then show ?thesis by (simp add: key_actions_def)
next
  case (Some frame)
  then obtain js where "frame = encode_frame js op_text" by (auto simp: key_frame_def bind_eq_Some_conv)
  then have "frame \<noteq> encode_close_frame 1000"
    by (simp add: encode_close_frame_def encode_frame_def op_text_def op_close_def)
  moreover have "distinct (concat (map closing xs))" if "distinct xs" for xs
    using that by (induction xs) (auto simp: closing_def)
  ultimately show ?thesis
    using assms Some by (auto simp: key_actions_def closing_def distinct_map inj_on_def)
qed

lemma key_actions_snapshot_distinct:
  assumes "distinct (concat (map snd ks))"
  shows "distinct (concat (map (key_actions store msg wrote) ks))"
  using assms
proof (induction ks)
  case (Cons k ks)
  obtain key fds where k: "k = (key, fds)" by fastforce
  have "a \<notin> set (key_actions store msg wrote k')" if "a \<in> set (key_actions store msg wrote k)" "k' \<in> set ks" for a k'
  proof
    assume "a \<in> set (key_actions store msg wrote k')"
    from key_actions_fd [OF this] have "act_fd a \<in> set (concat (map snd ks))" using that(2) by auto
    with key_actions_fd [OF that(1)] Cons.prems show False by auto
  qed
  then have "set (key_actions store msg wrote k) \<inter> set (concat (map (key_actions store msg wrote) ks)) = {}" by auto
  with Cons key_actions_distinct [of fds store msg wrote key] show ?case by (simp add: k)
qed simp

lemma key_actions_snapshot:
  "set (concat (map (key_actions store msg wrote) ks)) =
      {a. \<exists>(key, fds) \<in> set ks. \<exists>fd \<in> set fds. \<exists>frame. key_frame store msg key = Some frame \<and>
         (a = WsWrite fd frame \<or> (\<not> wrote fd \<and> a \<in> set (closing fd)))}"
  using key_actions_set [of _ store msg wrote] by fastforce

lemma snapshot_spec:
  assumes "ws_consistent st"
  defines "snap \<equiv> filter (\<lambda>(key, fds). fds \<noteq> []) (wm_subscriptions st)"
  shows "distinct (concat (map snd snap))"
    and "(\<exists>fds. (key, fds) \<in> set snap \<and> fd \<in> set fds) \<longleftrightarrow> sub_of st fd = Some key"
proof -
  have mem: "(\<exists>fds. (key, fds) \<in> set snap \<and> fd \<in> set fds) \<longleftrightarrow> sub_of st fd = Some key" for key fd
  proof -
    have "(\<exists>fds. (key, fds) \<in> set snap \<and> fd \<in> set fds) \<longleftrightarrow> fd \<in> set (sub_fds key (wm_subscriptions st))"
      using assms(1) by (auto simp: snap_def ws_consistent_def sub_fds_def split: option.split)
    with assms(1) show ?thesis by (simp add: ws_consistent_def)
  qed
  then show "(\<exists>fds. (key, fds) \<in> set snap \<and> fd \<in> set fds) \<longleftrightarrow> sub_of st fd = Some key" .
  have "distinct (concat (map snd ks))" if "distinct (map fst ks)" "fds_distinct ks"
    "\<And>key fds fd. (key, fds) \<in> set ks \<Longrightarrow> fd \<in> set fds \<Longrightarrow> g fd = Some key" for ks :: "(string \<times> int list) list" and g
    using that
  proof (induction ks)
    case (Cons k ks)
    obtain key fds where k: "k = (key, fds)" by fastforce
    have "fd \<notin> set fds'" if "fd \<in> set fds" "(key', fds') \<in> set ks" for fd key' fds'
    proof
      assume "fd \<in> set fds'"
      with Cons.prems(3) [of key' fds' fd] Cons.prems(3) [of key fds fd] that k have "key' = key" by simp
      with that(2) have "key \<in> fst ` set ks" by force
      with Cons.prems(1) k show False by simp
    qed
    then have "set fds \<inter> set (concat (map snd ks)) = {}" by auto
    moreover have "distinct (concat (map snd ks))"
      by (rule Cons.IH) (use Cons.prems in \<open>auto simp: fds_distinct_def\<close>)
    ultimately show ?case using Cons.prems(2) by (simp add: k fds_distinct_def)
  qed simp
  moreover have "distinct (map fst snap)" "fds_distinct snap"
    using assms(1) by (auto simp: snap_def ws_consistent_def fds_distinct_def distinct_map_filter)
  moreover have "sub_of st fd = Some key" if "(key, fds) \<in> set snap" "fd \<in> set fds" for key fds fd
    using mem that by blast
  ultimately show "distinct (concat (map snd snap))" by blast
qed

definition demo_request :: string where
  "demo_request = ''GET /ws/cpu H'' @ crlf @ ''Upgrade: websocket'' @ crlf @ ''Sec-WebSocket-Key: a'' @ crlf"

definition demo_manager :: ws_manager where
  "demo_manager = accept_client 7 (Some demo_request) True ws_manager_new"

lemma demo_request_facts:
  "is_upgrade_request demo_request" "handshake_response demo_request \<noteq> None"
  "path_to_pipeline_key (extract_path demo_request) = ''cpu''"
proof -
  show "is_upgrade_request demo_request" by code_simp
  have "extract_header demo_request ''Sec-WebSocket-Key'' = ''a''" by code_simp
  then show "handshake_response demo_request \<noteq> None"
    by (simp add: handshake_response_def compute_accept_key_spec)
  show "path_to_pipeline_key (extract_path demo_request) = ''cpu''" by code_simp
qed

lemma demo_manager_facts:
  "ws_reachable demo_manager"
  "wm_connections demo_manager = [(7, \<lparr>ci_pipeline_key = ''cpu'', ci_recv_buf = []\<rparr>)]"
proof -
  show "ws_reachable demo_manager"
    unfolding demo_manager_def by (intro ws_reachable.intros) (simp add: ws_manager_new_def)
  show "wm_connections demo_manager = [(7, \<lparr>ci_pipeline_key = ''cpu'', ci_recv_buf = []\<rparr>)]"
    using demo_request_facts
    by (auto simp: demo_manager_def accept_client_def add_connection_def ws_manager_new_def Let_def)
qed



text \<open>
  C30: when a round of reads fails. In every history, a round returns exactly when, for each client it reads
  from, the frames completed by the new bytes contain no \<open>subscribe:\<close> message and no length that makes the
  decoder throw; otherwise the broadcast thread waits for ever for the mutex it holds, or the exception ends
  the daemon. So one documented message of one client stops the server for all.
\<close>

theorem ws_round_returns:
  assumes "ws_reachable st"
  shows "(\<exists>st'. process_incoming input st = Returns st') \<longleftrightarrow>
    (\<forall>(fd, c) \<in> set (wm_connections st). case input fd of
       Some (Some bytes) \<Rightarrow>
         (case split_frames (ci_recv_buf c @ bytes) of
            (fs, r) \<Rightarrow> r \<noteq> None \<and>
              \<not> list_ex (\<lambda>f. wf_opcode f = op_text \<and> take 10 (wf_payload f) = bytes_of subscribe_word) fs)
     | _ \<Rightarrow> True)"
proof -
  have "list_all (bytes_of_client input) (wm_connections st) \<longleftrightarrow> (\<exists>st'. process_incoming input st = Returns st')"
    using process_incoming_spec [OF reachable_consistent [OF assms], of input] by (auto split: if_splits)
  then show ?thesis
    by (simp add: list_all_iff bytes_of_client_def buffer_fine_def asks_subscribe_def [abs_def] cong: option.case_cong)
qed

theorem ws_round_returns_witness:
  "(\<nexists>st'. process_incoming (\<lambda>fd. Some (Some (encode_frame (bytes_of ''subscribe:x'') op_text))) demo_manager = Returns st')"
proof -
  let ?f = "\<lparr>wf_opcode = op_text, wf_fin = True, wf_payload = bytes_of ''subscribe:x''\<rparr>"
  have "ws_valid (None, ?f)" by (simp add: ws_valid_def op_text_def bytes_of_def max_string_def)
  from split_ws_bytes [of "[(None, ?f)]"] this
  have "split_frames (encode_frame (bytes_of ''subscribe:x'') op_text) = ([?f], Some [])"
    by (simp add: encode_frame_ws ws_bytes_def length_field_def unmask_def bytes_of_def)
  moreover have "take 10 (wf_payload ?f) = bytes_of subscribe_word" by (simp add: bytes_of_def subscribe_word_def)
  ultimately show ?thesis
    by (subst ws_round_returns [OF demo_manager_facts(1)]) (simp add: demo_manager_facts)
qed

end
