(* ===== verification/Storage.thy ===== *)
theory Storage
  imports Json Config Scanf "HOL-Library.Multiset"
begin

text \<open>
  Persistence: the factory of \<open>src/storage/storage_backend.h\<close>, the SQLite back end of
  \<open>src/storage/sqlite_backend/sqlite_backend.h\<close> and the sink that writes to a back end
  (\<open>src/sinks/local_storage/local_storage_sink.h\<close>). The SQLite library is a parameter, a record of its
  calls on a connection of any type; so are the texts of JSON values and the clock. What the library
  documents of these calls are hypotheses of the theorems that need them.
\<close>

section \<open>StorageFactory\<close>

definition factory_register :: "string \<Rightarrow> 'b \<Rightarrow> (string \<times> 'b) list \<Rightarrow> (string \<times> 'b) list" where
  "factory_register name creator fs = AList.update name creator fs"

definition factory_create :: "string \<Rightarrow> (string \<times> 'b) list \<Rightarrow> 'b option" where
  "factory_create name fs = map_of fs name"

definition factory_available :: "(string \<times> 'b) list \<Rightarrow> string list" where
  "factory_available fs = map fst fs"

section \<open>The library\<close>

datatype sql_value = SInt int | SFloat real | SText string | SNull | SBlob "u8 list"

text \<open>
  \<open>sq_step\<close> runs a prepared statement that returns no row with its bindings: whether it is done.
  \<open>sq_rows\<close> runs one to its end or to the given number of rows: the column names, the rows, and whether
  the last step gave no error.
\<close>

record 'd sqlite =
  sq_open :: "string \<Rightarrow> 'd \<times> bool"
  sq_exec :: "string \<Rightarrow> 'd \<Rightarrow> 'd \<times> bool"
  sq_prepare :: "string \<Rightarrow> 'd \<Rightarrow> bool"
  sq_step :: "string \<Rightarrow> sql_value list \<Rightarrow> 'd \<Rightarrow> 'd \<times> bool"
  sq_rows :: "string \<Rightarrow> sql_value list \<Rightarrow> nat option \<Rightarrow> 'd \<Rightarrow> 'd \<times> string list \<times> sql_value list list \<times> bool"
  sq_readonly :: "string \<Rightarrow> 'd \<Rightarrow> bool"
  sq_errmsg :: "'d \<Rightarrow> string"

section \<open>The back end\<close>

record 'd sqlite_backend =
  sb_db :: "'d option"
  sb_db_path :: string
  sb_pruned_count :: u32

definition sqlite_backend_new :: "'d sqlite_backend" where
  "sqlite_backend_new = \<lparr>sb_db = None, sb_db_path = [], sb_pruned_count = 0\<rparr>"

text \<open>\<open>Execute\<close> on an open connection, the result ignored.\<close>

definition execute :: "'d sqlite \<Rightarrow> string \<Rightarrow> 'd \<Rightarrow> 'd" where
  "execute sq sql d = fst (sq_exec sq sql d)"

definition create_records :: string where
  "create_records = ''CREATE TABLE IF NOT EXISTS records (  id INTEGER PRIMARY KEY AUTOINCREMENT,  pipeline TEXT NOT NULL,  timestamp_ns INTEGER NOT NULL,  labels_json TEXT,  fields_json TEXT)''"

definition create_stack_samples :: string where
  "create_stack_samples = ''CREATE TABLE IF NOT EXISTS stack_samples (  id INTEGER PRIMARY KEY AUTOINCREMENT,  pipeline TEXT NOT NULL,  timestamp_ns INTEGER NOT NULL,  pid INTEGER,  tid INTEGER,  comm TEXT,  stack_json TEXT,  count INTEGER DEFAULT 1)''"

definition create_profiles :: string where
  "create_profiles = ''CREATE TABLE IF NOT EXISTS profiles (  id INTEGER PRIMARY KEY AUTOINCREMENT,  pipeline TEXT NOT NULL,  profile_type TEXT NOT NULL,  start_ns INTEGER,  end_ns INTEGER,  sample_count INTEGER,  data BLOB)''"

definition create_indexes :: "string list" where
  "create_indexes =
     [''CREATE INDEX IF NOT EXISTS idx_records_ts ON records(pipeline, timestamp_ns)'',
      ''CREATE INDEX IF NOT EXISTS idx_samples_ts ON stack_samples(pipeline, timestamp_ns)'',
      ''CREATE INDEX IF NOT EXISTS idx_profiles_ts ON profiles(pipeline, start_ns)'']"

definition create_tables :: "'d sqlite \<Rightarrow> 'd \<Rightarrow> 'd \<times> status" where
  "create_tables sq d =
     (let (d, ok) = sq_exec sq create_records d
      in if \<not> ok then (d, status_error Internal ''Create records table failed'')
         else let (d, ok) = sq_exec sq create_stack_samples d
         in if \<not> ok then (d, status_error Internal ''Create stack_samples table failed'')
         else let (d, ok) = sq_exec sq create_profiles d
         in if \<not> ok then (d, status_error Internal ''Create profiles table failed'')
         else (fold (execute sq) create_indexes d, status_ok))"

text \<open>\<open>Init\<close>; \<open>None\<close> when the directory cannot be created, which throws.\<close>

definition sqlite_init :: "'d sqlite \<Rightarrow> bool \<Rightarrow> string \<Rightarrow> 'd sqlite_backend \<Rightarrow> ('d sqlite_backend \<times> status) option" where
  "sqlite_init sq created data_dir st =
     (if \<not> created then None
      else
        let db_path = data_dir @ ''/illuminator.db'';
            (d, ok) = sq_open sq db_path
        in Some (if \<not> ok then (st\<lparr>sb_db := Some d\<rparr>, status_error Internal (''SQLite open failed: '' @ sq_errmsg sq d))
           else
             let d = fold (execute sq) [''PRAGMA journal_mode=WAL'', ''PRAGMA synchronous=NORMAL'', ''PRAGMA cache_size=10000''] d;
                 (d, status) = create_tables sq d
             in if \<not> is_ok status then (st\<lparr>sb_db := Some d\<rparr>, status)
                else (st\<lparr>sb_db := Some d, sb_db_path := db_path\<rparr>, status_ok)))"

section \<open>Writing\<close>

definition serialize_labels :: "label list \<Rightarrow> json" where
  "serialize_labels ls = JObject (fold (\<lambda>(k, v). j_set k (JString v)) ls [])"

definition serialize_fields :: "(string \<times> field_value) list \<Rightarrow> json" where
  "serialize_fields fs = JObject (fold (\<lambda>(k, v). j_set k (field_value_to_json v)) fs [])"

definition serialize_stack :: "stack_sample \<Rightarrow> json" where
  "serialize_stack s =
     JArray (map (\<lambda>f. JObject [(''addr'', JUint (sf_address f)), (''fn'', JString (sf_function_name f)),
       (''file'', JString (sf_file_name f)), (''line'', JUint (ucast (sf_line_number f)))]) (ss_user_stack s))"

definition i64_of :: "u64 \<Rightarrow> int" where
  "i64_of u = sint u"

definition record_row :: "(json \<Rightarrow> string option) \<Rightarrow> string \<Rightarrow> data_record \<Rightarrow> sql_value list option" where
  "record_row dump pipeline r =
     (case dump (serialize_labels (rc_labels r)) of
        None \<Rightarrow> None
      | Some labels \<Rightarrow>
          map_option (\<lambda>fields. [SText (c_str pipeline), SInt (i64_of (rc_timestamp r)), SText labels, SText fields])
            (dump (serialize_fields (rc_fields r))))"

definition sample_row :: "(json \<Rightarrow> string option) \<Rightarrow> string \<Rightarrow> stack_sample \<Rightarrow> sql_value list option" where
  "sample_row dump pipeline s =
     map_option (\<lambda>stack. [SText (c_str pipeline), SInt (i64_of (ss_timestamp s)), SInt (sint (ss_pid s)), SInt (sint (ss_tid s)),
         SText (c_str (ss_comm s)), SText stack, SInt (i64_of (ss_count s))])
       (dump (serialize_stack s))"

text \<open>How the loop over the rows ends: all were inserted, a step failed, or a dump threw.\<close>

datatype write_end = AllWritten | StepFailed | Threw

fun write_rows :: "'d sqlite \<Rightarrow> string \<Rightarrow> ('r \<Rightarrow> sql_value list option) \<Rightarrow> 'r list \<Rightarrow> 'd \<Rightarrow> 'd \<times> write_end" where
  "write_rows sq sql row [] d = (d, AllWritten)"
| "write_rows sq sql row (r # rs) d =
     (case row r of
        None \<Rightarrow> (d, Threw)
      | Some vs \<Rightarrow>
          let (d, ok) = sq_step sq sql vs d
          in if ok then write_rows sq sql row rs d else (d, StepFailed))"

text \<open>
  The body shared by \<open>WriteRecords\<close> and \<open>WriteStackSamples\<close>: the status, or \<open>None\<close> when an exception
  leaves the function (the transaction stays open then).
\<close>

definition write_batch ::
  "'d sqlite \<Rightarrow> string \<Rightarrow> string \<Rightarrow> ('r \<Rightarrow> sql_value list option) \<Rightarrow> 'r list \<Rightarrow> 'd \<Rightarrow> 'd \<times> status option" where
  "write_batch sq what sql row rs d =
     (let d = execute sq ''BEGIN TRANSACTION'' d
      in if \<not> sq_prepare sq sql d
         then (execute sq ''ROLLBACK'' d, Some (status_error Internal (''SQLite prepare failed: '' @ what)))
         else case write_rows sq sql row rs d of
           (d, Threw) \<Rightarrow> (d, None)
         | (d, StepFailed) \<Rightarrow> (execute sq ''ROLLBACK'' d, Some (status_error Internal (''SQLite step failed: '' @ what)))
         | (d, AllWritten) \<Rightarrow>
             (let (d, ok) = sq_exec sq ''COMMIT'' d
              in (d, Some (if ok then status_ok else status_error Internal (''SQLite COMMIT failed: '' @ what)))))"

definition on_db :: "('d \<Rightarrow> 'd \<times> 'r) \<Rightarrow> 'r \<Rightarrow> 'd sqlite_backend \<Rightarrow> 'd sqlite_backend \<times> 'r" where
  "on_db f unopened st =
     (case sb_db st of
        None \<Rightarrow> (st, unopened)
      | Some d \<Rightarrow> (let (d, r) = f d in (st\<lparr>sb_db := Some d\<rparr>, r)))"

definition insert_record :: string where
  "insert_record = ''INSERT INTO records (pipeline, timestamp_ns, labels_json, fields_json) VALUES (?, ?, ?, ?)''"

definition write_records ::
  "'d sqlite \<Rightarrow> (json \<Rightarrow> string option) \<Rightarrow> string \<Rightarrow> data_record list \<Rightarrow> 'd sqlite_backend \<Rightarrow>
     'd sqlite_backend \<times> status option" where
  "write_records sq dump pipeline rs st =
     (if rs = [] then (st, Some status_ok)
      else on_db (write_batch sq ''WriteRecords'' insert_record (record_row dump pipeline) rs) (Some status_ok) st)"

definition insert_stack_sample :: string where
  "insert_stack_sample = ''INSERT INTO stack_samples (pipeline, timestamp_ns, pid, tid, comm, stack_json, count) VALUES (?, ?, ?, ?, ?, ?, ?)''"

definition write_stack_samples ::
  "'d sqlite \<Rightarrow> (json \<Rightarrow> string option) \<Rightarrow> string \<Rightarrow> stack_sample list \<Rightarrow> 'd sqlite_backend \<Rightarrow>
     'd sqlite_backend \<times> status option" where
  "write_stack_samples sq dump pipeline ss st =
     (if ss = [] then (st, Some status_ok)
      else on_db (write_batch sq ''WriteStackSamples'' insert_stack_sample (sample_row dump pipeline) ss) (Some status_ok) st)"

record profile_meta =
  pf_pipeline_name :: string
  pf_profile_type :: string
  pf_start_time_ns :: u64
  pf_end_time_ns :: u64
  pf_sample_count :: u64
  pf_labels :: "(string \<times> string) list"

definition insert_profile :: string where
  "insert_profile = ''INSERT INTO profiles (pipeline, profile_type, start_ns, end_ns, sample_count, data) VALUES (?, ?, ?, ?, ?, ?)''"

definition write_profile :: "'d sqlite \<Rightarrow> profile_meta \<Rightarrow> u8 list \<Rightarrow> 'd sqlite_backend \<Rightarrow> 'd sqlite_backend \<times> status" where
  "write_profile sq meta data =
     on_db (\<lambda>d.
       if \<not> sq_prepare sq insert_profile d then (d, status_error Internal ''SQLite prepare failed: WriteProfile'')
       else let (d, ok) = sq_step sq insert_profile
                  [SText (c_str (pf_pipeline_name meta)), SText (c_str (pf_profile_type meta)), SInt (i64_of (pf_start_time_ns meta)),
                   SInt (i64_of (pf_end_time_ns meta)), SInt (i64_of (pf_sample_count meta)), SBlob data] d
            in (d, if ok then status_ok else status_error Internal ''SQLite step failed: WriteProfile''))
       (status_error Internal ''DB not open'')"

section \<open>Reading\<close>

record time_range =
  tr_start_ns :: u64
  tr_end_ns :: u64

text \<open>The metric's name and the order are in the request, but no back end reads them.\<close>

record query_request =
  qr_pipeline_name :: string
  qr_metric_name :: string
  qr_time_range :: time_range
  qr_limit :: u32
  qr_order_by :: string
  qr_descending :: bool

text \<open>A bound of zero is no bound.\<close>

definition range_clause :: "string \<Rightarrow> u64 \<Rightarrow> string" where
  "range_clause cond bound = (if 0 < bound then '' AND '' @ cond @ show_nat (unat bound) else [])"

definition select_records :: "query_request \<Rightarrow> string" where
  "select_records req =
     ''SELECT timestamp_ns, labels_json, fields_json FROM records WHERE pipeline = ?'' @
     range_clause ''timestamp_ns >= '' (tr_start_ns (qr_time_range req)) @
     range_clause ''timestamp_ns <= '' (tr_end_ns (qr_time_range req)) @
     '' ORDER BY timestamp_ns '' @ (if qr_descending req then ''DESC'' else ''ASC'') @
     '' LIMIT '' @ show_nat (unat (qr_limit req))"

text \<open>\<open>json::items\<close>, and the value \<open>get<std::string>\<close> gives (\<open>None\<close> when it throws).\<close>

definition json_items :: "json \<Rightarrow> (string \<times> json) list" where
  "json_items j =
     (case j of JObject obj \<Rightarrow> obj | JArray xs \<Rightarrow> zip (map show_nat [0..<length xs]) xs | JNull \<Rightarrow> [] | _ \<Rightarrow> [([], j)])"

fun read_labels :: "(string \<times> json) list \<Rightarrow> data_record \<Rightarrow> data_record" where
  "read_labels [] r = r"
| "read_labels ((k, v) # kvs) r =
     (case v of JString s \<Rightarrow> read_labels kvs (push_label k s r) | _ \<Rightarrow> r)"

text \<open>
  A field by the type of its value. \<open>is_number_integer\<close> holds of unsigned numbers too, so the branch for
  these is never taken; \<open>get<int64_t>\<close> of one converts.
\<close>

definition read_field :: "string \<times> json \<Rightarrow> data_record \<Rightarrow> data_record" where
  "read_field = (\<lambda>(k, v) r.
     case v of JFloat d \<Rightarrow> set_field k (FDouble d) r | JInt i \<Rightarrow> set_field k (FInt i) r
     | JUint u \<Rightarrow> set_field k (FInt (i64_of u)) r | JBool b \<Rightarrow> set_field k (FBool b) r
     | JString s \<Rightarrow> set_field k (FString s) r | _ \<Rightarrow> r)"

definition column_int :: "sql_value \<Rightarrow> int" where
  "column_int v = (case v of SInt i \<Rightarrow> i | _ \<Rightarrow> 0)"

text \<open>The columns read as text have text affinity: they hold text, or NULL.\<close>

definition column_text :: "sql_value \<Rightarrow> string option" where
  "column_text v = (case v of SText s \<Rightarrow> Some (c_str s) | _ \<Rightarrow> None)"

definition read_record :: "(string \<Rightarrow> json option) \<Rightarrow> sql_value list \<Rightarrow> data_record" where
  "read_record parse row =
     (let r = \<lparr>rc_timestamp = of_int (column_int (row ! 0)), rc_labels = [], rc_fields = []\<rparr>;
          r = (case Option.bind (column_text (row ! 1)) parse of None \<Rightarrow> r | Some j \<Rightarrow> read_labels (json_items j) r)
      in (case Option.bind (column_text (row ! 2)) parse of None \<Rightarrow> r | Some j \<Rightarrow> fold read_field (json_items j) r))"

record query_result =
  qt_records :: "data_record list"
  qt_stack_samples :: "stack_sample list"
  qt_total_count :: u64
  qt_has_more :: bool

definition query_records ::
  "'d sqlite \<Rightarrow> (string \<Rightarrow> json option) \<Rightarrow> query_request \<Rightarrow> 'd sqlite_backend \<Rightarrow> 'd sqlite_backend \<times> query_result status_or" where
  "query_records sq parse req =
     on_db (\<lambda>d.
       let sql = select_records req
       in if \<not> sq_prepare sq sql d then (d, Failure (status_error Internal (''Query prepare failed: '' @ sq_errmsg sq d)))
          else let (d, _, rows, _) = sq_rows sq sql [SText (c_str (qr_pipeline_name req))] None d
               in (d, Value \<lparr>qt_records = map (read_record parse) rows, qt_stack_samples = [],
                 qt_total_count = of_nat (length rows), qt_has_more = False\<rparr>))
       (Failure (status_error Internal ''DB not open''))"

definition select_profiles :: "time_range \<Rightarrow> string" where
  "select_profiles tr =
     ''SELECT pipeline, profile_type, start_ns, end_ns, sample_count FROM profiles WHERE pipeline = ?'' @
     range_clause ''end_ns >= '' (tr_start_ns tr) @ range_clause ''start_ns <= '' (tr_end_ns tr) @
     '' ORDER BY start_ns DESC''"

text \<open>A text column of NULL is a null pointer, from which no string can be made: \<open>None\<close>.\<close>

definition read_profile :: "sql_value list \<Rightarrow> profile_meta option" where
  "read_profile row =
     (case (column_text (row ! 0), column_text (row ! 1)) of
        (Some name, Some ty) \<Rightarrow>
          Some \<lparr>pf_pipeline_name = name, pf_profile_type = ty, pf_start_time_ns = of_int (column_int (row ! 2)),
                pf_end_time_ns = of_int (column_int (row ! 3)), pf_sample_count = of_int (column_int (row ! 4)), pf_labels = []\<rparr>
      | _ \<Rightarrow> None)"

definition list_profiles ::
  "'d sqlite \<Rightarrow> string \<Rightarrow> time_range \<Rightarrow> 'd sqlite_backend \<Rightarrow> 'd sqlite_backend \<times> profile_meta list option status_or" where
  "list_profiles sq pipeline tr =
     on_db (\<lambda>d.
       let sql = select_profiles tr
       in if \<not> sq_prepare sq sql d then (d, Failure (status_error Internal (''ListProfiles prepare failed: '' @ sq_errmsg sq d)))
          else let (d, _, rows, _) = sq_rows sq sql [SText (c_str pipeline)] None d
               in (d, Value (those (map read_profile rows))))
       (Failure (status_error Internal ''DB not open''))"

section \<open>Maintenance\<close>

definition sqlite_flush :: "'d sqlite \<Rightarrow> 'd sqlite_backend \<Rightarrow> 'd sqlite_backend \<times> status" where
  "sqlite_flush sq = on_db (\<lambda>d. (execute sq ''PRAGMA wal_checkpoint(PASSIVE)'' d, status_ok)) status_ok"

definition sqlite_compact :: "'d sqlite \<Rightarrow> 'd sqlite_backend \<Rightarrow> 'd sqlite_backend \<times> status" where
  "sqlite_compact sq = on_db (\<lambda>d. (execute sq ''VACUUM'' d, status_ok)) status_ok"

definition sqlite_close :: "'d sqlite_backend \<Rightarrow> 'd sqlite_backend \<times> status" where
  "sqlite_close st = (st\<lparr>sb_db := None\<rparr>, status_ok)"

definition prune_statements :: "u64 \<Rightarrow> string list" where
  "prune_statements cutoff_ns =
     [''DELETE FROM records WHERE timestamp_ns < '' @ show_nat (unat cutoff_ns),
      ''DELETE FROM stack_samples WHERE timestamp_ns < '' @ show_nat (unat cutoff_ns),
      ''DELETE FROM profiles WHERE start_ns < '' @ show_nat (unat cutoff_ns)]"

definition sqlite_prune :: "'d sqlite \<Rightarrow> u64 \<Rightarrow> u64 \<Rightarrow> 'd sqlite_backend \<Rightarrow> 'd sqlite_backend \<times> status" where
  "sqlite_prune sq now_ns max_age_ns st =
     (case sb_db st of
        None \<Rightarrow> (st, status_ok)
      | Some d \<Rightarrow>
          if max_age_ns = 0 then (st, status_ok)
          else
            let d = fold (execute sq) (prune_statements (now_ns - max_age_ns)) d;
                n = sb_pruned_count st + 1;
                d = (if n mod 12 = 0 then execute sq ''PRAGMA wal_checkpoint(TRUNCATE)'' d else d)
            in (st\<lparr>sb_db := Some d, sb_pruned_count := n\<rparr>, status_ok))"

text \<open>\<open>DiskUsageBytes\<close>: the size of the file, if it can be had.\<close>

definition disk_usage_bytes :: "(string \<Rightarrow> u64 option) \<Rightarrow> 'd sqlite_backend \<Rightarrow> u64" where
  "disk_usage_bytes file_size st =
     (if sb_db_path st = [] then 0 else case file_size (sb_db_path st) of None \<Rightarrow> 0 | Some n \<Rightarrow> n)"

section \<open>Raw queries\<close>

definition to_upper :: "char \<Rightarrow> char" where
  "to_upper c = (let k = (of_char c :: nat) in if 97 \<le> k \<and> k \<le> 122 then char_of (k - 32) else c)"

definition is_space_char :: "char \<Rightarrow> bool" where
  "is_space_char c \<longleftrightarrow> c = CHR '' '' \<or> c = CHR 0x09 \<or> c = CHR 0x0D \<or> c = CHR 0x0A"

definition is_read_only_statement :: "string \<Rightarrow> bool" where
  "is_read_only_statement sql =
     (let trimmed = dropWhile is_space_char sql; p = map to_upper (take 7 trimmed)
      in trimmed \<noteq> [] \<and> (take 6 p = ''SELECT'' \<or> p = ''EXPLAIN'' \<or> take 6 p = ''PRAGMA''))"

definition column_json :: "sql_value \<Rightarrow> json" where
  "column_json v =
     (case v of SInt i \<Rightarrow> JInt i | SFloat r \<Rightarrow> JFloat r | SText s \<Rightarrow> JString (c_str s) | SNull \<Rightarrow> JNull
      | SBlob _ \<Rightarrow> JString ''[blob]'')"

definition row_json :: "string list \<Rightarrow> sql_value list \<Rightarrow> json" where
  "row_json cols row = JObject (fold (\<lambda>(k, v). j_set k (column_json v)) (zip cols row) [])"

definition rows_json :: "string list \<Rightarrow> sql_value list list \<Rightarrow> json" where
  "rows_json cols rows = JObject [(''rows'', JArray (map (row_json cols) rows))]"

definition row_limit :: nat where
  "row_limit = 1000"

text \<open>The outer \<open>None\<close> is an exception of \<open>dump\<close>.\<close>

definition execute_raw_query ::
  "'d sqlite \<Rightarrow> (json \<Rightarrow> string option) \<Rightarrow> string \<Rightarrow> 'd sqlite_backend \<Rightarrow> 'd sqlite_backend \<times> string status_or option" where
  "execute_raw_query sq dump sql =
     on_db (\<lambda>d.
       if \<not> is_read_only_statement sql
       then (d, Some (Failure (status_error PermissionDenied ''Only SELECT, EXPLAIN and PRAGMA statements are allowed'')))
       else if \<not> sq_prepare sq (c_str sql) d
       then (d, Some (Failure (status_error Internal (''SQL prepare failed: '' @ sq_errmsg sq d))))
       else if \<not> sq_readonly sq (c_str sql) d
       then (d, Some (Failure (status_error PermissionDenied ''Statement classified as non-readonly by SQLite'')))
       else let (d, cols, rows, ok) = sq_rows sq (c_str sql) [] (Some row_limit) d
            in if \<not> ok then (d, Some (Failure (status_error Internal (''SQL execution failed: '' @ sq_errmsg sq d))))
               else (d, map_option Value (dump (rows_json cols rows))))
       (Some (Failure (status_error Internal ''DB not open'')))"

section \<open>The sink\<close>

text \<open>The virtual methods of a back end that the sink calls; \<open>None\<close> is an exception.\<close>

record 'b backend_ops =
  bk_init :: "string \<Rightarrow> 'b \<Rightarrow> ('b \<times> status) option"
  bk_write_records :: "string \<Rightarrow> data_record list \<Rightarrow> 'b \<Rightarrow> 'b \<times> status option"
  bk_write_stack_samples :: "string \<Rightarrow> stack_sample list \<Rightarrow> 'b \<Rightarrow> 'b \<times> status option"
  bk_flush :: "'b \<Rightarrow> 'b \<times> status"
  bk_close :: "'b \<Rightarrow> 'b \<times> status"

definition sqlite_ops :: "'d sqlite \<Rightarrow> (json \<Rightarrow> string option) \<Rightarrow> bool \<Rightarrow> 'd sqlite_backend backend_ops" where
  "sqlite_ops sq dump created =
     \<lparr>bk_init = sqlite_init sq created, bk_write_records = write_records sq dump,
      bk_write_stack_samples = write_stack_samples sq dump, bk_flush = sqlite_flush sq, bk_close = sqlite_close\<rparr>"

record 'b local_storage =
  ls_backend_name :: string
  ls_data_dir :: string
  ls_pipeline_name :: string
  ls_backend :: "'b option"

definition local_storage_init :: "config_value \<Rightarrow> 'b local_storage" where
  "local_storage_init config =
     \<lparr>ls_backend_name = as_string (cv_child ''backend'' config) ''sqlite'',
      ls_data_dir = as_string (cv_child ''path'' config) ''/var/lib/illuminator'',
      ls_pipeline_name = as_string (cv_child ''pipeline'' config) ''default'', ls_backend = None\<rparr>"

definition local_storage_start ::
  "'b backend_ops \<Rightarrow> (string \<times> 'b) list \<Rightarrow> 'b local_storage \<Rightarrow> ('b local_storage \<times> status) option" where
  "local_storage_start ops factory s =
     (case factory_create (ls_backend_name s) factory of
        None \<Rightarrow> Some (s\<lparr>ls_backend := None\<rparr>, status_error NotFound (''Storage backend not found: '' @ ls_backend_name s))
      | Some b \<Rightarrow> map_option (\<lambda>(b, status). (s\<lparr>ls_backend := Some b\<rparr>, status)) (bk_init ops (ls_data_dir s) b))"

definition local_storage_write ::
  "'b backend_ops \<Rightarrow> data_batch option \<Rightarrow> 'b local_storage \<Rightarrow> 'b local_storage \<times> status option" where
  "local_storage_write ops batch s =
     (case (ls_backend s, batch) of
        (Some b, Some batch) \<Rightarrow>
          let (b, r) = (if db_records batch = [] then (b, Some status_ok)
                        else bk_write_records ops (ls_pipeline_name s) (db_records batch) b)
          in (case r of
                None \<Rightarrow> (s\<lparr>ls_backend := Some b\<rparr>, None)
              | Some status \<Rightarrow>
                  if \<not> is_ok status then (s\<lparr>ls_backend := Some b\<rparr>, Some status)
                  else if db_samples batch = [] then (s\<lparr>ls_backend := Some b\<rparr>, Some status_ok)
                  else let (b, r) = bk_write_stack_samples ops (ls_pipeline_name s) (db_samples batch) b
                       in (s\<lparr>ls_backend := Some b\<rparr>, map_option (\<lambda>status. if is_ok status then status_ok else status) r))
      | _ \<Rightarrow> (s, Some status_ok))"

definition local_storage_flush :: "'b backend_ops \<Rightarrow> 'b local_storage \<Rightarrow> 'b local_storage \<times> status" where
  "local_storage_flush ops s =
     (case ls_backend s of
        None \<Rightarrow> (s, status_ok)
      | Some b \<Rightarrow> (let (b, status) = bk_flush ops b in (s\<lparr>ls_backend := Some b\<rparr>, status)))"

definition local_storage_stop :: "'b backend_ops \<Rightarrow> 'b local_storage \<Rightarrow> 'b local_storage \<times> status" where
  "local_storage_stop ops s =
     (case ls_backend s of
        None \<Rightarrow> (s, status_ok)
      | Some b \<Rightarrow> (s\<lparr>ls_backend := Some (fst (bk_close ops (fst (bk_flush ops b))))\<rparr>, status_ok))"

section \<open>The contract of a back end\<close>

text \<open>What the sink relies on: a back end that is closed accepts every write and does nothing.\<close>

locale storage_contract =
  fixes ops :: "'b backend_ops" and opened :: "'b \<Rightarrow> bool"
  assumes closed_records: "\<not> opened b \<Longrightarrow> bk_write_records ops name rs b = (b, Some status_ok)"
    and closed_samples: "\<not> opened b \<Longrightarrow> bk_write_stack_samples ops name ss b = (b, Some status_ok)"
    and close_closes: "\<not> opened (fst (bk_close ops b))"
begin

lemma stopped_closed: "ls_backend (fst (local_storage_stop ops s)) = Some b \<Longrightarrow> \<not> opened b"
  using close_closes by (auto simp: local_storage_stop_def split: option.splits)

lemma write_after_stop:
  "local_storage_write ops batch (fst (local_storage_stop ops s)) = (fst (local_storage_stop ops s), Some status_ok)"
proof (cases "ls_backend (fst (local_storage_stop ops s))")
  case None
  then show ?thesis by (simp add: local_storage_write_def)
next
  case (Some b)
  then have "\<not> opened b" by (rule stopped_closed)
  with Some show ?thesis
    by (cases batch) (simp_all add: local_storage_write_def closed_records closed_samples Let_def)
qed

end

interpretation sqlite_contract: storage_contract "sqlite_ops sq dump created" "\<lambda>b. sb_db b \<noteq> None"
  for sq :: "'d sqlite" and dump created
  by unfold_locales
    (simp_all add: sqlite_ops_def write_records_def write_stack_samples_def on_db_def sqlite_close_def)

section \<open>All or nothing\<close>

text \<open>
  A view of the table of records: its rows as the connection sees them and, in a transaction, the rows
  before it, which are what every other connection sees. What SQLite documents of the statements used: an
  error may end the transaction by itself; \<open>BEGIN\<close> within a transaction and \<open>ROLLBACK\<close> or \<open>COMMIT\<close>
  outside one are errors that change nothing.
\<close>

type_synonym table_view = "sql_value list list \<times> sql_value list list option"

definition committed :: "table_view \<Rightarrow> sql_value list list" where
  "committed v = (case snd v of None \<Rightarrow> fst v | Some t \<Rightarrow> t)"

definition rolled_back :: "table_view \<Rightarrow> table_view" where
  "rolled_back v = (committed v, None)"

definition sqlite_documented :: "'d sqlite \<Rightarrow> ('d \<Rightarrow> table_view) \<Rightarrow> bool" where
  "sqlite_documented sq view \<longleftrightarrow> (\<forall>d.
     view (execute sq ''BEGIN TRANSACTION'' d) = (fst (view d), Some (committed (view d))) \<and>
     view (execute sq ''ROLLBACK'' d) = rolled_back (view d) \<and>
     (if snd (sq_exec sq ''COMMIT'' d) then view (fst (sq_exec sq ''COMMIT'' d)) = (fst (view d), None)
      else view (fst (sq_exec sq ''COMMIT'' d)) \<in> {view d, rolled_back (view d)}) \<and>
     (\<forall>vs. if snd (sq_step sq insert_record vs d)
        then view (fst (sq_step sq insert_record vs d)) = (fst (view d) @ [vs], snd (view d))
        else view (fst (sq_step sq insert_record vs d)) \<in> {view d, rolled_back (view d)}))"

lemma documentedD:
  assumes "sqlite_documented sq view"
  shows "view (execute sq ''BEGIN TRANSACTION'' d) = (fst (view d), Some (committed (view d)))"
    and "view (execute sq ''ROLLBACK'' d) = rolled_back (view d)"
    and "sq_exec sq ''COMMIT'' d = (d', ok) \<Longrightarrow>
      if ok then view d' = (fst (view d), None) else view d' \<in> {view d, rolled_back (view d)}"
    and "sq_step sq insert_record vs d = (d', ok) \<Longrightarrow>
      if ok then view d' = (fst (view d) @ [vs], snd (view d)) else view d' \<in> {view d, rolled_back (view d)}"
proof -
  note D = assms [unfolded sqlite_documented_def, rule_format, of d]
  show "view (execute sq ''BEGIN TRANSACTION'' d) = (fst (view d), Some (committed (view d)))"
    "view (execute sq ''ROLLBACK'' d) = rolled_back (view d)" using D by (fast, fast)
  show "if ok then view d' = (fst (view d), None) else view d' \<in> {view d, rolled_back (view d)}"
    if "sq_exec sq ''COMMIT'' d = (d', ok)"
  proof -
    from D have "if snd (sq_exec sq ''COMMIT'' d) then view (fst (sq_exec sq ''COMMIT'' d)) = (fst (view d), None)
      else view (fst (sq_exec sq ''COMMIT'' d)) \<in> {view d, rolled_back (view d)}" by fast
    then show ?thesis by (simp only: that fst_conv snd_conv)
  qed
  show "if ok then view d' = (fst (view d) @ [vs], snd (view d)) else view d' \<in> {view d, rolled_back (view d)}"
    if "sq_step sq insert_record vs d = (d', ok)"
  proof -
    from D have "if snd (sq_step sq insert_record vs d)
        then view (fst (sq_step sq insert_record vs d)) = (fst (view d) @ [vs], snd (view d))
        else view (fst (sq_step sq insert_record vs d)) \<in> {view d, rolled_back (view d)}" by fast
    then show ?thesis by (simp only: that fst_conv snd_conv)
  qed
qed

lemma committed_simps [simp]:
  "committed (rolled_back v) = committed v" "committed (rows, Some t) = t" "committed (rows, None) = rows"
  by (simp_all add: committed_def rolled_back_def)

lemma write_rows_committed:
  assumes "sqlite_documented sq view" "write_rows sq insert_record row rs d = (d', e)" "snd (view d) = Some t"
  shows "committed (view d') = t \<and>
    (e = AllWritten \<longrightarrow> (\<exists>new. map row rs = map Some new \<and> view d' = (fst (view d) @ new, Some t)))"
  using assms(2,3)
proof (induction rs arbitrary: d)
  case Nil
  then show ?case by (auto simp: committed_def intro!: prod_eqI)
next
  case (Cons r rs)
  have t: "committed (view d) = t" using Cons.prems(2) by (simp add: committed_def)
  show ?case
  proof (cases "row r")
    case None
    with Cons.prems t show ?thesis by auto
  next
    case (Some vs)
    obtain d1 ok where d1: "sq_step sq insert_record vs d = (d1, ok)" by fastforce
    note step = documentedD(4) [OF assms(1) d1]
    show ?thesis
    proof (cases ok)
      case True
      with step Cons.prems(2) have "snd (view d1) = Some t" "fst (view d1) = fst (view d) @ [vs]" by simp_all
      moreover have "write_rows sq insert_record row rs d1 = (d', e)" using Cons.prems(1) Some d1 True by simp
      ultimately show ?thesis using Cons.IH [of d1] Some by force
    next
      case False
      with step t Cons.prems(1) Some d1 show ?thesis by auto
    qed
  qed
qed

lemma write_batch_committed:
  assumes doc: "sqlite_documented sq view" and w: "write_batch sq what insert_record row rs d = (d', r)"
  shows "if r = Some status_ok
    then \<exists>new. map row rs = map Some new \<and> view d' = (fst (view d) @ new, None)
    else committed (view d') = committed (view d)"
proof -
  let ?b = "execute sq ''BEGIN TRANSACTION'' d"
  have b: "view ?b = (fst (view d), Some (committed (view d)))" and rb: "\<And>d. view (execute sq ''ROLLBACK'' d) = rolled_back (view d)"
    using documentedD(1,2) [OF doc] by blast+
  obtain d1 e where d1: "write_rows sq insert_record row rs ?b = (d1, e)" by fastforce
  have "snd (view ?b) = Some (committed (view d))" by (simp only: b snd_conv)
  then have wr: "committed (view d1) = committed (view d) \<and>
      (e = AllWritten \<longrightarrow> (\<exists>new. map row rs = map Some new \<and> view d1 = (fst (view ?b) @ new, Some (committed (view d)))))"
    by (rule write_rows_committed [of sq view row rs ?b d1 e, OF doc d1])
  have ne: "status_error c m \<noteq> status_ok" if "c \<noteq> Ok" for c m
    using that by (simp add: status_error_def status_ok_def)
  show ?thesis
  proof (cases "sq_prepare sq insert_record ?b")
    case False
    with w have "d' = execute sq ''ROLLBACK'' ?b" "r \<noteq> Some status_ok"
      by (auto simp: write_batch_def Let_def ne)
    with rb b show ?thesis by simp
  next
    case True
    show ?thesis
    proof (cases e)
      case AllWritten
      obtain d2 ok where d2: "sq_exec sq ''COMMIT'' d1 = (d2, ok)" by fastforce
      from documentedD(3) [OF doc d2]
      have "if ok then view d2 = (fst (view d1), None) else view d2 \<in> {view d1, rolled_back (view d1)}" .
      moreover have "d' = d2" "r = Some (if ok then status_ok else status_error Internal (''SQLite COMMIT failed: '' @ what))"
        using w True d1 d2 AllWritten by (simp_all add: write_batch_def Let_def)
      ultimately show ?thesis using wr b AllWritten ne by (cases ok) auto
    next
      case StepFailed
      with w True d1 have "d' = execute sq ''ROLLBACK'' d1" "r \<noteq> Some status_ok"
        by (auto simp: write_batch_def Let_def ne)
      with rb wr show ?thesis by simp
    next
      case Threw
      with w True d1 have "d' = d1" "r = None" by (simp_all add: write_batch_def Let_def)
      with wr show ?thesis by simp
    qed
  qed
qed

lemma records_written_or_not:
  assumes "sqlite_documented sq view" "sb_db st = Some d" "rs \<noteq> []"
    and "write_records sq dump pipeline rs st = (st', r)"
  shows "\<exists>d'. sb_db st' = Some d' \<and>
    (if r = Some status_ok
     then \<exists>new. map (record_row dump pipeline) rs = map Some new \<and> view d' = (fst (view d) @ new, None)
     else committed (view d') = committed (view d))"
proof -
  obtain d' r' where w: "write_batch sq ''WriteRecords'' insert_record (record_row dump pipeline) rs d = (d', r')" by fastforce
  with assms have "st' = st\<lparr>sb_db := Some d'\<rparr>" "r' = r" by (simp_all add: write_records_def on_db_def)
  with write_batch_committed [OF assms(1) w] show ?thesis by simp
qed

lemma records_written:
  assumes "sqlite_documented sq view" "sb_db st = Some d" "rs \<noteq> []"
    and "write_records sq dump pipeline rs st = (st', Some status_ok)"
  shows "\<exists>d' new. sb_db st' = Some d' \<and> map (record_row dump pipeline) rs = map Some new \<and> view d' = (fst (view d) @ new, None)"
  using records_written_or_not [OF assms] by auto

section \<open>Reading what was written\<close>

text \<open>
  What the library documents of the query: the rows of the pipeline within the bounds, sorted by their time
  stamps, up to the limit.
\<close>

definition in_range :: "query_request \<Rightarrow> sql_value list \<Rightarrow> bool" where
  "in_range req row \<longleftrightarrow> row ! 0 = SText (c_str (qr_pipeline_name req)) \<and>
     (let lo = tr_start_ns (qr_time_range req); hi = tr_end_ns (qr_time_range req); ts = column_int (row ! 1)
      in (0 < lo \<longrightarrow> int (unat lo) \<le> ts) \<and> (0 < hi \<longrightarrow> ts \<le> int (unat hi)))"

definition select_documented :: "'d sqlite \<Rightarrow> ('d \<Rightarrow> table_view) \<Rightarrow> query_request \<Rightarrow> bool" where
  "select_documented sq view req \<longleftrightarrow> (\<forall>d.
     let sql = select_records req; found = filter (in_range req) (fst (view d));
         (d', cols, rows, ok) = sq_rows sq sql [SText (c_str (qr_pipeline_name req))] None d
     in sq_prepare sq sql d \<and>
       (\<exists>sorted_rows. mset sorted_rows = mset found \<and>
          sorted_wrt (\<lambda>x y. if qr_descending req then column_int (y ! 1) \<le> column_int (x ! 1)
            else column_int (x ! 1) \<le> column_int (y ! 1)) sorted_rows \<and>
          rows = map (drop 1) (take (unat (qr_limit req)) sorted_rows)))"

text \<open>
  What nlohmann/json documents of an object of scalars that is dumped and parsed: the same keys with the same
  values, except that an integer that is not negative comes back as an unsigned one.
\<close>

definition reparsed :: "json \<Rightarrow> json" where
  "reparsed j = (case j of JInt i \<Rightarrow> if 0 \<le> i then JUint (of_int i) else JInt i | _ \<Rightarrow> j)"

definition is_scalar :: "json \<Rightarrow> bool" where
  "is_scalar j \<longleftrightarrow> (case j of JArray _ \<Rightarrow> False | JObject _ \<Rightarrow> False | _ \<Rightarrow> True)"

definition json_documented :: "(json \<Rightarrow> string option) \<Rightarrow> (string \<Rightarrow> json option) \<Rightarrow> bool" where
  "json_documented dump parse \<longleftrightarrow> (\<forall>obj s. dump (JObject obj) = Some s \<and> distinct (map fst obj) \<and> list_all (is_scalar \<circ> snd) obj \<longrightarrow>
     (\<exists>obj'. parse (c_str s) = Some (JObject obj') \<and> distinct (map fst obj') \<and>
        (\<forall>k. map_of obj' k = map_option reparsed (map_of obj k))))"

lemma json_documentedD:
  assumes "json_documented dump parse" "dump (JObject obj) = Some s" "distinct (map fst obj)" "list_all (is_scalar \<circ> snd) obj"
  obtains obj' where "parse (c_str s) = Some (JObject obj')" "distinct (map fst obj')"
    "\<And>k. map_of obj' k = map_option reparsed (map_of obj k)"
  using assms unfolding json_documented_def by blast

text \<open>What a stored field is read as: null fields are lost and unsigned ones become signed.\<close>

definition stored_value :: "field_value \<Rightarrow> field_value option" where
  "stored_value v = (case v of FNone \<Rightarrow> None | FUint u \<Rightarrow> Some (FInt (i64_of u)) | _ \<Rightarrow> Some v)"

definition read_as :: "data_record \<Rightarrow> data_record \<Rightarrow> bool" where
  "read_as r r' \<longleftrightarrow> rc_timestamp r' = rc_timestamp r \<and> map_of (rc_labels r') = map_of (rev (rc_labels r)) \<and>
     (\<forall>k. get_field k r' = Option.bind (get_field k r) stored_value)"

definition int_fields_ok :: "data_record \<Rightarrow> bool" where
  "int_fields_ok r \<longleftrightarrow> distinct (map fst (rc_fields r)) \<and>
     list_all (\<lambda>(k, v). case v of FInt i \<Rightarrow> - (2 ^ 63) \<le> i \<and> i < 2 ^ 63 | _ \<Rightarrow> True) (rc_fields r)"

lemma fold_j_set_distinct: "distinct (map fst obj) \<Longrightarrow> distinct (map fst (fold (\<lambda>(k, v). j_set k (g v)) xs obj))"
  by (induction xs arbitrary: obj) (auto simp: j_set_def distinct_update)

lemma fold_j_set_scalar:
  "list_all (is_scalar \<circ> snd) obj \<Longrightarrow> \<forall>v. is_scalar (g v) \<Longrightarrow> list_all (is_scalar \<circ> snd) (fold (\<lambda>(k, v). j_set k (g v)) xs obj)"
proof (induction xs arbitrary: obj)
  case (Cons x xs)
  have "list_all (is_scalar \<circ> snd) (AList.update k v obj)" if "list_all (is_scalar \<circ> snd) obj" "is_scalar v" for k v
    using that by (induction obj) auto
  with Cons show ?case by (cases x) (simp add: j_set_def comp_def)
qed simp

lemma read_labels_strings:
  assumes "\<forall>(k, v) \<in> set kvs. \<exists>s. v = JString s"
  shows "read_labels kvs r = r\<lparr>rc_labels := rc_labels r @ map (\<lambda>(k, v). (k, case v of JString s \<Rightarrow> s | _ \<Rightarrow> [])) kvs\<rparr>"
  using assms
  by (induction kvs r rule: read_labels.induct) (auto simp: push_label_def)

text \<open>What a field is read as, by its old value.\<close>

definition field_read :: "field_value option \<Rightarrow> json \<Rightarrow> field_value option" where
  "field_read dflt v =
     (case v of JFloat d \<Rightarrow> Some (FDouble d) | JInt i \<Rightarrow> Some (FInt i) | JUint u \<Rightarrow> Some (FInt (i64_of u))
      | JBool b \<Rightarrow> Some (FBool b) | JString s \<Rightarrow> Some (FString s) | _ \<Rightarrow> dflt)"

lemma get_read_field:
  "get_field k (read_field (k', v) r) = (if k = k' then field_read (get_field k r) v else get_field k r)"
  by (simp add: field_read_def read_field_def get_field_def set_field_def update_conv' split: json.split)

lemma fold_read_field_get:
  assumes "distinct (map fst kvs)"
  shows "get_field k (fold read_field kvs r) =
    (case map_of kvs k of None \<Rightarrow> get_field k r | Some v \<Rightarrow> field_read (get_field k r) v)"
    using assms
proof (induction kvs arbitrary: r)
  case (Cons kv kvs)
  obtain k' v where kv: "kv = (k', v)" by fastforce
  have "k' \<notin> fst ` set kvs" using Cons.prems kv by simp
  then have "map_of kvs k' = None" by (simp add: map_of_eq_None_iff)
  with Cons show ?case by (cases "map_of kvs k") (auto simp: kv get_read_field)
qed simp

lemma fold_read_field_same:
  "rc_labels (fold read_field kvs r) = rc_labels r" "rc_timestamp (fold read_field kvs r) = rc_timestamp r"
  by (induction kvs arbitrary: r) (auto simp: read_field_def set_field_def split: json.split)

lemma sint_of_int64: "- (2 ^ 63) \<le> i \<Longrightarrow> i < 2 ^ 63 \<Longrightarrow> sint (of_int i :: u64) = i"
  by transfer (simp add: signed_take_bit_int_eq_self)

text \<open>One record through its row.\<close>

lemma read_record_row:
  assumes doc: "json_documented dump parse" and ok: "int_fields_ok r" and row: "record_row dump pipeline r = Some row"
  shows "row ! 0 = SText (c_str pipeline) \<and> row ! 1 = SInt (i64_of (rc_timestamp r)) \<and> read_as r (read_record parse (drop 1 row))"
proof -
  let ?ls = "fold (\<lambda>(k, v). j_set k (JString v)) (rc_labels r) []" and ?fs = "fold (\<lambda>(k, v). j_set k (field_value_to_json v)) (rc_fields r) []"
  from row obtain sl sf where d: "dump (JObject ?ls) = Some sl" "dump (JObject ?fs) = Some sf"
    and rw: "row = [SText (c_str pipeline), SInt (i64_of (rc_timestamp r)), SText sl, SText sf]"
    by (auto simp: record_row_def serialize_labels_def serialize_fields_def split: option.splits)
  have dl: "distinct (map fst ?ls)" and df: "distinct (map fst ?fs)" by (simp_all add: fold_j_set_distinct)
  have sl: "list_all (is_scalar \<circ> snd) ?ls" and sf: "list_all (is_scalar \<circ> snd) ?fs"
    by (rule fold_j_set_scalar; simp add: is_scalar_def field_value_to_json_def split: field_value.split)+
  obtain ls where p1: "parse (c_str sl) = Some (JObject ls)" and dist1: "distinct (map fst ls)"
    and m1: "\<And>k. map_of ls k = map_option reparsed (map_of ?ls k)"
    using json_documentedD [OF doc d(1) dl sl] by blast
  obtain fs where p2: "parse (c_str sf) = Some (JObject fs)" and dist2: "distinct (map fst fs)"
    and m2: "\<And>k. map_of fs k = map_option reparsed (map_of ?fs k)"
    using json_documentedD [OF doc d(2) df sf] by blast
  note p = p1 p2 and dist = dist1 dist2 and m = m1 m2
  have mls: "map_of ls k = map_option JString (map_of (rev (rc_labels r)) k)" for k
    unfolding m(1) fold_j_set_get by (cases "map_of (rev (rc_labels r)) k") (simp_all add: reparsed_def)
  have mfs: "map_of fs k = map_option (reparsed \<circ> field_value_to_json) (get_field k r)" for k
    using map_of_rev_distinct [of "rc_fields r"] ok unfolding m(2) fold_j_set_get
    by (cases "get_field k r") (simp_all add: get_field_def int_fields_ok_def)
  let ?r0 = "\<lparr>rc_timestamp = of_int (i64_of (rc_timestamp r)), rc_labels = [], rc_fields = []\<rparr> :: data_record"
  have strs: "\<forall>(k, v) \<in> set ls. \<exists>s. v = JString s"
  proof (clarify)
    fix k v assume "(k, v) \<in> set ls"
    with dist(1) have "map_of ls k = Some v" by simp
    then show "\<exists>s. v = JString s" by (auto simp: mls)
  qed
  let ?r1 = "read_labels ls ?r0"
  have rr: "read_record parse (drop 1 row) = fold read_field fs ?r1"
    by (simp add: read_record_def rw column_int_def column_text_def p json_items_def Let_def numeral_2_eq_2)
  have r1: "?r1 = ?r0\<lparr>rc_labels := map (\<lambda>(k, v). (k, case v of JString s \<Rightarrow> s | _ \<Rightarrow> [])) ls\<rparr>"
    using read_labels_strings [OF strs, of ?r0] by simp
  have "map_of (rc_labels ?r1) k = map_of (rev (rc_labels r)) k" for k
    unfolding r1 using mls [of k] by (simp add: map_of_map) (cases "map_of (rev (rc_labels r)) k"; simp)
  moreover have g1: "get_field k ?r1 = None" for k by (simp add: r1 get_field_def)
  have "get_field k (fold read_field fs ?r1) = Option.bind (get_field k r) stored_value" for k
  proof (cases "get_field k r")
    case None
    then have "map_of fs k = None" by (simp add: mfs)
    with None show ?thesis unfolding fold_read_field_get [OF dist(2)] g1 by simp
  next
    case (Some v)
    have "- (2 ^ 63) \<le> i \<and> i < 2 ^ 63" if "v = FInt i" for i
      using ok Some that unfolding int_fields_ok_def get_field_def by (auto simp: list_all_iff dest: map_of_SomeD)
    then have "sint (of_int i :: u64) = i" if "v = FInt i" for i
      using that by (intro sint_of_int64) auto
    then have "field_read None (reparsed (field_value_to_json v)) = stored_value v"
      by (cases v) (auto simp: field_read_def reparsed_def field_value_to_json_def stored_value_def i64_of_def)
    with Some show ?thesis unfolding fold_read_field_get [OF dist(2)] g1 mfs by simp
  qed
  moreover have "rc_timestamp ?r1 = rc_timestamp r" unfolding r1 by (simp add: i64_of_def)
  ultimately have "read_as r (read_record parse (drop 1 row))"
    unfolding read_as_def rr fold_read_field_same by auto
  then show ?thesis by (simp add: rw)
qed

lemma mset_map_pull:
  "mset ys = image_mset f (mset xs) \<Longrightarrow> \<exists>xs'. mset xs' = mset xs \<and> map f xs' = ys"
proof (induction ys arbitrary: xs)
  case (Cons y ys)
  then have "y \<in> set_mset (image_mset f (mset xs))" by (metis list.set_intros(1) set_mset_mset)
  then obtain x where x: "x \<in> set xs" "f x = y" by auto
  have "mset (y # ys) = image_mset f (add_mset x (mset (remove1 x xs)))" using Cons.prems x(1) by simp
  with x(2) have "mset ys = image_mset f (mset (remove1 x xs))" by simp
  from Cons.IH [OF this] obtain xs' where xs': "mset xs' = mset (remove1 x xs)" "map f xs' = ys" by blast
  have "mset (x # xs') = mset xs" using xs'(1) x(1) by simp
  moreover have "map f (x # xs') = y # ys" using xs'(2) x(2) by simp
  ultimately show ?case by (intro exI [of _ "x # xs'"] conjI)
qed simp

section \<open>An example library\<close>

definition demo_request :: query_request where
  "demo_request = \<lparr>qr_pipeline_name = ''p'', qr_metric_name = [], qr_time_range = \<lparr>tr_start_ns = 0, tr_end_ns = 0\<rparr>,
     qr_limit = 10, qr_order_by = [], qr_descending = False\<rparr>"

definition demo_sqlite :: "table_view sqlite" where
  "demo_sqlite =
     \<lparr>sq_open = (\<lambda>_. (([], None), True)),
      sq_exec = (\<lambda>sql v. if sql = ''BEGIN TRANSACTION'' then ((fst v, Some (committed v)), True)
        else if sql = ''ROLLBACK'' then (rolled_back v, True) else if sql = ''COMMIT'' then ((fst v, None), True) else (v, True)),
      sq_prepare = (\<lambda>_ _. True), sq_step = (\<lambda>_ vs v. ((fst v @ [vs], snd v), True)),
      sq_rows = (\<lambda>_ _ _ v. (v, [], map (drop 1) (take 10
        (sort_key (\<lambda>row. column_int (row ! 1)) (filter (in_range demo_request) (fst v)))), True)),
      sq_readonly = (\<lambda>_ _. True), sq_errmsg = (\<lambda>_. [])\<rparr>"

definition demo_dump :: "json \<Rightarrow> string option" where
  "demo_dump j = (if j = JObject [] then Some ''{}'' else if j = JObject [(''a'', JInt 1)] then Some ''{a:1}'' else None)"

definition demo_parse :: "string \<Rightarrow> json option" where
  "demo_parse s = (if s = ''{}'' then Some (JObject []) else if s = ''{a:1}'' then Some (JObject [(''a'', JUint 1)]) else None)"

definition demo_record :: data_record where
  "demo_record = \<lparr>rc_timestamp = 5, rc_labels = [], rc_fields = [(''a'', FInt 1)]\<rparr>"

definition demo_backend :: "table_view sqlite_backend" where
  "demo_backend = sqlite_backend_new\<lparr>sb_db := Some ([], None)\<rparr>"

lemma demo_documented:
  "sqlite_documented demo_sqlite id" "select_documented demo_sqlite id demo_request" "json_documented demo_dump demo_parse"
proof -
  show "sqlite_documented demo_sqlite id"
    by (simp add: sqlite_documented_def demo_sqlite_def execute_def)
  have srt: "sorted_wrt (\<lambda>x y. column_int (x ! 1) \<le> column_int (y ! 1)) (sort_key (\<lambda>row. column_int (row ! 1)) xs)" for xs
    using sorted_sort_key [of "\<lambda>row. column_int (row ! 1)" xs] by (simp only: sorted_wrt_map)
  show "select_documented demo_sqlite id demo_request"
    unfolding select_documented_def
  proof (intro allI)
    fix v :: table_view
    let ?s = "sort_key (\<lambda>row. column_int (row ! 1)) (filter (in_range demo_request) (fst v))"
    have "sq_rows demo_sqlite sql vs n v = (v, [], map (drop 1) (take 10 ?s), True)" for sql vs n
      by (simp add: demo_sqlite_def)
    moreover have "sq_prepare demo_sqlite sql v" for sql by (simp add: demo_sqlite_def)
    moreover have "mset ?s = mset (filter (in_range demo_request) (fst v))" by simp
    moreover have "\<not> qr_descending demo_request" "unat (qr_limit demo_request) = 10" by (simp_all add: demo_request_def)
    ultimately show "let sql = select_records demo_request; found = filter (in_range demo_request) (fst (id v));
         (d', cols, rows, ok) = sq_rows demo_sqlite sql [SText (c_str (qr_pipeline_name demo_request))] None v
     in sq_prepare demo_sqlite sql v \<and>
       (\<exists>sorted_rows. mset sorted_rows = mset found \<and>
          sorted_wrt (\<lambda>x y. if qr_descending demo_request then column_int (y ! 1) \<le> column_int (x ! 1)
            else column_int (x ! 1) \<le> column_int (y ! 1)) sorted_rows \<and>
          rows = map (drop 1) (take (unat (qr_limit demo_request)) sorted_rows))"
      using srt [of "filter (in_range demo_request) (fst v)"]
      by (simp only: Let_def id_apply prod.case if_False) blast
  qed
  show "json_documented demo_dump demo_parse"
    unfolding json_documented_def
  proof (intro allI impI, elim conjE)
    fix obj s assume d: "demo_dump (JObject obj) = Some s"
    then consider "obj = []" "s = ''{}''" | "obj = [(''a'', JInt 1)]" "s = ''{a:1}''"
      by (auto simp: demo_dump_def split: if_splits)
    then show "\<exists>obj'. demo_parse (c_str s) = Some (JObject obj') \<and> distinct (map fst obj') \<and>
        (\<forall>k. map_of obj' k = map_option reparsed (map_of obj k))"
    proof cases
      case 1
      then show ?thesis by (intro exI [of _ "[]"]) (simp add: demo_parse_def c_str_def)
    next
      case 2
      then show ?thesis by (intro exI [of _ "[(''a'', JUint 1)]"]) (simp add: demo_parse_def c_str_def reparsed_def)
    qed
  qed
qed

lemma demo_write:
  "write_records demo_sqlite demo_dump ''p'' [demo_record] demo_backend =
     (demo_backend\<lparr>sb_db := Some ([[SText ''p'', SInt 5, SText ''{}'', SText ''{a:1}'']], None)\<rparr>, Some status_ok)"
  by (simp add: write_records_def demo_backend_def sqlite_backend_new_def on_db_def write_batch_def execute_def demo_sqlite_def
      record_row_def demo_record_def serialize_labels_def serialize_fields_def j_set_def field_value_to_json_def demo_dump_def
      c_str_def i64_of_def)

section \<open>The properties\<close>



text \<open>The query of a request whose range holds exactly the rows \<open>new\<close>, made of the records \<open>rs\<close>.\<close>

lemma query_reads_rows:
  assumes "json_documented dump parse" "select_documented sq view req" "list_all int_fields_ok rs"
    and "sb_db st = Some d" "filter (in_range req) (fst (view d)) = new" "length rs \<le> unat (qr_limit req)"
    and new: "map (record_row dump (qr_pipeline_name req)) rs = map Some new"
  shows "\<exists>st' res rs'. query_records sq parse req st = (st', Value res) \<and> mset rs' = mset rs \<and>
    sorted_wrt (\<lambda>r r'. if qr_descending req then i64_of (rc_timestamp r') \<le> i64_of (rc_timestamp r)
      else i64_of (rc_timestamp r) \<le> i64_of (rc_timestamp r')) rs' \<and>
    list_all2 read_as rs' (qt_records res)"
proof -
  let ?row = "record_row dump (qr_pipeline_name req)"
  let ?sql = "select_records req" and ?name = "SText (c_str (qr_pipeline_name req))"
  obtain d2 cols rows ok where q: "sq_rows sq ?sql [?name] None d = (d2, cols, rows, ok)" by (metis prod_cases4)
  from assms(2) [unfolded select_documented_def, rule_format, of d] obtain srows where
    prep: "sq_prepare sq ?sql d" and m: "mset srows = mset new" and
    srt: "sorted_wrt (\<lambda>x y. if qr_descending req then column_int (y ! 1) \<le> column_int (x ! 1)
        else column_int (x ! 1) \<le> column_int (y ! 1)) srows" and
    rows: "rows = map (drop 1) (take (unat (qr_limit req)) srows)"
    unfolding q assms(5) Let_def prod.case by blast
  have "mset (map Some srows) = image_mset ?row (mset rs)" by (metis m new mset_map)
  from mset_map_pull [OF this] obtain rs' where rs': "mset rs' = mset rs" "map ?row rs' = map Some srows" by blast
  have len: "length rs' = length srows" by (metis rs'(2) length_map)
  have nth: "srows ! i ! 1 = SInt (i64_of (rc_timestamp (rs' ! i))) \<and> read_as (rs' ! i) (read_record parse (drop 1 (srows ! i)))"
    if "i < length rs'" for i
  proof -
    have "?row (rs' ! i) = Some (srows ! i)" using that len by (metis nth_map rs'(2))
    moreover have "int_fields_ok (rs' ! i)"
      using that assms(3) rs'(1) by (metis list_all_iff nth_mem mset_eq_setD)
    ultimately show ?thesis using read_record_row [OF assms(1)] by blast
  qed
  have "length srows \<le> unat (qr_limit req)" using len rs'(1) assms(6) by (metis size_mset)
  then have rows: "rows = map (drop 1) srows" using rows by simp
  have "query_records sq parse req st = (st\<lparr>sb_db := Some d2\<rparr>,
      Value \<lparr>qt_records = map (read_record parse) rows, qt_stack_samples = [],
                 qt_total_count = of_nat (length rows), qt_has_more = False\<rparr>)"
    using prep q assms(4) by (simp add: query_records_def on_db_def Let_def)
  moreover have "sorted_wrt (\<lambda>r r'. if qr_descending req then i64_of (rc_timestamp r') \<le> i64_of (rc_timestamp r)
      else i64_of (rc_timestamp r) \<le> i64_of (rc_timestamp r')) rs'"
    using srt nth len by (auto simp: sorted_wrt_iff_nth_less column_int_def split: if_splits)
  moreover have "list_all2 read_as rs' (map (read_record parse) rows)"
    using nth len by (simp add: rows list_all2_conv_all_nth)
  ultimately show ?thesis using rs'(1)
    by (intro exI [of _ "st\<lparr>sb_db := Some d2\<rparr>"] exI [of _ rs'] exI
        [of _ "\<lparr>qt_records = map (read_record parse) rows, qt_stack_samples = [],
                 qt_total_count = of_nat (length rows), qt_has_more = False\<rparr>"] conjI) simp_all
qed



end
