(* ===== verification/SelfObservability.thy ===== *)
theory SelfObservability
  imports Sinks
begin

text \<open>
  The program's own metrics and its memory limit (\<open>src/core/common/self_observability.h\<close>). The tables are
  hash maps, here association lists with distinct keys whose order means nothing.
\<close>

section \<open>InternalMetrics\<close>

record histogram =
  hg_count :: u64
  hg_sum :: u64
  hg_min :: u64
  hg_max :: u64

definition histogram_new :: histogram where
  "histogram_new = \<lparr>hg_count = 0, hg_sum = 0, hg_min = - 1, hg_max = 0\<rparr>"

record internal_metrics =
  im_counters :: "(string \<times> u64) list"
  im_gauges :: "(string \<times> real) list"
  im_histograms :: "(string \<times> histogram) list"

definition metrics_new :: internal_metrics where
  "metrics_new = \<lparr>im_counters = [], im_gauges = [], im_histograms = []\<rparr>"

definition inc_counter :: "string \<Rightarrow> u64 \<Rightarrow> internal_metrics \<Rightarrow> internal_metrics" where
  "inc_counter name delta m =
     m\<lparr>im_counters := AList.update name ((case map_of (im_counters m) name of None \<Rightarrow> 0 | Some n \<Rightarrow> n) + delta) (im_counters m)\<rparr>"

definition metrics_set_gauge :: "string \<Rightarrow> real \<Rightarrow> internal_metrics \<Rightarrow> internal_metrics" where
  "metrics_set_gauge name v m = m\<lparr>im_gauges := AList.update name v (im_gauges m)\<rparr>"

definition add_latency :: "u64 \<Rightarrow> histogram \<Rightarrow> histogram" where
  "add_latency us h =
     (let h = h\<lparr>hg_count := hg_count h + 1, hg_sum := hg_sum h + us\<rparr>;
          h = (if us < hg_min h then h\<lparr>hg_min := us\<rparr> else h)
      in if hg_max h < us then h\<lparr>hg_max := us\<rparr> else h)"

definition record_latency :: "string \<Rightarrow> u64 \<Rightarrow> internal_metrics \<Rightarrow> internal_metrics" where
  "record_latency name us m =
     (let h = (case map_of (im_histograms m) name of None \<Rightarrow> histogram_new | Some h \<Rightarrow> h)
      in m\<lparr>im_histograms := AList.update name (add_latency us h) (im_histograms m)\<rparr>)"

text \<open>The destructor of \<open>ScopedTimer\<close>: the whole microseconds between two readings of the clock.\<close>

definition scoped_timer_end :: "string \<Rightarrow> int \<Rightarrow> int \<Rightarrow> internal_metrics \<Rightarrow> internal_metrics" where
  "scoped_timer_end name start_ns end_ns = record_latency name (word_of_int ((end_ns - start_ns) div 1000))"

definition get_counter :: "string \<Rightarrow> internal_metrics \<Rightarrow> u64" where
  "get_counter name m = (case map_of (im_counters m) name of None \<Rightarrow> 0 | Some n \<Rightarrow> n)"

definition get_gauge :: "string \<Rightarrow> internal_metrics \<Rightarrow> real" where
  "get_gauge name m = (case map_of (im_gauges m) name of None \<Rightarrow> 0 | Some v \<Rightarrow> v)"

definition metric_line :: "string \<Rightarrow> string \<Rightarrow> string \<Rightarrow> string" where
  "metric_line name suffix_text v = ''illuminator_'' @ name @ suffix_text @ '' '' @ v @ [newline]"

definition type_line :: "string \<Rightarrow> string \<Rightarrow> string" where
  "type_line name ty = ''# TYPE illuminator_'' @ name @ '' '' @ ty @ [newline]"

definition show_u64 :: "u64 \<Rightarrow> string" where
  "show_u64 n = show_nat (unat n)"

definition histogram_text :: "string \<times> histogram \<Rightarrow> string" where
  "histogram_text = (\<lambda>(name, h).
     type_line name ''summary'' @ metric_line name ''_count'' (show_u64 (hg_count h)) @
     metric_line name ''_sum'' (show_u64 (hg_sum h)) @
     (if 0 < hg_count h
      then metric_line name ''_avg'' (show_u64 (hg_sum h div hg_count h)) @
        metric_line name ''_min'' (show_u64 (hg_min h)) @ metric_line name ''_max'' (show_u64 (hg_max h))
      else []))"

definition export_prometheus :: "(real \<Rightarrow> string) \<Rightarrow> internal_metrics \<Rightarrow> string" where
  "export_prometheus show_double m =
     concat (map (\<lambda>(name, n). type_line name ''counter'' @ metric_line name [] (show_u64 n)) (im_counters m)) @
     concat (map (\<lambda>(name, v). type_line name ''gauge'' @ metric_line name [] (show_double v)) (im_gauges m)) @
     concat (map histogram_text (im_histograms m))"

definition histogram_json :: "histogram \<Rightarrow> json" where
  "histogram_json h =
     JObject [(''count'', JUint (hg_count h)), (''sum'', JUint (hg_sum h)), (''min'', JUint (hg_min h)), (''max'', JUint (hg_max h))]"

definition export_json :: "internal_metrics \<Rightarrow> json" where
  "export_json m =
     JObject [(''counters'', JObject (map (\<lambda>(name, n). (name, JUint n)) (im_counters m))),
       (''gauges'', JObject (map (\<lambda>(name, v). (name, JFloat v)) (im_gauges m))),
       (''histograms'', JObject (map (\<lambda>(name, h). (name, histogram_json h)) (im_histograms m)))]"

section \<open>ResourceLimiter\<close>

record resource_limits =
  rl_max_memory_bytes :: u64

definition default_limits :: resource_limits where
  "default_limits = \<lparr>rl_max_memory_bytes = 536870912\<rparr>"

record resource_usage =
  ru_rss_bytes :: u64
  ru_memory_exceeded :: bool

text \<open>\<open>statm\<close> is the text of the file, if it opens; \<open>page_size\<close> what \<open>sysconf\<close> returns.\<close>

definition get_rss_bytes :: "string option \<Rightarrow> int \<Rightarrow> u64" where
  "get_rss_bytes statm page_size =
     (case statm of
        None \<Rightarrow> 0
      | Some s \<Rightarrow>
          let pages = (case Option.bind (scan_lu s) (\<lambda>(_, rest). scan_lu rest) of None \<Rightarrow> 0 | Some (n, _) \<Rightarrow> n)
          in pages * word_of_int (if page_size \<le> 0 then 4096 else page_size))"

definition check_resources ::
  "string option \<Rightarrow> int \<Rightarrow> resource_limits \<Rightarrow> internal_metrics \<Rightarrow> internal_metrics \<times> resource_usage" where
  "check_resources statm page_size limits m =
     (let rss = get_rss_bytes statm page_size
      in (metrics_set_gauge ''rss_bytes'' (real (unat rss)) m,
          \<lparr>ru_rss_bytes = rss, ru_memory_exceeded = rl_max_memory_bytes limits < rss\<rparr>))"

section \<open>What the metrics say\<close>

datatype metric_op = IncBy string u64 | Latency string u64

fun metric_step :: "metric_op \<Rightarrow> internal_metrics \<Rightarrow> internal_metrics" where
  "metric_step (IncBy name n) m = inc_counter name n m"
| "metric_step (Latency name us) m = record_latency name us m"

definition latencies_of :: "string \<Rightarrow> metric_op list \<Rightarrow> u64 list" where
  "latencies_of name ops = List.map_filter (\<lambda>x. case x of Latency n us \<Rightarrow> if n = name then Some us else None | _ \<Rightarrow> None) ops"

definition increments_of :: "string \<Rightarrow> metric_op list \<Rightarrow> u64 list" where
  "increments_of name ops = List.map_filter (\<lambda>x. case x of IncBy n d \<Rightarrow> if n = name then Some d else None | _ \<Rightarrow> None) ops"

lemma map_filter_snoc: "List.map_filter f (xs @ [x]) = List.map_filter f xs @ (case f x of None \<Rightarrow> [] | Some y \<Rightarrow> [y])"
  by (simp add: List.map_filter_def split: option.split)

lemma fold_min_max:
  fixes us :: "u64 list"
  assumes "us \<noteq> []"
  shows "fold (\<lambda>u m. if u < m then u else m) us (- 1) = Min (set us) \<and> fold (\<lambda>u m. if m < u then u else m) us 0 = Max (set us)"
  using assms
proof (induction us rule: rev_induct)
  case (snoc u us)
  show ?case
  proof (cases "us = []")
    case True
    then show ?thesis by (auto simp: not_less word_order.extremum_unique min_def)
  next
    case False
    have "Min (set (us @ [u])) = min u (Min (set us))" "Max (set (us @ [u])) = max u (Max (set us))"
      using False by simp_all
    moreover have "(if u < m then u else m) = min u m" "(if m < u then u else m) = max u m" for m
      by (auto simp: min_def max_def)
    ultimately show ?thesis using snoc.IH [OF False] by simp
  qed
qed simp

lemma latencies_of_simps:
  "latencies_of name [] = []" "latencies_of name (ops @ [IncBy n d]) = latencies_of name ops"
  "latencies_of name (ops @ [Latency n us]) = latencies_of name ops @ (if n = name then [us] else [])"
  by (simp_all add: latencies_of_def map_filter_snoc List.map_filter_def)

lemma add_latency_eq:
  "add_latency us h = \<lparr>hg_count = hg_count h + 1, hg_sum = hg_sum h + us,
     hg_min = (if us < hg_min h then us else hg_min h), hg_max = (if hg_max h < us then us else hg_max h)\<rparr>"
  by (cases h) (simp add: add_latency_def Let_def)

lemma histogram_after:
  "map_of (im_histograms (fold metric_step ops metrics_new)) name =
     (if latencies_of name ops = [] then None
      else Some \<lparr>hg_count = of_nat (length (latencies_of name ops)), hg_sum = sum_list (latencies_of name ops),
             hg_min = fold (\<lambda>u m. if u < m then u else m) (latencies_of name ops) (- 1),
             hg_max = fold (\<lambda>u m. if m < u then u else m) (latencies_of name ops) 0\<rparr>)"
proof (induction ops rule: rev_induct)
  case Nil
  then show ?case by (simp add: metrics_new_def latencies_of_simps)
next
  case (snoc x ops)
  show ?case
  proof (cases x)
    case (IncBy n d)
    with snoc show ?thesis by (simp add: inc_counter_def latencies_of_simps)
  next
    case (Latency n us)
    show ?thesis
    proof (cases "n = name")
      case True
      with Latency snoc show ?thesis
        by (cases "latencies_of name ops = []")
          (simp_all add: record_latency_def latencies_of_simps update_conv' Let_def add_latency_eq histogram_new_def add.commute)
    next
      case False
      with Latency snoc show ?thesis by (simp add: record_latency_def latencies_of_simps update_conv' Let_def)
    qed
  qed
qed

text \<open>
  What is exported is what was recorded. After any sequence of increments and latencies under any names,
  a counter is the sum of its increments modulo \<open>2 ^ 64\<close>, and the histogram of a name with latencies has their
  number and sum modulo \<open>2 ^ 64\<close> and their exact smallest and largest value.
\<close>

theorem metrics_exact:
  fixes ops :: "metric_op list" and name :: string
  defines "m \<equiv> fold metric_step ops metrics_new" and "us \<equiv> latencies_of name ops"
  shows "get_counter name m = sum_list (increments_of name ops) \<and>
    map_of (im_histograms m) name =
      (if us = [] then None
       else Some \<lparr>hg_count = of_nat (length us), hg_sum = sum_list us, hg_min = Min (set us), hg_max = Max (set us)\<rparr>)"
proof
  show "get_counter name m = sum_list (increments_of name ops)"
    unfolding m_def
  proof (induction ops rule: rev_induct)
    case Nil
    then show ?case by (simp add: metrics_new_def get_counter_def increments_of_def List.map_filter_def)
  next
    case (snoc x ops)
    show ?case
    proof (cases x)
      case (IncBy n d)
      with snoc show ?thesis
        by (cases "n = name") (simp_all add: get_counter_def increments_of_def map_filter_snoc inc_counter_def update_conv')
    next
      case (Latency n us)
      with snoc show ?thesis
        by (simp add: get_counter_def increments_of_def map_filter_snoc record_latency_def Let_def)
    qed
  qed
  show "map_of (im_histograms m) name =
      (if us = [] then None
       else Some \<lparr>hg_count = of_nat (length us), hg_sum = sum_list us, hg_min = Min (set us), hg_max = Max (set us)\<rparr>)"
    unfolding m_def us_def using fold_min_max by (simp add: histogram_after)
qed

end
