(* ===== verification/HttpApi.thy ===== *)
theory HttpApi
  imports Controller Storage SelfObservability Handshake
begin

text \<open>
  The HTTP interface, with the metrics it shows: the token check and the routes of \<open>src/server/api_routes.h\<close> and the fallback page of
  \<open>src/server/http_server.h\<close>. Requests and responses are those of httplib; its matching of a path against a
  route is a parameter. The virtual methods of the sources, the texts of JSON values and SQLite are
  parameters too.
\<close>

section \<open>Requests and responses\<close>

text \<open>\<open>rq_header\<close> gives the first value of a header, if any.\<close>

record http_request =
  rq_method :: string
  rq_path :: string
  rq_header :: "string \<Rightarrow> string option"
  rq_params :: "(string \<times> string) list"
  rq_body :: string

record http_response =
  rs_status :: "nat option" \<comment> \<open>\<open>None\<close>: not set, which the library sends as 200\<close>
  rs_body :: string
  rs_type :: string

definition response_new :: http_response where
  "response_new = \<lparr>rs_status = None, rs_body = [], rs_type = []\<rparr>"

definition set_content :: "string \<Rightarrow> string \<Rightarrow> http_response \<Rightarrow> http_response" where
  "set_content body ty res = res\<lparr>rs_body := body, rs_type := ty\<rparr>"

text \<open>A handler answers, throws (the library then answers 500) or uses a null pointer.\<close>

datatype handled = Answered http_response | Raised | Crashed

definition answer_json :: "(json \<Rightarrow> string option) \<Rightarrow> json \<Rightarrow> http_response \<Rightarrow> handled" where
  "answer_json dump j res =
     (case dump j of None \<Rightarrow> Raised
      | Some text_body \<Rightarrow> Answered (set_content (text_body @ [newline]) ''application/json'' res))"

definition json_error :: "(json \<Rightarrow> string option) \<Rightarrow> string \<Rightarrow> nat \<Rightarrow> http_response \<Rightarrow> handled" where
  "json_error dump msg status res =
     answer_json dump (JObject [(''error'', JString msg)]) (res\<lparr>rs_status := Some status\<rparr>)"

section \<open>SetupAuthMiddleware\<close>

datatype handler_response = Handled | Unhandled

definition auth_handler :: "string \<Rightarrow> http_request \<Rightarrow> http_response \<Rightarrow> handler_response \<times> http_response" where
  "auth_handler auth_token req res =
     (if rq_path req = ''/healthz'' \<or> rq_path req = ''/metrics'' then (Unhandled, res)
      else if take 5 (rq_path req) \<noteq> ''/api/'' then (Unhandled, res)
      else case rq_header req ''Authorization'' of
             None \<Rightarrow>
               (Handled, set_content (''{'' @ quoted ''error'' @ '':'' @ quoted ''missing Authorization header'' @ ''}'')
                  ''application/json'' (res\<lparr>rs_status := Some 401\<rparr>))
           | Some v \<Rightarrow>
               if v \<noteq> ''Bearer '' @ auth_token
               then (Handled, set_content (''{'' @ quoted ''error'' @ '':'' @ quoted ''invalid token'' @ ''}'')
                  ''application/json'' (res\<lparr>rs_status := Some 403\<rparr>))
               else (Unhandled, res))"

definition setup_auth_middleware ::
  "string \<Rightarrow> (http_request \<Rightarrow> http_response \<Rightarrow> handler_response \<times> http_response) option" where
  "setup_auth_middleware auth_token = (if auth_token = [] then None else Some (auth_handler auth_token))"

section \<open>The handlers\<close>

text \<open>The sources' methods by the name of their pipeline, and the texts of JSON.\<close>

record api_env =
  ae_collect :: "string \<Rightarrow> data_batch option status_or"
  ae_query_extra :: "string \<Rightarrow> string \<Rightarrow> (string \<times> string) list \<Rightarrow> string status_or"
  ae_is_stub :: "string \<Rightarrow> bool"
  ae_dump :: "json \<Rightarrow> string option"
  ae_parse :: "string \<Rightarrow> json option"
  ae_what :: "string \<Rightarrow> string" \<comment> \<open>the message of what a request's body throws\<close>
  ae_show_double :: "real \<Rightarrow> string"
  ae_version :: string
  ae_commit :: string

record ('p, 'a, 's, 'd) api_state =
  as_controller :: "('p, 'a, 's) controller"
  as_storage :: "'d sqlite_backend option"
  as_metrics :: internal_metrics

definition healthz_json :: "api_env \<Rightarrow> json" where
  "healthz_json env =
     JObject [(''status'', JString ''ok''), (''version'', JString (ae_version env)), (''commit'', JString (ae_commit env))]"

definition channel_size :: "'b channel \<Rightarrow> u64" where
  "channel_size ch = size_approx (ch_queue ch)"

definition channel_capacity :: "'b channel \<Rightarrow> u64" where
  "channel_capacity ch = lq_capacity (ch_queue ch)"

definition channel_counts :: "'b channel \<Rightarrow> (string \<times> json) list" where
  "channel_counts ch =
     [(''enqueued'', JUint (st_enqueued (ch_stats ch))), (''dequeued'', JUint (st_dequeued (ch_stats ch))),
      (''dropped'', JUint (st_dropped (ch_stats ch))), (''flush_injected'', JUint (st_flush_injected (ch_stats ch))),
      (''backpressure_events'', JUint (st_backpressure_events (ch_stats ch))), (''backpressured'', JBool (ch_backpressured ch))]"

definition pipeline_json :: "api_env \<Rightarrow> ('p, 'a, 's) managed \<Rightarrow> json" where
  "pipeline_json env mp =
     (let pl = mp_pipeline mp; ch = pl_channel pl
      in JObject [(''name'', JString (pl_name pl)), (''running'', JBool (mp_running mp)),
           (''stub'', JBool (mp_source mp \<noteq> None \<and> ae_is_stub env (pl_name pl))),
           (''batches'', JUint (pl_batches_processed pl)), (''records'', JUint (pl_records_processed pl)),
           (''errors'', JUint (pl_error_count pl)),
           (''channel'', JObject ([(''capacity'', JUint (channel_capacity ch)), (''size'', JUint (channel_size ch))] @
             channel_counts ch))])"

definition pipelines_json :: "api_env \<Rightarrow> ('p, 'a, 's) controller \<Rightarrow> json" where
  "pipelines_json env ct = JObject [(''pipelines'', JArray (map (pipeline_json env) (ct_pipelines ct)))]"

definition channel_stats_json :: "('p, 'a, 's) managed \<Rightarrow> json" where
  "channel_stats_json mp =
     (let pl = mp_pipeline mp; ch = pl_channel pl
      in JObject ([(''pipeline'', JString (pl_name pl)), (''capacity'', JUint (channel_capacity ch)),
           (''size'', JUint (channel_size ch)),
           (''utilization'', JFloat (if 0 < channel_capacity ch
              then real (unat (channel_size ch)) / real (unat (channel_capacity ch)) else 0))] @ channel_counts ch))"

definition channels_json :: "('p, 'a, 's) controller \<Rightarrow> json" where
  "channels_json ct = JObject [(''channels'', JArray (map channel_stats_json (ct_pipelines ct)))]"

text \<open>
  What the process thread and the metrics timer put into the metrics: the gauges of a pipeline's channel
  (\<open>SyncChannelMetrics\<close>, every hundred items), and those of the timers and pools (the numbers of pending tasks,
  if there is the pool).
\<close>

definition channel_gauges :: "'b channel \<Rightarrow> (string \<times> real) list" where
  "channel_gauges ch =
     [(''size'', real (unat (channel_size ch))), (''enqueued'', real (unat (st_enqueued (ch_stats ch)))),
      (''dequeued'', real (unat (st_dequeued (ch_stats ch)))), (''dropped'', real (unat (st_dropped (ch_stats ch)))),
      (''flush_injected'', real (unat (st_flush_injected (ch_stats ch)))),
      (''backpressure_events'', real (unat (st_backpressure_events (ch_stats ch)))),
      (''utilization'', if 0 < channel_capacity ch
         then real (unat (channel_size ch)) / real (unat (channel_capacity ch)) else 0)]"

definition set_gauges :: "string \<Rightarrow> (string \<times> real) list \<Rightarrow> internal_metrics \<Rightarrow> internal_metrics" where
  "set_gauges start kvs = fold (\<lambda>(k, v). metrics_set_gauge (start @ k) v) kvs"

definition sync_channel_metrics :: "string \<Rightarrow> 'b channel \<Rightarrow> internal_metrics \<Rightarrow> internal_metrics" where
  "sync_channel_metrics name ch = set_gauges (''pipeline_'' @ name @ ''_channel_'') (channel_gauges ch)"

definition sync_timer_metrics ::
  "'c wheel \<Rightarrow> nat option \<Rightarrow> nat option \<Rightarrow> internal_metrics \<Rightarrow> internal_metrics" where
  "sync_timer_metrics w collect_pending sink_pending =
     set_gauges [] ([(''timer_wheel_fires_total'', real (unat (tw_fires_total w))),
         (''timer_wheel_timers_active'', real (active_timers w))] @
       (case collect_pending of None \<Rightarrow> [] | Some n \<Rightarrow> [(''collect_pool_pending_tasks'', real n)]) @
       (case sink_pending of None \<Rightarrow> [] | Some n \<Rightarrow> [(''sink_pool_pending_tasks'', real n)]))"

text \<open>A gauge that is set shows its value; the others and the counters stay as they were.\<close>

lemma get_gauge_set: "get_gauge n (metrics_set_gauge name v m) = (if n = name then v else get_gauge n m)"
  by (simp add: get_gauge_def metrics_set_gauge_def update_conv')

lemma set_gauges_other:
  "n \<notin> (@) start ` fst ` set kvs \<Longrightarrow> get_gauge n (set_gauges start kvs m) = get_gauge n m"
  unfolding set_gauges_def by (induction kvs arbitrary: m) (auto simp: get_gauge_set)

lemma set_gauges_get:
  "distinct (map fst kvs) \<Longrightarrow> (k, v) \<in> set kvs \<Longrightarrow> get_gauge (start @ k) (set_gauges start kvs m) = v"
proof (induction kvs arbitrary: m)
  case (Cons kv kvs)
  show ?case
  proof (cases "(k, v) = kv")
    case True
    with Cons.prems(1) have "start @ k \<notin> (@) start ` fst ` set kvs" by (force simp: image_iff)
    from set_gauges_other [OF this] True show ?thesis by (auto simp: set_gauges_def get_gauge_set)
  next
    case False
    with Cons show ?thesis by (auto simp: set_gauges_def)
  qed
qed simp

lemma sync_channel_metrics_exact:
  assumes "(k, v) \<in> set (channel_gauges ch)"
  shows "get_gauge (''pipeline_'' @ name @ ''_channel_'' @ k) (sync_channel_metrics name ch m) = v"
  using set_gauges_get [OF _ assms, of "''pipeline_'' @ name @ ''_channel_''" m]
  by (simp add: sync_channel_metrics_def channel_gauges_def)

text \<open>The processors keep their states after a run of them for a request.\<close>

definition set_processors :: "string \<Rightarrow> 'p list \<Rightarrow> ('p, 'a, 's) managed list \<Rightarrow> ('p, 'a, 's) managed list" where
  "set_processors name ps mps =
     (case takeWhile (\<lambda>mp. pl_name (mp_pipeline mp) \<noteq> name) mps of
        before \<Rightarrow>
          (case drop (length before) mps of
             [] \<Rightarrow> mps
           | mp # rest \<Rightarrow> before @ map_pipeline (\<lambda>pl. pl\<lparr>pl_processors := ps\<rparr>) mp # rest))"

definition pipeline_collect ::
  "('p, 'a, 's) plugin_ops \<Rightarrow> api_env \<Rightarrow> string \<Rightarrow> http_response \<Rightarrow> ('p, 'a, 's) controller \<Rightarrow>
     ('p, 'a, 's) controller \<times> handled" where
  "pipeline_collect ops env name res ct =
     (case get_pipeline name ct of
        None \<Rightarrow> (ct, json_error (ae_dump env) (''pipeline '' @ [CHR 0x27] @ name @ [CHR 0x27] @ '' not found'') 404 res)
      | Some mp \<Rightarrow>
          if mp_source mp = None
          then (ct, json_error (ae_dump env) (''pipeline '' @ [CHR 0x27] @ name @ [CHR 0x27] @ '' has no source'') 500 res)
          else case ae_collect env name of
             Failure st \<Rightarrow> (ct, json_error (ae_dump env) (message st) 500 res)
           | Value batch \<Rightarrow>
               (let (ps, processed) = run_processors ops (pl_processors (mp_pipeline mp)) batch;
                    ct = ct\<lparr>ct_pipelines := set_processors name ps (ct_pipelines ct)\<rparr>
                in (ct, case processed of
                     Failure st \<Rightarrow> json_error (ae_dump env) (message st) 500 res
                   | Value None \<Rightarrow> Crashed
                   | Value (Some b) \<Rightarrow> answer_json (ae_dump env) (batch_json b name) res)))"

text \<open>The parameters of a request become a map: the last value of a name.\<close>

definition query_handler ::
  "api_env \<Rightarrow> string \<Rightarrow> string \<Rightarrow> http_request \<Rightarrow> http_response \<Rightarrow> ('p, 'a, 's) controller \<Rightarrow> handled" where
  "query_handler env name query req res ct =
     (case get_pipeline name ct of
        None \<Rightarrow> json_error (ae_dump env) (name @ '' pipeline not found'') 404 res
      | Some mp \<Rightarrow>
          if mp_source mp = None then json_error (ae_dump env) ''source not available'' 500 res
          else case ae_query_extra env name query (fold (\<lambda>(k, v). AList.update k v) (rq_params req) []) of
             Failure st \<Rightarrow> json_error (ae_dump env) (message st) 500 res
           | Value text_body \<Rightarrow> Answered (set_content (text_body @ [newline]) ''application/json'' res))"

text \<open>The first test of a query: the words may stand anywhere in its first twenty characters.\<close>

definition query_allowed :: "string \<Rightarrow> bool" where
  "query_allowed sql \<longleftrightarrow>
     (let head_text = map to_upper (take 20 sql)
      in find_sub ''SELECT'' head_text \<noteq> None \<or> find_sub ''PRAGMA'' head_text \<noteq> None)"

text \<open>
  \<open>body.value("query", "")\<close>: the string, the default when the key is missing, or an exception when the
  body is not an object or the value no string.
\<close>

definition query_field :: "json \<Rightarrow> string option" where
  "query_field j =
     (case j of
        JObject obj \<Rightarrow> (case map_of obj ''query'' of None \<Rightarrow> Some [] | Some (JString s) \<Rightarrow> Some s | _ \<Rightarrow> None)
      | _ \<Rightarrow> None)"

text \<open>The block of the \<open>try\<close>, which may throw, and its handler.\<close>

definition sql_query_block ::
  "'d sqlite \<Rightarrow> api_env \<Rightarrow> http_request \<Rightarrow> http_response \<Rightarrow> 'd sqlite_backend option \<Rightarrow> 'd sqlite_backend option \<times> handled" where
  "sql_query_block sq env req res storage =
     (case Option.bind (ae_parse env (rq_body req)) query_field of
        None \<Rightarrow> (storage, Raised)
      | Some sql \<Rightarrow>
          if sql = [] then (storage, json_error (ae_dump env) (''missing '' @ [CHR 0x27] @ ''query'' @ [CHR 0x27] @ '' field'') 400 res)
          else if \<not> query_allowed sql
          then (storage, json_error (ae_dump env) ''only SELECT queries are allowed'' 403 res)
          else case storage of
             None \<Rightarrow> (storage, json_error (ae_dump env) ''no storage backend available'' 500 res)
           | Some b \<Rightarrow>
               (let (b, result) = execute_raw_query sq (ae_dump env) sql b
                in (Some b, case result of
                     None \<Rightarrow> Raised
                   | Some (Failure st) \<Rightarrow> json_error (ae_dump env) (message st) 500 res
                   | Some (Value text_body) \<Rightarrow> Answered (set_content (text_body @ [newline]) ''application/json'' res))))"

definition sql_query ::
  "'d sqlite \<Rightarrow> api_env \<Rightarrow> http_request \<Rightarrow> http_response \<Rightarrow> 'd sqlite_backend option \<Rightarrow> 'd sqlite_backend option \<times> handled" where
  "sql_query sq env req res storage =
     (let (storage, r) = sql_query_block sq env req res storage
      in (storage, case r of
            Raised \<Rightarrow> json_error (ae_dump env) (''query parse error: '' @ ae_what env (rq_body req)) 400 res
          | _ \<Rightarrow> r))"

section \<open>The routes\<close>

datatype api_handler =
    Healthz | ListPipelines | CollectNamed | CollectFixed string | QueryExtra string string
  | ChannelStats | SqlQuery | MetricsText | MetricsJson

definition api_routes :: "(string \<times> string \<times> api_handler) list" where
  "api_routes =
     [(''GET'', ''/healthz'', Healthz),
      (''GET'', ''/api/v1/pipelines'', ListPipelines),
      (''GET'', ''/api/v1/pipelines/:name/collect'', CollectNamed),
      (''GET'', ''/api/v1/cpu/utilization'', CollectFixed ''cpu_utilization''),
      (''GET'', ''/api/v1/cpu/processes'', CollectFixed ''cpu_processes''),
      (''GET'', ''/api/v1/cpu/profile/flamegraph'', CollectFixed ''cpu_profile''),
      (''GET'', ''/api/v1/cpu/profile/offcpu'', CollectFixed ''offcpu_analysis''),
      (''GET'', ''/api/v1/cpu/sched/summary'', CollectFixed ''sched_analysis''),
      (''GET'', ''/api/v1/cpu/sched/history'', QueryExtra ''sched_analysis'' ''history''),
      (''GET'', ''/api/v1/cpu/sched/events'', QueryExtra ''sched_analysis'' ''events''),
      (''GET'', ''/api/v1/cpu/sched/wakeups'', QueryExtra ''sched_analysis'' ''wakeups''),
      (''GET'', ''/api/v1/channel_stats'', ChannelStats),
      (''POST'', ''/api/v1/query'', SqlQuery),
      (''GET'', ''/metrics'', MetricsText),
      (''GET'', ''/api/v1/internal_metrics'', MetricsJson)]"

definition run_handler ::
  "('p, 'a, 's) plugin_ops \<Rightarrow> 'd sqlite \<Rightarrow> api_env \<Rightarrow> api_handler \<Rightarrow> (string \<times> string) list \<Rightarrow> http_request \<Rightarrow>
     ('p, 'a, 's, 'd) api_state \<Rightarrow> ('p, 'a, 's, 'd) api_state \<times> handled" where
  "run_handler ops sq env h path_params req st =
     (let res = response_new; ct = as_controller st;
          collect = (\<lambda>name. let (ct, r) = pipeline_collect ops env name res ct in (st\<lparr>as_controller := ct\<rparr>, r))
      in case h of
           Healthz \<Rightarrow> (st, answer_json (ae_dump env) (healthz_json env) res)
         | ListPipelines \<Rightarrow> (st, answer_json (ae_dump env) (pipelines_json env ct) res)
         | CollectNamed \<Rightarrow> (case map_of path_params ''name'' of None \<Rightarrow> (st, Raised) | Some name \<Rightarrow> collect name)
         | CollectFixed name \<Rightarrow> collect name
         | QueryExtra name query \<Rightarrow> (st, query_handler env name query req res ct)
         | ChannelStats \<Rightarrow> (st, answer_json (ae_dump env) (channels_json ct) res)
         | SqlQuery \<Rightarrow> (let (storage, r) = sql_query sq env req res (as_storage st) in (st\<lparr>as_storage := storage\<rparr>, r))
         | MetricsText \<Rightarrow>
             (st, Answered (set_content (export_prometheus (ae_show_double env) (as_metrics st)) ''text/plain'' res))
         | MetricsJson \<Rightarrow> (st, answer_json (ae_dump env) (export_json (as_metrics st)) res))"

text \<open>
  One request: the token check, then the first route that matches; \<open>None\<close> when there is none (the library
  answers 404). \<open>route_match\<close> is the library's: the values of the pattern's names, if the path matches.
\<close>

fun find_route ::
  "(string \<Rightarrow> string \<Rightarrow> (string \<times> string) list option) \<Rightarrow> http_request \<Rightarrow> (string \<times> string \<times> api_handler) list \<Rightarrow>
     (api_handler \<times> (string \<times> string) list) option" where
  "find_route route_match req [] = None"
| "find_route route_match req ((meth, pattern, h) # rs) =
     (if meth = rq_method req
      then (case route_match pattern (rq_path req) of None \<Rightarrow> find_route route_match req rs | Some ps \<Rightarrow> Some (h, ps))
      else find_route route_match req rs)"

definition serve_request ::
  "(string \<Rightarrow> string \<Rightarrow> (string \<times> string) list option) \<Rightarrow> ('p, 'a, 's) plugin_ops \<Rightarrow> 'd sqlite \<Rightarrow> api_env \<Rightarrow> string \<Rightarrow>
     http_request \<Rightarrow> ('p, 'a, 's, 'd) api_state \<Rightarrow> ('p, 'a, 's, 'd) api_state \<times> handled option" where
  "serve_request route_match ops sq env auth_token req st =
     (let (early, res) = (case setup_auth_middleware auth_token of
            None \<Rightarrow> (Unhandled, response_new)
          | Some check \<Rightarrow> check req response_new)
      in case early of
           Handled \<Rightarrow> (st, Some (Answered res))
         | Unhandled \<Rightarrow>
             (case find_route route_match req api_routes of
                None \<Rightarrow> (st, None)
              | Some (h, ps) \<Rightarrow> (let (st, r) = run_handler ops sq env h ps req st in (st, Some r))))"

text \<open>The page served for a path that is not found, if the file opens.\<close>

definition spa_fallback :: "string \<Rightarrow> (string \<Rightarrow> string option) \<Rightarrow> http_request \<Rightarrow> http_response \<Rightarrow> http_response" where
  "spa_fallback static_dir read_file req res =
     (if rs_status res = Some 404 \<and> CHR ''.'' \<notin> set (rq_path req) \<and> take 5 (rq_path req) \<noteq> ''/api/''
      then case read_file (static_dir @ ''/index.html'') of
             None \<Rightarrow> res
           | Some page \<Rightarrow> (set_content page ''text/html'' res)\<lparr>rs_status := Some 200\<rparr>
      else res)"

section \<open>Who may ask\<close>

text \<open>
  C10: no request gets past the token. Whatever the request and the state, when a token is configured a path
  under \<open>/api/\<close> is served only with exactly \<open>Bearer\<close> and that token; otherwise nothing runs, the state is
  as it was and the answer is 401 without the header and 403 with a wrong one. Every other request is served
  as if no token were configured.
\<close>

theorem api_requires_token:
  "serve_request route_match ops sq env auth_token req st =
     (let auth = rq_header req ''Authorization''
      in if auth_token \<noteq> [] \<and> take 5 (rq_path req) = ''/api/'' \<and> auth \<noteq> Some (''Bearer '' @ auth_token)
         then (st, Some (Answered (set_content
                 (''{'' @ quoted ''error'' @ '':'' @ quoted (if auth = None then ''missing Authorization header'' else ''invalid token'') @ ''}'')
                 ''application/json'' (response_new\<lparr>rs_status := Some (if auth = None then 401 else 403)\<rparr>))))
         else serve_request route_match ops sq env [] req st)"
proof (cases "auth_token = [] \<or> take 5 (rq_path req) \<noteq> ''/api/''")
  case True
  then have "(case setup_auth_middleware auth_token of None \<Rightarrow> (Unhandled, response_new) | Some check \<Rightarrow> check req response_new) =
      (Unhandled, response_new)"
    by (auto simp: setup_auth_middleware_def auth_handler_def)
  with True show ?thesis
    by (auto simp: serve_request_def setup_auth_middleware_def Let_def)
next
  case False
  then have np: "rq_path req \<noteq> ''/healthz''" "rq_path req \<noteq> ''/metrics''" by auto
  show ?thesis
  proof (cases "rq_header req ''Authorization'' = Some (''Bearer '' @ auth_token)")
    case True
    then have "auth_handler auth_token req response_new = (Unhandled, response_new)" by (simp add: auth_handler_def)
    with True show ?thesis by (simp add: serve_request_def setup_auth_middleware_def Let_def)
  next
    case wrong: False
    with False np show ?thesis
      by (cases "rq_header req ''Authorization''")
        (simp_all add: serve_request_def setup_auth_middleware_def auth_handler_def Let_def)
  qed
qed

section \<open>What a request may change\<close>

text \<open>A pipeline but for the states of its processors.\<close>

definition but_processors :: "('p, 'a, 's) managed \<Rightarrow> ('p, 'a, 's) managed" where
  "but_processors = map_pipeline (\<lambda>pl. pl\<lparr>pl_processors := []\<rparr>)"

lemma but_processors_set: "map but_processors (set_processors name ps mps) = map but_processors mps"
proof -
  let ?before = "takeWhile (\<lambda>mp. pl_name (mp_pipeline mp) \<noteq> name) mps"
  have split: "mps = ?before @ drop (length ?before) mps"
    by (metis takeWhile_eq_take append_take_drop_id)
  show ?thesis
  proof (cases "drop (length ?before) mps")
    case Nil
    then show ?thesis by (simp add: set_processors_def)
  next
    case (Cons mp rest)
    have "set_processors name ps mps = ?before @ map_pipeline (\<lambda>pl. pl\<lparr>pl_processors := ps\<rparr>) mp # rest"
      using Cons by (simp add: set_processors_def)
    moreover have "but_processors (map_pipeline (\<lambda>pl. pl\<lparr>pl_processors := ps\<rparr>) mp) = but_processors mp"
      by (simp add: but_processors_def map_pipeline_def)
    ultimately have "map but_processors (set_processors name ps mps) = map but_processors (?before @ mp # rest)" by simp
    also have "?before @ mp # rest = mps" using split Cons by simp
    finally show ?thesis .
  qed
qed

text \<open>What SQLite documents of a statement it classifies as read-only: running it leaves the tables alone.\<close>

definition readonly_documented :: "'d sqlite \<Rightarrow> ('d \<Rightarrow> 'v) \<Rightarrow> bool" where
  "readonly_documented sq view \<longleftrightarrow> (\<forall>sql vs n d. sq_readonly sq sql d \<longrightarrow> view (fst (sq_rows sq sql vs n d)) = view d)"

definition storage_view :: "('d \<Rightarrow> 'v) \<Rightarrow> 'd sqlite_backend option \<Rightarrow> 'v option option" where
  "storage_view view storage = map_option (\<lambda>b. map_option view (sb_db b)) storage"

lemma raw_query_view:
  assumes "readonly_documented sq view"
  shows "map_option view (sb_db (fst (execute_raw_query sq dump sql b))) = map_option view (sb_db b)"
proof (cases "sb_db b")
  case (Some d)
  obtain d' cols rows ok where q: "sq_rows sq (c_str sql) [] (Some row_limit) d = (d', cols, rows, ok)" by (metis prod_cases4)
  have "view d' = view d" if "sq_readonly sq (c_str sql) d"
    using assms that q unfolding readonly_documented_def by (metis fst_conv)
  with Some q show ?thesis by (simp add: execute_raw_query_def on_db_def)
qed (simp add: execute_raw_query_def on_db_def)

lemma sql_query_view:
  assumes "readonly_documented sq view"
  shows "storage_view view (fst (sql_query sq env req res storage)) = storage_view view storage"
proof -
  have "storage_view view (fst (sql_query_block sq env req res storage)) = storage_view view storage"
    using raw_query_view [OF assms]
    by (auto simp: sql_query_block_def storage_view_def split: option.split prod.split) (metis fst_conv)+
  then show ?thesis by (simp add: sql_query_def case_prod_beta)
qed

lemma pipeline_collect_reads:
  "map but_processors (ct_pipelines (fst (pipeline_collect ops env name res ct))) = map but_processors (ct_pipelines ct) \<and>
    fst (pipeline_collect ops env name res ct) = ct\<lparr>ct_pipelines := ct_pipelines (fst (pipeline_collect ops env name res ct))\<rparr>"
  by (auto simp: pipeline_collect_def but_processors_set case_prod_beta Let_def split: option.split status_or.split)

definition only_read :: "('d \<Rightarrow> 'v) \<Rightarrow> ('p, 'a, 's, 'd) api_state \<Rightarrow> ('p, 'a, 's, 'd) api_state \<Rightarrow> bool" where
  "only_read view st st' \<longleftrightarrow> storage_view view (as_storage st') = storage_view view (as_storage st) \<and> as_metrics st' = as_metrics st \<and>
    map but_processors (ct_pipelines (as_controller st')) = map but_processors (ct_pipelines (as_controller st)) \<and>
    as_controller st' = (as_controller st)\<lparr>ct_pipelines := ct_pipelines (as_controller st')\<rparr>"

lemma only_read_refl: "only_read view st st"
  by (simp add: only_read_def)

lemma run_handler_reads:
  assumes "readonly_documented sq view"
  shows "only_read view st (fst (run_handler ops sq env h ps req st))"
proof -
  have c: "only_read view st (st\<lparr>as_controller := fst (pipeline_collect ops env name res (as_controller st))\<rparr>)" for name res
    using pipeline_collect_reads [of ops env name res "as_controller st"] by (simp add: only_read_def)
  have q: "only_read view st (st\<lparr>as_storage := fst (sql_query sq env req res (as_storage st))\<rparr>)" for res
    using sql_query_view [OF assms] by (simp add: only_read_def)
  show ?thesis
    using c q
    by (cases h) (simp_all add: run_handler_def Let_def case_prod_beta only_read_refl split: option.split)
qed


definition demo_env :: api_env where
  "demo_env =
     \<lparr>ae_collect = (\<lambda>_. Value None), ae_query_extra = (\<lambda>_ _ _. Value []), ae_is_stub = (\<lambda>_. False), ae_dump = demo_dump,
      ae_parse = (\<lambda>_. Some (JObject [(''query'', JString ''SELECT 1'')])), ae_what = (\<lambda>_. []), ae_show_double = (\<lambda>_. []),
      ae_version = [], ae_commit = []\<rparr>"

definition demo_http :: http_request where
  "demo_http = \<lparr>rq_method = ''POST'', rq_path = ''/api/v1/query'', rq_header = (\<lambda>_. None), rq_params = [], rq_body = []\<rparr>"


end
