(* ===== verification/YamlConfig.thy ===== *)
theory YamlConfig
  imports Config "HOL-Library.Monad_Syntax"
begin

text \<open>
  The loader of \<open>src/core/config/yaml_config_loader.h\<close>: from the tree of nodes that yaml-cpp makes of a
  text to the global configuration, and its validation. Nodes and subscripts are as yaml-cpp documents them
  (aliases resolved); an exception of the library is \<open>None\<close>. Its conversions of scalars to numbers and
  Booleans, and the text of a null node, are parameters.
\<close>

section \<open>Nodes\<close>

datatype yaml = YNull | YScalar string | YSeq "yaml list" | YMap "(yaml \<times> yaml) list"

record yaml_conv =
  yc_null_text :: "string option"
  yc_size :: "string \<Rightarrow> u64 option"
  yc_uint :: "string \<Rightarrow> u32 option"
  yc_real :: "string \<Rightarrow> real option"
  yc_bool :: "string \<Rightarrow> bool option"

text \<open>A subscript of a scalar throws; one that is not found is undefined.\<close>

definition y_get :: "yaml \<Rightarrow> string \<Rightarrow> yaml option option" where
  "y_get node key =
     (case node of
        YScalar _ \<Rightarrow> None
      | YMap kvs \<Rightarrow> Some (map_option snd (find (\<lambda>kv. fst kv = YScalar key) kvs))
      | _ \<Rightarrow> Some None)"

definition y_text :: "yaml_conv \<Rightarrow> yaml \<Rightarrow> string option" where
  "y_text conv node = (case node of YScalar s \<Rightarrow> Some s | YNull \<Rightarrow> yc_null_text conv | _ \<Rightarrow> None)"

definition y_text_or :: "yaml_conv \<Rightarrow> string \<Rightarrow> yaml option \<Rightarrow> string" where
  "y_text_or conv dflt node = (case Option.bind node (y_text conv) of None \<Rightarrow> dflt | Some s \<Rightarrow> s)"

definition y_as :: "(string \<Rightarrow> 'x option) \<Rightarrow> yaml \<Rightarrow> 'x option" where
  "y_as conv node = (case node of YScalar s \<Rightarrow> conv s | _ \<Rightarrow> None)"

definition y_as_or :: "(string \<Rightarrow> 'x option) \<Rightarrow> 'x \<Rightarrow> yaml \<Rightarrow> 'x" where
  "y_as_or conv dflt node = (case y_as conv node of None \<Rightarrow> dflt | Some x \<Rightarrow> x)"

text \<open>Iterating as over a sequence: a map's entries are no nodes, so their first use throws.\<close>

definition y_elements :: "yaml \<Rightarrow> yaml list option" where
  "y_elements node = (case node of YSeq xs \<Rightarrow> Some xs | YMap (_ # _) \<Rightarrow> None | _ \<Rightarrow> Some [])"

definition y_entries :: "yaml \<Rightarrow> (yaml \<times> yaml) list option" where
  "y_entries node = (case node of YMap kvs \<Rightarrow> Some kvs | YSeq (_ # _) \<Rightarrow> None | _ \<Rightarrow> Some [])"

section \<open>ParseConfigValue\<close>

definition full_key :: "string \<Rightarrow> string \<Rightarrow> string" where
  "full_key key nk = (if nk = [] then key else key @ ''.'' @ nk)"

definition cv_merge :: "string \<Rightarrow> config_value \<Rightarrow> config_value \<Rightarrow> config_value" where
  "cv_merge key nested cv = fold (\<lambda>(nk, nv). cv_set (full_key key nk) nv) nested cv"

definition seq_key :: "string \<Rightarrow> nat \<Rightarrow> string" where
  "seq_key pre i = (if pre = [] then show_nat i else pre @ ''.'' @ show_nat i)"

definition end_sequence :: "string \<Rightarrow> nat \<Rightarrow> config_value \<times> string \<times> bool \<Rightarrow> config_value" where
  "end_sequence pre n = (\<lambda>(cv, joined, all_scalar).
     let cv = cv_set (if pre = [] then ''_size'' else pre @ ''._size'') (show_nat n) cv
     in if all_scalar \<and> pre \<noteq> [] then cv_set pre joined cv else cv)"

function (sequential)
  parse_config_value :: "yaml_conv \<Rightarrow> yaml \<Rightarrow> config_value option" and
  parse_entries :: "yaml_conv \<Rightarrow> (yaml \<times> yaml) list \<Rightarrow> config_value \<Rightarrow> config_value option" and
  parse_sequence_into :: "yaml_conv \<Rightarrow> string \<Rightarrow> yaml list \<Rightarrow> config_value \<Rightarrow> config_value option" and
  parse_items :: "yaml_conv \<Rightarrow> string \<Rightarrow> nat \<Rightarrow> yaml list \<Rightarrow> config_value \<times> string \<times> bool \<Rightarrow> (config_value \<times> string \<times> bool) option"
where
  "parse_config_value conv YNull = Some []"
| "parse_config_value conv (YMap kvs) = parse_entries conv kvs []"
| "parse_config_value conv (YScalar s) = Some (cv_set [] s [])"
| "parse_config_value conv (YSeq xs) = parse_sequence_into conv [] xs []"
| "parse_entries conv [] cv = Some cv"
| "parse_entries conv ((k, v) # kvs) cv =
     do { key \<leftarrow> y_text conv k;
          cv \<leftarrow> (case v of
                   YScalar s \<Rightarrow> Some (cv_set key s cv)
                 | YSeq xs \<Rightarrow> parse_sequence_into conv key xs cv
                 | YMap m \<Rightarrow> map_option (\<lambda>nested. cv_merge key nested cv) (parse_config_value conv (YMap m))
                 | YNull \<Rightarrow> Some cv);
          parse_entries conv kvs cv }"
| "parse_sequence_into conv pre xs cv =
     map_option (end_sequence pre (length xs)) (parse_items conv pre 0 xs (cv, [], True))"
| "parse_items conv pre i [] acc = Some acc"
| "parse_items conv pre i (x # xs) (cv, joined, all_scalar) =
     do { acc \<leftarrow> (case x of
                    YScalar s \<Rightarrow> Some (cv_set (seq_key pre i) s cv, joined @ (if 0 < i then '','' else []) @ s, all_scalar)
                  | YMap m \<Rightarrow> map_option (\<lambda>nested. (cv_merge (seq_key pre i) nested cv, joined, False)) (parse_config_value conv (YMap m))
                  | YSeq ys \<Rightarrow> map_option (\<lambda>cv. (cv, joined, False)) (parse_sequence_into conv (seq_key pre i) ys cv)
                  | YNull \<Rightarrow> Some (cv, joined, all_scalar));
          parse_items conv pre (Suc i) xs acc }"
  by pat_completeness auto
termination
  by (relation "measure (\<lambda>x. case x of
      Inl (Inl (_, n)) \<Rightarrow> 2 * size n
    | Inl (Inr (_, kvs, _)) \<Rightarrow> 2 * size_list (size_prod size size) kvs
    | Inr (Inl (_, _, xs, _)) \<Rightarrow> 2 * size_list size xs + 1
    | Inr (Inr (_, _, _, xs, _)) \<Rightarrow> 2 * size_list size xs)") simp_all

section \<open>ParseConfig\<close>

record server_config =
  sv_http_enabled :: bool
  sv_http_listen :: string
  sv_ws_enabled :: bool
  sv_auth_token :: string

record global_config =
  gc_log_level :: string
  gc_log_file :: string
  gc_log_max_size :: u64
  gc_log_max_files :: u64
  gc_data_dir :: string
  gc_plugin_dirs :: "string list"
  gc_server :: server_config
  gc_engine :: engine_config
  gc_pipelines :: "pipeline_config list"

definition default_global_config :: global_config where
  "default_global_config =
     \<lparr>gc_log_level = ''info'', gc_log_file = [], gc_log_max_size = 10485760, gc_log_max_files = 3,
      gc_data_dir = ''/var/lib/illuminator'', gc_plugin_dirs = [],
      gc_server = \<lparr>sv_http_enabled = True, sv_http_listen = ''127.0.0.1:9527'', sv_ws_enabled = True, sv_auth_token = []\<rparr>,
      gc_engine = default_engine_config, gc_pipelines = []\<rparr>"

text \<open>What is done with the value of a key, if there is one.\<close>

definition y_on :: "yaml \<Rightarrow> string \<Rightarrow> (yaml \<Rightarrow> 'c \<Rightarrow> 'c option) \<Rightarrow> 'c \<Rightarrow> 'c option" where
  "y_on node key f c = do { child \<leftarrow> y_get node key; case child of None \<Rightarrow> Some c | Some n \<Rightarrow> f n c }"

definition parse_global :: "yaml_conv \<Rightarrow> yaml \<Rightarrow> global_config \<Rightarrow> global_config option" where
  "parse_global conv node c =
     do { c \<leftarrow> y_on node ''log_level'' (\<lambda>n c. map_option (\<lambda>s. c\<lparr>gc_log_level := s\<rparr>) (y_text conv n)) c;
          c \<leftarrow> y_on node ''log_file'' (\<lambda>n c. map_option (\<lambda>s. c\<lparr>gc_log_file := s\<rparr>) (y_text conv n)) c;
          c \<leftarrow> y_on node ''log_max_size'' (\<lambda>n c. Some (c\<lparr>gc_log_max_size := y_as_or (yc_size conv) 10485760 n\<rparr>)) c;
          c \<leftarrow> y_on node ''log_max_files'' (\<lambda>n c. Some (c\<lparr>gc_log_max_files := y_as_or (yc_size conv) 3 n\<rparr>)) c;
          c \<leftarrow> y_on node ''data_dir'' (\<lambda>n c. map_option (\<lambda>s. c\<lparr>gc_data_dir := s\<rparr>) (y_text conv n)) c;
          y_on node ''plugin_dirs'' (\<lambda>n c. do { dirs \<leftarrow> y_elements n; texts \<leftarrow> those (map (y_text conv) dirs);
            Some (c\<lparr>gc_plugin_dirs := gc_plugin_dirs c @ texts\<rparr>) }) c }"

definition parse_server :: "yaml_conv \<Rightarrow> yaml \<Rightarrow> server_config \<Rightarrow> server_config option" where
  "parse_server conv node c =
     do { c \<leftarrow> y_on node ''http'' (\<lambda>http c.
            do { c \<leftarrow> y_on http ''enabled'' (\<lambda>n c. map_option (\<lambda>b. c\<lparr>sv_http_enabled := b\<rparr>) (y_as (yc_bool conv) n)) c;
                 y_on http ''listen'' (\<lambda>n c. map_option (\<lambda>s. c\<lparr>sv_http_listen := s\<rparr>) (y_text conv n)) c }) c;
          c \<leftarrow> y_on node ''websocket'' (\<lambda>ws c.
            y_on ws ''enabled'' (\<lambda>n c. map_option (\<lambda>b. c\<lparr>sv_ws_enabled := b\<rparr>) (y_as (yc_bool conv) n)) c) c;
          y_on node ''auth_token'' (\<lambda>n c. map_option (\<lambda>s. c\<lparr>sv_auth_token := s\<rparr>) (y_text conv n)) c }"

definition parse_channel :: "yaml_conv \<Rightarrow> yaml \<Rightarrow> channel_config \<Rightarrow> channel_config option" where
  "parse_channel conv node c =
     do { c \<leftarrow> y_on node ''size'' (\<lambda>n c. Some (c\<lparr>cc_size := y_text_or conv ''medium'' (Some n)\<rparr>)) c;
          c \<leftarrow> y_on node ''drop_policy'' (\<lambda>n c. Some (c\<lparr>cc_drop_policy := y_text_or conv ''drop_newest'' (Some n)\<rparr>)) c;
          c \<leftarrow> y_on node ''backpressure_high'' (\<lambda>n c. Some (c\<lparr>cc_backpressure_high := y_as_or (yc_real conv) (4 / 5) n\<rparr>)) c;
          y_on node ''backpressure_low'' (\<lambda>n c. Some (c\<lparr>cc_backpressure_low := y_as_or (yc_real conv) (1 / 5) n\<rparr>)) c }"

definition parse_engine :: "yaml_conv \<Rightarrow> yaml \<Rightarrow> engine_config \<Rightarrow> engine_config option" where
  "parse_engine conv node c =
     do { c \<leftarrow> y_on node ''collect_pool_threads'' (\<lambda>n c. Some (c\<lparr>ec_collect_pool_threads := y_as_or (yc_uint conv) 0 n\<rparr>)) c;
          c \<leftarrow> y_on node ''sink_pool_threads'' (\<lambda>n c. Some (c\<lparr>ec_sink_pool_threads := y_as_or (yc_uint conv) 0 n\<rparr>)) c;
          y_on node ''channel'' (\<lambda>n c. map_option (\<lambda>ch. c\<lparr>ec_channel := ch\<rparr>) (parse_channel conv n (ec_channel c))) c }"

definition parse_stage :: "yaml_conv \<Rightarrow> yaml \<Rightarrow> stage_config option" where
  "parse_stage conv node =
     do { ty \<leftarrow> y_get node ''type'';
          y_on node ''config'' (\<lambda>n sc. map_option (\<lambda>cv. sc\<lparr>sc_config := cv\<rparr>) (parse_config_value conv n))
            \<lparr>sc_type = y_text_or conv [] ty, sc_config = []\<rparr> }"

definition parse_stages :: "yaml_conv \<Rightarrow> yaml \<Rightarrow> stage_config list option" where
  "parse_stages conv node = do { xs \<leftarrow> y_elements node; those (map (parse_stage conv) xs) }"

definition parse_pipeline :: "yaml_conv \<Rightarrow> yaml \<times> yaml \<Rightarrow> pipeline_config option" where
  "parse_pipeline conv = (\<lambda>(k, node).
     do { name \<leftarrow> y_text conv k;
          pc \<leftarrow> y_on node ''source'' (\<lambda>n pc. map_option (\<lambda>sc. pc\<lparr>pc_source := sc\<rparr>) (parse_stage conv n))
            \<lparr>pc_name = name, pc_source = \<lparr>sc_type = [], sc_config = []\<rparr>, pc_processors = [], pc_aggregator = None, pc_sinks = []\<rparr>;
          pc \<leftarrow> y_on node ''processors'' (\<lambda>n pc. map_option (\<lambda>scs. pc\<lparr>pc_processors := scs\<rparr>) (parse_stages conv n)) pc;
          pc \<leftarrow> y_on node ''aggregator'' (\<lambda>n pc. map_option (\<lambda>sc. pc\<lparr>pc_aggregator := Some sc\<rparr>) (parse_stage conv n)) pc;
          y_on node ''sinks'' (\<lambda>n pc. map_option (\<lambda>scs. pc\<lparr>pc_sinks := scs\<rparr>) (parse_stages conv n)) pc })"

definition parse_config :: "yaml_conv \<Rightarrow> yaml \<Rightarrow> global_config option" where
  "parse_config conv doc =
     do { c \<leftarrow> y_on doc ''global'' (parse_global conv) default_global_config;
          c \<leftarrow> y_on doc ''server'' (\<lambda>n c. map_option (\<lambda>sv. c\<lparr>gc_server := sv\<rparr>) (parse_server conv n (gc_server c))) c;
          c \<leftarrow> y_on doc ''engine'' (\<lambda>n c. map_option (\<lambda>ec. c\<lparr>gc_engine := ec\<rparr>) (parse_engine conv n (gc_engine c))) c;
          y_on doc ''pipelines'' (\<lambda>n c. do { kvs \<leftarrow> y_entries n; pcs \<leftarrow> those (map (parse_pipeline conv) kvs);
            Some (c\<lparr>gc_pipelines := pcs\<rparr>) }) c }"

section \<open>ValidateConfig\<close>

definition apostrophe :: string where
  "apostrophe = [CHR 0x27]"

definition validate_pipeline :: "pipeline_config \<Rightarrow> status option" where
  "validate_pipeline p =
     (if pc_name p = [] then Some (status_error InvalidArgument ''Pipeline name cannot be empty'')
      else if sc_type (pc_source p) = []
      then Some (status_error InvalidArgument (''Pipeline '' @ apostrophe @ pc_name p @ apostrophe @ '' has no source type''))
      else if pc_sinks p = []
      then Some (status_error InvalidArgument (''Pipeline '' @ apostrophe @ pc_name p @ apostrophe @ '' has no sinks''))
      else None)"

definition validate_config :: "global_config \<Rightarrow> status" where
  "validate_config cfg =
     (let ch = ec_channel (gc_engine cfg); bad = (\<lambda>msg. status_error InvalidArgument msg)
      in if gc_log_level cfg \<notin> set [''trace'', ''debug'', ''info'', ''warn'', ''error'']
         then bad (''Invalid log_level '' @ apostrophe @ gc_log_level cfg @ apostrophe @ ''; valid: trace, debug, info, warn, error'')
         else if cc_size ch \<notin> set [''small'', ''medium'', ''large'']
         then bad (''Invalid channel.size '' @ apostrophe @ cc_size ch @ apostrophe @ ''; valid: small, medium, large'')
         else if cc_drop_policy ch \<notin> set [''drop_newest'', ''drop_oldest'']
         then bad (''Invalid channel.drop_policy '' @ apostrophe @ cc_drop_policy ch @ apostrophe @ ''; valid: drop_newest, drop_oldest'')
         else if cc_backpressure_high ch \<le> cc_backpressure_low ch then bad ''backpressure_high must be > backpressure_low''
         else if 1 < cc_backpressure_high ch \<or> cc_backpressure_low ch < 0
         then bad ''backpressure thresholds must be in [0.0, 1.0]''
         else case List.map_filter validate_pipeline (gc_pipelines cfg) of [] \<Rightarrow> status_ok | st # _ \<Rightarrow> st)"

text \<open>
  \<open>LoadFromFile\<close> and \<open>LoadFromString\<close>: \<open>tree\<close> is what the library makes of the text and \<open>what\<close> the message
  of its exception.
\<close>

definition load_config :: "yaml_conv \<Rightarrow> yaml option \<Rightarrow> string \<Rightarrow> global_config status_or" where
  "load_config conv tree what =
     (case Option.bind tree (parse_config conv) of
        None \<Rightarrow> Failure (status_error InvalidArgument (''YAML parse error: '' @ what))
      | Some cfg \<Rightarrow> (let valid = validate_config cfg in if is_ok valid then Value cfg else Failure valid))"

section \<open>What loading guarantees\<close>

definition config_ok :: "global_config \<Rightarrow> bool" where
  "config_ok cfg \<longleftrightarrow>
     (let ch = ec_channel (gc_engine cfg)
      in gc_log_level cfg \<in> {''trace'', ''debug'', ''info'', ''warn'', ''error''} \<and>
         cc_size ch \<in> {''small'', ''medium'', ''large''} \<and> cc_drop_policy ch \<in> {''drop_newest'', ''drop_oldest''} \<and>
         0 \<le> cc_backpressure_low ch \<and> cc_backpressure_low ch < cc_backpressure_high ch \<and> cc_backpressure_high ch \<le> 1 \<and>
         list_all (\<lambda>p. pc_name p \<noteq> [] \<and> sc_type (pc_source p) \<noteq> [] \<and> pc_sinks p \<noteq> []) (gc_pipelines cfg))"

lemma validate_pipeline_cases:
  "validate_pipeline p = None \<longleftrightarrow> pc_name p \<noteq> [] \<and> sc_type (pc_source p) \<noteq> [] \<and> pc_sinks p \<noteq> []"
  "validate_pipeline p = Some st \<Longrightarrow> code st = InvalidArgument"
  by (auto simp: validate_pipeline_def status_error_def split: if_splits)

lemma map_filter_none: "List.map_filter f xs = [] \<longleftrightarrow> list_all (\<lambda>x. f x = None) xs"
  by (induction xs) (simp_all add: map_filter_simps split: option.split)

lemma first_invalid: "List.map_filter validate_pipeline ps = st # rest \<Longrightarrow> code st = InvalidArgument"
  by (induction ps) (auto simp: map_filter_simps dest: validate_pipeline_cases(2) split: option.splits)

lemma code_status_error [simp]: "code (status_error c m) = c"
  by (simp add: status_error_def)

lemma validate_config_cases:
  "if config_ok cfg then validate_config cfg = status_ok else code (validate_config cfg) = InvalidArgument"
proof (cases "List.map_filter validate_pipeline (gc_pipelines cfg)")
  case Nil
  then have ps: "list_all (\<lambda>p. pc_name p \<noteq> [] \<and> sc_type (pc_source p) \<noteq> [] \<and> pc_sinks p \<noteq> []) (gc_pipelines cfg)"
    by (simp add: map_filter_none validate_pipeline_cases(1))
  show ?thesis
  proof (cases "config_ok cfg")
    case True
    with Nil show ?thesis by (auto simp: validate_config_def config_ok_def Let_def)
  next
    case False
    then show ?thesis
      unfolding validate_config_def config_ok_def Let_def using ps
      by (simp split: if_splits) linarith?
  qed
next
  case (Cons st rest)
  then have "\<not> config_ok cfg"
    using map_filter_none [of validate_pipeline "gc_pipelines cfg"] by (auto simp: config_ok_def Let_def validate_pipeline_cases(1))
  with Cons first_invalid [OF Cons] show ?thesis by (simp add: validate_config_def Let_def)
qed


section \<open>Lists\<close>

lemma cv_wf_merge: "cv_wf cv \<Longrightarrow> cv_wf (cv_merge key nested cv)"
  unfolding cv_merge_def by (induction nested arbitrary: cv) (auto simp: cv_wf_set)

text \<open>Setting keys of one entry of a map: the key itself or below it.\<close>

definition below :: "string \<Rightarrow> string \<Rightarrow> bool" where
  "below key k \<longleftrightarrow> k = key \<or> (\<exists>sub. k = key @ ''.'' @ sub)"

definition same_outside :: "string \<Rightarrow> config_value \<Rightarrow> config_value \<Rightarrow> bool" where
  "same_outside key cv cv' \<longleftrightarrow> (\<forall>k. below key k \<or> map_of cv' k = map_of cv k) \<and> (cv_wf cv \<longrightarrow> cv_wf cv')"

lemma below_full [simp]: "below key (full_key key nk)"
  by (simp add: below_def full_key_def)

lemma below_trans: "below a b \<Longrightarrow> below b c \<Longrightarrow> below a c"
  by (auto simp: below_def)

lemma same_outside_refl: "same_outside key cv cv"
  by (simp add: same_outside_def)

lemma same_outside_trans: "same_outside key a b \<Longrightarrow> same_outside key b c \<Longrightarrow> same_outside key a c"
  unfolding same_outside_def by metis

lemma same_outside_set: "below key k \<Longrightarrow> same_outside key cv (cv_set k x cv)"
  by (auto simp: same_outside_def cv_set_def cv_wf_set [unfolded cv_set_def] update_conv')

lemma same_outside_merge: "below key sub \<Longrightarrow> same_outside key cv (cv_merge sub nested cv)"
  unfolding cv_merge_def
proof (induction nested arbitrary: cv)
  case (Cons p nested)
  obtain nk nv where p: "p = (nk, nv)" by fastforce
  have "below key (full_key sub nk)" using Cons.prems below_full below_trans by blast
  from same_outside_trans [OF same_outside_set [OF this, of cv nv] Cons.IH [OF Cons.prems]] p show ?case by simp
qed (simp add: same_outside_refl)

text \<open>The items of a sequence set only keys below its own; those of a sequence of scalars are its texts.\<close>

lemma below_seq_key: "pre \<noteq> [] \<Longrightarrow> below pre (seq_key pre i)"
  by (simp add: below_def seq_key_def)

lemma end_sequence_outside:
  assumes "pre \<noteq> []" "below key pre"
  shows "same_outside key (fst acc) (end_sequence pre n acc)"
proof -
  have "below key (pre @ ''._size'')" using assms(2) below_trans [of key pre "pre @ ''._size''"] by (auto simp: below_def)
  from same_outside_set [OF this] have 1: "same_outside key cv (cv_set (pre @ ''._size'') x cv)" for cv x .
  obtain cv joined all_scalar where acc: "acc = (cv, joined, all_scalar)" by (cases acc)
  have "same_outside key cv (cv_set pre joined (cv_set (pre @ ''._size'') (show_nat n) cv))"
    by (rule same_outside_trans [OF 1 same_outside_set [OF assms(2)]])
  with 1 assms(1) show ?thesis by (simp add: acc end_sequence_def Let_def)
qed

lemma parse_sequence_outside:
  fixes key :: string
  shows "True" and "True"
    and "pre \<noteq> [] \<Longrightarrow> below key pre \<Longrightarrow> pred_option (same_outside key cv) (parse_sequence_into conv pre xs cv)"
    and "pre \<noteq> [] \<Longrightarrow> below key pre \<Longrightarrow> pred_option (\<lambda>acc'. same_outside key (fst acc) (fst acc')) (parse_items conv pre i xs acc)"
proof (induction rule: parse_config_value_parse_entries_parse_sequence_into_parse_items.induct)
  case (7 conv pre xs cv)
  show ?case
  proof (cases "parse_items conv pre 0 xs (cv, [], True)")
    case (Some acc)
    with 7 have "same_outside key cv (fst acc)" by simp
    with end_sequence_outside [OF 7(2,3), of acc "length xs"] Some show ?thesis by (auto intro: same_outside_trans)
  qed simp
next
  case (9 conv pre i x xs cv joined all_scalar)
  have sub: "below key (seq_key pre i)" "seq_key pre i \<noteq> []"
    using 9 below_seq_key [of pre i] below_trans by (auto simp: seq_key_def)
  have go: "pred_option (\<lambda>acc'. same_outside key cv (fst acc')) (parse_items conv pre (Suc i) xs acc)"
    if "same_outside key cv (fst acc)" "pred_option (\<lambda>acc'. same_outside key (fst acc) (fst acc')) (parse_items conv pre (Suc i) xs acc)" for acc
    using that by (cases "parse_items conv pre (Suc i) xs acc") (auto intro: same_outside_trans)
  show ?case
  proof (cases x)
    case YNull
    with 9 show ?thesis by simp
  next
    case (YScalar t)
    with 9 show ?thesis using go [OF _ ] same_outside_set [OF sub(1), of cv t] by simp
  next
    case (YSeq ys)
    then show ?thesis
      using 9 sub go
      by (cases "parse_sequence_into conv (seq_key pre i) ys cv") (simp_all del: parse_sequence_into.simps)
  next
    case (YMap m)
    with 9 go same_outside_merge [OF sub(1), of cv] show ?thesis
      by (cases "parse_config_value conv (YMap m)") simp_all
  qed
qed (simp_all add: same_outside_refl)

text \<open>Plain keys: texts without a dot.\<close>

definition plain_key :: "yaml \<Rightarrow> bool" where
  "plain_key k \<longleftrightarrow> (case k of YScalar key \<Rightarrow> key \<noteq> [] \<and> CHR ''.'' \<notin> set key | _ \<Rightarrow> False)"

lemma dot_split:
  assumes "CHR ''.'' \<notin> set a" "CHR ''.'' \<notin> set b" "a @ CHR ''.'' # x = b @ CHR ''.'' # y"
  shows "a = b"
proof -
  have "takeWhile (\<lambda>c. c \<noteq> CHR ''.'') (a @ CHR ''.'' # x) = a" "takeWhile (\<lambda>c. c \<noteq> CHR ''.'') (b @ CHR ''.'' # y) = b"
    using assms(1,2) by (auto simp: takeWhile_append)
  with assms(3) show ?thesis by metis
qed

lemma below_plain:
  assumes "CHR ''.'' \<notin> set a" "CHR ''.'' \<notin> set b" "below a k" "below b k"
  shows "a = b"
proof -
  consider "k = a" "k = b" | x where "k = a" "k = b @ ''.'' @ x" | x where "k = a @ ''.'' @ x" "k = b"
    | x y where "k = a @ ''.'' @ x" "k = b @ ''.'' @ y" using assms(3,4) unfolding below_def by blast
  then show ?thesis
  proof cases
    case 4
    then show ?thesis using dot_split [OF assms(1,2), of x y] by simp
  qed (use assms(1,2) in auto)
qed

lemma parse_entries_append:
  "parse_entries conv (kvs @ kvs') cv = Option.bind (parse_entries conv kvs cv) (parse_entries conv kvs')"
proof (induction kvs arbitrary: cv)
  case (Cons kv kvs)
  obtain k v where kv: "kv = (k, v)" by fastforce
  show ?case by (simp add: kv Cons.IH split: bind_splits del: parse_sequence_into.simps)
qed simp

lemma parse_entry_outside:
  assumes "k = YScalar key'" "key' \<noteq> []" "parse_entries conv ((k, v) # kvs) cv = Some cv'"
  obtains cv1 where "same_outside key' cv cv1" "parse_entries conv kvs cv1 = Some cv'"
proof (cases v)
  case YNull
  with assms that [of cv] show ?thesis by (simp add: y_text_def same_outside_refl)
next
  case (YScalar t)
  have "below key' key'" by (simp add: below_def)
  from same_outside_set [OF this, of cv t] YScalar assms that show ?thesis by (simp add: y_text_def)
next
  case (YSeq xs)
  with assms obtain cv1 where "parse_sequence_into conv key' xs cv = Some cv1" "parse_entries conv kvs cv1 = Some cv'"
    by (auto simp: y_text_def bind_eq_Some_conv simp del: parse_sequence_into.simps)
  moreover have "below key' key'" by (simp add: below_def)
  ultimately show ?thesis
    using parse_sequence_outside(3) [OF assms(2), of key' cv conv xs] that by (simp del: parse_sequence_into.simps)
next
  case (YMap m)
  with assms obtain nested where "parse_config_value conv (YMap m) = Some nested" "parse_entries conv kvs (cv_merge key' nested cv) = Some cv'"
    by (auto simp: y_text_def bind_eq_Some_conv simp del: parse_config_value.simps)
  moreover have "below key' key'" by (simp add: below_def)
  ultimately show ?thesis using same_outside_merge that by blast
qed

lemma parse_entries_outside:
  assumes "parse_entries conv kvs cv = Some cv'" "list_all (plain_key \<circ> fst) kvs"
  shows "(cv_wf cv \<longrightarrow> cv_wf cv') \<and> (CHR ''.'' \<notin> set key \<longrightarrow> YScalar key \<notin> fst ` set kvs \<longrightarrow> below key k \<longrightarrow> map_of cv' k = map_of cv k)"
  using assms
proof (induction kvs arbitrary: cv)
  case (Cons kv kvs)
  obtain k1 v where kv: "kv = (k1, v)" by fastforce
  with Cons.prems(2) obtain key' where k1: "k1 = YScalar key'" "key' \<noteq> []" "CHR ''.'' \<notin> set key'"
    by (auto simp: plain_key_def split: yaml.splits)
  from parse_entry_outside [OF k1(1,2) Cons.prems(1) [unfolded kv]] obtain cv1 where
    c: "same_outside key' cv cv1" "parse_entries conv kvs cv1 = Some cv'" by blast
  have "map_of cv1 k = map_of cv k" if "CHR ''.'' \<notin> set key" "key' \<noteq> key" "below key k"
    using c(1) below_plain [OF that(1) k1(3) that(3)] that(2) unfolding same_outside_def by blast
  moreover have "cv_wf cv \<longrightarrow> cv_wf cv1" using c(1) by (simp add: same_outside_def)
  ultimately show ?case using Cons.IH [OF c(2)] Cons.prems(2) kv k1(1) by auto
qed simp

definition comma_each :: "string list \<Rightarrow> string" where
  "comma_each xs = concat (map (\<lambda>s. '','' @ s) xs)"

definition joined_texts :: "string list \<Rightarrow> string" where
  "joined_texts xs = (case xs of [] \<Rightarrow> [] | x # ys \<Rightarrow> x @ comma_each ys)"

lemma parse_scalar_items:
  assumes "pre \<noteq> []"
  shows "\<exists>cv'. parse_items conv pre i (map YScalar xs) (cv, joined, True) =
      Some (cv', joined @ (if i = 0 then joined_texts xs else comma_each xs), True) \<and>
    (\<forall>m. map_of cv' (seq_key pre m) = (if i \<le> m \<and> m < i + length xs then Some (xs ! (m - i)) else map_of cv (seq_key pre m))) \<and>
    (\<forall>k. k \<in> range (seq_key pre) \<or> map_of cv' k = map_of cv k)"
proof (induction xs arbitrary: i cv joined)
  case Nil
  show ?case by (auto simp: joined_texts_def comma_each_def)
next
  case (Cons x xs)
  let ?cv = "cv_set (seq_key pre i) x cv" and ?j = "joined @ (if 0 < i then '','' else []) @ x"
  from Cons.IH [of "Suc i" ?cv ?j] obtain cv' where
    p: "parse_items conv pre (Suc i) (map YScalar xs) (?cv, ?j, True) = Some (cv', ?j @ comma_each xs, True)" and
    m: "\<And>m. map_of cv' (seq_key pre m) = (if Suc i \<le> m \<and> m < Suc i + length xs then Some (xs ! (m - Suc i)) else map_of ?cv (seq_key pre m))" and
    o: "\<And>k. k \<in> range (seq_key pre) \<or> map_of cv' k = map_of ?cv k"
    by auto
  have "map_of cv' (seq_key pre m) = (if i \<le> m \<and> m < i + length (x # xs) then Some ((x # xs) ! (m - i)) else map_of cv (seq_key pre m))" for m
  proof (cases "m = i")
    case True
    then show ?thesis by (simp add: m cv_set_def update_conv')
  next
    case False
    then have "seq_key pre m \<noteq> seq_key pre i" using assms by (simp add: seq_key_def)
    with False show ?thesis by (auto simp: m cv_set_def update_conv' nth_Cons')
  qed
  moreover have "k \<in> range (seq_key pre) \<or> map_of cv' k = map_of cv k" for k
    using o [of k] by (auto simp: cv_set_def update_conv' split: if_splits)
  ultimately show ?case using p by (auto simp: joined_texts_def comma_each_def)
qed

lemma below_seq: "pre \<noteq> [] \<Longrightarrow> below pre (seq_key pre m)" "below pre (pre @ ''._size'')" "below pre pre"
  by (auto simp: below_def seq_key_def)

lemma seq_key_not:
  assumes "pre \<noteq> []"
  shows "seq_key pre m \<noteq> pre @ ''._size''" "seq_key pre m \<noteq> pre" "pre @ ''.'' \<notin> range (seq_key pre)"
proof -
  obtain c cs where "show_nat m = c # cs" "is_digit c" by (rule show_nat_hd)
  then show "seq_key pre m \<noteq> pre @ ''._size''" "seq_key pre m \<noteq> pre" using assms by (auto simp: seq_key_def is_digit_def)
  show "pre @ ''.'' \<notin> range (seq_key pre)" using assms by (auto simp: seq_key_def dest: sym)
qed

text \<open>What a map with a list of scalars under a key leaves below that key.\<close>

lemma parsed_list_entry:
  assumes "list_all (plain_key \<circ> fst) kvs" "distinct (map fst kvs)" "(YScalar key, YSeq (map YScalar xs)) \<in> set kvs"
    and "parse_config_value conv (YMap kvs) = Some cv"
  shows "cv_wf cv" "\<And>m. m < length xs \<Longrightarrow> map_of cv (seq_key key m) = Some (xs ! m)"
    "map_of cv (key @ ''._size'') = Some (show_nat (length xs))" "map_of cv key = Some (joined_texts xs)"
    "map_of cv (key @ ''.'') = None" "key \<noteq> []"
proof -
  from assms(3) obtain kvs1 kvs2 where kvs: "kvs = kvs1 @ (YScalar key, YSeq (map YScalar xs)) # kvs2" by (meson split_list)
  have key: "key \<noteq> []" "CHR ''.'' \<notin> set key" using assms(1) kvs by (simp_all add: plain_key_def)
  from assms(4) have "parse_entries conv kvs [] = Some cv" by simp
  then obtain cv1 where cv1: "parse_entries conv kvs1 [] = Some cv1"
    "parse_entries conv ((YScalar key, YSeq (map YScalar xs)) # kvs2) cv1 = Some cv"
    unfolding kvs parse_entries_append by (auto simp: bind_eq_Some_conv simp del: parse_entries.simps)
  have plain: "list_all (plain_key \<circ> fst) kvs1" "list_all (plain_key \<circ> fst) kvs2" "YScalar key \<notin> fst ` set kvs2"
    using assms(1,2) kvs by auto
  from parse_scalar_items [OF key(1), of conv 0 xs cv1 "[]"] obtain cvi where
    i: "parse_items conv key 0 (map YScalar xs) (cv1, [], True) = Some (cvi, joined_texts xs, True)" and
    m: "\<And>m. m < length xs \<Longrightarrow> map_of cvi (seq_key key m) = Some (xs ! m)" and
    o: "\<And>k. k \<in> range (seq_key key) \<or> map_of cvi k = map_of cv1 k" by auto
  let ?cv2 = "end_sequence key (length xs) (cvi, joined_texts xs, True)"
  have rest: "parse_entries conv kvs2 ?cv2 = Some cv" using cv1(2) i by (simp add: y_text_def)
  have wf1: "cv_wf cv1" using parse_entries_outside [OF cv1(1) plain(1)] by (simp add: cv_wf_def)
  have "same_outside key cv1 ?cv2"
    using parse_sequence_outside(3) [OF key(1) below_seq(3), of cv1 conv "map YScalar xs"] i by simp
  then show "cv_wf cv" using wf1 parse_entries_outside [OF rest plain(2)] by (simp add: same_outside_def)
  have look: "map_of cv k = map_of ?cv2 k" if "below key k" for k
    using parse_entries_outside [OF rest plain(2), of key k] key(2) plain(3) that by blast
  have e: "map_of ?cv2 k = (if k = key then Some (joined_texts xs) else if k = key @ ''._size'' then Some (show_nat (length xs)) else map_of cvi k)" for k
    using key(1) by (simp add: end_sequence_def cv_set_def update_conv' Let_def)
  show "map_of cv (seq_key key m) = Some (xs ! m)" if "m < length xs" for m
    unfolding look [OF below_seq(1) [OF key(1)]] e using m [OF that] seq_key_not [OF key(1)] by simp
  show "map_of cv (key @ ''._size'') = Some (show_nat (length xs))" using look [OF below_seq(2) [of key]] by (simp add: e)
  show "map_of cv key = Some (joined_texts xs)" using look [OF below_seq(3)] by (simp add: e)
  have "map_of cv (key @ ''.'') = map_of cvi (key @ ''.'')" using look [of "key @ ''.''"] by (simp add: e below_def)
  also have "\<dots> = map_of cv1 (key @ ''.'')" using o [of "key @ ''.''"] seq_key_not(3) [OF key(1)] by blast
  also have "\<dots> = None"
    using parse_entries_outside [OF cv1(1) plain(1), of key "key @ ''.''"] key(2) assms(2) kvs by (auto simp: below_def)
  finally show "map_of cv (key @ ''.'') = None" .
  show "key \<noteq> []" by (rule key(1))
qed

lemma map_filter_nth:
  "(\<And>m. m < length xs \<Longrightarrow> f m = Some (xs ! m)) \<Longrightarrow> List.map_filter f [0..<length xs] = xs"
proof -
  assume f: "\<And>m. m < length xs \<Longrightarrow> f m = Some (xs ! m)"
  have "List.map_filter f is = map ((!) xs) is" if "set is \<subseteq> {..<length xs}" for "is"
    using that by (induction "is") (simp_all add: map_filter_simps f)
  then show ?thesis by (simp add: atLeast0LessThan map_nth)
qed

lemma as_list_items:
  assumes "map_of cv ''_size'' = Some (show_nat (length xs))" "\<And>m. m < length xs \<Longrightarrow> map_of cv (show_nat m) = Some (xs ! m)"
    "length xs \<le> max_strings"
  shows "as_list cv = Some xs"
proof -
  have n: "length xs < 2 ^ 64" using assms(3) by (simp add: max_strings_def)
  have "stoul (show_nat (length xs)) = Some (of_nat (length xs))" "unat (of_nat (length xs) :: u64) = length xs"
    using stoul_show [OF n] n by (simp_all add: unat_of_nat)
  with assms(1,3) map_filter_nth [OF assms(2)] show ?thesis by (simp add: as_list_def not_less)
qed

text \<open>
  C32: a list in the file is the list the program gets. In a map with plain keys (texts without a dot), a
  sequence of scalars under a key is read back by \<open>operator[]\<close> and \<open>AsList\<close> as these texts in order, and by
  \<open>AsString\<close> as the texts joined by commas, whatever the other keys hold.
\<close>

theorem yaml_list_read_back:
  assumes "list_all (plain_key \<circ> fst) kvs" "distinct (map fst kvs)" "(YScalar key, YSeq (map YScalar xs)) \<in> set kvs"
    and "parse_config_value conv (YMap kvs) = Some cv" "length xs \<le> max_strings"
  shows "as_list (cv_child key cv) = Some xs \<and> as_string (cv_child key cv) dflt = joined_texts xs"
proof -
  note entry = parsed_list_entry [OF assms(1-4)]
  have sk: "key @ ''.'' @ show_nat m = seq_key key m" for m using entry(6) by (simp add: seq_key_def)
  have "map_of (cv_child key cv) (show_nat m) = Some (xs ! m)" if "m < length xs" for m
    unfolding cv_child_lookup [OF entry(1)] sk entry(2) [OF that] by simp
  moreover have "map_of (cv_child key cv) ''_size'' = Some (show_nat (length xs))"
    using entry(3) by (simp add: cv_child_lookup [OF entry(1)])
  ultimately have "as_list (cv_child key cv) = Some xs" using as_list_items assms(5) by blast
  moreover have "map_of (cv_child key cv) [] = Some (joined_texts xs)"
    using entry(4,5) by (simp add: cv_child_lookup [OF entry(1)])
  ultimately show ?thesis by (simp add: as_string_def)
qed

theorem yaml_list_read_back_witness:
  "\<exists>cv. parse_config_value \<lparr>yc_null_text = None, yc_size = (\<lambda>_. None), yc_uint = (\<lambda>_. None), yc_real = (\<lambda>_. None), yc_bool = (\<lambda>_. None)\<rparr>
      (YMap [(YScalar ''m'', YScalar ''x''), (YScalar ''pids'', YSeq [YScalar ''7'', YScalar ''42''])]) = Some cv \<and>
    as_list (cv_child ''pids'' cv) = Some [''7'', ''42''] \<and> as_string (cv_child ''pids'' cv) [] = ''7,42''"
proof -
  let ?kvs = "[(YScalar ''m'', YScalar ''x''), (YScalar ''pids'', YSeq (map YScalar [''7'', ''42'']))]"
  let ?conv = "\<lparr>yc_null_text = None, yc_size = (\<lambda>_. None), yc_uint = (\<lambda>_. None), yc_real = (\<lambda>_. None), yc_bool = (\<lambda>_. None)\<rparr>"
  obtain cv where cv: "parse_config_value ?conv (YMap ?kvs) = Some cv" by (simp add: y_text_def)
  have 1: "list_all (plain_key \<circ> fst) ?kvs" "distinct (map fst ?kvs)" "(YScalar ''pids'', YSeq (map YScalar [''7'', ''42''])) \<in> set ?kvs"
    "length [''7'', ''42''] \<le> max_strings" by (simp_all add: plain_key_def max_strings_def)
  from yaml_list_read_back [OF 1(1-3) cv 1(4), of "[]"] cv show ?thesis by (auto simp: joined_texts_def comma_each_def)
qed

end
