(* ===== verification/Plugins.thy ===== *)
theory Plugins
  imports Config DataBatch "HOL-Library.Multiset"
begin

text \<open>
  Where plugins come from: the registry of factories (\<open>src/plugin/manager/plugin_registry.h\<close>), the loader of
  shared objects (\<open>so_loader.h\<close>), the manager that loads whole directories (\<open>plugin_manager.h\<close>) and the
  WASM modules (\<open>wasm_runtime.h\<close>). What is on disk and what the dynamic linker answers are parameters.
\<close>

section \<open>Plugin API\<close>

datatype plugin_type = PluginSource | PluginProcessor | PluginAggregator | PluginSink

definition plugin_type_of :: "u32 \<Rightarrow> plugin_type option" where
  "plugin_type_of t =
     (if t = 0 then Some PluginSource else if t = 1 then Some PluginProcessor else if t = 2 then Some PluginAggregator
      else if t = 3 then Some PluginSink else None)"

fun plugin_type_to_string :: "plugin_type \<Rightarrow> string" where
  "plugin_type_to_string PluginSource = ''source''"
| "plugin_type_to_string PluginProcessor = ''processor''"
| "plugin_type_to_string PluginAggregator = ''aggregator''"
| "plugin_type_to_string PluginSink = ''sink''"

definition plugin_api_version :: u32 where
  "plugin_api_version = 1"

text \<open>
  A descriptor's texts may be null; \<open>pd_create\<close>, \<open>pd_process\<close> and \<open>pd_destroy\<close> tell whether it has the functions.
  The host never calls the last two.
\<close>

record plugin_descriptor =
  pd_api_version :: u32
  pd_name :: "string option"
  pd_version :: "string option"
  pd_type :: u32
  pd_create :: bool
  pd_process :: bool
  pd_destroy :: bool

section \<open>PluginRegistry\<close>

text \<open>A factory is a built-in one or the create function of a descriptor.\<close>

datatype 'f factory = Builtin 'f | SoCreate plugin_descriptor

record 'f plugin_registry =
  pr_sources :: "(string \<times> 'f factory) list"
  pr_processors :: "(string \<times> 'f factory) list"
  pr_aggregators :: "(string \<times> 'f factory) list"
  pr_sinks :: "(string \<times> 'f factory) list"

definition registry_new :: "'f plugin_registry" where
  "registry_new = \<lparr>pr_sources = [], pr_processors = [], pr_aggregators = [], pr_sinks = []\<rparr>"

definition register_plugin :: "plugin_type \<Rightarrow> string \<Rightarrow> 'f factory \<Rightarrow> 'f plugin_registry \<Rightarrow> 'f plugin_registry" where
  "register_plugin t name f reg =
     (case t of
        PluginSource \<Rightarrow> reg\<lparr>pr_sources := AList.update name f (pr_sources reg)\<rparr>
      | PluginProcessor \<Rightarrow> reg\<lparr>pr_processors := AList.update name f (pr_processors reg)\<rparr>
      | PluginAggregator \<Rightarrow> reg\<lparr>pr_aggregators := AList.update name f (pr_aggregators reg)\<rparr>
      | PluginSink \<Rightarrow> reg\<lparr>pr_sinks := AList.update name f (pr_sinks reg)\<rparr>)"

definition factories :: "plugin_type \<Rightarrow> 'f plugin_registry \<Rightarrow> (string \<times> 'f factory) list" where
  "factories t reg =
     (case t of PluginSource \<Rightarrow> pr_sources reg | PluginProcessor \<Rightarrow> pr_processors reg
      | PluginAggregator \<Rightarrow> pr_aggregators reg | PluginSink \<Rightarrow> pr_sinks reg)"

text \<open>\<open>run\<close> calls a factory; a null pointer, also for an unknown name, is \<open>None\<close>.\<close>

definition create_plugin :: "('f factory \<Rightarrow> 'x option) \<Rightarrow> plugin_type \<Rightarrow> string \<Rightarrow> 'f plugin_registry \<Rightarrow> 'x option" where
  "create_plugin run t name reg = (case map_of (factories t reg) name of None \<Rightarrow> None | Some f \<Rightarrow> run f)"

definition list_plugins :: "plugin_type \<Rightarrow> 'f plugin_registry \<Rightarrow> string list" where
  "list_plugins t reg = map fst (factories t reg)"

section \<open>SoLoader\<close>

text \<open>
  A file as the linker sees it: whether it can be opened, and what its describe function returns (\<open>None\<close>
  without the symbol, \<open>Some None\<close> for null). The paths opened and closed so far are recorded.
\<close>

record so_file =
  so_opens :: bool
  so_describe :: "plugin_descriptor option option"

record so_loader =
  sl_handles :: "string list"
  sl_descriptors :: "plugin_descriptor list"
  sl_allowed_dirs :: "string list"
  sl_opened :: "string list"
  sl_closed :: "string list"

definition so_loader_new :: so_loader where
  "so_loader_new = \<lparr>sl_handles = [], sl_descriptors = [], sl_allowed_dirs = [], sl_opened = [], sl_closed = []\<rparr>"

definition set_allowed_dirs :: "string list \<Rightarrow> so_loader \<Rightarrow> so_loader" where
  "set_allowed_dirs dirs st = st\<lparr>sl_allowed_dirs := dirs\<rparr>"

definition dir_prefix :: "string \<Rightarrow> string" where
  "dir_prefix d = (if last d \<noteq> CHR ''/'' then d @ ''/'' else d)"

definition under_dir :: "(string \<Rightarrow> string option) \<Rightarrow> string \<Rightarrow> string \<Rightarrow> bool" where
  "under_dir realpath abs_path dir \<longleftrightarrow>
     (case realpath dir of None \<Rightarrow> False | Some d \<Rightarrow> take (length (dir_prefix d)) abs_path = dir_prefix d)"

definition is_path_allowed :: "(string \<Rightarrow> string option) \<Rightarrow> string \<Rightarrow> so_loader \<Rightarrow> bool" where
  "is_path_allowed realpath path st \<longleftrightarrow>
     sl_allowed_dirs st = [] \<or>
     (case realpath path of None \<Rightarrow> False | Some p \<Rightarrow> list_ex (under_dir realpath p) (sl_allowed_dirs st))"

text \<open>
  \<open>None\<close>: the message is made from a null name. The code reads the name after it has closed the library; the
  model gives it the text it had.
\<close>

definition load_plugin ::
  "(string \<Rightarrow> string option) \<Rightarrow> (string \<Rightarrow> so_file) \<Rightarrow> string \<Rightarrow> string \<Rightarrow> so_loader \<Rightarrow> (so_loader \<times> status) option" where
  "load_plugin realpath disk dl_error path st =
     (if \<not> is_path_allowed realpath path st
      then Some (st, status_error PermissionDenied
             (''Plugin path '' @ [CHR 0x27] @ path @ [CHR 0x27] @ '' is not under any allowed plugin directory''))
      else if \<not> so_opens (disk path) then Some (st, status_error Internal (''dlopen failed: '' @ dl_error))
      else
        let st = st\<lparr>sl_opened := sl_opened st @ [path]\<rparr>; closed_st = st\<lparr>sl_closed := sl_closed st @ [path]\<rparr>
        in case so_describe (disk path) of
             None \<Rightarrow> Some (closed_st, status_error InvalidArgument ''Symbol not found: illuminator_plugin_describe'')
           | Some None \<Rightarrow> Some (closed_st, status_error Internal ''Plugin describe() returned null'')
           | Some (Some desc) \<Rightarrow>
               if pd_api_version desc \<noteq> plugin_api_version
               then (case pd_name desc of
                       None \<Rightarrow> None
                     | Some name \<Rightarrow> Some (closed_st, status_error InvalidArgument
                         (''Plugin '' @ [CHR 0x27] @ name @ [CHR 0x27] @ '' API version '' @ show_nat (unat (pd_api_version desc)) @
                          '' != host version '' @ show_nat (unat plugin_api_version))))
               else Some (st\<lparr>sl_handles := sl_handles st @ [path], sl_descriptors := sl_descriptors st @ [desc]\<rparr>, status_ok))"

definition so_loader_destroy :: "so_loader \<Rightarrow> so_loader" where
  "so_loader_destroy st = st\<lparr>sl_closed := sl_closed st @ sl_handles st, sl_handles := []\<rparr>"

section \<open>PluginManager\<close>

text \<open>\<open>std::filesystem::path::extension\<close>: from the last dot of the file name, unless it is the first character.\<close>

definition file_name :: "string \<Rightarrow> string" where
  "file_name path = rev (takeWhile (\<lambda>c. c \<noteq> CHR ''/'') (rev path))"

definition path_extension :: "string \<Rightarrow> string" where
  "path_extension path =
     (let name = file_name path; ext = rev (takeWhile (\<lambda>c. c \<noteq> CHR ''.'') (rev name))
      in if name = ''.'' \<or> name = ''..'' \<or> length name \<le> length ext + 1 then [] else ''.'' @ ext)"

definition bridge_descriptor :: "plugin_descriptor \<Rightarrow> 'f plugin_registry \<Rightarrow> 'f plugin_registry" where
  "bridge_descriptor desc reg =
     (case (pd_create desc, pd_name desc) of
        (True, Some name) \<Rightarrow>
          (case plugin_type_of (pd_type desc) of None \<Rightarrow> reg | Some t \<Rightarrow> register_plugin t name (SoCreate desc) reg)
      | _ \<Rightarrow> reg)"

text \<open>The plugins of a directory; an error of one is only logged.\<close>

fun load_all ::
  "(string \<Rightarrow> string option) \<Rightarrow> (string \<Rightarrow> so_file) \<Rightarrow> string \<Rightarrow> string list \<Rightarrow> so_loader \<Rightarrow> so_loader option" where
  "load_all realpath disk dl_error [] st = Some st"
| "load_all realpath disk dl_error (path # paths) st =
     (if path_extension path = ''.so''
      then (case load_plugin realpath disk dl_error path st of
              None \<Rightarrow> None
            | Some (st, _) \<Rightarrow> load_all realpath disk dl_error paths st)
      else load_all realpath disk dl_error paths st)"

text \<open>\<open>listing\<close>: the entries of a directory, \<open>None\<close> if it does not exist.\<close>

definition load_plugins_from_dirs ::
  "(string \<Rightarrow> string option) \<Rightarrow> (string \<Rightarrow> so_file) \<Rightarrow> string \<Rightarrow> (string \<Rightarrow> string list option) \<Rightarrow> string list \<Rightarrow>
     so_loader \<times> 'f plugin_registry \<Rightarrow> (so_loader \<times> 'f plugin_registry) option" where
  "load_plugins_from_dirs realpath disk dl_error listing dirs = (\<lambda>(st, reg).
     if dirs = [] then Some (st, reg)
     else
       let before = length (sl_descriptors st)
       in map_option (\<lambda>st. (st, fold bridge_descriptor (drop before (sl_descriptors st)) reg))
            (load_all realpath disk dl_error (concat (map (\<lambda>d. case listing d of None \<Rightarrow> [] | Some es \<Rightarrow> es) dirs))
               (set_allowed_dirs dirs st)))"

section \<open>WasmRuntime\<close>

record wasm_runtime =
  wr_initialized :: bool
  wr_modules :: "(string \<times> u8 list) list"

definition wasm_new :: wasm_runtime where
  "wasm_new = \<lparr>wr_initialized = False, wr_modules = []\<rparr>"

definition wasm_init :: "wasm_runtime \<Rightarrow> wasm_runtime \<times> status" where
  "wasm_init w = (w\<lparr>wr_initialized := True\<rparr>, status_ok)"

definition wasm_magic :: "u8 list" where
  "wasm_magic = [0x00, 0x61, 0x73, 0x6D]"

definition load_module :: "string \<Rightarrow> string \<Rightarrow> u8 list option \<Rightarrow> wasm_runtime \<Rightarrow> wasm_runtime \<times> status" where
  "load_module name path content w =
     (case content of
        None \<Rightarrow> (w, status_error NotFound (''WASM module not found: '' @ path))
      | Some bytes \<Rightarrow>
          if length bytes < 4 \<or> take 4 bytes \<noteq> wasm_magic
          then (w, status_error InvalidArgument (''Not a valid WASM file: '' @ path))
          else (w\<lparr>wr_modules := AList.update name bytes (wr_modules w)\<rparr>, status_ok))"

definition get_module :: "string \<Rightarrow> wasm_runtime \<Rightarrow> u8 list option" where
  "get_module name w = map_of (wr_modules w) name"

definition list_modules :: "wasm_runtime \<Rightarrow> string list" where
  "list_modules w = map fst (wr_modules w)"

definition wasm_processor_init :: "string \<Rightarrow> wasm_runtime \<Rightarrow> status" where
  "wasm_processor_init name w =
     (if \<not> wr_initialized w then status_error Unavailable ''WASM runtime not initialized''
      else if get_module name w = None then status_error NotFound (''WASM module not loaded: '' @ name)
      else status_ok)"

definition wasm_processor_process :: "data_batch option \<Rightarrow> data_batch option status_or" where
  "wasm_processor_process input = Value input"

section \<open>Only allowed code is loaded\<close>

definition loader_ok :: "(string \<Rightarrow> string option) \<Rightarrow> string list \<Rightarrow> so_loader \<Rightarrow> bool" where
  "loader_ok realpath dirs st \<longleftrightarrow> sl_allowed_dirs st = dirs \<and> mset (sl_opened st) = mset (sl_closed st) + mset (sl_handles st) \<and>
     list_all (\<lambda>path. \<exists>p. realpath path = Some p \<and> list_ex (under_dir realpath p) dirs) (sl_opened st) \<and>
     list_all (\<lambda>d. pd_api_version d = plugin_api_version) (sl_descriptors st) \<and>
     length (sl_descriptors st) = length (sl_handles st)"

lemma load_plugin_ok:
  assumes "loader_ok realpath dirs st" "dirs \<noteq> []" "load_plugin realpath disk dl_error path st = Some (st', r)"
  shows "loader_ok realpath dirs st'"
proof (cases "is_path_allowed realpath path st")
  case True
  with assms(1,2) obtain p where p: "realpath path = Some p" "list_ex (under_dir realpath p) dirs"
    by (auto simp: is_path_allowed_def loader_ok_def split: option.splits)
  with assms True show ?thesis
    by (auto simp: load_plugin_def loader_ok_def Let_def split: if_splits option.splits)
next
  case False
  with assms show ?thesis by (auto simp: load_plugin_def)
qed

lemma load_all_ok:
  assumes "loader_ok realpath dirs st" "dirs \<noteq> []" "load_all realpath disk dl_error paths st = Some st'"
  shows "loader_ok realpath dirs st'"
  using assms(1,3)
proof (induction paths arbitrary: st)
  case (Cons path paths)
  show ?case
  proof (cases "path_extension path = ''.so''")
    case True
    with Cons.prems(2) obtain st1 r where load: "load_plugin realpath disk dl_error path st = Some (st1, r)"
      and rest: "load_all realpath disk dl_error paths st1 = Some st'"
      by (auto split: option.splits)
    show ?thesis
      by (rule Cons.IH [OF load_plugin_ok [OF Cons.prems(1) assms(2) load] rest])
  next
    case False
    with Cons show ?thesis by simp
  qed
qed simp

text \<open>
  C13: no code from elsewhere. Loading the plugins of any directories, whatever files, links and libraries are
  on the disk, opens with \<open>dlopen\<close> only files whose resolved path lies under the resolved path of one of the
  directories; it keeps only those with the host's API version, one descriptor for each open library; and
  after the destructor every library opened was closed exactly once.
\<close>

theorem plugins_only_from_allowed_dirs:
  assumes "dirs \<noteq> []" "load_plugins_from_dirs realpath disk dl_error listing dirs (so_loader_new, reg) = Some (st, reg')"
  shows "list_all (\<lambda>path. \<exists>p. realpath path = Some p \<and> list_ex (under_dir realpath p) dirs) (sl_opened st) \<and>
    list_all (\<lambda>d. pd_api_version d = plugin_api_version) (sl_descriptors st) \<and>
    length (sl_descriptors st) = length (sl_handles st) \<and>
    mset (sl_closed (so_loader_destroy st)) = mset (sl_opened (so_loader_destroy st))"
proof -
  let ?st = "set_allowed_dirs dirs so_loader_new"
  have "loader_ok realpath dirs ?st" by (simp add: loader_ok_def set_allowed_dirs_def so_loader_new_def)
  moreover from assms obtain paths where "load_all realpath disk dl_error paths ?st = Some st"
    by (auto simp: load_plugins_from_dirs_def Let_def)
  ultimately have "loader_ok realpath dirs st" using load_all_ok assms(1) by blast
  then show ?thesis by (auto simp: loader_ok_def so_loader_destroy_def)
qed

theorem plugins_only_from_allowed_dirs_witness:
  "\<exists>st. load_plugins_from_dirs (\<lambda>p. if p = ''/x/b.so'' then Some ''/tmp/b.so'' else Some p)
       (\<lambda>_. \<lparr>so_opens = True, so_describe = Some (Some \<lparr>pd_api_version = 1, pd_name = Some ''s'', pd_version = None, pd_type = 3,
         pd_create = True, pd_process = False, pd_destroy = False\<rparr>)\<rparr>) []
       (\<lambda>_. Some [''/x/a.so'', ''/x/b.so'', ''/x/c'']) [''/x''] (so_loader_new, registry_new :: unit plugin_registry) = Some st \<and>
     sl_opened (fst st) = [''/x/a.so''] \<and> mset (sl_closed (so_loader_destroy (fst st))) = {#''/x/a.so''#}"
proof -
  let ?disk = "\<lambda>_ :: string. \<lparr>so_opens = True, so_describe = Some (Some \<lparr>pd_api_version = 1, pd_name = Some ''s'', pd_version = None, pd_type = 3,
         pd_create = True, pd_process = False, pd_destroy = False\<rparr>)\<rparr>"
  let ?rp = "\<lambda>p :: string. if p = ''/x/b.so'' then Some ''/tmp/b.so'' else Some p"
  have "path_extension ''/x/a.so'' = ''.so''" "path_extension ''/x/b.so'' = ''.so''" "path_extension ''/x/c'' = []"
    by (simp_all add: path_extension_def file_name_def Let_def)
  then obtain st reg where l: "load_plugins_from_dirs ?rp ?disk [] (\<lambda>_. Some [''/x/a.so'', ''/x/b.so'', ''/x/c'']) [''/x'']
      (so_loader_new, registry_new :: unit plugin_registry) = Some (st, reg)" "sl_opened st = [''/x/a.so'']"
    by (simp add: load_plugins_from_dirs_def load_plugin_def is_path_allowed_def under_dir_def dir_prefix_def set_allowed_dirs_def
        so_loader_new_def plugin_api_version_def Let_def)
  have "mset (sl_closed (so_loader_destroy st)) = mset (sl_opened (so_loader_destroy st))"
    using plugins_only_from_allowed_dirs [OF _ l(1)] by simp
  with l show ?thesis by (auto simp: so_loader_destroy_def)
qed

end
