(* ===== verification/Daemon.thy ===== *)
theory Daemon
  imports Controller YamlConfig Plugins CpuSources SchedSource
begin

text \<open>
  The command line of \<open>src/cli/main.cc\<close>: options, listen address, the order in which \<open>daemon\<close> loads,
  builds, starts, serves and stops, \<open>collect\<close>, and the rows of \<open>top\<close>. Files, plugins, their \<open>Init\<close> and
  \<open>Start\<close>, the clock and what happens between the start and the signal are parameters; what is done to the
  two servers is recorded as events.
\<close>

section \<open>Options\<close>

datatype log_level = LogTrace | LogDebug | LogInfo | LogWarn | LogError | LogFatal

definition set_log_level :: "string \<Rightarrow> log_level \<Rightarrow> log_level" where
  "set_log_level level cur =
     (if level = ''trace'' then LogTrace else if level = ''debug'' then LogDebug else if level = ''info'' then LogInfo
      else if level = ''warn'' then LogWarn else if level = ''error'' then LogError else cur)"

record cli_options =
  op_config_path :: string
  op_log_level :: string
  op_duration :: int
  op_port :: int
  op_ws_port :: int

definition cli_defaults :: cli_options where
  "cli_defaults = \<lparr>op_config_path = [], op_log_level = ''info'', op_duration = 10, op_port = 0, op_ws_port = 0\<rparr>"

text \<open>An option in the last place has no value and is skipped, as is any word that is no option.\<close>

fun parse_options :: "string list \<Rightarrow> cli_options \<Rightarrow> cli_options" where
  "parse_options [] opts = opts"
| "parse_options [_] opts = opts"
| "parse_options (a # v # rest) opts =
     (if a = ''--config'' then parse_options rest (opts\<lparr>op_config_path := v\<rparr>)
      else if a = ''--log-level'' then parse_options rest (opts\<lparr>op_log_level := v\<rparr>)
      else if a = ''--duration'' then parse_options rest (opts\<lparr>op_duration := atoi v\<rparr>)
      else if a = ''--port'' then parse_options rest (opts\<lparr>op_port := atoi v\<rparr>)
      else if a = ''--ws-port'' then parse_options rest (opts\<lparr>op_ws_port := atoi v\<rparr>)
      else parse_options (v # rest) opts)"

datatype command = CmdDaemon | CmdCollect | CmdTop | CmdVersion | CmdPlugins | CmdStorage

definition command_of :: "string \<Rightarrow> command option" where
  "command_of c =
     (if c = ''daemon'' then Some CmdDaemon else if c = ''collect'' then Some CmdCollect else if c = ''top'' then Some CmdTop
      else if c = ''version'' then Some CmdVersion else if c = ''plugins'' then Some CmdPlugins
      else if c = ''storage'' then Some CmdStorage else None)"

text \<open>The arguments after the program's name; \<open>None\<close> prints the usage and returns 1.\<close>

definition main_command :: "string list \<Rightarrow> (command \<times> cli_options) option" where
  "main_command args =
     (case args of
        [] \<Rightarrow> None
      | c # rest \<Rightarrow> map_option (\<lambda>cmd. (cmd, parse_options rest cli_defaults)) (command_of c))"

text \<open>Host and port are output parameters: what was stored stays stored when the result is false.\<close>

definition parse_listen_addr :: "string \<Rightarrow> string \<times> int \<Rightarrow> (string \<times> int) \<times> bool" where
  "parse_listen_addr listen = (\<lambda>(host, port).
     if CHR '':'' \<notin> set listen then ((host, port), False)
     else
       let port_text = rev (takeWhile (\<lambda>c. c \<noteq> CHR '':'') (rev listen));
           host = take (length listen - length port_text - 1) listen
       in case stoi port_text of
            None \<Rightarrow> ((host, port), False)
          | Some p \<Rightarrow> ((host, p), 0 < p \<and> p < 65536))"

section \<open>The built-in configuration\<close>

definition stage_node :: "string \<Rightarrow> (string \<times> string) list \<Rightarrow> yaml" where
  "stage_node ty params = YMap ((YScalar ''type'', YScalar ty) #
     (if params = [] then [] else [(YScalar ''config'', YMap (map (\<lambda>(k, v). (YScalar k, YScalar v)) params))]))"

definition storage_node :: "string \<Rightarrow> yaml" where
  "storage_node name =
     stage_node ''local_storage'' [(''backend'', ''sqlite''), (''path'', ''/tmp/illuminator_data''), (''pipeline'', name)]"

definition pipeline_node :: "string \<Rightarrow> yaml \<Rightarrow> yaml list \<Rightarrow> yaml list \<Rightarrow> yaml \<times> yaml" where
  "pipeline_node name src processors sinks = (YScalar name, YMap ([(YScalar ''source'', src)] @
     (if processors = [] then [] else [(YScalar ''processors'', YSeq processors)]) @ [(YScalar ''sinks'', YSeq sinks)]))"

text \<open>\<open>kDefaultConfigYaml\<close> as the tree of its nodes.\<close>

definition default_config_tree :: yaml where
  "default_config_tree = YMap
     [(YScalar ''global'', YMap [(YScalar ''log_level'', YScalar ''info'')]),
      (YScalar ''pipelines'', YMap
        [pipeline_node ''cpu_utilization''
           (stage_node ''cpu_utilization'' [(''interval_ms'', ''1000''), (''collect_per_core'', ''true''),
              (''collect_frequency'', ''true''), (''ema_alpha'', ''0.3'')])
           [] [storage_node ''cpu_utilization''],
         pipeline_node ''cpu_processes''
           (stage_node ''process_cpu'' [(''interval_ms'', ''2000''), (''top_n'', ''50''),
              (''thread_detail_threshold_pct'', ''3.0'')])
           [] [storage_node ''cpu_processes''],
         pipeline_node ''cpu_profile''
           (stage_node ''cpu_profiler'' [(''frequency_hz'', ''49''), (''mode'', ''aggregated''),
              (''user_stacks'', ''true''), (''kernel_stacks'', ''true'')])
           [stage_node ''stack_symbolizer'' [(''demangle'', ''true''), (''kernel_symbols'', ''true'')],
            stage_node ''stack_merger'' [(''group_by'', ''comm''), (''include_kernel'', ''true'')]]
           [storage_node ''cpu_profile'', stage_node ''pprof_export'' []],
         pipeline_node ''sched_analysis''
           (stage_node ''sched_analyzer'' [(''detailed_mode'', ''false''), (''aggregate_interval_ms'', ''5000''),
              (''track_migrations'', ''true'')])
           [] [storage_node ''sched_analysis'']])]"

text \<open>\<open>None\<close>: \<open>IL_FATAL\<close> aborts.\<close>

definition build_demo_config :: "yaml_conv \<Rightarrow> global_config option" where
  "build_demo_config conv =
     (case load_config conv (Some default_config_tree) [] of Failure _ \<Rightarrow> None | Value cfg \<Rightarrow> Some cfg)"

text \<open>The plugins that \<open>builtin_plugins.cc\<close> links in, by the names their headers register.\<close>

definition builtin_plugins :: "(plugin_type \<times> string) list" where
  "builtin_plugins =
     map (\<lambda>n. (PluginSource, n)) [''proc_stat_reader'', ''cpu_utilization'', ''process_cpu'', ''cpu_profiler'', ''sched_analyzer'',
       ''ebpf_sched_tracer'', ''offcpu_profiler'', ''ebpf_io_monitor'', ''ebpf_net_tracer''] @
     map (\<lambda>n. (PluginProcessor, n)) [''passthrough'', ''filter'', ''stack_symbolizer'', ''stack_merger''] @
     [(PluginAggregator, ''cpu_stats_aggregator'')] @
     map (\<lambda>n. (PluginSink, n)) [''console_output'', ''file_export'', ''local_storage'', ''pprof_export'',
       ''prometheus_exposition'', ''otlp_export'', ''websocket_sink'']"

section \<open>The daemon\<close>

datatype daemon_event =
    LogFile string u64 u64 | WsListening string int | AuthInstalled string | RoutesRegistered
  | HttpStarted string int | WsStarted | WsStopped | HttpStopped | ControllerStopped

text \<open>
  The world of a run: \<open>de_file\<close> is the tree of a configuration file and the message of the exception if
  there is none; \<open>de_create\<close> makes the plugins' constructors of the registered factories; \<open>de_stores\<close> tells
  a storage sink with an open backend; \<open>de_serving\<close> is what happens to the controller until the signal.
\<close>

record ('p, 'a, 's, 'f) daemon_env =
  de_conv :: yaml_conv
  de_file :: "string \<Rightarrow> yaml option \<times> string"
  de_builtin :: "'f plugin_registry"
  de_realpath :: "string \<Rightarrow> string option"
  de_disk :: "string \<Rightarrow> so_file"
  de_dl_error :: string
  de_listing :: "string \<Rightarrow> string list option"
  de_create :: "'f plugin_registry \<Rightarrow> ('p, 'a, 's) registry"
  de_hardware :: nat
  de_ops :: "('p, 'a, 's) plugin_ops"
  de_flush_interval :: "'a \<Rightarrow> u32"
  de_start_results :: "nat \<Rightarrow> part \<Rightarrow> status"
  de_clock :: "nat \<Rightarrow> int \<times> int"
  de_start_rounds :: "nat \<Rightarrow> ((nat \<Rightarrow> data_batch channel \<Rightarrow> data_batch channel) \<times> nat) list"
  de_stores :: "'s \<Rightarrow> bool"
  de_serving :: "('p, 'a, 's) controller \<Rightarrow> ('p, 'a, 's) controller"
  de_stop_rounds :: "nat \<Rightarrow> ((nat \<Rightarrow> data_batch channel \<Rightarrow> data_batch channel) \<times> nat) list"

record ('p, 'a, 's) daemon =
  dm_log_level :: log_level
  dm_controller :: "('p, 'a, 's) controller"
  dm_events :: "daemon_event list"

definition daemon_new :: "string \<Rightarrow> ('p, 'a, 's) daemon" where
  "daemon_new level = \<lparr>dm_log_level = set_log_level level LogInfo,
     dm_controller = \<lparr>ct_pipelines = [], ct_sink_threads = None, ct_collect_threads = None, ct_storage = False,
       ct_timer = wheel_new\<rparr>, dm_events = []\<rparr>"

definition log_daemon :: "daemon_event list \<Rightarrow> ('p, 'a, 's) daemon \<Rightarrow> ('p, 'a, 's) daemon" where
  "log_daemon es dm = dm\<lparr>dm_events := dm_events dm @ es\<rparr>"

definition daemon_config ::
  "('p, 'a, 's, 'f) daemon_env \<Rightarrow> cli_options \<Rightarrow> ('p, 'a, 's) daemon \<Rightarrow> (('p, 'a, 's) daemon \<times> global_config status_or) option" where
  "daemon_config env opts dm =
     (if op_config_path opts = [] then map_option (\<lambda>cfg. (dm, Value cfg)) (build_demo_config (de_conv env))
      else
        let (tree, what) = de_file env (op_config_path opts)
        in case load_config (de_conv env) tree what of
             Failure st \<Rightarrow> Some (dm, Failure st)
           | Value cfg \<Rightarrow>
               (let dm = (if gc_log_level cfg = [] then dm
                          else dm\<lparr>dm_log_level := set_log_level (gc_log_level cfg) (dm_log_level dm)\<rparr>);
                    dm = (if gc_log_file cfg = [] then dm
                          else log_daemon [LogFile (gc_log_file cfg) (gc_log_max_size cfg) (gc_log_max_files cfg)] dm)
                in Some (dm, Value cfg)))"

text \<open>The addresses; adding one to the largest \<open>int\<close> is undefined in C++ and wraps here.\<close>

definition daemon_addresses :: "cli_options \<Rightarrow> global_config \<Rightarrow> string \<times> int \<times> int" where
  "daemon_addresses opts cfg =
     (let ((host, port), _) = parse_listen_addr (sv_http_listen (gc_server cfg)) (''127.0.0.1'', 9527);
          ws_port = sint (word_of_int (port + 1) :: s32)
      in (host, if 0 < op_port opts then op_port opts else port, if 0 < op_ws_port opts then op_ws_port opts else ws_port))"

definition expose_storage :: "('s \<Rightarrow> bool) \<Rightarrow> ('p, 'a, 's) controller \<Rightarrow> ('p, 'a, 's) controller" where
  "expose_storage stores ct =
     (if list_ex (\<lambda>mp. list_ex stores (pl_sinks (mp_pipeline mp))) (ct_pipelines ct) then ct\<lparr>ct_storage := True\<rparr> else ct)"

definition daemon_serve ::
  "('p, 'a, 's, 'f) daemon_env \<Rightarrow> cli_options \<Rightarrow> global_config \<Rightarrow> ('p, 'a, 's) daemon \<Rightarrow> ('p, 'a, 's) daemon" where
  "daemon_serve env opts cfg dm =
     (let (host, port, ws_port) = daemon_addresses opts cfg; token = sv_auth_token (gc_server cfg)
      in log_daemon ([WsListening host ws_port] @ (if token = [] then [] else [AuthInstalled token]) @
             [RoutesRegistered, HttpStarted host port, WsStarted])
           (dm\<lparr>dm_controller := expose_storage (de_stores env) (dm_controller dm)\<rparr>))"

text \<open>Up to the waiting loop: \<open>Some rc\<close> when \<open>RunDaemon\<close> returns before. The outer \<open>None\<close> is an abort.\<close>

definition daemon_boot ::
  "('p, 'a, 's, 'f) daemon_env \<Rightarrow> cli_options \<Rightarrow> (nat option \<times> ('p, 'a, 's) daemon) option" where
  "daemon_boot env opts =
     (case daemon_config env opts (daemon_new (op_log_level opts)) of
        None \<Rightarrow> None
      | Some (dm, Failure _) \<Rightarrow> Some (Some 1, dm)
      | Some (dm, Value cfg) \<Rightarrow>
     (case load_plugins_from_dirs (de_realpath env) (de_disk env) (de_dl_error env) (de_listing env) (gc_plugin_dirs cfg)
             (so_loader_new, de_builtin env) of
        None \<Rightarrow> None
      | Some (_, reg) \<Rightarrow>
     (case build_from_config (de_create env reg) (de_hardware env) (gc_engine cfg) (gc_pipelines cfg) (dm_controller dm) of
        (ct, st) \<Rightarrow>
          if \<not> is_ok st then Some (Some 1, dm\<lparr>dm_controller := ct\<rparr>)
          else
     (case start_all (de_ops env) (de_start_rounds env) (de_flush_interval env) (de_start_results env) (de_clock env) ct of
        None \<Rightarrow> None
      | Some (ct, st) \<Rightarrow>
          if \<not> is_ok st then Some (Some 1, dm\<lparr>dm_controller := ct\<rparr>)
          else Some (None, daemon_serve env opts cfg (dm\<lparr>dm_controller := ct\<rparr>))))))"

definition run_daemon ::
  "('p, 'a, 's, 'f) daemon_env \<Rightarrow> cli_options \<Rightarrow> (nat \<times> ('p, 'a, 's) daemon) option" where
  "run_daemon env opts =
     (case daemon_boot env opts of
        None \<Rightarrow> None
      | Some (Some rc, dm) \<Rightarrow> Some (rc, dm)
      | Some (None, dm) \<Rightarrow>
          map_option (\<lambda>ct. (0, log_daemon [WsStopped, HttpStopped, ControllerStopped] (dm\<lparr>dm_controller := ct\<rparr>)))
            (stop_all (de_ops env) (de_stop_rounds env) (de_serving env (dm_controller dm))))"

section \<open>collect and top\<close>

text \<open>\<open>RunCollect\<close> sleeps between start and stop (a duration below zero not at all).\<close>

definition run_collect ::
  "('p, 'a, 's, 'f) daemon_env \<Rightarrow> string \<Rightarrow> (nat \<times> ('p, 'a, 's) daemon) option" where
  "run_collect env level =
     (let dm = daemon_new level
      in case build_demo_config (de_conv env) of
           None \<Rightarrow> None
         | Some cfg \<Rightarrow>
     (case build_from_config (de_create env (de_builtin env)) (de_hardware env) (gc_engine cfg) (gc_pipelines cfg) (dm_controller dm) of
        (ct, st) \<Rightarrow>
          if \<not> is_ok st then Some (1, dm\<lparr>dm_controller := ct\<rparr>)
          else
     (case start_all (de_ops env) (de_start_rounds env) (de_flush_interval env) (de_start_results env) (de_clock env) ct of
        None \<Rightarrow> None
      | Some (ct, st) \<Rightarrow>
          if \<not> is_ok st then Some (1, dm\<lparr>dm_controller := ct\<rparr>)
          else map_option (\<lambda>ct. (0, dm\<lparr>dm_controller := ct\<rparr>)) (stop_all (de_ops env) (de_stop_rounds env) (de_serving env ct)))))"

definition uint_field :: "string \<Rightarrow> data_record \<Rightarrow> u64" where
  "uint_field name r = (case get_field name r of Some (FUint v) \<Rightarrow> v | _ \<Rightarrow> 0)"

text \<open>The name of the row is the last label \<open>cpu\<close>; the numbers are those printed, before rounding.\<close>

definition top_total :: "data_record \<Rightarrow> u64" where
  "top_total r =
     (let total = uint_field ''user'' r + uint_field ''system'' r + uint_field ''idle'' r + uint_field ''iowait'' r +
            uint_field ''nice'' r + uint_field ''irq'' r + uint_field ''softirq'' r + uint_field ''steal'' r
      in if total = 0 then 1 else total)"

definition top_row :: "data_record \<Rightarrow> (string \<times> real list) option" where
  "top_row r =
     (case filter (\<lambda>l. fst l = ''cpu'') (rc_labels r) of
        [] \<Rightarrow> None
      | ls \<Rightarrow> Some (snd (last ls), map (\<lambda>name. 100 * real (unat (uint_field name r)) / real (unat (top_total r)))
                 [''user'', ''system'', ''idle'', ''iowait'']))"

definition top_rows :: "data_batch \<Rightarrow> (string \<times> real list) list" where
  "top_rows b = List.map_filter top_row (db_records b)"


section \<open>Starting and stopping all\<close>

lemma pipeline_stop_idle: "pipeline_stop ops rounds mp = Some mp' \<Longrightarrow> \<not> mp_running mp'"
  by (auto simp: pipeline_stop_def Let_def log_events_def split: if_splits option.splits)

lemma stop_pipelines_idle:
  "stop_pipelines ops envs i mps = Some mps' \<Longrightarrow> list_all (\<lambda>mp. \<not> mp_running mp) mps'"
proof (induction mps arbitrary: i mps')
  case (Cons mp mps)
  then show ?case by (auto split: option.splits dest: pipeline_stop_idle)
qed simp

text \<open>Nothing runs any more: the pipelines, the timer thread and the collect pool.\<close>

definition controller_idle :: "('p, 'a, 's) controller \<Rightarrow> bool" where
  "controller_idle ct \<longleftrightarrow> list_all (\<lambda>mp. \<not> mp_running mp) (ct_pipelines ct) \<and> \<not> tw_running (ct_timer ct)"

lemma wheel_stop_running [simp]: "\<not> tw_running (wheel_stop w)"
  by (simp add: wheel_stop_def wakeup_def)

lemma stop_all_idle: "stop_all ops envs ct = Some ct' \<Longrightarrow> controller_idle ct'"
  by (auto simp: stop_all_def Let_def controller_idle_def dest: stop_pipelines_idle)

lemma pipeline_start_running:
  assumes "pipeline_start st mp = (mp', r)" "is_ok r"
  shows "mp_running mp' \<and> mp_source mp' = mp_source mp \<and> mp_pipeline mp' = mp_pipeline mp"
  using assms by (auto simp: pipeline_start_def Let_def log_events_def split: option.splits if_splits prod.splits)

lemma start_pipelines_running:
  assumes "start_pipelines sts k mps = (mps', r)" "is_ok r"
  shows "list_all2 (\<lambda>mp mp'. mp_running mp' \<and> mp_source mp' = mp_source mp \<and> mp_pipeline mp' = mp_pipeline mp) mps mps'"
  using assms
proof (induction mps arbitrary: k mps')
  case (Cons mp mps)
  obtain mp1 r1 where p: "pipeline_start (sts k) mp = (mp1, r1)" by fastforce
  with Cons.prems have r1: "is_ok r1" by (auto split: if_splits)
  obtain mps1 where m: "start_pipelines sts (k + 1) mps = (mps1, r)" "mps' = mp1 # mps1"
    using Cons.prems p r1 by (auto split: prod.splits)
  from Cons.IH [OF m(1) Cons.prems(2)] pipeline_start_running [OF p r1] m(2) show ?case by simp
qed simp

text \<open>The jobs a started controller's timer has, with their intervals.\<close>

definition has_job :: "('a \<Rightarrow> u32) \<Rightarrow> ('p, 'a, 's) managed list \<Rightarrow> int \<Rightarrow> timer_job \<Rightarrow> bool" where
  "has_job flush_interval mps ivl job \<longleftrightarrow>
     (case job of
        CollectJob i \<Rightarrow> i < length mps \<and>
          (\<exists>src. mp_source (mps ! i) = Some src \<and> \<not> si_push src \<and> ivl = ms (unat (si_interval_ms src)))
      | FlushJob i \<Rightarrow> i < length mps \<and>
          (\<exists>a. pl_aggregator (mp_pipeline (mps ! i)) = Some a \<and> ivl = ms (unat (flush_interval a)))
      | MetricsJob \<Rightarrow> ivl = ms 10000
      | PruneJob \<Rightarrow> False)"

lemma ex_enumerate: "(\<exists>p \<in> set (enumerate 0 xs). P p) \<longleftrightarrow> (\<exists>i < length xs. P (i, xs ! i))"
  by (force simp: in_set_enumerate_eq)

lemma in_set_case_option:
  "x \<in> set (case opt of None \<Rightarrow> [] | Some y \<Rightarrow> f y) \<longleftrightarrow> (\<exists>y. opt = Some y \<and> x \<in> set (f y))"
  by (cases opt) auto

lemma collect_timers_set:
  "(ivl, job) \<in> set (collect_timers mps) \<longleftrightarrow> (\<exists>i src. job = CollectJob i \<and> i < length mps \<and> mp_source (mps ! i) = Some src \<and>
     \<not> si_push src \<and> ivl = ms (unat (si_interval_ms src)))"
  by (simp add: collect_timers_def ex_enumerate in_set_case_option) (auto simp: eq_commute [of "Some _"])

lemma flush_timers_set:
  "(ivl, job) \<in> set (flush_timers fi mps) \<longleftrightarrow> (\<exists>i a. job = FlushJob i \<and> i < length mps \<and>
     pl_aggregator (mp_pipeline (mps ! i)) = Some a \<and> ivl = ms (unat (fi a)))"
  by (simp add: flush_timers_def ex_enumerate in_set_case_option) (auto simp: eq_commute [of "Some _"])

lemma all_timers_jobs:
  "\<not> ct_storage ct \<Longrightarrow> (ivl, job) \<in> set (all_timers fi ct) \<longleftrightarrow> has_job fi (ct_pipelines ct) ivl job"
  by (cases job) (auto simp: all_timers_def has_job_def collect_timers_set flush_timers_set)

lemma start_all_running:
  assumes "start_all ops envs fi sts clock ct = Some (ct', r)" "is_ok r" "\<not> ct_storage ct" "tw_heap (ct_timer ct) = []"
  shows "list_all2 (\<lambda>mp mp'. mp_running mp' \<and> mp_source mp' = mp_source mp \<and> mp_pipeline mp' = mp_pipeline mp)
      (ct_pipelines ct) (ct_pipelines ct')"
    "tw_running (ct_timer ct')"
    "(\<exists>e \<in> set (tw_heap (ct_timer ct')). te_interval e = ivl \<and> te_callback e = job) \<longleftrightarrow> has_job fi (ct_pipelines ct') ivl job"
proof -
  obtain mps q where s: "start_pipelines sts 0 (ct_pipelines ct) = (mps, q)" by fastforce
  let ?ct = "ct\<lparr>ct_pipelines := mps\<rparr>"
  let ?w = "register_timers clock 0 (all_timers fi ?ct) (ct_timer ct)"
  have q: "is_ok q" and ct': "ct' = ?ct\<lparr>ct_timer := wheel_start ?w\<rparr>"
    using assms(1,2) s by (auto simp: start_all_def Let_def split: if_splits)
  show "list_all2 (\<lambda>mp mp'. mp_running mp' \<and> mp_source mp' = mp_source mp \<and> mp_pipeline mp' = mp_pipeline mp)
      (ct_pipelines ct) (ct_pipelines ct')"
    using start_pipelines_running [OF s q] ct' by simp
  show "tw_running (ct_timer ct')" using ct' by (simp add: wheel_start_def)
  have "mset (map (\<lambda>e. (te_interval e, te_callback e)) (tw_heap ?w)) = mset (all_timers fi ?ct)"
    using register_timers_heap [of clock 0 "all_timers fi ?ct" "ct_timer ct"] assms(4) by simp
  then have "set (map (\<lambda>e. (te_interval e, te_callback e)) (tw_heap ?w)) = set (all_timers fi ?ct)"
    by (metis set_mset_mset)
  moreover have "(\<exists>e \<in> set (tw_heap ?w). te_interval e = ivl \<and> te_callback e = job) \<longleftrightarrow>
      (ivl, job) \<in> set (map (\<lambda>e. (te_interval e, te_callback e)) (tw_heap ?w))"
    by (auto simp: image_iff)
  ultimately have "(\<exists>e \<in> set (tw_heap ?w). te_interval e = ivl \<and> te_callback e = job) \<longleftrightarrow> (ivl, job) \<in> set (all_timers fi ?ct)"
    by simp
  then show "(\<exists>e \<in> set (tw_heap (ct_timer ct')). te_interval e = ivl \<and> te_callback e = job) \<longleftrightarrow>
      has_job fi (ct_pipelines ct') ivl job"
    using ct' assms(3) by (simp add: wheel_start_def all_timers_jobs)
qed

lemma start_all_failed:
  "start_all ops envs fi sts clock ct = Some (ct', r) \<Longrightarrow> \<not> is_ok r \<Longrightarrow> controller_idle ct'"
  by (auto simp: start_all_def Let_def split: prod.splits if_splits dest: stop_all_idle)


section \<open>What loading, building and starting give\<close>

lemma load_config_ok: "load_config conv tree what = Value cfg \<Longrightarrow> config_ok cfg"
  using validate_config_cases [of cfg]
  by (auto simp: load_config_def Let_def is_ok_def split: option.splits if_splits)

definition is_log_file :: "daemon_event \<Rightarrow> bool" where
  "is_log_file e \<longleftrightarrow> (case e of LogFile _ _ _ \<Rightarrow> True | _ \<Rightarrow> False)"

text \<open>The configuration a run uses: that of the file, or the built-in one.\<close>

definition runs_with :: "('p, 'a, 's, 'f) daemon_env \<Rightarrow> cli_options \<Rightarrow> global_config \<Rightarrow> bool" where
  "runs_with env opts cfg \<longleftrightarrow>
     (if op_config_path opts = [] then build_demo_config (de_conv env) = Some cfg
      else (case de_file env (op_config_path opts) of (tree, what) \<Rightarrow> load_config (de_conv env) tree what = Value cfg))"

lemma build_demo_config_ok: "build_demo_config conv = Some cfg \<Longrightarrow> config_ok cfg"
  by (auto simp: build_demo_config_def dest: load_config_ok split: status_or.splits)

lemma daemon_config_value:
  assumes "daemon_config env opts dm = Some (dm', Value cfg)"
  shows "runs_with env opts cfg \<and> config_ok cfg \<and> dm_controller dm' = dm_controller dm \<and>
    (\<exists>logs. dm_events dm' = dm_events dm @ logs \<and> list_all is_log_file logs)"
proof -
  have "runs_with env opts cfg" "dm_controller dm' = dm_controller dm"
    "\<exists>logs. dm_events dm' = dm_events dm @ logs \<and> list_all is_log_file logs"
    using assms by (auto simp: daemon_config_def runs_with_def log_daemon_def is_log_file_def Let_def
        split: if_splits prod.splits status_or.splits)
  moreover from this(1) have "config_ok cfg"
    by (auto simp: runs_with_def dest: load_config_ok build_demo_config_ok split: if_splits prod.splits)
  ultimately show ?thesis by blast
qed

lemma daemon_config_failure:
  "daemon_config env opts dm = Some (dm', Failure st) \<Longrightarrow> dm' = dm"
  by (auto simp: daemon_config_def Let_def split: if_splits prod.splits status_or.splits)

lemma daemon_new_simps [simp]:
  "ct_pipelines (dm_controller (daemon_new level)) = []" "dm_events (daemon_new level) = []"
  "\<not> ct_storage (dm_controller (daemon_new level))" "ct_timer (dm_controller (daemon_new level)) = wheel_new"
  by (simp_all add: daemon_new_def)

lemma wheel_new_simps [simp]: "\<not> tw_running wheel_new" "tw_heap wheel_new = []"
  by (simp_all add: wheel_new_def)

lemma build_keeps:
  "build_from_config reg hw eng pcs ct = (ct', st) \<Longrightarrow> ct_storage ct' = ct_storage ct \<and> ct_timer ct' = ct_timer ct"
  by (auto simp: build_from_config_def init_collect_pool_def init_sink_pool_def Let_def split: prod.splits if_splits)

lemma build_failed_idle:
  assumes "build_from_config reg hw eng pcs ct = (ct', st)" "ct_pipelines ct = []" "\<not> tw_running (ct_timer ct)"
  shows "controller_idle ct'"
  using build_from_config_spec [OF assms(1,2)] build_keeps [OF assms(1)] assms(3)
  by (auto simp: controller_idle_def list_all_length built_from_def)

lemma build_ok_pipelines:
  assumes "build_from_config reg hw eng pcs ct = (ct', st)" "ct_pipelines ct = []" "is_ok st"
  shows "list_all2 (built_from eng) pcs (ct_pipelines ct')"
  using build_from_config_spec [OF assms(1,2)] assms(3)
  by (auto simp: list_all2_conv_all_nth split: if_splits)

section \<open>How a run ends\<close>

lemma daemon_boot_exit:
  assumes "daemon_boot env opts = Some (Some rc, dm)"
  shows "rc = 1 \<and> list_all is_log_file (dm_events dm) \<and> controller_idle (dm_controller dm)"
proof -
  obtain dm0 r where c: "daemon_config env opts (daemon_new (op_log_level opts)) = Some (dm0, r)"
    using assms by (auto simp: daemon_boot_def split: option.splits)
  show ?thesis
  proof (cases r)
    case (Failure st)
    with c assms daemon_config_failure [OF c [unfolded Failure]] show ?thesis
      by (auto simp: daemon_boot_def controller_idle_def)
  next
    case (Value cfg)
    note v = daemon_config_value [OF c [unfolded Value]]
    obtain l reg where p: "load_plugins_from_dirs (de_realpath env) (de_disk env) (de_dl_error env) (de_listing env)
        (gc_plugin_dirs cfg) (so_loader_new, de_builtin env) = Some (l, reg)"
      using assms c Value by (auto simp: daemon_boot_def split: option.splits)
    obtain ct st where b: "build_from_config (de_create env reg) (de_hardware env) (gc_engine cfg) (gc_pipelines cfg)
        (dm_controller dm0) = (ct, st)" by fastforce
    have "controller_idle ct" using build_failed_idle [OF b] v by simp
    then show ?thesis using assms c Value p b v
      by (auto simp: daemon_boot_def split: if_splits option.splits prod.splits dest: start_all_failed)
  qed
qed


text \<open>A pipeline that serves its entry of the configuration.\<close>

definition serves :: "pipeline_config \<Rightarrow> ('p, 'a, 's) managed \<Rightarrow> bool" where
  "serves pc mp \<longleftrightarrow> pl_name (mp_pipeline mp) = pc_name pc \<and> mp_running mp \<and> mp_source mp \<noteq> None \<and>
     length (pl_processors (mp_pipeline mp)) = length (pc_processors pc) \<and>
     length (pl_sinks (mp_pipeline mp)) = length (pc_sinks pc)"

lemma built_then_started:
  assumes "list_all2 (built_from eng) pcs mps"
    "list_all2 (\<lambda>mp mp'. mp_running mp' \<and> mp_source mp' = mp_source mp \<and> mp_pipeline mp' = mp_pipeline mp) mps mps'"
  shows "list_all2 serves pcs mps'"
  by (rule list_all2_trans [OF _ assms]) (simp add: built_from_def serves_def)

lemma expose_storage_simps [simp]:
  "ct_pipelines (expose_storage stores ct) = ct_pipelines ct" "ct_timer (expose_storage stores ct) = ct_timer ct"
  by (simp_all add: expose_storage_def)

lemma daemon_boot_up:
  assumes "daemon_boot env opts = Some (None, dm)"
  obtains cfg ct logs where "runs_with env opts cfg" "config_ok cfg" "list_all is_log_file logs"
    "dm_controller dm = expose_storage (de_stores env) ct" "list_all2 serves (gc_pipelines cfg) (ct_pipelines ct)"
    "tw_running (ct_timer ct)"
    "\<And>ivl job. (\<exists>e \<in> set (tw_heap (ct_timer ct)). te_interval e = ivl \<and> te_callback e = job) \<longleftrightarrow>
       has_job (de_flush_interval env) (ct_pipelines ct) ivl job"
    "\<not> ct_storage ct"
    "dm_events dm = logs @ (let (host, port, ws_port) = daemon_addresses opts cfg; token = sv_auth_token (gc_server cfg)
       in [WsListening host ws_port] @ (if token = [] then [] else [AuthInstalled token]) @
          [RoutesRegistered, HttpStarted host port, WsStarted])"
proof -
  obtain dm0 cfg where c: "daemon_config env opts (daemon_new (op_log_level opts)) = Some (dm0, Value cfg)"
    using assms by (auto simp: daemon_boot_def split: option.splits status_or.splits)
  note v = daemon_config_value [OF c]
  obtain l reg where p: "load_plugins_from_dirs (de_realpath env) (de_disk env) (de_dl_error env) (de_listing env)
      (gc_plugin_dirs cfg) (so_loader_new, de_builtin env) = Some (l, reg)"
    using assms c by (auto simp: daemon_boot_def split: option.splits)
  obtain ct st where b: "build_from_config (de_create env reg) (de_hardware env) (gc_engine cfg) (gc_pipelines cfg)
      (dm_controller dm0) = (ct, st)" by fastforce
  with assms c p have ok: "is_ok st" by (auto simp: daemon_boot_def split: if_splits)
  obtain ct' st' where a: "start_all (de_ops env) (de_start_rounds env) (de_flush_interval env) (de_start_results env)
      (de_clock env) ct = Some (ct', st')" "is_ok st'" "dm = daemon_serve env opts cfg (dm0\<lparr>dm_controller := ct'\<rparr>)"
    using assms c p b ok by (auto simp: daemon_boot_def split: option.splits if_splits)
  have new: "ct_pipelines (dm_controller dm0) = []" "\<not> ct_storage ct" "tw_heap (ct_timer ct) = []"
    using v build_keeps [OF b] by simp_all
  note run = start_all_running [OF a(1,2) new(2,3)]
  have "list_all2 serves (gc_pipelines cfg) (ct_pipelines ct')"
    by (rule built_then_started [OF build_ok_pipelines [OF b new(1) ok] run(1)])
  moreover obtain logs where "dm_events dm0 = logs" "list_all is_log_file logs" using v by simp
  moreover have "\<not> ct_storage ct'"
    using a(1,2) new(2) by (auto simp: start_all_def Let_def split: prod.splits if_splits)
  ultimately show ?thesis
    using that [of cfg logs ct'] v run(2,3) a(3) by (simp add: daemon_serve_def log_daemon_def Let_def split: prod.splits)
qed

definition demo_daemon_env :: "(unit, unit, nat, unit) daemon_env" where
  "demo_daemon_env =
     \<lparr>de_conv = \<lparr>yc_null_text = None, yc_size = (\<lambda>_. None), yc_uint = (\<lambda>_. None), yc_real = (\<lambda>_. None), yc_bool = (\<lambda>_. None)\<rparr>,
      de_file = (\<lambda>_. (Some (YMap [(YScalar ''server'', YMap [(YScalar ''auth_token'', YScalar ''t'')]), (YScalar ''pipelines'',
        YMap [pipeline_node ''main'' (stage_node ''cpu'' []) [] [stage_node ''console'' []]])]), [])),
      de_builtin = registry_new, de_realpath = Some, de_disk = (\<lambda>_. \<lparr>so_opens = False, so_describe = None\<rparr>), de_dl_error = [],
      de_listing = (\<lambda>_. None), de_create = (\<lambda>_. demo_registry), de_hardware = 4, de_ops = demo_ops,
      de_flush_interval = (\<lambda>_. 1000), de_start_results = (\<lambda>_ _. status_ok), de_clock = (\<lambda>_. (0, 0)),
      de_start_rounds = (\<lambda>_. []), de_stores = (\<lambda>_. True), de_serving = id, de_stop_rounds = (\<lambda>_. [])\<rparr>"

definition demo_options :: cli_options where
  "demo_options = parse_options [''--config'', ''c.yaml''] cli_defaults"

lemma demo_config_loads:
  "load_config (de_conv demo_daemon_env) (fst (de_file demo_daemon_env [])) [] =
     Value (default_global_config\<lparr>gc_server := (gc_server default_global_config)\<lparr>sv_auth_token := ''t''\<rparr>,
       gc_pipelines := [demo_config ''cpu'']\<rparr>)"
  by (simp add: demo_daemon_env_def load_config_def parse_config_def y_on_def y_get_def parse_server_def y_text_def
      y_entries_def parse_pipeline_def pipeline_node_def stage_node_def parse_stage_def parse_stages_def y_elements_def
      y_text_or_def default_global_config_def validate_config_def validate_pipeline_def default_engine_config_def
      map_filter_simps demo_config_def Let_def)

text \<open>The run on it comes up with its one pipeline, whose channel is empty.\<close>

lemma demo_daemon_boots:
  obtains dm mp where "daemon_boot demo_daemon_env demo_options = Some (None, dm)" "ct_pipelines (dm_controller dm) = [mp]"
    "mp_running mp" "channel_holds 4096 0 (pl_channel (mp_pipeline mp)) []" "ct_storage (dm_controller dm)"
    "mp_source mp = Some \<lparr>si_push = False, si_interval_ms = 1000\<rparr>"
proof -
  obtain cfg where cfg: "load_config (de_conv demo_daemon_env) (fst (de_file demo_daemon_env [])) [] = Value cfg"
    "gc_plugin_dirs cfg = []" "gc_engine cfg = default_engine_config" "gc_pipelines cfg = [demo_config ''cpu'']"
    using demo_config_loads by (simp add: default_global_config_def)
  have tree: "de_file demo_daemon_env ''c.yaml'' = (fst (de_file demo_daemon_env []), [])" by (simp add: demo_daemon_env_def)
  have o: "op_config_path demo_options = ''c.yaml''" by (simp add: demo_options_def cli_defaults_def)
  obtain dm0 where dm0: "daemon_config demo_daemon_env demo_options (daemon_new (op_log_level demo_options)) = Some (dm0, Value cfg)"
    using cfg(1) by (simp add: daemon_config_def o tree Let_def)
  then have new: "ct_pipelines (dm_controller dm0) = []" "ct_storage (dm_controller dm0) = False"
    using daemon_config_value [OF dm0] by simp_all
  have "\<exists>ct mp. build_from_config demo_registry 4 default_engine_config [demo_config ''cpu''] (dm_controller dm0) = (ct, status_ok) \<and>
      ct_pipelines ct = [mp] \<and> mp_source mp = Some \<lparr>si_push = False, si_interval_ms = 1000\<rparr> \<and> pl_sinks (mp_pipeline mp) = [0]"
    using new by (simp add: build_from_config_def build_pipeline_def build_stage_def build_aggregator_def demo_registry_def
        demo_config_def Let_def init_collect_pool_def init_sink_pool_def map_pipeline_def set_sink_pool_def build_folds
        add_sink_def empty_pipeline_def pipeline_new_def)
  then obtain ct mp where b: "build_from_config demo_registry 4 default_engine_config [demo_config ''cpu''] (dm_controller dm0) = (ct, status_ok)"
    "ct_pipelines ct = [mp]" "mp_source mp = Some \<lparr>si_push = False, si_interval_ms = 1000\<rparr>" "pl_sinks (mp_pipeline mp) = [0]"
    by blast
  have ch: "channel_holds 4096 0 (pl_channel (mp_pipeline mp)) []"
    using build_ok_pipelines [OF b(1) new(1)] b(2)
    by (simp add: built_from_def default_engine_config_def resolve_capacity_def)
  obtain mp' where st: "start_pipelines (\<lambda>_ _. status_ok) 0 [mp] = ([mp'], status_ok)"
    "mp_running mp'" "mp_source mp' = mp_source mp" "mp_pipeline mp' = mp_pipeline mp"
    using start_pipelines_ok [of "[mp]" "\<lambda>_ _. status_ok" 0] b(3,4) by (auto simp: length_Suc_conv)
  obtain ct' where a: "start_all demo_ops (\<lambda>_. []) (\<lambda>_. 1000) (\<lambda>_ _. status_ok) (\<lambda>_. (0, 0)) ct = Some (ct', status_ok)"
    "ct_pipelines ct' = [mp']"
    using st(1) b(2) by (simp add: start_all_def Let_def del: start_pipelines.simps)
  let ?dm = "daemon_serve demo_daemon_env demo_options cfg (dm0\<lparr>dm_controller := ct'\<rparr>)"
  have "daemon_boot demo_daemon_env demo_options = Some (None, ?dm)"
    using dm0 a b(1) cfg(2-4) by (simp add: daemon_boot_def load_plugins_from_dirs_def demo_daemon_env_def)
  moreover have "ct_pipelines (dm_controller ?dm) = [mp']" "ct_storage (dm_controller ?dm)"
    using a(2) st(4) b(4)
    by (auto simp: daemon_serve_def log_daemon_def expose_storage_def demo_daemon_env_def Let_def split: prod.splits)
  ultimately show ?thesis using that [of ?dm mp'] st(2-4) ch b(3) by simp
qed

text \<open>
  C7: the daemon serves what is configured. When it comes up, its configuration is the one loaded and is sound;
  there is one running pipeline for each entry in order, with its name, source and numbers of processors and
  sinks; and the timer runs with exactly these jobs: the collection of every pull source at its interval, the
  flush of every aggregator at its own, and the metrics. The pruning of the storage is never among them, even
  when a storage is exposed: the timers are registered before it is.
\<close>

theorem daemon_serves_config:
  assumes "daemon_boot env opts = Some (None, dm)"
  shows "\<exists>cfg. runs_with env opts cfg \<and> config_ok cfg \<and>
    list_all2 serves (gc_pipelines cfg) (ct_pipelines (dm_controller dm)) \<and> tw_running (ct_timer (dm_controller dm)) \<and>
    (\<forall>ivl job. (\<exists>e \<in> set (tw_heap (ct_timer (dm_controller dm))). te_interval e = ivl \<and> te_callback e = job) \<longleftrightarrow>
       has_job (de_flush_interval env) (ct_pipelines (dm_controller dm)) ivl job) \<and>
    ct_storage (dm_controller dm) =
      list_ex (\<lambda>mp. list_ex (de_stores env) (pl_sinks (mp_pipeline mp))) (ct_pipelines (dm_controller dm))"
proof (rule daemon_boot_up [OF assms], goal_cases)
  case (1 cfg ct logs)
  then have "ct_storage (dm_controller dm) =
      list_ex (\<lambda>mp. list_ex (de_stores env) (pl_sinks (mp_pipeline mp))) (ct_pipelines ct)"
    by (simp add: expose_storage_def)
  with 1 show ?case by (intro exI [of _ cfg]) simp
qed



theorem daemon_serves_config_witness:
  "\<exists>dm e. daemon_boot demo_daemon_env demo_options = Some (None, dm) \<and> ct_storage (dm_controller dm) \<and>
     e \<in> set (tw_heap (ct_timer (dm_controller dm))) \<and> te_interval e = 1000000000 \<and> te_callback e = CollectJob 0"
proof -
  obtain dm mp where d: "daemon_boot demo_daemon_env demo_options = Some (None, dm)" "ct_pipelines (dm_controller dm) = [mp]"
    "ct_storage (dm_controller dm)" "mp_source mp = Some \<lparr>si_push = False, si_interval_ms = 1000\<rparr>"
    by (rule demo_daemon_boots)
  then have "has_job (de_flush_interval demo_daemon_env) (ct_pipelines (dm_controller dm)) 1000000000 (CollectJob 0)"
    by (simp add: has_job_def ms_def)
  with daemon_serves_config [OF d(1)] d(1,3) show ?thesis by blast
qed



section \<open>The built-in configuration loads\<close>

definition stages_built_in :: "pipeline_config \<Rightarrow> bool" where
  "stages_built_in pc \<longleftrightarrow>
     (PluginSource, sc_type (pc_source pc)) \<in> set builtin_plugins \<and>
     list_all (\<lambda>sc. (PluginProcessor, sc_type sc) \<in> set builtin_plugins) (pc_processors pc) \<and> pc_aggregator pc = None \<and>
     list_all (\<lambda>sc. (PluginSink, sc_type sc) \<in> set builtin_plugins) (pc_sinks pc)"

text \<open>
  The built-in configuration always loads, so \<open>BuildDemoConfig\<close> never aborts: four pipelines, every stage a
  built-in plugin, the records of each stored under the pipeline's own name.
\<close>

lemmas yaml_loading = parse_config_def y_on_def y_get_def y_text_def y_entries_def parse_global_def parse_pipeline_def
  pipeline_node_def stage_node_def storage_node_def parse_stage_def parse_stages_def y_elements_def y_text_or_def

lemma built_in_config_loads:
  "\<exists>cfg. build_demo_config conv = Some cfg \<and> length (gc_pipelines cfg) = 4 \<and> list_all stages_built_in (gc_pipelines cfg) \<and>
     list_all (\<lambda>pc. \<exists>sc \<in> set (pc_sinks pc). sc_type sc = ''local_storage'' \<and> map_of (sc_config sc) ''pipeline'' = Some (pc_name pc))
       (gc_pipelines cfg)"
  by (simp add: build_demo_config_def load_config_def default_config_tree_def yaml_loading default_global_config_def
      validate_config_def validate_pipeline_def default_engine_config_def map_filter_simps cv_set_def Let_def
      stages_built_in_def builtin_plugins_def)

end
